(* ===== verification/Wnc_Prelude.thy ===== *)
theory Wnc_Prelude
  imports Complex_Main "HOL-Library.Word" "HOL-Library.Char_ord"
    "HOL-Library.List_Lexorder" "HOL-Library.Product_Lexorder" "HOL-Library.Multiset"
begin

text \<open>
  What the components of the library share: the names of the machine types of the C++ sources,
  byte strings, the values of type \<^verbatim>\<open>double\<close> and their comparisons, the model of
  \<^verbatim>\<open>std::map\<close> (a list of pairs with strictly ascending keys) behind an interface locale, the
  model of \<^verbatim>\<open>std::sort\<close> with a comparator behind a second one, decimal rendering of integers
  (\<^verbatim>\<open>std::to_string\<close>, \<^verbatim>\<open>std::to_chars\<close>), and the generic lemmas on these.
\<close>

unbundle bit_operations_syntax

section \<open>Machine types\<close>

type_synonym u8 = "8 word"
type_synonym u16 = "16 word"
type_synonym u32 = "32 word"
type_synonym u64 = "64 word"
type_synonym bytes = "u8 list"

text \<open>
  A \<^verbatim>\<open>std::string\<close> is a list of bytes; \<^typ>\<open>char\<close> is exactly a byte, so strings are
  \<^typ>\<open>string\<close> and the casts between \<^verbatim>\<open>char\<close> and \<^verbatim>\<open>std::uint8_t\<close> are the two
  functions below. Comparison of strings is \<^verbatim>\<open>std::char_traits<char>\<close>, which compares
  unsigned bytes lexicographically: the instances of \<^verbatim>\<open>Char_ord\<close> and \<^verbatim>\<open>List_Lexorder\<close>.
\<close>

definition bytes_of :: "string \<Rightarrow> bytes" where
  "bytes_of s = map of_char s"

definition string_of :: "bytes \<Rightarrow> string" where
  "string_of bs = map (\<lambda>b. char_of (unat b)) bs"

lemma unat_u8_less [simp]: "unat (b :: u8) < 256"
  using unsigned_less [where 'a = nat, of b] by simp

lemma u8_bit_high [simp]: "8 \<le> n \<Longrightarrow> \<not> bit (b :: u8) n"
  using bit_imp_le_length [of b n] by auto

lemma u8_eqI:
  assumes "bit a 0 = bit b 0" "bit a 1 = bit b 1" "bit a 2 = bit b 2" "bit a 3 = bit b 3"
    "bit a 4 = bit b 4" "bit a 5 = bit b 5" "bit a 6 = bit b 6" "bit a 7 = bit b 7"
  shows "a = (b :: u8)"
proof (rule bit_word_eqI)
  fix n assume "n < LENGTH(8)"
  then consider "n = 0" | "n = 1" | "n = 2" | "n = 3" | "n = 4" | "n = 5" | "n = 6" | "n = 7"
    by (auto simp: less_Suc_eq numeral_eq_Suc)
  then show "bit a n = bit b n" by cases (use assms in simp_all)
qed
lemma unat_of_char_u8 [simp]: "unat (of_char c :: u8) = of_char c"
proof -
  have "(of_char c :: u8) = of_nat (of_char c)"
    by (simp only: of_nat_of_char)
  moreover have "(of_char c :: nat) < 256" by (rule nat_of_char_less_256)
  ultimately show ?thesis by (simp add: unat_of_nat)
qed

lemma of_char_char_of_unat [simp]: "(of_char (char_of (unat b) :: char) :: u8) = b"
proof -
  have "unat (of_char (char_of (unat b) :: char) :: u8) = unat b"
    by simp
  then show ?thesis by (rule word_unat_eq_iff [THEN iffD2])
qed

lemma char_of_unat_of_char [simp]: "char_of (unat (of_char c :: u8)) = (c :: char)"
  by simp

lemma bytes_of_string_of [simp]: "bytes_of (string_of bs) = bs"
  by (simp add: bytes_of_def string_of_def o_def)

lemma string_of_bytes_of [simp]: "string_of (bytes_of s) = s"
  by (simp add: bytes_of_def string_of_def o_def)

lemma length_bytes_of [simp]: "length (bytes_of s) = length s"
  by (simp add: bytes_of_def)

lemma length_string_of [simp]: "length (string_of bs) = length bs"
  by (simp add: string_of_def)

lemma bytes_of_append [simp]: "bytes_of (s @ t) = bytes_of s @ bytes_of t"
  by (simp add: bytes_of_def)

lemma bytes_of_inject [simp]: "bytes_of s = bytes_of t \<longleftrightarrow> s = t"
  by (metis string_of_bytes_of)

section \<open>Lemma collections\<close>

named_theorems wnc_eval \<open>definitions unfolded when a closed instance is evaluated\<close>
named_theorems wnc_length \<open>lengths of encoded values\<close>

section \<open>Doubles\<close>

text \<open>
  The sources only compare doubles, ask whether they are finite, and print or read them. A double
  is therefore its exact value: a finite double is a rational number (both zeros are the same
  value, as for every comparison and for the serializer, which writes \<^verbatim>\<open>-0.0\<close> as
  \<^verbatim>\<open>0.0\<close>); the infinities and NaN are the other constructors. The relational operators are
  those of C++: every comparison with NaN is false.
\<close>

datatype double = Finite rat | PosInf | NegInf | NaN

fun dbl_le :: "double \<Rightarrow> double \<Rightarrow> bool" where
  "dbl_le NaN _ = False"
| "dbl_le _ NaN = False"
| "dbl_le NegInf _ = True"
| "dbl_le _ PosInf = True"
| "dbl_le (Finite a) (Finite b) = (a \<le> b)"
| "dbl_le _ _ = False"

definition dbl_lt :: "double \<Rightarrow> double \<Rightarrow> bool" where
  "dbl_lt x y = (dbl_le x y \<and> \<not> dbl_le y x)"

definition dbl_eq :: "double \<Rightarrow> double \<Rightarrow> bool" where
  "dbl_eq x y = (dbl_le x y \<and> dbl_le y x)"

fun isfinite :: "double \<Rightarrow> bool" where
  "isfinite (Finite _) = True"
| "isfinite _ = False"

lemma dbl_lt_Finite [simp]: "dbl_lt (Finite a) (Finite b) = (a < b)"
  by (auto simp: dbl_lt_def)

lemma dbl_eq_Finite [simp]: "dbl_eq (Finite a) (Finite b) = (a = b)"
  by (auto simp: dbl_eq_def)

lemma dbl_le_trans: "dbl_le x y \<Longrightarrow> dbl_le y z \<Longrightarrow> dbl_le x z"
  by (cases x; cases y; cases z) auto

lemma dbl_le_total: "x \<noteq> NaN \<Longrightarrow> y \<noteq> NaN \<Longrightarrow> dbl_le x y \<or> dbl_le y x"
  by (cases x; cases y) auto

lemma dbl_eq_imp_eq: "dbl_eq x y \<Longrightarrow> x = y"
  by (cases x; cases y) (auto simp: dbl_eq_def)

lemma isfinite_iff: "isfinite x \<longleftrightarrow> (\<exists>q. x = Finite q)"
  by (cases x) auto

lemma dbl_le_NaN [simp]: "\<not> dbl_le x NaN" "\<not> dbl_le NaN x"
  by (cases x; simp)+

section \<open>Decimal rendering\<close>

text \<open>\<^verbatim>\<open>std::to_string\<close> of an unsigned value, and \<^verbatim>\<open>std::to_chars\<close> of a signed one.\<close>

definition digit_char :: "nat \<Rightarrow> char" where
  "digit_char d = char_of (48 + d)"

fun to_string_nat :: "nat \<Rightarrow> string" where
  "to_string_nat n =
     (if n < 10 then [digit_char n] else to_string_nat (n div 10) @ [digit_char (n mod 10)])"

declare to_string_nat.simps [simp del]

definition to_string_int :: "int \<Rightarrow> string" where
  "to_string_int i =
     (if i < 0 then ''-'' @ to_string_nat (nat (- i)) else to_string_nat (nat i))"

lemma to_string_nat_small: "n < 10 \<Longrightarrow> to_string_nat n = [digit_char n]"
  by (simp add: to_string_nat.simps [of n])

lemma to_string_nat_step:
  "10 \<le> n \<Longrightarrow> to_string_nat n = to_string_nat (n div 10) @ [digit_char (n mod 10)]"
  by (simp add: to_string_nat.simps [of n])

lemma to_string_nat_nonempty [simp]: "to_string_nat n \<noteq> []"
  by (subst to_string_nat.simps) simp

section \<open>std::map\<close>

text \<open>
  A \<^verbatim>\<open>std::map\<close> is the list of its pairs in iteration order, which is ascending key order.
  \<^verbatim>\<open>map_put\<close> is \<^verbatim>\<open>m[k] = v\<close>; lookup (\<^verbatim>\<open>find\<close>) is \<^const>\<open>map_of\<close>.
\<close>

type_synonym ('k, 'v) smap = "('k \<times> 'v) list"

fun map_put :: "'k::linorder \<Rightarrow> 'v \<Rightarrow> ('k, 'v) smap \<Rightarrow> ('k, 'v) smap" where
  "map_put k v [] = [(k, v)]"
| "map_put k v (p # m) =
     (if k < fst p then (k, v) # p # m
      else if k = fst p then (k, v) # m
      else p # map_put k v m)"

abbreviation ascending :: "('k::linorder, 'v) smap \<Rightarrow> bool" where
  "ascending m \<equiv> sorted_wrt (<) (map fst m)"

text \<open>The interface its clients rely on, and what they derive from it.\<close>

locale keyed_store =
  fixes empty :: 'm
    and put :: "'k \<Rightarrow> 'v \<Rightarrow> 'm \<Rightarrow> 'm"
    and get :: "'m \<Rightarrow> 'k \<Rightarrow> 'v option"
    and invar :: "'m \<Rightarrow> bool"
  assumes get_empty: "get empty k = None"
    and get_put: "get (put k v m) k' = (if k' = k then Some v else get m k')"
    and invar_empty: "invar empty"
    and invar_put: "invar m \<Longrightarrow> invar (put k v m)"
begin

text \<open>Storing a list of pairs one after the other.\<close>

definition puts :: "('k \<times> 'v) list \<Rightarrow> 'm \<Rightarrow> 'm" where
  "puts kvs m = fold (\<lambda>(k, v). put k v) kvs m"

lemma puts_Nil [simp]: "puts [] m = m"
  by (simp add: puts_def)

lemma puts_Cons [simp]: "puts ((k, v) # kvs) m = puts kvs (put k v m)"
  by (simp add: puts_def)

lemma invar_puts: "invar m \<Longrightarrow> invar (puts kvs m)"
  by (induction kvs arbitrary: m) (auto simp: invar_put)

lemma get_puts_notin: "k \<notin> fst ` set kvs \<Longrightarrow> get (puts kvs m) k = get m k"
  by (induction kvs arbitrary: m) (auto simp: get_put)

lemma get_puts_distinct:
  "distinct (map fst kvs) \<Longrightarrow> (k, v) \<in> set kvs \<Longrightarrow> get (puts kvs m) k = Some v"
proof (induction kvs arbitrary: m)
  case Nil
  then show ?case by simp
next
  case (Cons p kvs)
  obtain k' v' where p: "p = (k', v')" by (cases p)
  show ?case
  proof (cases "(k, v) = p")
    case True
    with Cons.prems p have "k \<notin> fst ` set kvs" by simp
    then show ?thesis using True p by (simp add: get_puts_notin get_put)
  next
    case False
    with Cons.prems p have "(k, v) \<in> set kvs" "distinct (map fst kvs)" by auto
    then show ?thesis using p by (simp add: Cons.IH)
  qed
qed

end

lemma map_of_map_put [simp]: "map_of (map_put k v m) = (map_of m)(k \<mapsto> v)"
  by (induction m) (auto simp: fun_eq_iff)

lemma fst_map_put [simp]: "fst ` set (map_put k v m) = insert k (fst ` set m)"
  by (induction m) auto

lemma map_put_keys_eq: "k \<in> fst ` set m \<Longrightarrow> ascending m \<Longrightarrow> map fst (map_put k v m) = map fst m"
  by (induction m) auto

lemma ascending_map_put [simp]: "ascending m \<Longrightarrow> ascending (map_put k v m)"
proof (induction m)
  case (Cons p m)
  then show ?case
    by (auto simp: fst_map_put [unfolded image_set] simp flip: image_set)
qed simp

lemma ascending_distinct: "ascending m \<Longrightarrow> distinct (map fst m)"
  using strict_sorted_iff by blast

interpretation smap: keyed_store "[]" map_put map_of ascending
  by unfold_locales auto

lemma sorted_wrt_asym_unique:
  assumes asym: "\<And>x y. R x y \<Longrightarrow> \<not> R y x"
  shows "sorted_wrt R xs \<Longrightarrow> sorted_wrt R ys \<Longrightarrow> set xs = set ys \<Longrightarrow> xs = ys"
proof (induction xs arbitrary: ys)
  case Nil
  then show ?case by simp
next
  case (Cons x xs)
  then obtain y ys' where ys: "ys = y # ys'" by (cases ys) auto
  have "x = y"
  proof (rule ccontr)
    assume "x \<noteq> y"
    with Cons.prems ys have "x \<in> set ys'" "y \<in> set xs" by auto
    with Cons.prems ys have "R y x" "R x y" by auto
    with asym show False by blast
  qed
  moreover have "x \<notin> set xs" "y \<notin> set ys'"
    using Cons.prems ys asym [of x x] asym [of y y] by auto
  ultimately have "set xs = set ys'" using Cons.prems ys by auto
  with Cons ys \<open>x = y\<close> show ?case by simp
qed

lemma ascending_eqI:
  assumes "ascending m" "ascending m'" "map_of m = map_of m'"
  shows "m = m'"
proof (rule sorted_wrt_asym_unique [where R = "\<lambda>p q. fst p < fst q"])
  show "set m = set m'"
    using assms by (metis ascending_distinct map_of_inject_set)
qed (use assms in \<open>auto simp: sorted_wrt_map\<close>)

section \<open>std::sort with a comparator\<close>

text \<open>
  \<^verbatim>\<open>std::sort\<close> leaves some permutation in which no element precedes a smaller one; which one
  it leaves among elements the comparator does not separate is not specified. The model keeps
  their order. The interface a comparator has to meet is a strict weak order; a client that
  compares all its elements apart gets a result that does not depend on that choice.
\<close>

fun insert_by :: "('a \<Rightarrow> 'a \<Rightarrow> bool) \<Rightarrow> 'a \<Rightarrow> 'a list \<Rightarrow> 'a list" where
  "insert_by lt x [] = [x]"
| "insert_by lt x (y # ys) = (if lt y x then y # insert_by lt x ys else x # y # ys)"

fun sort_by :: "('a \<Rightarrow> 'a \<Rightarrow> bool) \<Rightarrow> 'a list \<Rightarrow> 'a list" where
  "sort_by lt [] = []"
| "sort_by lt (x # xs) = insert_by lt x (sort_by lt xs)"

lemma mset_insert_by [simp]: "mset (insert_by lt x xs) = add_mset x (mset xs)"
  by (induction xs) auto

lemma mset_sort_by [simp]: "mset (sort_by lt xs) = mset xs"
  by (induction xs) auto

lemma set_sort_by [simp]: "set (sort_by lt xs) = set xs"
  by (metis mset_sort_by set_mset_mset)

lemma length_sort_by [simp]: "length (sort_by lt xs) = length xs"
  by (metis mset_sort_by size_mset)

lemma set_insert_by [simp]: "set (insert_by lt x xs) = insert x (set xs)"
  by (induction xs) auto

lemma sort_by_eq_Nil [simp]: "sort_by lt xs = [] \<longleftrightarrow> xs = []"
  by (metis length_0_conv length_sort_by)

locale comparator =
  fixes lt :: "'a \<Rightarrow> 'a \<Rightarrow> bool"
  assumes asym: "lt x y \<Longrightarrow> \<not> lt y x"
    and negatively_transitive: "lt x z \<Longrightarrow> lt x y \<or> lt y z"
begin

abbreviation in_order :: "'a list \<Rightarrow> bool" where
  "in_order \<equiv> sorted_wrt (\<lambda>x y. \<not> lt y x)"

lemma in_order_insert_by: "in_order xs \<Longrightarrow> in_order (insert_by lt x xs)"
proof (induction xs)
  case (Cons y ys)
  show ?case
  proof (cases "lt y x")
    case True
    with Cons asym show ?thesis by auto
  next
    case False
    with Cons.prems negatively_transitive show ?thesis by auto
  qed
qed simp

lemma in_order_sort_by: "in_order (sort_by lt xs)"
  by (induction xs) (auto simp: in_order_insert_by)

lemma in_order_unique:
  assumes apart: "\<And>x y. x \<in> set xs \<Longrightarrow> y \<in> set xs \<Longrightarrow> x \<noteq> y \<Longrightarrow> lt x y \<or> lt y x"
  shows "in_order xs \<Longrightarrow> in_order ys \<Longrightarrow> mset xs = mset ys \<Longrightarrow> xs = ys"
  using apart
proof (induction xs arbitrary: ys)
  case Nil
  then show ?case by simp
next
  case (Cons x xs)
  then obtain y ys' where ys: "ys = y # ys'" by (cases ys) auto
  have sets: "set (x # xs) = set ys"
    using Cons.prems(3) by (metis set_mset_mset)
  have "x = y"
  proof (rule ccontr)
    assume "x \<noteq> y"
    with sets ys have "x \<in> set ys'" "y \<in> set xs" by auto
    with Cons.prems ys have "\<not> lt x y" "\<not> lt y x" by auto
    with Cons.prems(4) [of x y] \<open>x \<noteq> y\<close> \<open>y \<in> set xs\<close> show False by auto
  qed
  then have "xs = ys'"
    using Cons ys by (intro Cons.IH) auto
  with ys \<open>x = y\<close> show ?case by simp
qed

lemma sort_by_unique:
  assumes "mset xs = mset ys"
    and "\<And>x y. x \<in> set xs \<Longrightarrow> y \<in> set xs \<Longrightarrow> x \<noteq> y \<Longrightarrow> lt x y \<or> lt y x"
  shows "sort_by lt xs = sort_by lt ys"
  using assms by (intro in_order_unique) (auto simp: in_order_sort_by)

lemma sort_by_idle: "in_order xs \<Longrightarrow> sort_by lt xs = xs"
proof (induction xs)
  case (Cons x xs)
  then have "sort_by lt xs = xs" by simp
  with Cons.prems show ?case by (cases xs) auto
qed simp

lemma sort_by_idem: "sort_by lt (sort_by lt xs) = sort_by lt xs"
  by (simp add: sort_by_idle in_order_sort_by)

end

text \<open>A comparator that compares a key of a linear order is a strict weak order.\<close>

lemma comparator_key: "comparator (\<lambda>x y. (key x :: 'k::linorder) < key y)"
  by unfold_locales auto

interpretation less_order: comparator "(<) :: 'a::linorder \<Rightarrow> 'a \<Rightarrow> bool"
  by unfold_locales auto

end
