(* ===== verification/Wnc_Identity.thy ===== *)
theory Wnc_Identity
  imports Wnc_Prelude
begin

text \<open>
  Identities, digests, generations and incarnations: \<^verbatim>\<open>include/wnc/identity.hpp\<close>,
  \<^verbatim>\<open>include/wnc/identity.inl\<close> and \<^verbatim>\<open>src/identity.cpp\<close>. An identity is its 64 characters, a
  digest its 32 bytes, an incarnation its 16 bytes. The theory shows that the hexadecimal and
  base64url codecs round trip, that every parsed identity is in the lowercase form, and that a
  generation only moves forward.
\<close>

section \<open>Bounds and types\<close>

definition kSha256Bytes :: nat where "kSha256Bytes = 32"
definition kSha256HexChars :: nat where "kSha256HexChars = 64"
definition kIncarnationBytes :: nat where "kIncarnationBytes = 16"

type_synonym digest = bytes
type_synonym ident = string
type_synonym incarnation = bytes

abbreviation zero_digest :: digest where
  "zero_digest \<equiv> replicate 32 0"

section \<open>Hexadecimal\<close>

definition kLowerHexDigits :: string where
  "kLowerHexDigits = ''0123456789abcdef''"

text \<open>The nibble value of a hexadecimal digit, or -1.\<close>

definition hex_digit_value :: "char \<Rightarrow> int" where
  "hex_digit_value c =
     (let n = int (of_char c) in
      if 48 \<le> n \<and> n \<le> 57 then n - 48
      else if 97 \<le> n \<and> n \<le> 102 then n - 97 + 10
      else if 65 \<le> n \<and> n \<le> 70 then n - 65 + 10
      else - 1)"

fun hex_encode :: "bytes \<Rightarrow> string" where
  "hex_encode [] = []"
| "hex_encode (b # bs) =
     kLowerHexDigits ! unat (drop_bit 4 b) # kLowerHexDigits ! unat (b AND 0x0F) # hex_encode bs"

fun hex_decode_pairs :: "string \<Rightarrow> bytes option" where
  "hex_decode_pairs (h # l # rest) =
     (let high = hex_digit_value h; low = hex_digit_value l in
      if high < 0 \<or> low < 0 then None
      else map_option (\<lambda>bs. (push_bit 4 (of_int high) OR of_int low) # bs)
             (hex_decode_pairs rest))"
| "hex_decode_pairs _ = Some []"

definition hex_decode_digest :: "string \<Rightarrow> digest option" where
  "hex_decode_digest text =
     (if length text \<noteq> kSha256HexChars then None else hex_decode_pairs text)"

section \<open>Identities\<close>

definition zero_id :: ident where
  "zero_id = replicate kSha256HexChars CHR ''0''"

definition is_zero_id :: "ident \<Rightarrow> bool" where
  "is_zero_id i = list_all (\<lambda>c. c = CHR ''0'') i"

fun normalise_hex :: "string \<Rightarrow> string option" where
  "normalise_hex [] = Some []"
| "normalise_hex (c # cs) =
     (let v = hex_digit_value c in
      if v < 0 then None
      else map_option (\<lambda>out. kLowerHexDigits ! nat v # out) (normalise_hex cs))"

definition parse_id :: "string \<Rightarrow> ident option" where
  "parse_id text = (if length text \<noteq> kSha256HexChars then None else normalise_hex text)"

definition from_digest :: "digest \<Rightarrow> ident" where
  "from_digest d = hex_encode d"

section \<open>Generations\<close>

text \<open>
  \<^verbatim>\<open>Gen<Tag>\<close>: a counter that starts at one, with zero for "no generation". The tag is a
  compile time distinction only.
\<close>

type_synonym gen = u64

definition advance_to :: "gen \<Rightarrow> gen \<Rightarrow> bool \<times> gen" where
  "advance_to value successor = (if successor > value then (True, successor) else (False, value))"

section \<open>base64url\<close>

definition kBase64UrlAlphabet :: string where
  "kBase64UrlAlphabet = ''ABCDEFGHIJKLMNOPQRSTUVWXYZabcdefghijklmnopqrstuvwxyz0123456789-_''"

definition base64url_value :: "char \<Rightarrow> int" where
  "base64url_value c =
     (let n = int (of_char c) in
      if 65 \<le> n \<and> n \<le> 90 then n - 65
      else if 97 \<le> n \<and> n \<le> 122 then n - 97 + 26
      else if 48 \<le> n \<and> n \<le> 57 then n - 48 + 52
      else if c = CHR ''-'' then 62
      else if c = CHR ''_'' then 63
      else - 1)"

definition b64_char :: "u32 \<Rightarrow> nat \<Rightarrow> char" where
  "b64_char chunk shift = kBase64UrlAlphabet ! unat (drop_bit shift chunk AND 0x3F)"

fun base64url_encode :: "bytes \<Rightarrow> string" where
  "base64url_encode (a # b # c # rest) =
     (let chunk = push_bit 16 (ucast a) OR push_bit 8 (ucast b) OR ucast c :: u32 in
      b64_char chunk 18 # b64_char chunk 12 # b64_char chunk 6 # b64_char chunk 0
        # base64url_encode rest)"
| "base64url_encode [a, b] =
     (let chunk = push_bit 16 (ucast a) OR push_bit 8 (ucast b) :: u32 in
      [b64_char chunk 18, b64_char chunk 12, b64_char chunk 6])"
| "base64url_encode [a] =
     (let chunk = push_bit 16 (ucast a) :: u32 in [b64_char chunk 18, b64_char chunk 12])"
| "base64url_encode [] = []"

text \<open>The character loop of the decoder: accumulator, pending bits and output.\<close>

fun base64url_loop ::
    "nat \<Rightarrow> string \<Rightarrow> u32 \<Rightarrow> nat \<Rightarrow> bytes \<Rightarrow> (u32 \<times> nat \<times> bytes) option" where
  "base64url_loop max_bytes [] acc bits out = Some (acc, bits, out)"
| "base64url_loop max_bytes (c # cs) acc bits out =
     (let value = base64url_value c in
      if value < 0 then None
      else
        let acc = push_bit 6 acc OR of_int value; bits = bits + 6 in
        if bits \<ge> 8 then
          let bits = bits - 8; out = out @ [ucast (drop_bit bits acc AND 0xFF)] in
          if length out > max_bytes then None
          else base64url_loop max_bytes cs acc bits out
        else base64url_loop max_bytes cs acc bits out)"

definition base64url_decode :: "string \<Rightarrow> nat \<Rightarrow> bytes option" where
  "base64url_decode input max_bytes =
     (let text = rev (dropWhile (\<lambda>c. c = CHR ''='') (rev input));
          padding = length input - length text;
          estimated = (length text div 4) * 3 + 3 in
      if padding > 2 \<or> length text mod 4 = 1 then None
      else if estimated > max_bytes + 3 then None
      else case base64url_loop max_bytes text 0 0 [] of
          None \<Rightarrow> None
        | Some (acc, bits, out) \<Rightarrow>
            if bits > 0 \<and> acc AND (push_bit bits 1 - 1) \<noteq> 0 then None else Some out)"

section \<open>Incarnations\<close>

definition is_zero_incarnation :: "incarnation \<Rightarrow> bool" where
  "is_zero_incarnation i = list_all (\<lambda>b. b = 0) i"

definition zero_incarnation :: incarnation where
  "zero_incarnation = replicate kIncarnationBytes 0"

definition incarnation_str :: "incarnation \<Rightarrow> string" where
  "incarnation_str i = base64url_encode i"

definition incarnation_parse :: "string \<Rightarrow> incarnation option" where
  "incarnation_parse text =
     (case base64url_decode text kIncarnationBytes of
        None \<Rightarrow> None
      | Some decoded \<Rightarrow>
          if length decoded \<noteq> kIncarnationBytes then None
          else if is_zero_incarnation decoded then None
          else Some decoded)"

text \<open>
  \<^verbatim>\<open>new_incarnation\<close>: the random bytes are an input; an all zero draw is repaired.
\<close>

definition new_incarnation :: "bytes \<Rightarrow> incarnation" where
  "new_incarnation drawn = (if is_zero_incarnation drawn then drawn[0 := 1] else drawn)"

definition format_generation :: "u64 \<Rightarrow> string" where
  "format_generation value = ''g'' @ to_string_nat (unat value)"

section \<open>Hexadecimal round trips\<close>

lemma hex_digit_value_lower:
  assumes "v < 16"
  shows "hex_digit_value (kLowerHexDigits ! v) = int v"
proof -
  have "list_all (\<lambda>v. hex_digit_value (kLowerHexDigits ! v) = int v) [0..<16]"
    by code_simp
  with assms show ?thesis by (auto simp: list_all_iff)
qed

lemma nibble_mask: "(0x0F :: u8) = mask 4"
  by (simp add: mask_eq_exp_minus_1)

lemma nibble_bounds: "unat (drop_bit 4 (b :: u8)) < 16" "unat (b AND 0x0F :: u8) < 16"
proof -
  have "unat b div 16 < 16"
    using unat_u8_less [of b] by linarith
  then show "unat (drop_bit 4 b) < 16"
    by (simp add: drop_bit_eq_div unat_div)
  have "b AND 0x0F \<le> (0x0F :: u8)" by (rule word_and_le1)
  then show "unat (b AND 0x0F) < 16" by (simp add: word_le_nat_alt)
qed

lemma nibbles_join: "push_bit 4 (drop_bit 4 b) OR (b AND 0x0F) = (b :: u8)"
  unfolding nibble_mask by (rule bit_word_eqI) (auto simp: bit_simps)

lemma hex_decode_encode_pairs: "hex_decode_pairs (hex_encode bs) = Some bs"
  by (induction bs)
    (simp_all add: hex_digit_value_lower nibble_bounds nibbles_join)

lemma length_hex_encode [simp, wnc_length]: "length (hex_encode bs) = 2 * length bs"
  by (induction bs) auto

lemma hex_decode_encode_digest:
  "length d = kSha256Bytes \<Longrightarrow> hex_decode_digest (hex_encode d) = Some d"
  by (simp add: hex_decode_digest_def hex_decode_encode_pairs kSha256HexChars_def kSha256Bytes_def)

lemma length_hex_decode_pairs:
  "hex_decode_pairs s = Some bs \<Longrightarrow> length bs = length s div 2"
  by (induction s arbitrary: bs rule: hex_decode_pairs.induct)
    (auto simp: Let_def split: if_splits)

lemma length_hex_decode_digest:
  "hex_decode_digest s = Some d \<Longrightarrow> length d = kSha256Bytes"
  by (auto simp: hex_decode_digest_def kSha256HexChars_def kSha256Bytes_def
      dest: length_hex_decode_pairs split: if_splits)

lemma hex_encode_inject [simp]: "hex_encode a = hex_encode b \<longleftrightarrow> a = b"
  by (metis hex_decode_encode_pairs option.inject)

section \<open>Identities are lowercase hexadecimal\<close>

definition wf_id :: "ident \<Rightarrow> bool" where
  "wf_id i = (length i = kSha256HexChars \<and> list_all (\<lambda>c. c \<in> set kLowerHexDigits) i)"

lemma hex_digit_value_less: "hex_digit_value c < 16"
  by (auto simp: hex_digit_value_def Let_def)

lemma kLowerHexDigits_mem: "v < 16 \<Longrightarrow> kLowerHexDigits ! v \<in> set kLowerHexDigits"
  by (rule nth_mem) (simp add: kLowerHexDigits_def)

lemma normalise_hex_lower:
  "normalise_hex s = Some t \<Longrightarrow> length t = length s \<and> list_all (\<lambda>c. c \<in> set kLowerHexDigits) t"
proof (induction s arbitrary: t)
  case (Cons c s)
  then have "nat (hex_digit_value c) < 16"
    using hex_digit_value_less [of c] by simp
  with Cons show ?case
    by (auto simp: Let_def kLowerHexDigits_mem split: if_splits)
qed simp

lemma parse_id_wf: "parse_id s = Some i \<Longrightarrow> wf_id i"
  by (auto simp: parse_id_def wf_id_def dest: normalise_hex_lower split: if_splits)

lemma hex_digit_value_lower_inv:
  assumes "c \<in> set kLowerHexDigits"
  shows "0 \<le> hex_digit_value c" "kLowerHexDigits ! nat (hex_digit_value c) = c"
proof -
  have "list_all (\<lambda>c. 0 \<le> hex_digit_value c \<and> kLowerHexDigits ! nat (hex_digit_value c) = c)
      kLowerHexDigits" by code_simp
  with assms show "0 \<le> hex_digit_value c" "kLowerHexDigits ! nat (hex_digit_value c) = c"
    by (auto simp: list_all_iff)
qed

lemma normalise_hex_id: "list_all (\<lambda>c. c \<in> set kLowerHexDigits) s \<Longrightarrow> normalise_hex s = Some s"
  by (induction s) (auto simp: Let_def hex_digit_value_lower_inv dest: hex_digit_value_lower_inv(1))

lemma parse_id_of_wf: "wf_id i \<Longrightarrow> parse_id i = Some i"
  by (simp add: parse_id_def wf_id_def normalise_hex_id)

lemma hex_encode_lower: "list_all (\<lambda>c. c \<in> set kLowerHexDigits) (hex_encode bs)"
  by (induction bs) (simp_all add: kLowerHexDigits_mem nibble_bounds)

lemma from_digest_wf: "length d = kSha256Bytes \<Longrightarrow> wf_id (from_digest d)"
  by (simp add: from_digest_def wf_id_def hex_encode_lower kSha256Bytes_def kSha256HexChars_def)

lemma zero_id_wf: "wf_id zero_id"
  by (simp add: zero_id_def wf_id_def list_all_iff kLowerHexDigits_def)

lemma is_zero_id_iff: "wf_id i \<Longrightarrow> is_zero_id i \<longleftrightarrow> i = zero_id"
  by (auto simp: is_zero_id_def wf_id_def zero_id_def list_all_iff intro: replicate_eqI)

lemma from_digest_inject:
  "from_digest a = from_digest b \<longleftrightarrow> a = b"
  by (simp add: from_digest_def)

section \<open>base64url round trip\<close>

lemma masks_low: "(0x3 :: u32) = mask 2" "(0xF :: u32) = mask 4"
  by (simp_all add: mask_eq_exp_minus_1)

lemma masks: "(0x3F :: u32) = mask 6" "(0xFF :: u32) = mask 8"
  by (simp_all add: mask_eq_exp_minus_1)

lemma base64url_value_char:
  assumes "v < 64" shows "base64url_value (kBase64UrlAlphabet ! v) = int v"
proof -
  have "list_all (\<lambda>v. base64url_value (kBase64UrlAlphabet ! v) = int v) [0..<64]"
    by (simp add: upt_rec kBase64UrlAlphabet_def base64url_value_def)
  with assms show ?thesis by (auto simp: list_all_iff)
qed

lemma base64url_value_b64_char:
  "base64url_value (b64_char chunk s) = int (unat (drop_bit s chunk AND 0x3F))"
proof -
  have "drop_bit s chunk AND 0x3F \<le> (0x3F :: u32)" by (rule word_and_le1)
  then have "unat (drop_bit s chunk AND 0x3F) < 64" by (simp add: word_le_nat_alt)
  then show ?thesis by (simp add: b64_char_def base64url_value_char)
qed

lemma base64url_loop_quad:
  "length out + 3 \<le> m \<Longrightarrow> chunk = push_bit 16 (ucast a) OR push_bit 8 (ucast b) OR ucast c \<Longrightarrow>
   \<exists>acc'. base64url_loop m (b64_char chunk 18 # b64_char chunk 12 # b64_char chunk 6 # b64_char chunk 0 # cs) acc 0 out
    = base64url_loop m cs acc' 0 (out @ [a, b, c])"
  apply (simp add: Let_def base64url_value_b64_char)
  apply (rule exI, rule arg_cong2 [where f = "\<lambda>x y. base64url_loop m cs x 0 y"], rule refl)
  apply (simp add: masks)
  apply (intro conjI; rule u8_eqI; simp add: bit_simps)
  done
lemma base64url_loop_encode:
  "length out + length bs \<le> m \<Longrightarrow>
   \<exists>acc' r. base64url_loop m (base64url_encode bs) acc 0 out = Some (acc', r, out @ bs) \<and>
     acc' AND (push_bit r 1 - 1) = 0"
proof (induction bs arbitrary: acc out rule: base64url_encode.induct)
  case (1 a b c rest)
  define chunk :: u32 where "chunk = push_bit 16 (ucast a) OR push_bit 8 (ucast b) OR ucast c"
  obtain acc' where q: "base64url_loop m (base64url_encode (a # b # c # rest)) acc 0 out =
      base64url_loop m (base64url_encode rest) acc' 0 (out @ [a, b, c])"
    using base64url_loop_quad [of out m chunk a b c "base64url_encode rest" acc] "1.prems"
    by (auto simp: chunk_def Let_def)
  have "length (out @ [a, b, c]) + length rest \<le> m" using "1.prems" by simp
  then show ?case using "1.IH" [of chunk "out @ [a, b, c]" acc'] q by (auto simp: chunk_def)
next
  case (2 a b)
  then show ?case
    by (simp add: Let_def base64url_value_b64_char masks)
      (intro conjI; (rule u8_eqI; simp add: bit_simps)?;
        simp add: masks_low; rule bit_word_eqI; auto simp: bit_simps)
next
  case (3 a)
  then show ?case
    by (simp add: Let_def base64url_value_b64_char masks)
      (intro conjI; (rule u8_eqI; simp add: bit_simps)?;
        simp add: masks_low; rule bit_word_eqI; auto simp: bit_simps)
next
  case 4
  then show ?case by simp
qed

lemma set_base64url_encode: "set (base64url_encode bs) \<subseteq> set kBase64UrlAlphabet"
proof -
  have "b64_char chunk s \<in> set kBase64UrlAlphabet" for chunk s
  proof -
    have "drop_bit s chunk AND 0x3F \<le> (0x3F :: u32)" by (rule word_and_le1)
    then show ?thesis
      unfolding b64_char_def by (intro nth_mem) (simp add: word_le_nat_alt kBase64UrlAlphabet_def)
  qed
  then show ?thesis
    by (induction bs rule: base64url_encode.induct) (auto simp: Let_def)
qed

lemma length_base64url_encode:
  "length (base64url_encode bs) = 4 * (length bs div 3) +
     (if length bs mod 3 = 0 then 0 else length bs mod 3 + 1)"
  by (induction bs rule: base64url_encode.induct) (simp_all add: Let_def)

lemma base64url_decode_encode:
  assumes "length bs \<le> m"
  shows "base64url_decode (base64url_encode bs) m = Some bs"
proof -
  have "CHR ''='' \<notin> set (base64url_encode bs)"
    using set_base64url_encode [of bs] by (auto simp: kBase64UrlAlphabet_def)
  then have strip: "dropWhile (\<lambda>c. c = CHR ''='') (rev (base64url_encode bs)) =
      rev (base64url_encode bs)"
    unfolding dropWhile_eq_self_iff by (metis hd_in_set set_rev)
  have len: "length (base64url_encode bs) mod 4 \<noteq> 1"
      "length (base64url_encode bs) div 4 * 3 \<le> m"
    using assms by (auto simp: length_base64url_encode)
  obtain acc r where "base64url_loop m (base64url_encode bs) 0 0 [] = Some (acc, r, bs)"
      "acc AND (push_bit r 1 - 1) = 0"
    using base64url_loop_encode [of "[]" bs m 0] assms by auto
  with strip len show ?thesis by (simp add: base64url_decode_def)
qed

lemma incarnation_parse_str:
  "length i = kIncarnationBytes \<Longrightarrow> \<not> is_zero_incarnation i \<Longrightarrow>
     incarnation_parse (incarnation_str i) = Some i"
  by (simp add: incarnation_parse_def incarnation_str_def base64url_decode_encode)

lemma new_incarnation_nonzero:
  "length drawn = kIncarnationBytes \<Longrightarrow> \<not> is_zero_incarnation (new_incarnation drawn)"
  by (cases drawn) (auto simp: new_incarnation_def is_zero_incarnation_def kIncarnationBytes_def)

lemma length_new_incarnation [simp, wnc_length]: "length (new_incarnation drawn) = length drawn"
  by (simp add: new_incarnation_def)

section \<open>Generations only advance\<close>

lemma advance_to_monotone: "value \<le> snd (advance_to value successor)"
  by (auto simp: advance_to_def)

section \<open>Properties\<close>

text \<open>
  Encoding bytes as unpadded base64url and decoding them again gives the bytes back, for every
  byte string that fits the decoder's bound.
\<close>

theorem base64url_roundtrip:
  assumes "length bs \<le> max_bytes"
  shows "base64url_decode (base64url_encode bs) max_bytes = Some bs"
  using assms by (rule base64url_decode_encode)

theorem base64url_roundtrip_witness:
  "base64url_decode (base64url_encode [0xFB, 0xFF, 0x00, 0x7E]) 16 = Some [0xFB, 0xFF, 0x00, 0x7E]"
  by (rule base64url_roundtrip) simp

text \<open>
  A freshly drawn incarnation is never the zero one, whatever the random source returned, and
  its textual form parses back to it.
\<close>

theorem incarnation_roundtrip:
  assumes "length drawn = kIncarnationBytes"
  shows "\<not> is_zero_incarnation (new_incarnation drawn) \<and>
     incarnation_parse (incarnation_str (new_incarnation drawn)) = Some (new_incarnation drawn)"
  using assms by (simp add: incarnation_parse_str new_incarnation_nonzero)

theorem incarnation_roundtrip_witness:
  "\<not> is_zero_incarnation (new_incarnation (replicate 16 0)) \<and>
     incarnation_parse (incarnation_str (new_incarnation (replicate 16 0))) =
       Some (new_incarnation (replicate 16 0))"
  by (rule incarnation_roundtrip) (simp add: kIncarnationBytes_def)

text \<open>
  An identity read from text is always 64 lowercase hex digits, and reading an identity that
  was written gives the same identity: parsing is a left inverse on well formed identities,
  including every identity derived from a digest.
\<close>

theorem parse_id_roundtrip:
  assumes "length d = kSha256Bytes"
  shows "wf_id (from_digest d) \<and> parse_id (from_digest d) = Some (from_digest d) \<and>
     (\<forall>s i. parse_id s = Some i \<longrightarrow> wf_id i \<and> parse_id i = Some i)"
  using assms from_digest_wf parse_id_of_wf parse_id_wf by auto

theorem parse_id_roundtrip_witness:
  "wf_id (from_digest (replicate 32 0xAB)) \<and>
     parse_id (from_digest (replicate 32 0xAB)) = Some (from_digest (replicate 32 0xAB))"
  using parse_id_roundtrip [of "replicate 32 0xAB"] by (simp add: kSha256Bytes_def)

end
