(* ===== verification/Wnc_Error.thy ===== *)
theory Wnc_Error
  imports Wnc_Identity
begin

text \<open>
  Denial reasons and bounded diagnostic logs: \<^verbatim>\<open>include/wnc/error.hpp\<close> and
  \<^verbatim>\<open>src/codec.cpp\<close>. The enumeration \<^verbatim>\<open>wnc::Code\<close> is one datatype per numeric range of
  the header and their sum; every enumerator keeps its name as an abbreviation. A diagnostic is its
  code and the two identities it names; its human readable text is not modelled (no branch of the
  library reads it), so \<^verbatim>\<open>render\<close> and \<^verbatim>\<open>reasons\<close> are left out. The theory shows that the
  token table is total and injective, and what the bounded log keeps of the diagnostics added
  to it.
\<close>

section \<open>Codes\<close>

datatype protocol_code = CBadMagic | CBadVersion | CFrameTooLarge | CTruncatedFrame
  | CFrameCrcMismatch | CTrailingGarbage | CUnknownFrameType | CMalformedFrameHeader
  | CBodyTooLarge | CUnknownPayloadSchema | CSessionClosed | CBackpressure | CConnectFailed
  | CBindFailed | CListenFailed | CIoFailed | CDeadlineExceeded

datatype document_code = CJsonSyntax | CJsonDepthExceeded | CJsonDuplicateKey | CJsonNotAnObject
  | CJsonNotAnArray | CJsonMissingField | CJsonWrongType | CJsonInvalidUtf8 | CJsonStringTooLong
  | CJsonNumberOutOfRange | CJsonUnknownField | CJsonTooManyElements | CJsonInvalidLiteral
  | CDocumentTooLarge

datatype contract_code = CContractSchema | CEmptyRequirementSet | CDuplicateRequirement
  | CUnknownScope | CMissingRequirementKey | CTooManyScopes | CTooManyRequirements
  | CTooManyRankedScopes | CInvalidStrength | CInvalidKind | CInvalidValue | CValueOutOfRange
  | CMissingPublisher | CZeroIdentity | CEmptyCollective | CDuplicateCollectiveMember
  | CTooManyAttributes | CEmptyScopeName

datatype authority_code = CUnknownContract | CUnknownWorkload | CStaleGeneration
  | CGenerationGap | CSuperseded | CContractRetired | CWriterFenced | CPublisherNotTrusted
  | CSignatureInvalid | CSignatureMissing | CReplayRejected | CPublisherMismatch
  | CNotContractOwner | CContractDigestMismatch | CWrongCoordinatorIncarnation
  | CDuplicateWorkload | CRetentionExceeded | CUnknownPolicy

datatype composition_code = CCompositionConflict | CWeakeningDenied | CPolicyDenied
  | CLayerNotFound | CTooManyLayers | COverlayInvalid | CCompositionCycle

datatype compatibility_code = CIncompatibleMajor | CIncompatibleRequirementRemoved
  | CIncompatibleRequirementWeakened | CIncompatibleScopeRemoved | CIncompatibleKindChanged
  | CContractSchemaVersionUnsupported

datatype evidence_code = CEvidenceUnknownScope | CEvidenceStale | CEvidenceExpired
  | CEvidenceGenerationBackwards | CEvidenceDuplicate | CEvidenceTooManyEntries
  | CEvaluationNoEvidence | CEvaluationMissingDimension | CEvidenceNotCurrent
  | CRevalidationRequired | CEvidenceRejected

datatype persistence_code = CLedgerCorrupt | CLedgerTruncated | CLedgerOversized
  | CLedgerIncompatible | CIndexMismatch | CStateUnavailable | CAtomicReplaceFailed
  | CSnapshotInvalid | CLockHeld | CIndexGapDetected | CDirectoryUnavailable | CPathRejected
  | CRecoveryRequired

datatype reconstruction_code = CIdentityReconciled

datatype reporting_code = CTooManyReasons | CInternalInvariant | CNotImplemented

datatype code =
    kOk
  | Protocol protocol_code
  | Document document_code
  | ContractFailure contract_code
  | Authority authority_code
  | CompositionFailure composition_code
  | Compatibility compatibility_code
  | EvidenceFailure evidence_code
  | Persistence persistence_code
  | Reconstruction reconstruction_code
  | Reporting reporting_code

abbreviation kBadMagic :: code where "kBadMagic \<equiv> Protocol CBadMagic"
abbreviation kBadVersion :: code where "kBadVersion \<equiv> Protocol CBadVersion"
abbreviation kFrameTooLarge :: code where "kFrameTooLarge \<equiv> Protocol CFrameTooLarge"
abbreviation kTruncatedFrame :: code where "kTruncatedFrame \<equiv> Protocol CTruncatedFrame"
abbreviation kFrameCrcMismatch :: code where "kFrameCrcMismatch \<equiv> Protocol CFrameCrcMismatch"
abbreviation kTrailingGarbage :: code where "kTrailingGarbage \<equiv> Protocol CTrailingGarbage"
abbreviation kUnknownFrameType :: code where "kUnknownFrameType \<equiv> Protocol CUnknownFrameType"
abbreviation kMalformedFrameHeader :: code where "kMalformedFrameHeader \<equiv> Protocol CMalformedFrameHeader"
abbreviation kBodyTooLarge :: code where "kBodyTooLarge \<equiv> Protocol CBodyTooLarge"
abbreviation kUnknownPayloadSchema :: code where "kUnknownPayloadSchema \<equiv> Protocol CUnknownPayloadSchema"
abbreviation kSessionClosed :: code where "kSessionClosed \<equiv> Protocol CSessionClosed"
abbreviation kBackpressure :: code where "kBackpressure \<equiv> Protocol CBackpressure"
abbreviation kConnectFailed :: code where "kConnectFailed \<equiv> Protocol CConnectFailed"
abbreviation kBindFailed :: code where "kBindFailed \<equiv> Protocol CBindFailed"
abbreviation kListenFailed :: code where "kListenFailed \<equiv> Protocol CListenFailed"
abbreviation kIoFailed :: code where "kIoFailed \<equiv> Protocol CIoFailed"
abbreviation kDeadlineExceeded :: code where "kDeadlineExceeded \<equiv> Protocol CDeadlineExceeded"
abbreviation kJsonSyntax :: code where "kJsonSyntax \<equiv> Document CJsonSyntax"
abbreviation kJsonDepthExceeded :: code where "kJsonDepthExceeded \<equiv> Document CJsonDepthExceeded"
abbreviation kJsonDuplicateKey :: code where "kJsonDuplicateKey \<equiv> Document CJsonDuplicateKey"
abbreviation kJsonNotAnObject :: code where "kJsonNotAnObject \<equiv> Document CJsonNotAnObject"
abbreviation kJsonNotAnArray :: code where "kJsonNotAnArray \<equiv> Document CJsonNotAnArray"
abbreviation kJsonMissingField :: code where "kJsonMissingField \<equiv> Document CJsonMissingField"
abbreviation kJsonWrongType :: code where "kJsonWrongType \<equiv> Document CJsonWrongType"
abbreviation kJsonInvalidUtf8 :: code where "kJsonInvalidUtf8 \<equiv> Document CJsonInvalidUtf8"
abbreviation kJsonStringTooLong :: code where "kJsonStringTooLong \<equiv> Document CJsonStringTooLong"
abbreviation kJsonNumberOutOfRange :: code where "kJsonNumberOutOfRange \<equiv> Document CJsonNumberOutOfRange"
abbreviation kJsonUnknownField :: code where "kJsonUnknownField \<equiv> Document CJsonUnknownField"
abbreviation kJsonTooManyElements :: code where "kJsonTooManyElements \<equiv> Document CJsonTooManyElements"
abbreviation kJsonInvalidLiteral :: code where "kJsonInvalidLiteral \<equiv> Document CJsonInvalidLiteral"
abbreviation kDocumentTooLarge :: code where "kDocumentTooLarge \<equiv> Document CDocumentTooLarge"
abbreviation kContractSchema :: code where "kContractSchema \<equiv> ContractFailure CContractSchema"
abbreviation kEmptyRequirementSet :: code where "kEmptyRequirementSet \<equiv> ContractFailure CEmptyRequirementSet"
abbreviation kDuplicateRequirement :: code where "kDuplicateRequirement \<equiv> ContractFailure CDuplicateRequirement"
abbreviation kUnknownScope :: code where "kUnknownScope \<equiv> ContractFailure CUnknownScope"
abbreviation kMissingRequirementKey :: code where "kMissingRequirementKey \<equiv> ContractFailure CMissingRequirementKey"
abbreviation kTooManyScopes :: code where "kTooManyScopes \<equiv> ContractFailure CTooManyScopes"
abbreviation kTooManyRequirements :: code where "kTooManyRequirements \<equiv> ContractFailure CTooManyRequirements"
abbreviation kTooManyRankedScopes :: code where "kTooManyRankedScopes \<equiv> ContractFailure CTooManyRankedScopes"
abbreviation kInvalidStrength :: code where "kInvalidStrength \<equiv> ContractFailure CInvalidStrength"
abbreviation kInvalidKind :: code where "kInvalidKind \<equiv> ContractFailure CInvalidKind"
abbreviation kInvalidValue :: code where "kInvalidValue \<equiv> ContractFailure CInvalidValue"
abbreviation kValueOutOfRange :: code where "kValueOutOfRange \<equiv> ContractFailure CValueOutOfRange"
abbreviation kMissingPublisher :: code where "kMissingPublisher \<equiv> ContractFailure CMissingPublisher"
abbreviation kZeroIdentity :: code where "kZeroIdentity \<equiv> ContractFailure CZeroIdentity"
abbreviation kEmptyCollective :: code where "kEmptyCollective \<equiv> ContractFailure CEmptyCollective"
abbreviation kDuplicateCollectiveMember :: code where "kDuplicateCollectiveMember \<equiv> ContractFailure CDuplicateCollectiveMember"
abbreviation kTooManyAttributes :: code where "kTooManyAttributes \<equiv> ContractFailure CTooManyAttributes"
abbreviation kEmptyScopeName :: code where "kEmptyScopeName \<equiv> ContractFailure CEmptyScopeName"
abbreviation kUnknownContract :: code where "kUnknownContract \<equiv> Authority CUnknownContract"
abbreviation kUnknownWorkload :: code where "kUnknownWorkload \<equiv> Authority CUnknownWorkload"
abbreviation kStaleGeneration :: code where "kStaleGeneration \<equiv> Authority CStaleGeneration"
abbreviation kGenerationGap :: code where "kGenerationGap \<equiv> Authority CGenerationGap"
abbreviation kSuperseded :: code where "kSuperseded \<equiv> Authority CSuperseded"
abbreviation kContractRetired :: code where "kContractRetired \<equiv> Authority CContractRetired"
abbreviation kWriterFenced :: code where "kWriterFenced \<equiv> Authority CWriterFenced"
abbreviation kPublisherNotTrusted :: code where "kPublisherNotTrusted \<equiv> Authority CPublisherNotTrusted"
abbreviation kSignatureInvalid :: code where "kSignatureInvalid \<equiv> Authority CSignatureInvalid"
abbreviation kSignatureMissing :: code where "kSignatureMissing \<equiv> Authority CSignatureMissing"
abbreviation kReplayRejected :: code where "kReplayRejected \<equiv> Authority CReplayRejected"
abbreviation kPublisherMismatch :: code where "kPublisherMismatch \<equiv> Authority CPublisherMismatch"
abbreviation kNotContractOwner :: code where "kNotContractOwner \<equiv> Authority CNotContractOwner"
abbreviation kContractDigestMismatch :: code where "kContractDigestMismatch \<equiv> Authority CContractDigestMismatch"
abbreviation kWrongCoordinatorIncarnation :: code where "kWrongCoordinatorIncarnation \<equiv> Authority CWrongCoordinatorIncarnation"
abbreviation kDuplicateWorkload :: code where "kDuplicateWorkload \<equiv> Authority CDuplicateWorkload"
abbreviation kRetentionExceeded :: code where "kRetentionExceeded \<equiv> Authority CRetentionExceeded"
abbreviation kUnknownPolicy :: code where "kUnknownPolicy \<equiv> Authority CUnknownPolicy"
abbreviation kCompositionConflict :: code where "kCompositionConflict \<equiv> CompositionFailure CCompositionConflict"
abbreviation kWeakeningDenied :: code where "kWeakeningDenied \<equiv> CompositionFailure CWeakeningDenied"
abbreviation kPolicyDenied :: code where "kPolicyDenied \<equiv> CompositionFailure CPolicyDenied"
abbreviation kLayerNotFound :: code where "kLayerNotFound \<equiv> CompositionFailure CLayerNotFound"
abbreviation kTooManyLayers :: code where "kTooManyLayers \<equiv> CompositionFailure CTooManyLayers"
abbreviation kOverlayInvalid :: code where "kOverlayInvalid \<equiv> CompositionFailure COverlayInvalid"
abbreviation kCompositionCycle :: code where "kCompositionCycle \<equiv> CompositionFailure CCompositionCycle"
abbreviation kIncompatibleMajor :: code where "kIncompatibleMajor \<equiv> Compatibility CIncompatibleMajor"
abbreviation kIncompatibleRequirementRemoved :: code where "kIncompatibleRequirementRemoved \<equiv> Compatibility CIncompatibleRequirementRemoved"
abbreviation kIncompatibleRequirementWeakened :: code where "kIncompatibleRequirementWeakened \<equiv> Compatibility CIncompatibleRequirementWeakened"
abbreviation kIncompatibleScopeRemoved :: code where "kIncompatibleScopeRemoved \<equiv> Compatibility CIncompatibleScopeRemoved"
abbreviation kIncompatibleKindChanged :: code where "kIncompatibleKindChanged \<equiv> Compatibility CIncompatibleKindChanged"
abbreviation kContractSchemaVersionUnsupported :: code where "kContractSchemaVersionUnsupported \<equiv> Compatibility CContractSchemaVersionUnsupported"
abbreviation kEvidenceUnknownScope :: code where "kEvidenceUnknownScope \<equiv> EvidenceFailure CEvidenceUnknownScope"
abbreviation kEvidenceStale :: code where "kEvidenceStale \<equiv> EvidenceFailure CEvidenceStale"
abbreviation kEvidenceExpired :: code where "kEvidenceExpired \<equiv> EvidenceFailure CEvidenceExpired"
abbreviation kEvidenceGenerationBackwards :: code where "kEvidenceGenerationBackwards \<equiv> EvidenceFailure CEvidenceGenerationBackwards"
abbreviation kEvidenceDuplicate :: code where "kEvidenceDuplicate \<equiv> EvidenceFailure CEvidenceDuplicate"
abbreviation kEvidenceTooManyEntries :: code where "kEvidenceTooManyEntries \<equiv> EvidenceFailure CEvidenceTooManyEntries"
abbreviation kEvaluationNoEvidence :: code where "kEvaluationNoEvidence \<equiv> EvidenceFailure CEvaluationNoEvidence"
abbreviation kEvaluationMissingDimension :: code where "kEvaluationMissingDimension \<equiv> EvidenceFailure CEvaluationMissingDimension"
abbreviation kEvidenceNotCurrent :: code where "kEvidenceNotCurrent \<equiv> EvidenceFailure CEvidenceNotCurrent"
abbreviation kRevalidationRequired :: code where "kRevalidationRequired \<equiv> EvidenceFailure CRevalidationRequired"
abbreviation kEvidenceRejected :: code where "kEvidenceRejected \<equiv> EvidenceFailure CEvidenceRejected"
abbreviation kLedgerCorrupt :: code where "kLedgerCorrupt \<equiv> Persistence CLedgerCorrupt"
abbreviation kLedgerTruncated :: code where "kLedgerTruncated \<equiv> Persistence CLedgerTruncated"
abbreviation kLedgerOversized :: code where "kLedgerOversized \<equiv> Persistence CLedgerOversized"
abbreviation kLedgerIncompatible :: code where "kLedgerIncompatible \<equiv> Persistence CLedgerIncompatible"
abbreviation kIndexMismatch :: code where "kIndexMismatch \<equiv> Persistence CIndexMismatch"
abbreviation kStateUnavailable :: code where "kStateUnavailable \<equiv> Persistence CStateUnavailable"
abbreviation kAtomicReplaceFailed :: code where "kAtomicReplaceFailed \<equiv> Persistence CAtomicReplaceFailed"
abbreviation kSnapshotInvalid :: code where "kSnapshotInvalid \<equiv> Persistence CSnapshotInvalid"
abbreviation kLockHeld :: code where "kLockHeld \<equiv> Persistence CLockHeld"
abbreviation kIndexGapDetected :: code where "kIndexGapDetected \<equiv> Persistence CIndexGapDetected"
abbreviation kDirectoryUnavailable :: code where "kDirectoryUnavailable \<equiv> Persistence CDirectoryUnavailable"
abbreviation kPathRejected :: code where "kPathRejected \<equiv> Persistence CPathRejected"
abbreviation kRecoveryRequired :: code where "kRecoveryRequired \<equiv> Persistence CRecoveryRequired"
abbreviation kIdentityReconciled :: code where "kIdentityReconciled \<equiv> Reconstruction CIdentityReconciled"
abbreviation kTooManyReasons :: code where "kTooManyReasons \<equiv> Reporting CTooManyReasons"
abbreviation kInternalInvariant :: code where "kInternalInvariant \<equiv> Reporting CInternalInvariant"
abbreviation kNotImplemented :: code where "kNotImplemented \<equiv> Reporting CNotImplemented"

text \<open>The rows of the code table: enumerator, its number, token and description.\<close>

definition kCodeTable :: "(code \<times> nat \<times> string \<times> string) list" where
  "kCodeTable =
    [(kOk, 0, ''ok'',
       ''operation accepted''),
     (kBadMagic, 100, ''bad_magic'',
       ''frame magic does not match this protocol''),
     (kBadVersion, 101, ''bad_version'',
       ''protocol version is not supported''),
     (kFrameTooLarge, 102, ''frame_too_large'',
       ''frame exceeds the configured byte bound''),
     (kTruncatedFrame, 103, ''truncated_frame'',
       ''frame ended before its declared length''),
     (kFrameCrcMismatch, 104, ''frame_crc_mismatch'',
       ''frame integrity check failed''),
     (kTrailingGarbage, 105, ''trailing_garbage'',
       ''bytes remained after the complete document''),
     (kUnknownFrameType, 106, ''unknown_frame_type'',
       ''frame type is not defined by this version''),
     (kMalformedFrameHeader, 107, ''malformed_frame_header'',
       ''frame header fields are inconsistent''),
     (kBodyTooLarge, 108, ''body_too_large'',
       ''frame body exceeds the configured byte bound''),
     (kUnknownPayloadSchema, 109, ''unknown_payload_schema'',
       ''payload schema tag is not supported''),
     (kSessionClosed, 110, ''session_closed'',
       ''session is closed and cannot carry new work''),
     (kBackpressure, 111, ''backpressure'',
       ''pending request bound reached; request refused''),
     (kConnectFailed, 112, ''connect_failed'',
       ''transport connection could not be established''),
     (kBindFailed, 113, ''bind_failed'',
       ''listening address could not be bound''),
     (kListenFailed, 114, ''listen_failed'',
       ''listening socket could not be created''),
     (kIoFailed, 115, ''io_failed'',
       ''transport input or output failed''),
     (kDeadlineExceeded, 116, ''deadline_exceeded'',
       ''bounded wait elapsed before completion''),
     (kJsonSyntax, 200, ''json_syntax'',
       ''document is not well formed JSON''),
     (kJsonDepthExceeded, 201, ''json_depth_exceeded'',
       ''nesting depth exceeds the configured bound''),
     (kJsonDuplicateKey, 202, ''json_duplicate_key'',
       ''object repeats a key''),
     (kJsonNotAnObject, 203, ''json_not_an_object'',
       ''value is not a JSON object''),
     (kJsonNotAnArray, 204, ''json_not_an_array'',
       ''value is not a JSON array''),
     (kJsonMissingField, 205, ''json_missing_field'',
       ''required field is absent''),
     (kJsonWrongType, 206, ''json_wrong_type'',
       ''field has the wrong JSON type''),
     (kJsonInvalidUtf8, 207, ''json_invalid_utf8'',
       ''string contains an invalid UTF-8 sequence''),
     (kJsonStringTooLong, 208, ''json_string_too_long'',
       ''string exceeds the configured byte bound''),
     (kJsonNumberOutOfRange, 209, ''json_number_out_of_range'',
       ''number is not representable exactly''),
     (kJsonUnknownField, 210, ''json_unknown_field'',
       ''object contains a field this schema forbids''),
     (kJsonTooManyElements, 211, ''json_too_many_elements'',
       ''array exceeds the configured bound''),
     (kJsonInvalidLiteral, 212, ''json_invalid_literal'',
       ''literal token is malformed''),
     (kDocumentTooLarge, 213, ''document_too_large'',
       ''document exceeds the configured byte bound''),
     (kContractSchema, 300, ''contract_schema'',
       ''contract does not satisfy its schema''),
     (kEmptyRequirementSet, 301, ''empty_requirement_set'',
       ''contract declares no requirements''),
     (kDuplicateRequirement, 302, ''duplicate_requirement'',
       ''two requirements share scope, kind and key''),
     (kUnknownScope, 303, ''unknown_scope'',
       ''requirement references an undeclared scope''),
     (kMissingRequirementKey, 304, ''missing_requirement_key'',
       ''requirement kind requires an explicit key''),
     (kTooManyScopes, 305, ''too_many_scopes'',
       ''scope count exceeds the configured bound''),
     (kTooManyRequirements, 306, ''too_many_requirements'',
       ''requirement count exceeds the configured bound''),
     (kTooManyRankedScopes, 307, ''too_many_ranked_scopes'',
       ''ranked scope count exceeds the configured bound''),
     (kInvalidStrength, 308, ''invalid_strength'',
       ''strength token is not required, preferred or informational''),
     (kInvalidKind, 309, ''invalid_kind'',
       ''requirement kind token is not defined''),
     (kInvalidValue, 310, ''invalid_value'',
       ''requirement parameters are malformed''),
     (kValueOutOfRange, 311, ''value_out_of_range'',
       ''requirement parameter is outside its permitted range''),
     (kMissingPublisher, 312, ''missing_publisher'',
       ''contract carries no publisher identity''),
     (kZeroIdentity, 313, ''zero_identity'',
       ''identity is the zero identity''),
     (kEmptyCollective, 314, ''empty_collective'',
       ''collective requirement names no members''),
     (kDuplicateCollectiveMember, 315, ''duplicate_collective_member'',
       ''collective repeats a member identity''),
     (kTooManyAttributes, 316, ''too_many_attributes'',
       ''attribute count exceeds the configured bound''),
     (kEmptyScopeName, 317, ''empty_scope_name'',
       ''scope name is empty''),
     (kUnknownContract, 400, ''unknown_contract'',
       ''no contract is registered for that identity''),
     (kUnknownWorkload, 401, ''unknown_workload'',
       ''no contract is registered for that workload''),
     (kStaleGeneration, 402, ''stale_generation'',
       ''generation is behind the current generation''),
     (kGenerationGap, 403, ''generation_gap'',
       ''generation skips past the next expected generation''),
     (kSuperseded, 404, ''superseded'',
       ''object was superseded by a later generation''),
     (kContractRetired, 405, ''contract_retired'',
       ''workload contract is retired and accepts no update''),
     (kWriterFenced, 406, ''writer_fenced'',
       ''writer incarnation is fenced by a newer boot''),
     (kPublisherNotTrusted, 407, ''publisher_not_trusted'',
       ''publisher identity is not in the trust set''),
     (kSignatureInvalid, 408, ''signature_invalid'',
       ''signature does not verify for the covered bytes''),
     (kSignatureMissing, 409, ''signature_missing'',
       ''signed submission carries no signature''),
     (kReplayRejected, 410, ''replay_rejected'',
       ''submission was already applied under this boot''),
     (kPublisherMismatch, 411, ''publisher_mismatch'',
       ''envelope identity disagrees with the signing key''),
     (kNotContractOwner, 412, ''not_contract_owner'',
       ''publisher does not own the current generation''),
     (kContractDigestMismatch, 413, ''contract_digest_mismatch'',
       ''declared digest does not match canonical bytes''),
     (kWrongCoordinatorIncarnation, 414, ''wrong_coordinator_incarnation'',
       ''request targets a different coordinator incarnation''),
     (kDuplicateWorkload, 415, ''duplicate_workload'',
       ''workload already has an active contract''),
     (kRetentionExceeded, 416, ''retention_exceeded'',
       ''retention bound reached; oldest generations must be pruned''),
     (kUnknownPolicy, 417, ''unknown_policy'',
       ''policy identity or generation is not current''),
     (kCompositionConflict, 500, ''composition_conflict'',
       ''composed layers disagree on the same requirement key''),
     (kWeakeningDenied, 501, ''weakening_denied'',
       ''override attempts to weaken a stronger requirement''),
     (kPolicyDenied, 502, ''policy_denied'',
       ''requirement violates an allowed range or strength floor''),
     (kLayerNotFound, 503, ''layer_not_found'',
       ''composition layer does not exist''),
     (kTooManyLayers, 504, ''too_many_layers'',
       ''layer count exceeds the configured bound''),
     (kOverlayInvalid, 505, ''overlay_invalid'',
       ''overlay is not a valid contract fragment''),
     (kCompositionCycle, 506, ''composition_cycle'',
       ''layer graph contains a cycle''),
     (kIncompatibleMajor, 600, ''incompatible_major'',
       ''contract major version differs''),
     (kIncompatibleRequirementRemoved, 601, ''incompatible_requirement_removed'',
       ''required requirement disappeared''),
     (kIncompatibleRequirementWeakened, 602, ''incompatible_requirement_weakened'',
       ''required requirement was weakened''),
     (kIncompatibleScopeRemoved, 603, ''incompatible_scope_removed'',
       ''scope disappeared for a required requirement''),
     (kIncompatibleKindChanged, 604, ''incompatible_kind_changed'',
       ''requirement key changed kind''),
     (kContractSchemaVersionUnsupported, 605, ''contract_schema_version_unsupported'',
       ''contract schema version is not supported''),
     (kEvidenceUnknownScope, 700, ''evidence_unknown_scope'',
       ''evidence references an undeclared scope''),
     (kEvidenceStale, 701, ''evidence_stale'',
       ''evidence generation or epoch is behind the current one''),
     (kEvidenceExpired, 702, ''evidence_expired'',
       ''evidence age exceeds the policy maximum''),
     (kEvidenceGenerationBackwards, 703, ''evidence_generation_backwards'',
       ''evidence generation does not advance''),
     (kEvidenceDuplicate, 704, ''evidence_duplicate'',
       ''evidence repeats a scope and dimension''),
     (kEvidenceTooManyEntries, 705, ''evidence_too_many_entries'',
       ''evidence entry count exceeds the configured bound''),
     (kEvaluationNoEvidence, 706, ''evaluation_no_evidence'',
       ''no evidence covers this requirement dimension''),
     (kEvaluationMissingDimension, 707, ''evaluation_missing_dimension'',
       ''evidence omits a dimension the requirement needs''),
     (kEvidenceNotCurrent, 708, ''evidence_not_current'',
       ''evidence is not current under this coordinator incarnation''),
     (kRevalidationRequired, 709, ''revalidation_required'',
       ''evidence must be re-established by a publisher''),
     (kEvidenceRejected, 710, ''evidence_rejected'',
       ''evidence failed validation and was refused''),
     (kLedgerCorrupt, 800, ''ledger_corrupt'',
       ''persisted record fails integrity or structure checks''),
     (kLedgerTruncated, 801, ''ledger_truncated'',
       ''persisted record ends before its declared length''),
     (kLedgerOversized, 802, ''ledger_oversized'',
       ''persisted record exceeds the configured byte bound''),
     (kLedgerIncompatible, 803, ''ledger_incompatible'',
       ''ledger format version is not supported''),
     (kIndexMismatch, 804, ''index_mismatch'',
       ''derived index disagrees with durable records''),
     (kStateUnavailable, 805, ''state_unavailable'',
       ''state directory is missing or unusable''),
     (kAtomicReplaceFailed, 806, ''atomic_replace_failed'',
       ''atomic file replacement did not complete''),
     (kSnapshotInvalid, 807, ''snapshot_invalid'',
       ''snapshot does not satisfy its schema''),
     (kLockHeld, 808, ''lock_held'',
       ''another live holder owns the state directory''),
     (kIndexGapDetected, 809, ''index_gap_detected'',
       ''durable sequence has a gap; recovery is required''),
     (kDirectoryUnavailable, 810, ''directory_unavailable'',
       ''required directory could not be created or read''),
     (kPathRejected, 811, ''path_rejected'',
       ''path escapes the state root or is otherwise refused''),
     (kRecoveryRequired, 812, ''recovery_required'',
       ''state must be recovered before serving''),
     (kIdentityReconciled, 850, ''identity_reconciled'',
       ''a submitted identity disagreed with the canonical bytes and was recomputed from them''),
     (kTooManyReasons, 900, ''too_many_reasons'',
       ''diagnostic list was truncated at its bound''),
     (kInternalInvariant, 901, ''internal_invariant'',
       ''internal invariant violated''),
     (kNotImplemented, 902, ''not_implemented'',
       ''capability is not implemented in this build'')]"

type_synonym 'a result = "code + 'a"

definition lookup_code :: "code \<Rightarrow> nat \<times> string \<times> string" where
  "lookup_code c =
     (case map_of kCodeTable c of
        Some info \<Rightarrow> info
      | None \<Rightarrow> (901, ''unknown_code'', ''unrecognised code''))"

definition code_number :: "code \<Rightarrow> nat" where
  "code_number c = fst (lookup_code c)"

definition code_token :: "code \<Rightarrow> string" where
  "code_token c = fst (snd (lookup_code c))"

definition code_description :: "code \<Rightarrow> string" where
  "code_description c = snd (snd (lookup_code c))"

section \<open>Diagnostics\<close>

record diagnostic =
  diag_code :: code
  diag_scope :: ident
  diag_requirement :: ident

definition diag :: "code \<Rightarrow> diagnostic" where
  "diag c = \<lparr>diag_code = c, diag_scope = zero_id, diag_requirement = zero_id\<rparr>"

definition diag_req :: "code \<Rightarrow> ident \<Rightarrow> diagnostic" where
  "diag_req c r = \<lparr>diag_code = c, diag_scope = zero_id, diag_requirement = r\<rparr>"

definition diag_ok :: "diagnostic \<Rightarrow> bool" where
  "diag_ok d = (diag_code d = kOk)"

record diagnostic_log =
  entries :: "diagnostic list"
  limit :: nat
  truncated :: bool

definition new_log :: "nat \<Rightarrow> diagnostic_log" where
  "new_log n = \<lparr>entries = [], limit = (if n = 0 then 1 else n), truncated = False\<rparr>"

definition log_add :: "diagnostic \<Rightarrow> diagnostic_log \<Rightarrow> diagnostic_log" where
  "log_add d dl =
     (if length (entries dl) \<ge> limit dl then dl\<lparr>truncated := True\<rparr>
      else dl\<lparr>entries := entries dl @ [d]\<rparr>)"

definition has_errors :: "diagnostic_log \<Rightarrow> bool" where
  "has_errors dl = list_ex (\<lambda>d. \<not> diag_ok d) (entries dl)"

definition first_error_code :: "diagnostic_log \<Rightarrow> code" where
  "first_error_code dl =
     (case find (\<lambda>d. \<not> diag_ok d) (entries dl) of Some d \<Rightarrow> diag_code d | None \<Rightarrow> kOk)"

text \<open>
  A checker of the library issues a sequence of \<^verbatim>\<open>add\<close> calls on a fresh log of the default
  bound; the sequence is a list and the log it leaves is \<^verbatim>\<open>log_of\<close>.
\<close>

definition kDefaultDiagnosticLimit :: nat where "kDefaultDiagnosticLimit = 64"

definition log_of :: "diagnostic list \<Rightarrow> diagnostic_log" where
  "log_of ds = fold log_add ds (new_log kDefaultDiagnosticLimit)"

section \<open>The bounded log\<close>

lemma diag_simps [simp]:
  "diag_code (diag c) = c" "diag_requirement (diag c) = zero_id"
  "diag_code (diag_req c r) = c" "diag_requirement (diag_req c r) = r"
  by (simp_all add: diag_def diag_req_def)

lemma fold_log_add:
  "length (entries dl) \<le> limit dl \<Longrightarrow>
   fold log_add ds dl =
     dl\<lparr>entries := entries dl @ take (limit dl - length (entries dl)) ds,
         truncated := truncated dl \<or> limit dl < length (entries dl) + length ds\<rparr>"
proof (induction ds arbitrary: dl)
  case (Cons d ds)
  show ?case
  proof (cases "length (entries dl) = limit dl")
    case True
    then have "fold log_add (d # ds) dl = fold log_add ds (dl\<lparr>truncated := True\<rparr>)"
      by (simp add: log_add_def)
    with True Cons.IH [of "dl\<lparr>truncated := True\<rparr>"] show ?thesis by simp
  next
    case False
    with Cons.prems have room: "length (entries dl) < limit dl" by simp
    then have "fold log_add (d # ds) dl = fold log_add ds (dl\<lparr>entries := entries dl @ [d]\<rparr>)"
      by (simp add: log_add_def)
    with room Cons.IH [of "dl\<lparr>entries := entries dl @ [d]\<rparr>"] show ?thesis
      by (auto simp: take_Cons')
  qed
qed simp

lemma log_of_entries: "entries (log_of ds) = take kDefaultDiagnosticLimit ds"
  by (simp add: log_of_def fold_log_add new_log_def kDefaultDiagnosticLimit_def)

lemma log_of_truncated: "truncated (log_of ds) \<longleftrightarrow> kDefaultDiagnosticLimit < length ds"
  by (simp add: log_of_def fold_log_add new_log_def kDefaultDiagnosticLimit_def)

lemma has_errors_log_of:
  "has_errors (log_of ds) \<longleftrightarrow>
     (\<exists>d \<in> set (take kDefaultDiagnosticLimit ds). diag_code d \<noteq> kOk)"
  by (simp add: has_errors_def log_of_entries list_ex_iff diag_ok_def)

text \<open>
  A checker that only ever reports errors loses none of its verdict to the bound: the log has
  errors exactly when something was reported, and its first error is the first thing reported.
\<close>

lemma has_errors_log_of_errors:
  "(\<And>d. d \<in> set ds \<Longrightarrow> diag_code d \<noteq> kOk) \<Longrightarrow> has_errors (log_of ds) \<longleftrightarrow> ds \<noteq> []"
  by (cases ds) (auto simp: has_errors_log_of kDefaultDiagnosticLimit_def dest: in_set_takeD)

lemma first_error_code_log_of_errors:
  "(\<And>d. d \<in> set ds \<Longrightarrow> diag_code d \<noteq> kOk) \<Longrightarrow>
     first_error_code (log_of ds) = (if ds = [] then kOk else diag_code (hd ds))"
  by (cases ds)
    (auto simp: first_error_code_def log_of_entries kDefaultDiagnosticLimit_def diag_ok_def)

lemma first_error_code_ne: "has_errors dl \<Longrightarrow> first_error_code dl \<noteq> kOk"
  by (auto simp: has_errors_def first_error_code_def list_ex_iff diag_ok_def find_None_iff
      dest: find_Some_iff [THEN iffD1] split: option.splits)

section \<open>The code table\<close>

lemma kCodeTable_complete: "c \<in> set (map fst kCodeTable)"
  by (cases c rule: code.exhaust)
    (simp_all add: kCodeTable_def split: protocol_code.splits,
     (rename_tac x, case_tac x; simp)+)

lemma kCodeTable_distinct_codes: "distinct (map fst kCodeTable)"
  by (simp add: kCodeTable_def)

lemma kCodeTable_distinct_tokens: "distinct (map (\<lambda>(c, n, t, d). t) kCodeTable)"
  by (simp add: kCodeTable_def)

lemma kCodeTable_distinct_numbers: "distinct (map (\<lambda>(c, n, t, d). n) kCodeTable)"
  by (simp add: kCodeTable_def)

lemma lookup_code_mem: "(c, lookup_code c) \<in> set kCodeTable"
proof -
  obtain info where "map_of kCodeTable c = Some info"
    using kCodeTable_complete [of c] by (metis list.set_map map_of_eq_None_iff not_Some_eq)
  then show ?thesis by (simp add: lookup_code_def map_of_SomeD)
qed

lemma code_token_inject: "code_token c = code_token c' \<longleftrightarrow> c = c'"
proof
  assume eq: "code_token c = code_token c'"
  have "inj_on (\<lambda>(c, n, t, d). t) (set kCodeTable)"
    using kCodeTable_distinct_tokens by (simp add: distinct_map)
  then have "(c, lookup_code c) = (c', lookup_code c')"
    by (rule inj_onD) (use eq in \<open>auto simp: code_token_def lookup_code_mem split: prod.splits\<close>)
  then show "c = c'" by simp
qed simp

lemma code_number_inject: "code_number c = code_number c' \<longleftrightarrow> c = c'"
proof
  assume eq: "code_number c = code_number c'"
  have "inj_on (\<lambda>(c, n, t, d). n) (set kCodeTable)"
    using kCodeTable_distinct_numbers by (simp add: distinct_map)
  then have "(c, lookup_code c) = (c', lookup_code c')"
    by (rule inj_onD) (use eq in \<open>auto simp: code_number_def lookup_code_mem split: prod.splits\<close>)
  then show "c = c'" by simp
qed simp

section \<open>Properties\<close>

text \<open>
  The reason codes are a stable vocabulary: every code has an entry in the table that
  \<^verbatim>\<open>code_token\<close> searches, and neither two tokens nor two numeric values coincide, so a
  token or a number identifies its code.
\<close>

theorem code_table_identifies:
  "c \<in> set (map fst kCodeTable) \<and>
   (code_token c = code_token c' \<longleftrightarrow> c = c') \<and> (code_number c = code_number c' \<longleftrightarrow> c = c')"
  by (simp only: kCodeTable_complete code_token_inject code_number_inject simp_thms)

text \<open>
  The diagnostic log keeps the first entries up to its limit (at least one), in the order they were
  added, remembers that
  something was dropped exactly when something was, and its first error code is the code of the
  first kept entry that is an error.
\<close>

theorem diagnostic_log_bounded:
  "entries (fold log_add ds (new_log n)) = take (max n 1) ds \<and>
   (truncated (fold log_add ds (new_log n)) \<longleftrightarrow> max n 1 < length ds) \<and>
   (has_errors (fold log_add ds (new_log n)) \<longleftrightarrow>
      first_error_code (fold log_add ds (new_log n)) \<noteq> kOk)"
proof -
  have "first_error_code dl \<noteq> kOk \<Longrightarrow> has_errors dl" for dl
    by (auto simp: first_error_code_def has_errors_def list_ex_iff find_Some_iff
        split: option.splits)
  then show ?thesis
    using first_error_code_ne by (cases n) (auto simp: fold_log_add new_log_def max_def le_Suc_eq)
qed

end
