(* ===== verification/Wnc_Hash.thy ===== *)
theory Wnc_Hash
  imports Wnc_Identity
begin

text \<open>
  Digests and integrity primitives: \<^verbatim>\<open>include/wnc/hash.hpp\<close> and \<^verbatim>\<open>src/hash.cpp\<close>. The
  streaming \<^verbatim>\<open>Sha256\<close> class is modelled with its buffer and counters, next to the one shot
  reference it has to agree with; CRC-32 is modelled with its table, next to the bitwise
  reference. The theory shows that feeding a message in pieces does not change its digest, that
  the length prefixed concatenation of \<^verbatim>\<open>sha256_parts\<close> is injective, that the table driven CRC
  is the bitwise one, and that the constant time comparison is equality.
\<close>

section \<open>SHA-256\<close>

text \<open>The round constants, in decimal.\<close>

definition kSha256RoundConstants :: "u32 list" where
  "kSha256RoundConstants =
    [1116352408, 1899447441, 3049323471, 3921009573, 961987163, 1508970993, 2453635748,
     2870763221, 3624381080, 310598401, 607225278, 1426881987, 1925078388, 2162078206,
     2614888103, 3248222580, 3835390401, 4022224774, 264347078, 604807628, 770255983,
     1249150122, 1555081692, 1996064986, 2554220882, 2821834349, 2952996808, 3210313671,
     3336571891, 3584528711, 113926993, 338241895, 666307205, 773529912, 1294757372,
     1396182291, 1695183700, 1986661051, 2177026350, 2456956037, 2730485921, 2820302411,
     3259730800, 3345764771, 3516065817, 3600352804, 4094571909, 275423344, 430227734,
     506948616, 659060556, 883997877, 958139571, 1322822218, 1537002063, 1747873779,
     1955562222, 2024104815, 2227730452, 2361852424, 2428436474, 2756734187, 3204031479,
     3329325298]"

definition rotate_right :: "u32 \<Rightarrow> nat \<Rightarrow> u32" where
  "rotate_right value shift = drop_bit shift value OR push_bit (32 - shift) value"

definition choose_bits :: "u32 \<Rightarrow> u32 \<Rightarrow> u32 \<Rightarrow> u32" where
  "choose_bits x y z = (x AND y) XOR (NOT x AND z)"

definition majority :: "u32 \<Rightarrow> u32 \<Rightarrow> u32 \<Rightarrow> u32" where
  "majority x y z = (x AND y) XOR (x AND z) XOR (y AND z)"

definition read_be32 :: "u8 \<Rightarrow> u8 \<Rightarrow> u8 \<Rightarrow> u8 \<Rightarrow> u32" where
  "read_be32 p0 p1 p2 p3 =
     push_bit 24 (ucast p0) OR push_bit 16 (ucast p1) OR push_bit 8 (ucast p2) OR ucast p3"

definition write_be32 :: "u32 \<Rightarrow> bytes" where
  "write_be32 value =
     [ucast (drop_bit 24 value AND 0xFF), ucast (drop_bit 16 value AND 0xFF),
      ucast (drop_bit 8 value AND 0xFF), ucast (value AND 0xFF)]"

definition write_be64 :: "u64 \<Rightarrow> bytes" where
  "write_be64 value = map (\<lambda>i. ucast (drop_bit (8 * (7 - i)) value AND 0xFF)) [0..<8]"

text \<open>The message schedule \<^verbatim>\<open>w[64]\<close>: sixteen words of the block, then 48 derived ones.\<close>

fun block_words :: "bytes \<Rightarrow> u32 list" where
  "block_words (a # b # c # d # rest) = read_be32 a b c d # block_words rest"
| "block_words _ = []"

definition schedule_word :: "u32 list \<Rightarrow> nat \<Rightarrow> u32" where
  "schedule_word w i =
     (let x0 = w ! (i - 15); x1 = w ! (i - 2);
          s0 = rotate_right x0 7 XOR rotate_right x0 18 XOR drop_bit 3 x0;
          s1 = rotate_right x1 17 XOR rotate_right x1 19 XOR drop_bit 10 x1
      in w ! (i - 16) + s0 + w ! (i - 7) + s1)"

fun extend_schedule :: "nat \<Rightarrow> u32 list \<Rightarrow> u32 list" where
  "extend_schedule 0 w = w"
| "extend_schedule (Suc n) w = extend_schedule n (w @ [schedule_word w (length w)])"

type_synonym sha_regs = "u32 \<times> u32 \<times> u32 \<times> u32 \<times> u32 \<times> u32 \<times> u32 \<times> u32"

fun sha_round :: "u32 \<Rightarrow> u32 \<Rightarrow> sha_regs \<Rightarrow> sha_regs" where
  "sha_round k w (a, b, c, d, e, f, g, h) =
     (let s1 = rotate_right e 6 XOR rotate_right e 11 XOR rotate_right e 25;
          ch = choose_bits e f g;
          temp1 = h + s1 + ch + k + w;
          s0 = rotate_right a 2 XOR rotate_right a 13 XOR rotate_right a 22;
          maj = majority a b c;
          temp2 = s0 + maj
      in (temp1 + temp2, a, b, c, d + temp1, e, f, g))"

fun sha_rounds :: "u32 list \<Rightarrow> u32 list \<Rightarrow> sha_regs \<Rightarrow> sha_regs" where
  "sha_rounds (k # ks) (w # ws) r = sha_rounds ks ws (sha_round k w r)"
| "sha_rounds _ _ r = r"

fun add_regs :: "sha_regs \<Rightarrow> sha_regs \<Rightarrow> sha_regs" where
  "add_regs (a, b, c, d, e, f, g, h) (a', b', c', d', e', f', g', h') =
     (a + a', b + b', c + c', d + d', e + e', f + f', g + g', h + h')"

definition compress :: "sha_regs \<Rightarrow> bytes \<Rightarrow> sha_regs" where
  "compress st block =
     add_regs st
       (sha_rounds kSha256RoundConstants (extend_schedule 48 (block_words block)) st)"

definition sha_init :: sha_regs where
  "sha_init = (0x6a09e667, 0xbb67ae85, 0x3c6ef372, 0xa54ff53a,
               0x510e527f, 0x9b05688c, 0x1f83d9ab, 0x5be0cd19)"

text \<open>
  The class: registers, the buffered bytes (the first \<^verbatim>\<open>buffered_\<close> bytes of
  \<^verbatim>\<open>buffer_\<close>), the byte counter and the finished flag.
\<close>

record sha256_hasher =
  sha_state :: sha_regs
  sha_buffer :: bytes
  sha_total :: u64
  sha_finished :: bool

definition sha256_new :: sha256_hasher where
  "sha256_new = \<lparr>sha_state = sha_init, sha_buffer = [], sha_total = 0, sha_finished = False\<rparr>"

text \<open>The block loop of \<^verbatim>\<open>update\<close>: whole blocks straight from the input.\<close>

function compress_blocks :: "sha_regs \<Rightarrow> bytes \<Rightarrow> sha_regs \<times> bytes" where
  "compress_blocks st bs =
     (if 64 \<le> length bs then compress_blocks (compress st (take 64 bs)) (drop 64 bs)
      else (st, bs))"
  by pat_completeness auto
termination by (relation "measure (length \<circ> snd)") auto

declare compress_blocks.simps [simp del]

definition sha256_update :: "sha256_hasher \<Rightarrow> bytes \<Rightarrow> sha256_hasher" where
  "sha256_update h bs =
     (if sha_finished h then h
      else
        let total = sha_total h + of_nat (length bs);
            (st, buf, rest) =
              (if sha_buffer h \<noteq> [] then
                 let want = 64 - length (sha_buffer h);
                     n = min (length bs) want;
                     buf = sha_buffer h @ take n bs
                 in if length buf = 64 then (compress (sha_state h) buf, [], drop n bs)
                    else (sha_state h, buf, drop n bs)
               else (sha_state h, [], bs));
            (st, rest) = compress_blocks st rest
        in h\<lparr>sha_state := st, sha_buffer := (if rest \<noteq> [] then rest else buf),
             sha_total := total\<rparr>)"

fun regs_bytes :: "sha_regs \<Rightarrow> bytes" where
  "regs_bytes (a, b, c, d, e, f, g, h) = concat (map write_be32 [a, b, c, d, e, f, g, h])"

definition sha256_finish :: "sha256_hasher \<Rightarrow> sha256_hasher" where
  "sha256_finish h =
     (if sha_finished h then h
      else
        let bit_length = sha_total h * 8;
            buffered = length (sha_buffer h);
            pad_len = (if buffered < 56 then 56 - buffered else 120 - buffered);
            h1 = sha256_update h (take pad_len (0x80 # replicate 127 0));
            h2 = sha256_update h1 (write_be64 bit_length)
        in h2\<lparr>sha_finished := True\<rparr>)"

definition sha256_digest :: "sha256_hasher \<Rightarrow> digest" where
  "sha256_digest h = regs_bytes (sha_state (sha256_finish h))"

definition sha256 :: "bytes \<Rightarrow> digest" where
  "sha256 bs = sha256_digest (sha256_update sha256_new bs)"

definition length_prefix :: "string \<Rightarrow> bytes" where
  "length_prefix part =
     (if length part > 0xFFFFFFFF then [0xFF, 0xFF, 0xFF, 0xFF] @ sha256 (bytes_of part)
      else write_be32 (of_nat (length part)) @ bytes_of part)"

text \<open>
  \<^verbatim>\<open>sha256_parts\<close> feeds each part's length and bytes to one hasher. A part above 4 GiB is
  replaced by a marker and its digest.
\<close>

fun sha256_parts_from :: "sha256_hasher \<Rightarrow> string list \<Rightarrow> sha256_hasher" where
  "sha256_parts_from h [] = h"
| "sha256_parts_from h (part # parts) =
     (if length part > 0xFFFFFFFF then
        sha256_parts_from
          (sha256_update (sha256_update h [0xFF, 0xFF, 0xFF, 0xFF]) (sha256 (bytes_of part))) parts
      else
        sha256_parts_from
          (sha256_update (sha256_update h (write_be32 (of_nat (length part)))) (bytes_of part))
          parts)"

definition sha256_parts :: "string list \<Rightarrow> digest" where
  "sha256_parts parts = sha256_digest (sha256_parts_from sha256_new parts)"

section \<open>HMAC and comparison\<close>

definition hmac_sha256 :: "bytes \<Rightarrow> bytes \<Rightarrow> digest" where
  "hmac_sha256 key message =
     (let material = (if length key > 64 then sha256 key else key);
          padded = material @ replicate (64 - length material) 0;
          inner = map (\<lambda>b. b XOR 0x36) padded;
          outer = map (\<lambda>b. b XOR 0x5C) padded;
          inner_digest = sha256_digest (sha256_update (sha256_update sha256_new inner) message)
      in sha256_digest (sha256_update (sha256_update sha256_new outer) inner_digest))"

definition constant_time_equal :: "bytes \<Rightarrow> bytes \<Rightarrow> bool" where
  "constant_time_equal a b =
     (if length a \<noteq> length b then False
      else fold (\<lambda>(x, y) difference. difference OR (x XOR y)) (zip a b) 0 = 0)"

section \<open>CRC-32\<close>

definition crc_step :: "u32 \<Rightarrow> u32" where
  "crc_step value = (if value AND 1 \<noteq> 0 then 0xEDB88320 XOR drop_bit 1 value else drop_bit 1 value)"

definition crc_table_entry :: "u32 \<Rightarrow> u32" where
  "crc_table_entry i = (crc_step ^^ 8) i"

definition crc_table :: "u32 list" where
  "crc_table = map (\<lambda>i. crc_table_entry (of_nat i)) [0..<256]"

definition crc32_continued :: "u32 \<Rightarrow> bytes \<Rightarrow> u32" where
  "crc32_continued state bs =
     fold (\<lambda>byte crc. crc_table ! unat ((crc XOR ucast byte) AND 0xFF) XOR drop_bit 8 crc) bs state"

definition crc32 :: "bytes \<Rightarrow> u32" where
  "crc32 bs = crc32_continued 0xFFFFFFFF bs XOR 0xFFFFFFFF"

section \<open>Domain separated digests\<close>

definition digest_domain :: "string \<Rightarrow> string \<Rightarrow> digest" where
  "digest_domain domain payload = sha256_parts [''wnc/v1'', domain, payload]"

definition digest_domain_generation :: "string \<Rightarrow> string \<Rightarrow> u64 \<Rightarrow> digest" where
  "digest_domain_generation domain payload generation =
     sha256_parts [''wnc/v1'', domain, payload, string_of (write_be64 generation)]"

definition tool_identity :: "string \<Rightarrow> ident" where
  "tool_identity name = from_digest (sha256_parts [''wnc/tool'', name])"

section \<open>Streaming and one shot hashing agree\<close>

text \<open>
  The interface of a hash that works block by block: a compression function, the size of a block
  and the loop that compresses whole blocks and leaves the rest. SHA-256 here and SHA-512 in
  \<^verbatim>\<open>Wnc_Sha512\<close> are its two instances.
\<close>

locale block_hash =
  fixes comp :: "'st \<Rightarrow> bytes \<Rightarrow> 'st" and block :: nat
    and blocks :: "'st \<Rightarrow> bytes \<Rightarrow> 'st \<times> bytes"
  assumes block_pos: "0 < block"
    and blocks_rec: "blocks st bs =
      (if block \<le> length bs then blocks (comp st (take block bs)) (drop block bs) else (st, bs))"
begin

lemma blocks_short: "length bs < block \<Longrightarrow> blocks st bs = (st, bs)"
  by (simp add: blocks_rec [of st bs])

lemma blocks_block: "length b = block \<Longrightarrow> blocks st (b @ bs) = blocks (comp st b) bs"
  by (simp add: blocks_rec [of st "b @ bs"])

lemma blocks_append:
  "blocks st (as @ bs) = (case blocks st as of (st', rest) \<Rightarrow> blocks st' (rest @ bs))"
proof (induction as arbitrary: st rule: length_induct)
  case (1 as)
  show ?case
  proof (cases "block \<le> length as")
    case True
    then have "blocks st (as @ bs) = blocks (comp st (take block as)) (drop block as @ bs)"
      using blocks_block [of "take block as" st "drop block as @ bs"] by (simp flip: append_assoc)
    with 1 True block_pos show ?thesis by (simp add: blocks_rec [of st as])
  next
    case False
    then show ?thesis by (simp add: blocks_short)
  qed
qed

lemma blocks_length: "length (snd (blocks st bs)) = length bs mod block"
proof (induction bs arbitrary: st rule: length_induct)
  case (1 bs)
  then show ?case
    using block_pos by (cases "block \<le> length bs") (simp_all add: blocks_rec [of st bs] le_mod_geq)
qed

lemma blocks_rest: "length (snd (blocks st bs)) < block"
  using block_pos by (simp add: blocks_length)

text \<open>What an update does to registers and buffer, without its case distinctions.\<close>

lemma absorb_eq:
  assumes "length buf < block"
  shows "(case (if buf \<noteq> [] then
        (if length (buf @ take (min (length bs) (block - length buf)) bs) = block
         then (comp st (buf @ take (min (length bs) (block - length buf)) bs), [],
               drop (min (length bs) (block - length buf)) bs)
         else (st, buf @ take (min (length bs) (block - length buf)) bs,
               drop (min (length bs) (block - length buf)) bs))
        else (st, [], bs)) of (st1, buf1, rest) \<Rightarrow>
      (case blocks st1 rest of (st2, rest2) \<Rightarrow> F st2 (if rest2 \<noteq> [] then rest2 else buf1))) =
    (case blocks st (buf @ bs) of (st2, buf2) \<Rightarrow> F st2 buf2)"
proof (cases "buf = []")
  case True
  then show ?thesis by (auto split: prod.split)
next
  case False
  let ?want = "block - length buf"
  show ?thesis
  proof (cases "length bs < ?want")
    case True
    with False assms show ?thesis by (auto simp: Let_def blocks_short)
  next
    case full: False
    then have len: "length (buf @ take ?want bs) = block" using assms by auto
    have "buf @ bs = (buf @ take ?want bs) @ drop ?want bs" by simp
    then have "blocks st (buf @ bs) = blocks (comp st (buf @ take ?want bs)) (drop ?want bs)"
      using blocks_block [OF len] by metis
    with False full assms len show ?thesis by (auto simp: Let_def min_def split: prod.split)
  qed
qed

end

interpretation s256: block_hash compress 64 compress_blocks
  by unfold_locales (simp, rule compress_blocks.simps)

lemmas compress_blocks_short [simp] = s256.blocks_short

lemmas compress_blocks_append = s256.blocks_append

lemmas compress_blocks_rest = s256.blocks_rest

lemmas compress_blocks_length = s256.blocks_length

text \<open>The hasher's invariant: less than a block is buffered.\<close>

definition hasher_ok :: "sha256_hasher \<Rightarrow> bool" where
  "hasher_ok h = (length (sha_buffer h) < 64 \<and> \<not> sha_finished h)"

lemma hasher_ok_new [simp]: "hasher_ok sha256_new"
  by (simp add: hasher_ok_def sha256_new_def)

text \<open>What \<^verbatim>\<open>update\<close> does, without its case distinctions.\<close>

lemma sha256_update_eq:
  assumes "hasher_ok h"
  shows "sha256_update h bs =
    (case compress_blocks (sha_state h) (sha_buffer h @ bs) of
       (st, rest) \<Rightarrow> h\<lparr>sha_state := st, sha_buffer := rest, sha_total := sha_total h + of_nat (length bs)\<rparr>)"
  unfolding sha256_update_def Let_def
  using assms s256.absorb_eq [of "sha_buffer h"
      "\<lambda>st b. h\<lparr>sha_state := st, sha_buffer := b, sha_total := sha_total h + of_nat (length bs)\<rparr>"
      bs "sha_state h"]
  by (simp only: hasher_ok_def if_False)

lemma hasher_ok_update: "hasher_ok h \<Longrightarrow> hasher_ok (sha256_update h bs)"
  using compress_blocks_rest [of "sha_state h" "sha_buffer h @ bs"]
  by (auto simp: sha256_update_eq hasher_ok_def split: prod.splits)

lemma sha256_update_append:
  assumes "hasher_ok h"
  shows "sha256_update (sha256_update h as) bs = sha256_update h (as @ bs)"
proof -
  obtain st rest where 1: "compress_blocks (sha_state h) (sha_buffer h @ as) = (st, rest)"
    by fastforce
  show ?thesis
    using hasher_ok_update [OF assms, of as] 1 compress_blocks_append [of "sha_state h" "sha_buffer h @ as" bs]
    by (simp add: sha256_update_eq assms split: prod.split)
qed

lemma sha256_update_Nil: "hasher_ok h \<Longrightarrow> sha256_update h [] = h"
  by (simp add: sha256_update_eq hasher_ok_def)

lemma hasher_ok_updates: "hasher_ok h \<Longrightarrow> hasher_ok (fold (\<lambda>c h. sha256_update h c) cs h)"
  by (induction cs arbitrary: h) (simp_all add: hasher_ok_update)

lemma sha256_updates:
  "hasher_ok h \<Longrightarrow> fold (\<lambda>c h. sha256_update h c) cs h = sha256_update h (concat cs)"
  by (induction cs arbitrary: h) (simp_all add: sha256_update_Nil sha256_update_append hasher_ok_update)

lemma length_write_be32 [simp, wnc_length]: "length (write_be32 v) = 4"
  by (simp add: write_be32_def)

lemma length_write_be64 [simp, wnc_length]: "length (write_be64 v) = 8"
  by (simp add: write_be64_def)

lemma length_regs_bytes [simp]: "length (regs_bytes r) = 32"
  by (cases r rule: regs_bytes.cases) (simp add: wnc_length)

lemma length_sha256_digest [simp]: "length (sha256_digest h) = 32"
  by (simp add: sha256_digest_def)

lemma length_sha256 [simp]: "length (sha256 bs) = 32"
  by (simp add: sha256_def)

text \<open>The padded message the standard defines; \<^verbatim>\<open>sha256\<close> compresses exactly its blocks.\<close>

definition sha256_padding :: "nat \<Rightarrow> bytes" where
  "sha256_padding n =
     0x80 # replicate ((119 - n mod 64) mod 64) 0 @ write_be64 (of_nat n * 8)"

definition sha256_reference :: "bytes \<Rightarrow> digest" where
  "sha256_reference bs = regs_bytes (fst (compress_blocks sha_init (bs @ sha256_padding (length bs))))"

lemma padding_take: "m \<noteq> 0 \<Longrightarrow> m \<le> 128 \<Longrightarrow> take m (0x80 # replicate 127 0) = (0x80 :: u8) # replicate (m - 1) 0"
  by (cases m) (auto simp: min_def)

lemma pad_len_padding:
  assumes "b < 64"
  shows "take (if b < 56 then 56 - b else 120 - b) (0x80 # replicate 127 0) = (0x80 :: u8) # replicate ((119 - b) mod 64) 0"
proof (cases "b < 56")
  case True
  then have "(119 - b) mod 64 = (55 - b)" by (simp add: mod_if)
  with True show ?thesis by (simp add: padding_take)
next
  case False
  with assms have "(119 - b) mod 64 = 119 - b" by simp
  with False assms show ?thesis by (simp add: padding_take)
qed

lemma sha_state_update_new:
  "sha_state (sha256_update sha256_new bs) = fst (compress_blocks sha_init bs)"
  by (cases "compress_blocks sha_init bs") (simp add: sha256_update_eq, simp add: sha256_new_def)

section \<open>Length prefixed parts\<close>

lemma sha256_parts_from_eq:
  "hasher_ok h \<Longrightarrow> sha256_parts_from h ps = sha256_update h (concat (map length_prefix ps))"
  by (induction ps arbitrary: h)
    (simp_all add: sha256_update_Nil length_prefix_def sha256_update_append hasher_ok_update)

lemma sha256_parts_eq: "sha256_parts ps = sha256 (concat (map length_prefix ps))"
  by (simp add: sha256_parts_def sha256_def sha256_parts_from_eq)

lemma ucast_low_byte [simp]: "(ucast ((x :: 'a::len word) AND 0xFF) :: u8) = ucast x"
proof -
  have m: "(0xFF :: 'a word) = mask 8" by (simp add: mask_eq_decr_exp)
  show ?thesis
    unfolding m by (intro bit_word_eqI) (auto simp: bit_simps dest: bit_imp_le_length simp del: mask_numeral)
qed

lemma read_write_be32:
  "read_be32 (ucast (drop_bit 24 v)) (ucast (drop_bit 16 v)) (ucast (drop_bit 8 v)) (ucast v) = v"
proof (rule bit_word_eqI)
  fix n assume n: "n < LENGTH(32)"
  consider "n < 8" | "8 \<le> n" "n < 16" | "16 \<le> n" "n < 24" | "24 \<le> n" by linarith
  then show "bit (read_be32 (ucast (drop_bit 24 v)) (ucast (drop_bit 16 v)) (ucast (drop_bit 8 v)) (ucast v)) n = bit v n"
    using n by cases (auto simp: read_be32_def bit_simps)
qed

lemma write_be32_inject [simp]: "write_be32 v = write_be32 w \<longleftrightarrow> v = w"
proof
  assume "write_be32 v = write_be32 w"
  then have "(ucast (drop_bit 24 v) :: u8) = ucast (drop_bit 24 w)"
    "(ucast (drop_bit 16 v) :: u8) = ucast (drop_bit 16 w)"
    "(ucast (drop_bit 8 v) :: u8) = ucast (drop_bit 8 w)" "(ucast v :: u8) = ucast w"
    by (simp_all only: write_be32_def ucast_low_byte list.inject)
  then show "v = w"
    using read_write_be32 [of v] read_write_be32 [of w] by metis
qed simp

lemma length_prefix_append_inject:
  assumes "length p < 0xFFFFFFFF" "length q < 0xFFFFFFFF"
    and "length_prefix p @ xs = length_prefix q @ ys"
  shows "p = q \<and> xs = ys"
proof -
  have "write_be32 (of_nat (length p)) @ (bytes_of p @ xs) = write_be32 (of_nat (length q)) @ (bytes_of q @ ys)"
    using assms by (simp add: length_prefix_def)
  then have w: "write_be32 (of_nat (length p)) = write_be32 (of_nat (length q))"
    and r: "bytes_of p @ xs = bytes_of q @ ys"
    by (simp_all add: append_eq_append_conv)
  from w have "(of_nat (length p) :: u32) = of_nat (length q)" by simp
  then have "length p = length q"
    using assms(1,2) by (simp add: word_of_nat_eq_iff take_bit_nat_eq_self)
  with r show ?thesis by simp
qed

lemma length_prefix_nonempty [simp]: "length_prefix p \<noteq> []"
  by (simp add: length_prefix_def write_be32_def)

lemma length_prefixes_inject:
  assumes "list_all (\<lambda>p. length p < 0xFFFFFFFF) ps" "list_all (\<lambda>p. length p < 0xFFFFFFFF) qs"
    and "concat (map length_prefix ps) = concat (map length_prefix qs)"
  shows "ps = qs"
  using assms
proof (induction ps arbitrary: qs)
  case Nil
  then show ?case by (cases qs) auto
next
  case (Cons p ps)
  from Cons.prems(3) obtain q qs' where qs: "qs = q # qs'" by (cases qs) auto
  have "p = q \<and> concat (map length_prefix ps) = concat (map length_prefix qs')"
    by (rule length_prefix_append_inject) (use Cons.prems qs in simp_all)
  with Cons qs show ?case by simp
qed

section \<open>Comparison and CRC\<close>

lemma fold_or_zero:
  "fold (\<lambda>(x, y) d. d OR (x XOR y)) ps (d :: u8) = 0 \<longleftrightarrow> d = 0 \<and> (\<forall>(x, y)\<in>set ps. x = y)"
proof (induction ps arbitrary: d)
  case (Cons p ps)
  have "a XOR b = 0 \<longleftrightarrow> a = b" for a b :: u8
    by (metis xor.right_neutral xor.assoc xor_self_eq xor.left_neutral)
  then show ?case using Cons by (cases p) (auto simp: or_eq_0_iff)
qed simp

lemma constant_time_equal_iff: "constant_time_equal a b \<longleftrightarrow> a = b"
proof -
  have "length a = length b \<Longrightarrow> (\<forall>(x, y)\<in>set (zip a b). x = y) \<longleftrightarrow> a = b"
    by (induction a b rule: list_induct2) auto
  then show ?thesis by (auto simp: constant_time_equal_def fold_or_zero)
qed

definition crc32_bitwise :: "bytes \<Rightarrow> u32 \<Rightarrow> u32" where
  "crc32_bitwise = fold (\<lambda>byte crc. (crc_step ^^ 8) (crc XOR ucast byte))"

lemma crc_step_odd: "crc_step v = (if odd v then 0xEDB88320 XOR drop_bit 1 v else drop_bit 1 v)"
  by (simp add: crc_step_def and_one_eq odd_iff_mod_2_eq_one)

lemma crc_step_xor_even:
  "\<not> bit hi 0 \<Longrightarrow> crc_step (hi XOR lo) = drop_bit 1 hi XOR crc_step lo"
proof -
  assume "\<not> bit hi 0"
  then have "odd (hi XOR lo) \<longleftrightarrow> odd lo" by (metis bit_0 bit_xor_iff)
  then show ?thesis by (simp add: crc_step_odd ac_simps)
qed

lemma high_part:
  fixes x :: u32
  shows "drop_bit 8 (x AND NOT 0xFF) = drop_bit 8 x" "i < 8 \<Longrightarrow> \<not> bit (x AND NOT 0xFF) i"
proof -
  have m: "(0xFF :: u32) = mask 8" by (simp add: mask_eq_decr_exp)
  show "drop_bit 8 (x AND NOT 0xFF) = drop_bit 8 x"
    unfolding m by (intro bit_word_eqI)
      (auto simp: bit_simps dest: bit_imp_le_length simp del: mask_numeral)
  show "i < 8 \<Longrightarrow> \<not> bit (x AND NOT 0xFF) i"
    unfolding m by (auto simp: bit_simps simp del: mask_numeral)
qed

lemma crc_steps_xor:
  "(\<And>i. i < n \<Longrightarrow> \<not> bit hi i) \<Longrightarrow> (crc_step ^^ n) (hi XOR lo) = drop_bit n hi XOR (crc_step ^^ n) lo"
proof (induction n)
  case (Suc n)
  then show ?case
    by (simp add: crc_step_xor_even bit_simps drop_bit_drop_bit)
qed simp

lemma crc_table_nth: "crc_table ! unat ((x :: u32) AND 0xFF) = (crc_step ^^ 8) (x AND 0xFF)"
proof -
  have "x AND 0xFF = take_bit 8 x" by (simp add: take_bit_eq_mask mask_eq_decr_exp)
  then have "unat (x AND 0xFF) < 256"
    by (simp add: unsigned_take_bit_eq take_bit_nat_less_exp [of 8, simplified])
  then show ?thesis by (simp add: crc_table_def crc_table_entry_def)
qed

lemma crc_table_step:
  "crc_table ! unat ((crc XOR ucast (byte :: u8)) AND 0xFF) XOR drop_bit 8 crc =
     (crc_step ^^ 8) (crc XOR ucast byte)"
proof -
  let ?x = "crc XOR ucast byte"
  have "drop_bit 8 ?x = drop_bit 8 crc"
    by (rule bit_word_eqI) (auto simp: bit_simps)
  moreover have "?x = (?x AND NOT m) XOR (?x AND m)" for m
    by (rule bit_word_eqI) (auto simp: bit_simps)
  moreover have "(crc_step ^^ 8) ((?x AND NOT 0xFF) XOR (?x AND 0xFF)) =
      drop_bit 8 (?x AND NOT 0xFF) XOR (crc_step ^^ 8) (?x AND 0xFF)"
    by (rule crc_steps_xor) (rule high_part)
  ultimately show ?thesis by (simp only: crc_table_nth high_part(1) xor.commute)
qed

lemma crc32_continued_bitwise: "crc32_continued crc bs = crc32_bitwise bs crc"
  by (simp add: crc32_continued_def crc32_bitwise_def crc_table_step)

lemma crc32_continued_append: "crc32_continued crc (as @ bs) = crc32_continued (crc32_continued crc as) bs"
  by (simp add: crc32_continued_def)

lemma sha256_finish_final:
  "sha256_update (sha256_finish h) bs = sha256_finish h"
  "sha256_finish (sha256_finish h) = sha256_finish h"
  by (simp_all add: sha256_update_def sha256_finish_def Let_def)

section \<open>Properties\<close>

text \<open>
  Feeding a message to the streaming \<^verbatim>\<open>Sha256\<close> class in any pieces, and then asking for
  the digest, gives the digest of the whole message in one call.
\<close>

theorem sha256_chunked:
  "sha256_digest (fold (\<lambda>c h. sha256_update h c) cs sha256_new) = sha256 (concat cs)"
  by (simp add: sha256_updates sha256_def)

text \<open>
  C37: The buffered class computes the digest of the standard: it compresses exactly the blocks of
  the message followed by \<^verbatim>\<open>0x80\<close>, the zeros and the bit length that fill the last block.
\<close>

theorem sha256_is_reference: "sha256 bs = sha256_reference bs"
proof -
  define h where "h = sha256_update sha256_new bs"
  have ok: "hasher_ok h" by (simp add: h_def hasher_ok_update)
  have buf: "length (sha_buffer h) = length bs mod 64" and tot: "sha_total h = of_nat (length bs)"
    using compress_blocks_length [of sha_init bs]
    by (auto simp: h_def sha256_update_eq sha256_new_def hasher_ok_def split: prod.split)
  let ?h2 = "sha256_update h (sha256_padding (length bs))"
  have "sha256_finish h = ?h2 \<lparr>sha_finished := True\<rparr>"
    using ok buf tot pad_len_padding [of "length bs mod 64"]
    by (simp add: sha256_finish_def Let_def sha256_update_append hasher_ok_def [of h] sha256_padding_def)
  moreover have "?h2 = sha256_update sha256_new (bs @ sha256_padding (length bs))"
    by (simp add: h_def sha256_update_append)
  ultimately show ?thesis
    by (simp add: sha256_def flip: h_def)
      (simp add: sha256_digest_def sha256_reference_def sha_state_update_new)
qed

text \<open>
  The length prefixed concatenation of \<^verbatim>\<open>sha256_parts\<close> is unambiguous for parts shorter
  than \<^verbatim>\<open>0xFFFFFFFF\<close> bytes: two part lists with the same digest are equal, or they exhibit a
  collision of SHA-256 itself. No boundary can be shifted from one part to its neighbour.
\<close>

theorem sha256_parts_unambiguous:
  assumes "list_all (\<lambda>p. length p < 0xFFFFFFFF) ps" "list_all (\<lambda>p. length p < 0xFFFFFFFF) qs"
    and "sha256_parts ps = sha256_parts qs"
  shows "ps = qs \<or> (\<exists>a b. a \<noteq> b \<and> sha256 a = sha256 b)"
  using assms length_prefixes_inject unfolding sha256_parts_eq by blast

theorem sha256_parts_unambiguous_witness:
  "[''wnc/v1'', ''requirement'', ''x''] = [''wnc/v1'', ''requirement'', ''x''] \<or>
     (\<exists>a b. a \<noteq> b \<and> sha256 a = sha256 b)"
  by (rule sha256_parts_unambiguous) simp_all

text \<open>
  The table driven CRC-32 of the frames is the bitwise CRC-32 (polynomial
  \<^verbatim>\<open>0xEDB88320\<close>, reflected), for every start value, and may be continued across pieces.
\<close>

theorem crc32_table_is_bitwise:
  "crc32_continued crc (as @ bs) = crc32_bitwise bs (crc32_bitwise as crc)"
  by (simp add: crc32_continued_append flip: crc32_continued_bitwise)

text \<open>
  The comparison that does not leave its loop early decides equality of the byte strings.
\<close>

theorem constant_time_equal_is_equality: "constant_time_equal a b \<longleftrightarrow> a = b"
  by (rule constant_time_equal_iff)

end
