(* ===== verification/Wnc_Json.thy ===== *)
theory Wnc_Json
  imports Wnc_Error
begin

text \<open>
  The bounded canonical JSON subset of \<^verbatim>\<open>include/wnc/json.hpp\<close> and \<^verbatim>\<open>src/json.cpp\<close>: the
  value type, the canonical serializer with its budget, the canonical form of reals, the strict
  single pass parser, and the field readers with their codes. Positions of the parser are modelled
  by the text that remains, so an error offset is the length of the text minus what remains.
  The main results are that the decoder always returns, and that decoding what the serializer
  wrote gives the value back (for values without reals, within the decoder's bounds); two further
  results show where the canonical form of reals is not injective.
\<close>

section \<open>Values\<close>

datatype json =
    JNull
  | JBool bool
  | JInt int
  | JReal double
  | JString string
  | JArray "json list"
  | JObject "(string \<times> json) list"

definition json_u64 :: "u64 \<Rightarrow> json" where
  "json_u64 value = JInt (sint value)"

fun is_object :: "json \<Rightarrow> bool" where
  "is_object (JObject _) = True"
| "is_object _ = False"

fun object_of :: "json \<Rightarrow> (string, json) smap" where
  "object_of (JObject m) = m"
| "object_of _ = []"

fun array_of :: "json \<Rightarrow> json list" where
  "array_of (JArray items) = items"
| "array_of _ = []"

definition json_find :: "json \<Rightarrow> string \<Rightarrow> json option" where
  "json_find j key = map_of (object_of j) key"

definition json_set :: "string \<Rightarrow> json \<Rightarrow> json \<Rightarrow> json" where
  "json_set key value j = JObject (map_put key value (object_of j))"

definition json_push :: "json \<Rightarrow> json \<Rightarrow> json" where
  "json_push value j = JArray (array_of j @ [value])"

text \<open>A document built by a sequence of \<^verbatim>\<open>set\<close> calls on a fresh value.\<close>

definition json_sets :: "(string \<times> json) list \<Rightarrow> json \<Rightarrow> json" where
  "json_sets kvs j = fold (\<lambda>(k, v). json_set k v) kvs j"

fun json_size :: "json \<Rightarrow> nat" where
  "json_size (JArray items) = length items"
| "json_size (JObject m) = length m"
| "json_size (JString s) = length s"
| "json_size _ = 0"

section \<open>Binary64 and decimal text\<close>

text \<open>
  \<^verbatim>\<open>static_cast<double>\<close>, \<^verbatim>\<open>std::from_chars\<close> and \<^verbatim>\<open>std::to_chars\<close> for \<^verbatim>\<open>double\<close> are
  those of IEEE 754 binary64: correct rounding (nearest, ties to even) of an exact rational, and
  the shortest decimal that rounds back, in fixed notation unless scientific is shorter.
\<close>

definition scale :: "rat \<Rightarrow> int \<Rightarrow> rat" where
  "scale b e = (if 0 \<le> e then b ^ nat e else 1 / b ^ nat (- e))"

fun ilog2 :: "nat \<Rightarrow> nat" where
  "ilog2 n = (if n < 2 then 0 else Suc (ilog2 (n div 2)))"

declare ilog2.simps [simp del]

text \<open>The greatest \<^verbatim>\<open>e\<close> with \<^verbatim>\<open>b ^ e \<le> q\<close>, for a positive \<^verbatim>\<open>q\<close> and \<^verbatim>\<open>b\<close> two or ten.\<close>

definition floor_log2 :: "rat \<Rightarrow> int" where
  "floor_log2 q =
     (if 1 \<le> q then int (ilog2 (nat \<lfloor>q\<rfloor>)) else - int (ilog2 (nat (\<lceil>1 / q\<rceil> - 1)) + 1))"

definition floor_log10 :: "rat \<Rightarrow> int" where
  "floor_log10 q =
     (if 1 \<le> q then int (length (to_string_nat (nat \<lfloor>q\<rfloor>))) - 1
      else - int (length (to_string_nat (nat (\<lceil>1 / q\<rceil> - 1)))))"

definition round_half_even :: "rat \<Rightarrow> int" where
  "round_half_even q =
     (let f = \<lfloor>q\<rfloor>; r = q - of_int f
      in if r < 1 / 2 then f else if r > 1 / 2 then f + 1 else if even f then f else f + 1)"

definition round_positive :: "rat \<Rightarrow> rat option" where
  "round_positive q =
     (let e = max (floor_log2 q - 52) (- 1074);
          m = round_half_even (q / scale 2 e);
          v = of_int m * scale 2 e
      in if v \<ge> 2 ^ 1024 then None else Some v)"

definition to_double :: "rat \<Rightarrow> double" where
  "to_double q =
     (if q = 0 then Finite 0
      else if q > 0 then (case round_positive q of None \<Rightarrow> PosInf | Some v \<Rightarrow> Finite v)
      else (case round_positive (- q) of None \<Rightarrow> NegInf | Some v \<Rightarrow> Finite (- v)))"

definition double_of_int :: "int \<Rightarrow> double" where
  "double_of_int i = to_double (of_int i)"

text \<open>
  The shortest digits of a positive binary64 value \<^verbatim>\<open>v\<close> with \<^verbatim>\<open>k = floor_log10 v\<close>: of the
  two \<^verbatim>\<open>n\<close> digit decimals next to \<^verbatim>\<open>v\<close>, the closest one that rounds back to \<^verbatim>\<open>v\<close>, for the
  least \<^verbatim>\<open>n\<close> that has one. Seventeen digits always have one.
\<close>

definition digits_candidate :: "rat \<Rightarrow> int \<Rightarrow> nat \<Rightarrow> nat option" where
  "digits_candidate v k n =
     (let unit = scale 10 (k - int n + 1);
          lo = \<lfloor>v / unit\<rfloor>; hi = lo + 1;
          ok = (\<lambda>d. round_positive (of_int d * unit) = Some v);
          lo_first = (v - of_int lo * unit \<le> of_int hi * unit - v)
      in if lo_first \<and> ok lo then Some (nat lo)
         else if ok hi then Some (nat hi)
         else if ok lo then Some (nat lo)
         else None)"

fun shortest_digits :: "rat \<Rightarrow> int \<Rightarrow> nat list \<Rightarrow> nat \<times> nat" where
  "shortest_digits v k [] = (nat \<lfloor>v / scale 10 (k - 16)\<rfloor>, 17)"
| "shortest_digits v k (n # ns) =
     (case digits_candidate v k n of Some d \<Rightarrow> (d, n) | None \<Rightarrow> shortest_digits v k ns)"

definition digit_counts :: "nat list" where
  "digit_counts = [1..<18]"

definition exponent_text :: "int \<Rightarrow> string" where
  "exponent_text x =
     (if x < 0 then ''-'' else ''+'') @
     (let ds = to_string_nat (nat \<bar>x\<bar>) in if length ds < 2 then CHR ''0'' # ds else ds)"

text \<open>
  Fixed and scientific notation for the digits \<^verbatim>\<open>ds\<close> of a value whose first digit has weight
  \<^verbatim>\<open>10 ^ k\<close>. A value with no fraction is written in fixed notation as its exact integer.
\<close>

definition fixed_text :: "rat \<Rightarrow> string \<Rightarrow> int \<Rightarrow> string" where
  "fixed_text v ds k =
     (if k < 0 then ''0.'' @ replicate (nat (- k - 1)) (CHR ''0'') @ ds
      else if length ds \<le> nat k + 1 then to_string_nat (nat \<lfloor>v\<rfloor>)
      else take (nat k + 1) ds @ ''.'' @ drop (nat k + 1) ds)"

definition scientific_text :: "string \<Rightarrow> int \<Rightarrow> string" where
  "scientific_text ds k =
     take 1 ds @ (if length ds > 1 then CHR ''.'' # drop 1 ds else []) @ ''e'' @ exponent_text k"

definition to_chars_positive :: "rat \<Rightarrow> string" where
  "to_chars_positive v =
     (let k0 = floor_log10 v;
          (d, n) = shortest_digits v k0 digit_counts;
          k = k0 + (int (length (to_string_nat d)) - int n);
          ds = rev (dropWhile (\<lambda>c. c = CHR ''0'') (rev (to_string_nat d)));
          fixed = fixed_text v ds k; sci = scientific_text ds k
      in if length fixed \<le> length sci then fixed else sci)"

definition to_chars :: "rat \<Rightarrow> string" where
  "to_chars v =
     (if v = 0 then ''0'' else if v < 0 then CHR ''-'' # to_chars_positive (- v)
      else to_chars_positive v)"

section \<open>Canonical form of reals\<close>

definition is_digit :: "char \<Rightarrow> bool" where
  "is_digit c = (CHR ''0'' \<le> c \<and> c \<le> CHR ''9'')"

definition digit_of :: "char \<Rightarrow> nat" where
  "digit_of c = of_char c - 48"

text \<open>The loop that strips trailing zeros but keeps one fraction digit.\<close>

definition strip_zeros :: "string \<Rightarrow> string" where
  "strip_zeros out =
     (let pre = takeWhile (\<lambda>c. c \<noteq> CHR ''.'') out; post = drop (length pre + 1) out
      in if length pre = length out then out
         else pre @ ''.'' @ take 1 post @
              rev (dropWhile (\<lambda>c. c = CHR ''0'') (rev (drop 1 post))))"

definition expand_exponent :: "string \<Rightarrow> int \<Rightarrow> string option" where
  "expand_exponent digits exponent =
     (if exponent > 40 \<or> exponent < - 400 then None
      else
        let integer_part = takeWhile (\<lambda>c. c \<noteq> CHR ''.'') digits;
            fraction_part = filter (\<lambda>c. c \<noteq> CHR ''.'') (drop (length integer_part) digits);
            combined = integer_part @ fraction_part;
            point = int (length integer_part) + exponent
        in Some (strip_zeros
             (if point \<le> 0 then ''0.'' @ replicate (nat (- point)) (CHR ''0'') @ combined
              else if nat point \<ge> length combined then
                combined @ replicate (nat point - length combined) (CHR ''0'') @ ''.0''
              else take (nat point) combined @ ''.'' @ drop (nat point) combined)))"

fun exponent_loop :: "string \<Rightarrow> int \<Rightarrow> int option" where
  "exponent_loop [] e = Some e"
| "exponent_loop (c # cs) e =
     (if \<not> is_digit c then None
      else if e > 100000 then None
      else exponent_loop cs (e * 10 + int (digit_of c)))"

definition exponent_value :: "string \<Rightarrow> int option" where
  "exponent_value t =
     (let neg = (t \<noteq> [] \<and> hd t = CHR ''-'');
          t' = (if t \<noteq> [] \<and> (hd t = CHR ''+'' \<or> hd t = CHR ''-'') then tl t else t)
      in if t' = [] then None
         else map_option (\<lambda>e. if neg then - e else e) (exponent_loop t' 0))"

fun format_canonical_real :: "double \<Rightarrow> string option" where
  "format_canonical_real (Finite v) =
     (if v = 0 then Some ''0.0''
      else
        let text = to_chars v;
            negative = (text \<noteq> [] \<and> hd text = CHR ''-'');
            body = (if negative then tl text else text);
            mantissa = takeWhile (\<lambda>c. c \<noteq> CHR ''e'' \<and> c \<noteq> CHR ''E'') body
        in if length mantissa = length body then
             Some (if CHR ''.'' \<in> set body then body else body @ ''.0'')
           else
             case exponent_value (drop (length mantissa + 1) body) of
               None \<Rightarrow> None
             | Some e \<Rightarrow>
                 (case expand_exponent mantissa e of
                    None \<Rightarrow> None
                  | Some t \<Rightarrow> Some (if negative then CHR ''-'' # t else t)))"
| "format_canonical_real _ = None"

section \<open>Serialization\<close>

definition escape_for :: "char \<Rightarrow> char option" where
  "escape_for c =
     (if c = CHR 0x08 then Some CHR ''b''
      else if c = CHR 0x09 then Some CHR ''t''
      else if c = CHR 0x0A then Some CHR ''n''
      else if c = CHR 0x0C then Some CHR ''f''
      else if c = CHR 0x0D then Some CHR ''r''
      else None)"

definition escape_char :: "char \<Rightarrow> string" where
  "escape_char raw =
     (if raw = CHR 0x22 then [CHR 0x5C, CHR 0x22]
      else if raw = CHR 0x5C then [CHR 0x5C, CHR 0x5C]
      else if of_char raw < (0x20 :: nat) then
        (case escape_for raw of
           Some letter \<Rightarrow> [CHR 0x5C, letter]
         | None \<Rightarrow> CHR 0x5C # ''u00'' @
             [kLowerHexDigits ! (of_char raw div 16), kLowerHexDigits ! (of_char raw mod 16)])
      else [raw])"

definition write_escaped_string :: "string \<Rightarrow> string" where
  "write_escaped_string s = CHR 0x22 # concat (map escape_char s) @ [CHR 0x22]"

fun dump_impl :: "nat \<Rightarrow> json \<Rightarrow> string \<Rightarrow> string"
  and dump_items :: "nat \<Rightarrow> bool \<Rightarrow> json list \<Rightarrow> string \<Rightarrow> bool \<times> string"
  and dump_members :: "nat \<Rightarrow> bool \<Rightarrow> (string \<times> json) list \<Rightarrow> string \<Rightarrow> bool \<times> string"
where
  "dump_impl budget j out =
     (if length out > budget then out
      else case j of
        JNull \<Rightarrow> out @ ''null''
      | JBool b \<Rightarrow> out @ (if b then ''true'' else ''false'')
      | JInt i \<Rightarrow> out @ to_string_int i
      | JReal d \<Rightarrow> (case format_canonical_real d of Some text \<Rightarrow> out @ text | None \<Rightarrow> out)
      | JString s \<Rightarrow> out @ write_escaped_string s
      | JArray items \<Rightarrow>
          (case dump_items budget True items (out @ ''['') of
             (stop, out') \<Rightarrow> if stop then out' else out' @ '']'')
      | JObject members \<Rightarrow>
          (case dump_members budget True members (out @ ''{'') of
             (stop, out') \<Rightarrow> if stop then out' else out' @ ''}''))"
| "dump_items budget first [] out = (False, out)"
| "dump_items budget first (j # js) out =
     (let out1 = dump_impl budget j (if first then out else out @ '','')
      in if length out1 > budget then (True, out1) else dump_items budget False js out1)"
| "dump_members budget first [] out = (False, out)"
| "dump_members budget first ((key, j) # ms) out =
     (let out1 =
        dump_impl budget j ((if first then out else out @ '','') @ write_escaped_string key @ '':'')
      in if length out1 > budget then (True, out1) else dump_members budget False ms out1)"

definition kMaxDocumentBytes :: nat where "kMaxDocumentBytes = 512 * 1024"

definition dump :: "json \<Rightarrow> string" where
  "dump j = dump_impl (kMaxDocumentBytes * 2) j []"

definition dump_line :: "json \<Rightarrow> string" where
  "dump_line j = dump j @ [CHR 0x0A]"

section \<open>The parser\<close>

record json_decode_options =
  max_bytes :: nat
  max_depth :: nat
  max_string_bytes :: nat
  require_object :: bool
  allow_trailing_whitespace :: bool

definition default_decode_options :: json_decode_options where
  "default_decode_options =
     \<lparr>max_bytes = 512 * 1024, max_depth = 32, max_string_bytes = 4096, require_object = False,
      allow_trailing_whitespace = True\<rparr>"

text \<open>A failure is a code and the text that remained when it was noticed.\<close>

type_synonym parse_error = "code \<times> string"
type_synonym 'a parsed = "parse_error + 'a \<times> string"

definition is_ws :: "char \<Rightarrow> bool" where
  "is_ws c = (c = CHR '' '' \<or> c = CHR 0x09 \<or> c = CHR 0x0A \<or> c = CHR 0x0D)"

definition skip_ws :: "string \<Rightarrow> string" where
  "skip_ws s = dropWhile is_ws s"

definition literal :: "string \<Rightarrow> json \<Rightarrow> string \<Rightarrow> json parsed" where
  "literal token value s =
     (if length s < length token then Inl (kJsonInvalidLiteral, s)
      else if take (length token) s \<noteq> token then Inl (kJsonInvalidLiteral, s)
      else Inr (value, drop (length token) s))"

subsection \<open>Numbers\<close>

fun magnitude_loop :: "string \<Rightarrow> nat \<Rightarrow> nat option" where
  "magnitude_loop [] magnitude = Some magnitude"
| "magnitude_loop (c # cs) magnitude =
     (let digit = digit_of c
      in if magnitude > (2 ^ 64 - 1 - digit) div 10 then None
         else magnitude_loop cs (magnitude * 10 + digit))"

definition integer_of_token :: "string \<Rightarrow> json option" where
  "integer_of_token token =
     (let negative = (hd token = CHR ''-'');
          digits = (if negative then tl token else token)
      in case magnitude_loop digits 0 of
           None \<Rightarrow> None
         | Some magnitude \<Rightarrow>
             (if negative then
                if magnitude > 2 ^ 63 then None else Some (JInt (- int magnitude))
              else if magnitude > 2 ^ 63 - 1 then None else Some (JInt (int magnitude))))"

definition nat_of_digits :: "string \<Rightarrow> nat" where
  "nat_of_digits ds = foldl (\<lambda>n c. n * 10 + digit_of c) 0 ds"

text \<open>The exact value of a number token with a fraction or an exponent.\<close>

definition decimal_value :: "string \<Rightarrow> rat" where
  "decimal_value token =
     (let negative = (hd token = CHR ''-'');
          body = (if negative then tl token else token);
          mantissa = takeWhile (\<lambda>c. c \<noteq> CHR ''e'' \<and> c \<noteq> CHR ''E'') body;
          expo = drop (length mantissa + 1) body;
          int_digits = takeWhile (\<lambda>c. c \<noteq> CHR ''.'') mantissa;
          frac_digits = drop (length int_digits + 1) mantissa;
          e_digits = dropWhile (\<lambda>c. c = CHR ''+'' \<or> c = CHR ''-'') expo;
          e = (if expo \<noteq> [] \<and> hd expo = CHR ''-'' then - int (nat_of_digits e_digits)
               else int (nat_of_digits e_digits));
          m = of_nat (nat_of_digits (int_digits @ frac_digits)) *
              scale 10 (e - int (length frac_digits))
      in if negative then - m else m)"

definition from_chars :: "string \<Rightarrow> double option" where
  "from_chars token =
     (let q = decimal_value token
      in case to_double q of
           Finite v \<Rightarrow> if v = 0 \<and> q \<noteq> 0 then None else Some (Finite v)
         | _ \<Rightarrow> None)"

text \<open>The lexical part: the shape of the token and whether it is a real.\<close>

definition scan_integer :: "string \<Rightarrow> parse_error + string" where
  "scan_integer s =
     (let s1 = (if s \<noteq> [] \<and> hd s = CHR ''-'' then tl s else s)
      in if s1 = [] \<or> \<not> is_digit (hd s1) then Inl (kJsonSyntax, s1)
         else if hd s1 = CHR ''0'' then
           (if tl s1 \<noteq> [] \<and> is_digit (hd (tl s1)) then Inl (kJsonSyntax, tl s1) else Inr (tl s1))
         else Inr (dropWhile is_digit s1))"

definition scan_fraction :: "string \<Rightarrow> parse_error + bool \<times> string" where
  "scan_fraction s =
     (if s \<noteq> [] \<and> hd s = CHR ''.'' then
        (if tl s = [] \<or> \<not> is_digit (hd (tl s)) then Inl (kJsonSyntax, tl s)
         else Inr (True, dropWhile is_digit (tl s)))
      else Inr (False, s))"

definition scan_exponent :: "string \<Rightarrow> parse_error + bool \<times> string" where
  "scan_exponent s =
     (if s \<noteq> [] \<and> (hd s = CHR ''e'' \<or> hd s = CHR ''E'') then
        let s1 = (if tl s \<noteq> [] \<and> (hd (tl s) = CHR ''+'' \<or> hd (tl s) = CHR ''-'')
                  then tl (tl s) else tl s)
        in if s1 = [] \<or> \<not> is_digit (hd s1) then Inl (kJsonSyntax, s1)
           else Inr (True, dropWhile is_digit s1)
      else Inr (False, s))"

definition parse_number :: "string \<Rightarrow> json parsed" where
  "parse_number s =
     (case scan_integer s of
        Inl e \<Rightarrow> Inl e
      | Inr s1 \<Rightarrow>
     (case scan_fraction s1 of
        Inl e \<Rightarrow> Inl e
      | Inr (fraction, s2) \<Rightarrow>
     (case scan_exponent s2 of
        Inl e \<Rightarrow> Inl e
      | Inr (expo, s3) \<Rightarrow>
          let token = take (length s - length s3) s
          in if length token > 64 then Inl (kJsonNumberOutOfRange, s3)
             else if \<not> fraction \<and> \<not> expo then
               (case integer_of_token token of
                  None \<Rightarrow> Inl (kJsonNumberOutOfRange, s3)
                | Some j \<Rightarrow> Inr (j, s3))
             else
               (case from_chars token of
                  None \<Rightarrow> Inl (kJsonNumberOutOfRange, s3)
                | Some d \<Rightarrow> Inr (JReal d, s3)))))"

subsection \<open>Strings\<close>

text \<open>
  The continuation bytes of a UTF-8 sequence: \<^verbatim>\<open>utf8_tail n value s\<close> reads \<^verbatim>\<open>n\<close> of them.
\<close>

fun utf8_tail :: "nat \<Rightarrow> u32 \<Rightarrow> string \<Rightarrow> u32 option" where
  "utf8_tail 0 value s = Some value"
| "utf8_tail (Suc n) value [] = None"
| "utf8_tail (Suc n) value (c # s) =
     (let bk = of_char c :: u32
      in if bk AND 0xC0 \<noteq> 0x80 then None
         else utf8_tail n (push_bit 6 value OR (bk AND 0x3F)) s)"

fun decode_utf8 :: "string \<Rightarrow> (nat \<times> u32) option" where
  "decode_utf8 [] = None"
| "decode_utf8 (c # s) =
     (let b0 = of_char c :: u32
      in if b0 < 0x80 then Some (1, b0)
         else
           case (if b0 AND 0xE0 = 0xC0 then Some (2, b0 AND 0x1F, 0x80)
                 else if b0 AND 0xF0 = 0xE0 then Some (3, b0 AND 0x0F, 0x800)
                 else if b0 AND 0xF8 = 0xF0 then Some (4, b0 AND 0x07, 0x10000)
                 else None) of
             None \<Rightarrow> None
           | Some (len, start, minimum) \<Rightarrow>
               (if Suc (length s) < len then None
                else case utf8_tail (len - 1) start s of
                  None \<Rightarrow> None
                | Some value \<Rightarrow>
                    (if value < minimum then None
                     else if 0xD800 \<le> value \<and> value \<le> 0xDFFF then None
                     else if value > 0x10FFFF then None
                     else Some (len, value))))"

definition byte_char :: "u32 \<Rightarrow> char" where
  "byte_char w = char_of (unat w)"

definition append_utf8 :: "u32 \<Rightarrow> string" where
  "append_utf8 cp =
     (if cp < 0x80 then [byte_char cp]
      else if cp < 0x800 then
        [byte_char (0xC0 OR drop_bit 6 cp), byte_char (0x80 OR (cp AND 0x3F))]
      else if cp < 0x10000 then
        [byte_char (0xE0 OR drop_bit 12 cp), byte_char (0x80 OR (drop_bit 6 cp AND 0x3F)),
         byte_char (0x80 OR (cp AND 0x3F))]
      else
        [byte_char (0xF0 OR drop_bit 18 cp), byte_char (0x80 OR (drop_bit 12 cp AND 0x3F)),
         byte_char (0x80 OR (drop_bit 6 cp AND 0x3F)), byte_char (0x80 OR (cp AND 0x3F))])"

fun hex4_loop :: "string \<Rightarrow> u32 \<Rightarrow> u32 option" where
  "hex4_loop [] value = Some value"
| "hex4_loop (c # cs) value =
     (if hex_digit_value c < 0 then None
      else hex4_loop cs (push_bit 4 value OR of_int (hex_digit_value c)))"

definition parse_hex4 :: "string \<Rightarrow> u32 parsed" where
  "parse_hex4 s =
     (if length s < 4 then Inl (kJsonSyntax, s)
      else case hex4_loop (take 4 s) 0 of
        None \<Rightarrow> Inl (kJsonSyntax, s)
      | Some value \<Rightarrow> Inr (value, drop 4 s))"

definition parse_unicode :: "string \<Rightarrow> string parsed" where
  "parse_unicode s =
     (case parse_hex4 s of
        Inl e \<Rightarrow> Inl e
      | Inr (first, s1) \<Rightarrow>
          if 0xD800 \<le> first \<and> first \<le> 0xDBFF then
            if length s1 < 6 \<or> s1 ! 0 \<noteq> CHR 0x5C \<or> s1 ! 1 \<noteq> CHR ''u'' then Inl (kJsonSyntax, s1)
            else
              (case parse_hex4 (drop 2 s1) of
                 Inl e \<Rightarrow> Inl e
               | Inr (second, s2) \<Rightarrow>
                   if second < 0xDC00 \<or> second > 0xDFFF then Inl (kJsonSyntax, s2)
                   else Inr (append_utf8
                          (0x10000 + push_bit 10 (first - 0xD800) + (second - 0xDC00)), s2))
          else if 0xDC00 \<le> first \<and> first \<le> 0xDFFF then Inl (kJsonSyntax, s1)
          else Inr (append_utf8 first, s1))"

text \<open>One turn of the loop of \<^verbatim>\<open>parse_string\<close>: the bytes it appends and what remains.\<close>

fun parse_char :: "string \<Rightarrow> string parsed" where
  "parse_char [] = Inl (kJsonSyntax, [])"
| "parse_char (c # s) =
     (if of_char c < (0x20 :: nat) then Inl (kJsonSyntax, c # s)
      else if c = CHR 0x5C then
        (case s of
           [] \<Rightarrow> Inl (kJsonSyntax, [])
         | e # r \<Rightarrow>
             if e = CHR 0x22 then Inr ([CHR 0x22], r)
             else if e = CHR 0x5C then Inr ([CHR 0x5C], r)
             else if e = CHR ''/'' then Inr (''/'', r)
             else if e = CHR ''b'' then Inr ([CHR 0x08], r)
             else if e = CHR ''f'' then Inr ([CHR 0x0C], r)
             else if e = CHR ''n'' then Inr ([CHR 0x0A], r)
             else if e = CHR ''r'' then Inr ([CHR 0x0D], r)
             else if e = CHR ''t'' then Inr ([CHR 0x09], r)
             else if e = CHR ''u'' then parse_unicode r
             else Inl (kJsonSyntax, e # r))
      else
        (case decode_utf8 (c # s) of
           None \<Rightarrow> Inl (kJsonInvalidUtf8, c # s)
         | Some (len, cp) \<Rightarrow> Inr (take len (c # s), drop len (c # s))))"

lemma decode_utf8_len: "decode_utf8 s = Some (n, cp) \<Longrightarrow> 1 \<le> n \<and> n \<le> length s"
  by (cases s) (auto simp: Let_def Suc_le_eq split: if_splits option.splits)

declare decode_utf8.simps(2) [simp del]

lemma parse_hex4_shorter: "parse_hex4 s = Inr (v, r) \<Longrightarrow> length r < length s"
  by (auto simp: parse_hex4_def split: if_splits option.splits)

lemma parse_unicode_shorter: "parse_unicode s = Inr (v, r) \<Longrightarrow> length r < length s"
  by (fastforce simp: parse_unicode_def dest!: parse_hex4_shorter split: if_splits sum.splits prod.splits)

lemma parse_char_shorter: "parse_char s = Inr (v, r) \<Longrightarrow> length r < length s"
  by (cases s)
    (auto dest!: parse_unicode_shorter decode_utf8_len split: if_splits option.splits list.splits)

function parse_chars :: "nat \<Rightarrow> string \<Rightarrow> string \<Rightarrow> string parsed" where
  "parse_chars max_string s out =
     (if s = [] then Inl (kJsonSyntax, [])
      else if hd s = CHR 0x22 then Inr (out, tl s)
      else case parse_char s of
        Inl e \<Rightarrow> Inl e
      | Inr (piece, s1) \<Rightarrow>
          if length (out @ piece) > max_string then Inl (kJsonStringTooLong, s1)
          else parse_chars max_string s1 (out @ piece))"
  by pat_completeness auto
termination
  by (relation "measure (\<lambda>(_, s, _). length s)") (auto dest: parse_char_shorter)

declare parse_chars.simps [simp del]

definition parse_string :: "nat \<Rightarrow> string \<Rightarrow> string parsed" where
  "parse_string max_string s =
     (if s = [] \<or> hd s \<noteq> CHR 0x22 then Inl (kJsonSyntax, s)
      else parse_chars max_string (tl s) [])"

text \<open>
  The mutually recursive part. The first argument is fuel: every call uses one unit, and
  \<^verbatim>\<open>None\<close> means that it ran out.
\<close>

fun parse_value :: "nat \<Rightarrow> json_decode_options \<Rightarrow> nat \<Rightarrow> string \<Rightarrow> json parsed option"
  and parse_members ::
    "nat \<Rightarrow> json_decode_options \<Rightarrow> nat \<Rightarrow> (string, json) smap \<Rightarrow> string \<Rightarrow> json parsed option"
  and parse_items ::
    "nat \<Rightarrow> json_decode_options \<Rightarrow> nat \<Rightarrow> json list \<Rightarrow> string \<Rightarrow> json parsed option"
where
  "parse_value 0 options depth s = None"
| "parse_value (Suc fuel) options depth s =
     (if s = [] then Some (Inl (kJsonSyntax, s))
      else if depth > (if max_depth options = 0 then 1 else max_depth options)
        then Some (Inl (kJsonDepthExceeded, s))
      else if hd s = CHR ''{'' then
        let s1 = skip_ws (tl s)
        in if s1 \<noteq> [] \<and> hd s1 = CHR ''}'' then Some (Inr (JObject [], tl s1))
           else parse_members fuel options depth [] s1
      else if hd s = CHR ''['' then
        let s1 = skip_ws (tl s)
        in if s1 \<noteq> [] \<and> hd s1 = CHR '']'' then Some (Inr (JArray [], tl s1))
           else parse_items fuel options depth [] s1
      else if hd s = CHR 0x22 then
        (case parse_string (max_string_bytes options) s of
           Inl e \<Rightarrow> Some (Inl e)
         | Inr (value, s1) \<Rightarrow> Some (Inr (JString value, s1)))
      else if hd s = CHR ''t'' then Some (literal ''true'' (JBool True) s)
      else if hd s = CHR ''f'' then Some (literal ''false'' (JBool False) s)
      else if hd s = CHR ''n'' then Some (literal ''null'' JNull s)
      else if hd s = CHR ''-'' \<or> is_digit (hd s) then Some (parse_number s)
      else Some (Inl (kJsonSyntax, s)))"
| "parse_members 0 options depth members s = None"
| "parse_members (Suc fuel) options depth members s =
     (case parse_string (max_string_bytes options) (skip_ws s) of
        Inl e \<Rightarrow> Some (Inl e)
      | Inr (key, s1) \<Rightarrow>
          let s2 = skip_ws s1
          in if s2 = [] \<or> hd s2 \<noteq> CHR '':'' then Some (Inl (kJsonSyntax, s2))
             else case parse_value fuel options (depth + 1) (skip_ws (tl s2)) of
               None \<Rightarrow> None
             | Some (Inl e) \<Rightarrow> Some (Inl e)
             | Some (Inr (value, s3)) \<Rightarrow>
                 if map_of members key \<noteq> None then Some (Inl (kJsonDuplicateKey, s3))
                 else
                   let members1 = map_put key value members; s4 = skip_ws s3
                   in if s4 = [] then Some (Inl (kJsonSyntax, s4))
                      else if hd s4 = CHR '','' then
                        parse_members fuel options depth members1 (tl s4)
                      else if hd s4 = CHR ''}'' then Some (Inr (JObject members1, tl s4))
                      else Some (Inl (kJsonSyntax, s4)))"
| "parse_items 0 options depth items s = None"
| "parse_items (Suc fuel) options depth items s =
     (case parse_value fuel options (depth + 1) (skip_ws s) of
        None \<Rightarrow> None
      | Some (Inl e) \<Rightarrow> Some (Inl e)
      | Some (Inr (value, s1)) \<Rightarrow>
          let items1 = items @ [value]; s2 = skip_ws s1
          in if s2 = [] then Some (Inl (kJsonSyntax, s2))
             else if hd s2 = CHR '','' then parse_items fuel options depth items1 (tl s2)
             else if hd s2 = CHR '']'' then Some (Inr (JArray items1, tl s2))
             else Some (Inl (kJsonSyntax, s2)))"

text \<open>Fuel for a whole text: two calls for each byte are enough.\<close>

definition parse_fuel :: "string \<Rightarrow> nat" where
  "parse_fuel s = 2 * length s + 1"

definition parse_document :: "json_decode_options \<Rightarrow> string \<Rightarrow> (parse_error + json) option" where
  "parse_document options text =
     (let s = skip_ws text
      in if s = [] then Some (Inl (kJsonSyntax, s))
         else case parse_value (parse_fuel s) options 0 s of
           None \<Rightarrow> None
         | Some (Inl e) \<Rightarrow> Some (Inl e)
         | Some (Inr (value, s1)) \<Rightarrow>
             let s2 = skip_ws s1
             in if s2 \<noteq> [] then Some (Inl (kTrailingGarbage, s2))
                else if require_object options \<and> \<not> is_object value
                  then Some (Inl (kJsonNotAnObject, s2))
                else Some (Inr value))"

definition json_decode :: "json_decode_options \<Rightarrow> string \<Rightarrow> (code \<times> nat + json) option" where
  "json_decode options text =
     (if length text > max_bytes options then Some (Inl (kDocumentTooLarge, 0))
      else
        case parse_document options text of
          None \<Rightarrow> None
        | Some (Inl (c, rest)) \<Rightarrow> Some (Inl (c, length text - length rest))
        | Some (Inr value) \<Rightarrow> Some (Inr value))"

text \<open>The decoder for bodies that arrive in pieces.\<close>

record streaming_decoder =
  stream_options :: json_decode_options
  stream_buffer :: string

definition feed :: "string \<Rightarrow> streaming_decoder \<Rightarrow> bool \<times> streaming_decoder" where
  "feed text d =
     (if length (stream_buffer d) + length text > max_bytes (stream_options d) then (False, d)
      else (True, d\<lparr>stream_buffer := stream_buffer d @ text\<rparr>))"

definition stream_finish :: "streaming_decoder \<Rightarrow> (code \<times> nat + json) option" where
  "stream_finish d = json_decode (stream_options d) (stream_buffer d)"

section \<open>Field readers\<close>

definition require_object_field :: "json \<Rightarrow> string \<Rightarrow> json result" where
  "require_object_field j key =
     (case json_find j key of
        None \<Rightarrow> Inl kJsonMissingField
      | Some (JObject m) \<Rightarrow> Inr (JObject m)
      | Some _ \<Rightarrow> Inl kJsonWrongType)"

definition require_array :: "json \<Rightarrow> string \<Rightarrow> json list result" where
  "require_array j key =
     (case json_find j key of
        None \<Rightarrow> Inl kJsonMissingField
      | Some (JArray items) \<Rightarrow> Inr items
      | Some _ \<Rightarrow> Inl kJsonWrongType)"

definition require_string :: "json \<Rightarrow> string \<Rightarrow> string result" where
  "require_string j key =
     (case json_find j key of
        None \<Rightarrow> Inl kJsonMissingField
      | Some (JString s) \<Rightarrow> Inr s
      | Some _ \<Rightarrow> Inl kJsonWrongType)"

definition require_bool :: "json \<Rightarrow> string \<Rightarrow> bool result" where
  "require_bool j key =
     (case json_find j key of
        None \<Rightarrow> Inl kJsonMissingField
      | Some (JBool b) \<Rightarrow> Inr b
      | Some _ \<Rightarrow> Inl kJsonWrongType)"

definition require_int :: "json \<Rightarrow> string \<Rightarrow> int result" where
  "require_int j key =
     (case json_find j key of
        None \<Rightarrow> Inl kJsonMissingField
      | Some (JInt i) \<Rightarrow> Inr i
      | Some _ \<Rightarrow> Inl kJsonWrongType)"

definition require_uint :: "json \<Rightarrow> string \<Rightarrow> u64 result" where
  "require_uint j key =
     (case require_int j key of
        Inl c \<Rightarrow> Inl c
      | Inr raw \<Rightarrow> if raw < 0 then Inl kValueOutOfRange else Inr (word_of_int raw))"

definition require_real :: "json \<Rightarrow> string \<Rightarrow> double result" where
  "require_real j key =
     (case json_find j key of
        None \<Rightarrow> Inl kJsonMissingField
      | Some (JInt i) \<Rightarrow> Inr (double_of_int i)
      | Some (JReal d) \<Rightarrow> Inr d
      | Some _ \<Rightarrow> Inl kJsonWrongType)"

section \<open>The decoder always returns\<close>

lemma skip_ws_length: "length (skip_ws s) \<le> length s"
  by (simp add: skip_ws_def length_dropWhile_le)

lemma literal_length: "literal t v s = Inr (j, r) \<Longrightarrow> length r \<le> length s"
  by (auto simp: literal_def split: if_splits)

lemma scan_integer_length: "scan_integer s = Inr r \<Longrightarrow> length r \<le> length s"
  by (cases s)
    (auto simp: scan_integer_def Let_def split: if_splits intro: le_trans [OF length_dropWhile_le])

lemma scan_fraction_length: "scan_fraction s = Inr (b, r) \<Longrightarrow> length r \<le> length s"
  by (cases s)
    (auto simp: scan_fraction_def split: if_splits intro: le_trans [OF length_dropWhile_le])

lemma scan_exponent_length: "scan_exponent s = Inr (b, r) \<Longrightarrow> length r \<le> length s"
  by (cases s)
    (auto simp: scan_exponent_def Let_def split: if_splits intro: le_trans [OF length_dropWhile_le])

lemma parse_number_length: "parse_number s = Inr (j, r) \<Longrightarrow> length r \<le> length s"
  by (auto simp: parse_number_def Let_def split: sum.splits prod.splits if_splits option.splits
      dest!: scan_integer_length scan_fraction_length scan_exponent_length)

lemma parse_chars_length: "parse_chars m s out = Inr (v, r) \<Longrightarrow> length r < length s"
proof (induction m s out rule: parse_chars.induct)
  case (1 m s out)
  show ?case
  proof (cases "s = [] \<or> hd s = CHR 0x22")
    case True
    with "1.prems" show ?thesis
      by (cases s) (auto simp: parse_chars.simps [of m "[]" out] parse_chars.simps [of m "x # xs" out for x xs])
  next
    case False
    with "1.prems" obtain piece s1 where p: "parse_char s = Inr (piece, s1)"
      and room: "\<not> length (out @ piece) > m"
      and rest: "parse_chars m s1 (out @ piece) = Inr (v, r)"
      by (subst (asm) parse_chars.simps) (auto split: sum.splits if_splits)
    with "1.IH" [OF _ _ p refl] False have "length r < length s1" by simp
    with parse_char_shorter [OF p] show ?thesis by simp
  qed
qed

lemma parse_string_length: "parse_string m s = Inr (v, r) \<Longrightarrow> length r < length s"
  by (cases s) (auto simp: parse_string_def split: if_splits dest: parse_chars_length)

lemma parse_value_length_step:
  assumes members: "\<And>ms s j r. parse_members n options depth ms s = Some (Inr (j, r)) \<Longrightarrow> length r < length s"
    and items: "\<And>js s j r. parse_items n options depth js s = Some (Inr (j, r)) \<Longrightarrow> length r < length s"
    and "parse_value (Suc n) options depth s = Some (Inr (j, r))"
  shows "length r \<le> length s"
  using assms(3) skip_ws_length [of "tl s"]
  apply (auto simp: Let_def split: if_splits sum.splits dest!: members items literal_length parse_number_length parse_string_length)
  done

lemma parse_member_chain:
  assumes "parse_string m (skip_ws s) = Inr (key, s1)"
    and "length s3 \<le> length (skip_ws (tl (skip_ws s1)))"
  shows "length (skip_ws s3) < length s"
  using parse_string_length [OF assms(1)] assms(2) skip_ws_length [of s] skip_ws_length [of s1]
    skip_ws_length [of "tl (skip_ws s1)"] skip_ws_length [of s3]
  by (simp add: diff_le_self le_less_trans)

lemma parse_members_length_step:
  assumes members: "\<And>ms s j r. parse_members n options depth ms s = Some (Inr (j, r)) \<Longrightarrow> length r < length s"
    and val: "\<And>s j r. parse_value n options (depth + 1) s = Some (Inr (j, r)) \<Longrightarrow> length r \<le> length s"
    and "parse_members (Suc n) options depth ms s = Some (Inr (j, r))"
  shows "length r < length s"
  using assms(3)
  by (auto simp: Let_def less_diff_conv2 split: if_splits sum.splits prod.splits option.splits
      dest!: members val [simplified] dest: parse_member_chain)

lemma parse_items_length_step:
  assumes items: "\<And>ms s j r. parse_items n options depth ms s = Some (Inr (j, r)) \<Longrightarrow> length r < length s"
    and val: "\<And>s j r. parse_value n options (depth + 1) s = Some (Inr (j, r)) \<Longrightarrow> length r \<le> length s"
    and "parse_items (Suc n) options depth js s = Some (Inr (j, r))"
  shows "length r < length s"
proof -
  have "length (skip_ws s1) - Suc 0 < length s"
    if "length s1 \<le> length (skip_ws s)" "skip_ws s1 \<noteq> []" for s1
    using that skip_ws_length [of s] skip_ws_length [of s1] by (cases "skip_ws s1") auto
  then show ?thesis using assms(3)
    by (fastforce simp: Let_def split: if_splits sum.splits prod.splits option.splits
        dest!: items val [simplified])
qed

lemma parse_length:
  "parse_value n options depth s = Some (Inr (j, r)) \<Longrightarrow> length r \<le> length s"
  "parse_members n options depth ms s = Some (Inr (j, r)) \<Longrightarrow> length r < length s"
  "parse_items n options depth js s = Some (Inr (j, r)) \<Longrightarrow> length r < length s"
proof (induction n arbitrary: depth s j r ms js)
  case (Suc n)
  { case 1 show ?case by (rule parse_value_length_step [OF _ _ 1]) (rule Suc.IH; assumption)+ }
  { case 2 show ?case by (rule parse_members_length_step [OF _ _ 2]) (rule Suc.IH; assumption)+ }
  { case 3 show ?case by (rule parse_items_length_step [OF _ _ 3]) (rule Suc.IH; assumption)+ }
qed simp_all

lemma parse_total:
  "2 * length s < n \<Longrightarrow> parse_value n options depth s \<noteq> None"
  "2 * length s + 1 < n \<Longrightarrow> parse_members n options depth ms s \<noteq> None"
  "2 * length s + 1 < n \<Longrightarrow> parse_items n options depth js s \<noteq> None"
proof (induction n arbitrary: depth s ms js)
  case (Suc n)
  { case 1
    have "2 * length (skip_ws (tl s)) + 1 < n" if "s \<noteq> []"
      using 1 that skip_ws_length [of "tl s"] by (cases s) auto
    with Suc.IH show ?case by (auto simp: Let_def split: sum.splits) }
  { case 2
    have v: "parse_value n options (depth + 1) (skip_ws (tl (skip_ws s1))) \<noteq> None"
      if "parse_string m (skip_ws s) = Inr (key, s1)" for m key s1
      using 2 parse_string_length [OF that] skip_ws_length [of s] skip_ws_length [of s1]
        skip_ws_length [of "tl (skip_ws s1)"] by (intro Suc.IH) simp
    have m: "parse_members n options depth ms' (tl (skip_ws s3)) \<noteq> None"
      if "parse_string m (skip_ws s) = Inr (key, s1)"
        "parse_value n options (depth + 1) (skip_ws (tl (skip_ws s1))) = Some (Inr (j, s3))"
      for m key s1 j s3 ms'
      using 2 parse_member_chain [OF that(1) parse_length(1) [OF that(2)]]
      by (intro Suc.IH) simp
    show ?case using v m by (fastforce simp: Let_def split: sum.splits prod.splits option.splits) }
  { case 3
    have v: "parse_value n options (depth + 1) (skip_ws s) \<noteq> None"
      using 3 skip_ws_length [of s] by (intro Suc.IH) simp
    have m: "parse_items n options depth js' (tl (skip_ws s3)) \<noteq> None"
      if "parse_value n options (depth + 1) (skip_ws s) = Some (Inr (j, s3))" "skip_ws s3 \<noteq> []"
      for j s3 js'
      using 3 parse_length(1) [OF that(1)] skip_ws_length [of s] skip_ws_length [of s3] that(2)
      by (intro Suc.IH) (cases "skip_ws s3"; simp)
    show ?case using v m by (fastforce simp: Let_def split: sum.splits prod.splits option.splits) }
qed simp_all

lemma json_decode_total: "json_decode options text \<noteq> None"
proof -
  obtain x where "parse_value (parse_fuel (skip_ws text)) options 0 (skip_ws text) = Some x"
    using parse_total(1) [of "skip_ws text" "parse_fuel (skip_ws text)" options 0]
    by (auto simp: parse_fuel_def)
  then show ?thesis
    by (auto simp: json_decode_def parse_document_def Let_def split: sum.splits prod.splits)
qed

section \<open>Strings survive\<close>

function valid_utf8 :: "string \<Rightarrow> bool" where
  "valid_utf8 s =
     (s = [] \<or>
      (case decode_utf8 s of None \<Rightarrow> False | Some (len, cp) \<Rightarrow> valid_utf8 (drop len s)))"
  by pat_completeness auto
termination by (relation "measure length") (auto dest: decode_utf8_len)

declare valid_utf8.simps [simp del]

lemma continuation_high: "(of_char c :: u32) AND 0xC0 = 0x80 \<Longrightarrow> \<not> of_char c < (0x80 :: nat)"
proof
  assume a: "(of_char c :: u32) AND 0xC0 = 0x80" and "of_char c < (0x80 :: nat)"
  then have "take_bit 7 (of_char c :: nat) = of_char c"
    by (simp add: take_bit_nat_eq_self_iff)
  moreover have "bit ((of_char c :: u32) AND 0xC0) 7" by (simp add: a)
  then have "bit (of_char c :: u32) 7" by (simp add: bit_and_iff)
  then have "bit (of_nat (of_char c) :: u32) 7" by (simp only: of_nat_of_char)
  then have "bit (of_char c :: nat) 7" by (simp add: bit_of_nat_iff)
  ultimately show False by (metis bit_take_bit_iff less_irrefl)
qed

lemma of_char_u32_less: "(of_char c :: u32) < 0x80 \<longleftrightarrow> of_char c < (0x80 :: nat)"
proof -
  have "(of_char c :: u32) = of_nat (of_char c)" by (simp only: of_nat_of_char)
  moreover have "of_char c mod 4294967296 = (of_char c :: nat)"
    by (rule mod_less) (rule less_trans [OF nat_of_char_less_256], simp)
  ultimately have "unat (of_char c :: u32) = of_char c" by (simp add: unat_of_nat)
  then show ?thesis by (simp add: word_less_nat_alt)
qed

lemma utf8_tail_bytes:
  "utf8_tail n v s = Some v' \<Longrightarrow>
     n \<le> length s \<and> (\<forall>c\<in>set (take n s). \<not> of_char c < (0x80 :: nat)) \<and>
     (\<forall>t. utf8_tail n v (take n s @ t) = Some v')"
  by (induction n v s rule: utf8_tail.induct)
    (auto simp: Let_def continuation_high split: if_splits)

lemma decode_utf8_bytes:
  assumes "decode_utf8 s = Some (n, cp)" and "\<not> of_char (hd s) < (0x80 :: nat)"
  shows "\<forall>c\<in>set (take n s). \<not> of_char c < (0x80 :: nat)"
    and "decode_utf8 (take n s @ t) = Some (n, cp)"
proof -
  obtain c s' where s: "s = c # s'" using assms(1) by (cases s) auto
  obtain start minimum where
    head: "(if (of_char c :: u32) AND 0xE0 = 0xC0 then Some (2, (of_char c :: u32) AND 0x1F, 0x80)
       else if of_char c AND 0xF0 = (0xE0 :: u32) then Some (3, of_char c AND 0x0F, 0x800)
       else if of_char c AND 0xF8 = (0xF0 :: u32) then Some (4, of_char c AND 0x07, 0x10000)
       else None) = Some (n, start, minimum)"
    and tail: "utf8_tail (n - 1) start s' = Some cp"
    and range: "\<not> cp < minimum" "\<not> (0xD800 \<le> cp \<and> cp \<le> 0xDFFF)" "\<not> cp > 0x10FFFF"
    and high: "\<not> (of_char c :: u32) < 0x80"
    using assms unfolding s
    by (simp add: decode_utf8.simps of_char_u32_less Let_def split: option.splits prod.splits if_splits)
  have n: "n = Suc (n - 1)" using head by (auto split: if_splits)
  note t = utf8_tail_bytes [OF tail]
  show "\<forall>c\<in>set (take n s). \<not> of_char c < (0x80 :: nat)"
    using t n assms(2) by (metis s list.sel(1) set_ConsD take_Suc_Cons)
  have "take n s = c # take (n - 1) s'" using n s by (metis take_Suc_Cons)
  moreover have "\<not> Suc (length (take (n - 1) s' @ t)) < n" using n t by simp
  ultimately show "decode_utf8 (take n s @ t) = Some (n, cp)"
    unfolding append_Cons
    using head range high t
    by (simp only: decode_utf8.simps Let_def append_Cons option.case prod.case if_False simp_thms)
qed

lemma escape_char_high: "\<not> of_char c < (0x80 :: nat) \<Longrightarrow> escape_char c = [c]"
  by (auto simp: escape_char_def)

lemma escape_map_high:
  "\<forall>c\<in>set s. \<not> of_char c < (0x80 :: nat) \<Longrightarrow> concat (map escape_char s) = s"
  by (induction s) (auto simp: escape_char_high)

text \<open>One escaped ASCII character is read back as itself.\<close>

lemma decode_utf8_ascii: "of_char c < (0x80 :: nat) \<Longrightarrow> decode_utf8 (c # s) = Some (1, of_char c)"
  by (simp add: decode_utf8.simps of_char_u32_less)

lemma nibble_word:
  assumes "n < 32"
  shows "unat (push_bit 4 (of_nat (n div 16)) OR of_nat (n mod 16) :: u32) = n"
proof -
  have "\<forall>n\<in>set [0..<32]. unat (push_bit 4 (of_nat (n div 16)) OR of_nat (n mod 16) :: u32) = n"
    by (simp add: upt_rec)
  with assms show ?thesis by simp
qed

lemma parse_unicode_nibbles:
  assumes "n < 32"
  shows "parse_unicode (''00'' @ [kLowerHexDigits ! (n div 16), kLowerHexDigits ! (n mod 16)] @ t) =
    Inr ([char_of n], t)"
proof -
  define w :: u32 where "w = push_bit 4 (of_nat (n div 16)) OR of_nat (n mod 16)"
  have w: "unat w = n" using nibble_word [OF assms] by (simp add: w_def)
  have small: "w < 0x80" "\<not> 0xD800 \<le> w" "\<not> 0xDC00 \<le> w"
    using w assms by (simp_all add: word_less_nat_alt word_le_nat_alt)
  have "hex_digit_value (CHR ''0'') = 0" by (simp add: hex_digit_value_def)
  moreover have "hex_digit_value (kLowerHexDigits ! (n div 16)) = int (n div 16)"
      "hex_digit_value (kLowerHexDigits ! (n mod 16)) = int (n mod 16)"
    using assms by (auto intro!: hex_digit_value_lower)
  ultimately have "parse_hex4 (''00'' @ [kLowerHexDigits ! (n div 16), kLowerHexDigits ! (n mod 16)] @ t) =
      Inr (w, t)"
    by (simp add: parse_hex4_def w_def)
  with small w show ?thesis by (simp add: parse_unicode_def append_utf8_def byte_char_def)
qed

lemma parse_char_ascii:
  assumes "of_char c < (0x80 :: nat)"
  shows "parse_char (escape_char c @ t) = Inr ([c], t)"
proof -
  consider "c = CHR 0x22" | "c = CHR 0x5C" | "of_char c < (0x20 :: nat)"
    | "c \<noteq> CHR 0x22" "c \<noteq> CHR 0x5C" "\<not> of_char c < (0x20 :: nat)" by blast
  then show ?thesis
  proof cases
    case 3
    from 3 show ?thesis
    proof (cases "escape_for c")
      case None
      with 3 have "escape_char c = CHR 0x5C # ''u00'' @
          [kLowerHexDigits ! (of_char c div 16), kLowerHexDigits ! (of_char c mod 16)]"
        by (auto simp: escape_char_def)
      then show ?thesis using 3 parse_unicode_nibbles [of "of_char c" t] by simp
    next
      case (Some l)
      with 3 have "escape_char c = [CHR 0x5C, l]" by (auto simp: escape_char_def)
      with Some show ?thesis
        by (auto simp: escape_for_def split: if_splits)
    qed
  qed (use assms in \<open>auto simp: escape_char_def decode_utf8_ascii\<close>)
qed

lemma parse_chars_step:
  assumes "parse_char s = Inr (piece, s1)" "s \<noteq> []" "hd s \<noteq> CHR 0x22"
    and "length (out @ piece) \<le> m"
  shows "parse_chars m s out = parse_chars m s1 (out @ piece)"
  using assms by (simp add: parse_chars.simps [of m s out])

lemma escape_char_head: "escape_char c \<noteq> []" "hd (escape_char c @ t) \<noteq> CHR 0x22"
  by (auto simp: escape_char_def split: option.splits)

lemma parse_chars_escaped:
  "valid_utf8 s \<Longrightarrow> length (out @ s) \<le> m \<Longrightarrow>
     parse_chars m (concat (map escape_char s) @ CHR 0x22 # t) out = Inr (out @ s, t)"
proof (induction s arbitrary: out rule: valid_utf8.induct)
  case (1 s)
  show ?case
  proof (cases s)
    case Nil
    then show ?thesis by (simp add: parse_chars.simps [of m "CHR 0x22 # t"])
  next
    case (Cons c s')
    with "1.prems" obtain n cp where d: "decode_utf8 s = Some (n, cp)" and v: "valid_utf8 (drop n s)"
      by (subst (asm) valid_utf8.simps) (auto split: option.splits)
    have IH: "parse_chars m (concat (map escape_char (drop n s)) @ CHR 0x22 # t) (out @ take n s) =
        Inr (out @ s, t)"
      using "1.IH" [OF d refl v, of "out @ take n s"] "1.prems"(2) Cons by simp
    let ?rest = "concat (map escape_char (drop n s)) @ CHR 0x22 # t"
    have split: "concat (map escape_char s) @ CHR 0x22 # t = concat (map escape_char (take n s)) @ ?rest"
      by (metis append.assoc append_take_drop_id concat_append map_append)
    have "parse_char (concat (map escape_char (take n s)) @ ?rest) = Inr (take n s, ?rest)"
    proof (cases "of_char c < (0x80 :: nat)")
      case True
      with d Cons have "n = 1" by (simp add: decode_utf8_ascii)
      with True Cons show ?thesis by (simp add: parse_char_ascii)
    next
      case False
      with d Cons decode_utf8_bytes [OF d] have
        "concat (map escape_char (take n s)) = take n s" "decode_utf8 (take n s @ ?rest) = Some (n, cp)"
        by (simp_all add: escape_map_high)
      moreover have "take n s = c # take (n - 1) s'" "length (take n s) = n"
        using decode_utf8_len [OF d] Cons by (cases n; simp)+
      moreover have "c \<noteq> CHR 0x5C" using False by auto
      moreover have "take n (take n s @ ?rest) = take n s" "drop n (take n s @ ?rest) = ?rest"
        using calculation(4) by simp_all
      ultimately show ?thesis using False by (simp del: take_append drop_append)
    qed
    moreover have "concat (map escape_char (take n s)) \<noteq> []" "hd (concat (map escape_char (take n s)) @ ?rest) \<noteq> CHR 0x22"
      using decode_utf8_len [OF d] Cons escape_char_head by (cases n; simp)+
    ultimately show ?thesis
      using parse_chars_step [of "concat (map escape_char (take n s)) @ ?rest" "take n s" ?rest out m] IH "1.prems"(2)
      by (simp add: split)
  qed
qed

lemma parse_string_written:
  "valid_utf8 s \<Longrightarrow> length s \<le> m \<Longrightarrow> parse_string m (write_escaped_string s @ t) = Inr (s, t)"
  by (simp add: parse_string_def write_escaped_string_def parse_chars_escaped)

lemma of_char_digit_char: "d < 10 \<Longrightarrow> of_char (digit_char d) = 48 + d"
  by (simp add: digit_char_def)

lemma is_digit_iff: "is_digit c \<longleftrightarrow> 48 \<le> (of_char c :: nat) \<and> of_char c \<le> (57 :: nat)"
  by (simp add: is_digit_def less_eq_char_def)

lemma digit_char_digit: "d < 10 \<Longrightarrow> is_digit (digit_char d) \<and> digit_of (digit_char d) = d"
  by (simp add: is_digit_iff digit_of_def of_char_digit_char)

lemma is_digit_not_minus: "is_digit c \<Longrightarrow> c \<noteq> CHR ''-''"
  by (auto simp: is_digit_iff)

lemma to_string_nat_digits: "list_all is_digit (to_string_nat n)"
  by (induction n rule: to_string_nat.induct)
    (subst to_string_nat.simps, simp add: digit_char_digit)

lemma to_string_nat_zero: "hd (to_string_nat n) = CHR ''0'' \<longleftrightarrow> n = 0"
proof (induction n rule: to_string_nat.induct)
  case (1 n)
  have "digit_char n = CHR ''0'' \<longleftrightarrow> n = 0" if "n < 10"
  proof
    assume "digit_char n = CHR ''0''"
    then have "of_char (digit_char n) = (48 :: nat)" by simp
    with of_char_digit_char [OF that] show "n = 0" by simp
  qed (simp add: digit_char_def char_of_eq_iff)
  with 1 show ?case by (cases "n < 10") (auto simp: to_string_nat.simps [of n])
qed

lemma magnitude_loop_append:
  "magnitude_loop (as @ bs) m = Option.bind (magnitude_loop as m) (magnitude_loop bs)"
  by (induction as m rule: magnitude_loop.induct) (auto simp: Let_def)

lemma magnitude_loop_to_string: "n < 2 ^ 64 \<Longrightarrow> magnitude_loop (to_string_nat n) 0 = Some n"
proof (induction n rule: to_string_nat.induct)
  case (1 n)
  show ?case
  proof (cases "n < 10")
    case True
    then show ?thesis by (simp add: to_string_nat_small digit_char_digit)
  next
    case False
    then have "magnitude_loop (to_string_nat (n div 10)) 0 = Some (n div 10)" using 1 by auto
    moreover have "n div 10 \<le> (2 ^ 64 - 1 - n mod 10) div 10"
    proof -
      have "n div 10 * 10 \<le> 2 ^ 64 - 1 - n mod 10" using 1 by presburger
      then show ?thesis by (metis div_le_mono nonzero_mult_div_cancel_right zero_neq_numeral)
    qed
    ultimately show ?thesis using False
      by (simp add: to_string_nat_step magnitude_loop_append digit_char_digit)
  qed
qed

lemma to_string_nat_length: "n < 10 ^ k \<Longrightarrow> k \<noteq> 0 \<Longrightarrow> length (to_string_nat n) \<le> k"
proof (induction k arbitrary: n)
  case (Suc k)
  show ?case
  proof (cases "n < 10")
    case False
    then have "n div 10 < 10 ^ k" "k \<noteq> 0"
      using Suc.prems by (auto intro: less_mult_imp_div_less) (cases k; simp)
    with Suc.IH False show ?thesis by (simp add: to_string_nat_step)
  qed (simp add: to_string_nat_small)
qed simp

definition ends_number :: "string \<Rightarrow> bool" where
  "ends_number t = (t = [] \<or> \<not> is_digit (hd t) \<and> hd t \<notin> set ''.eE'')"

lemma scan_integer_to_string:
  assumes "ends_number t"
  shows "scan_integer (to_string_nat n @ t) = Inr t"
    "scan_integer (CHR ''-'' # to_string_nat n @ t) = Inr t"
proof -
  have d: "dropWhile is_digit (to_string_nat n @ t) = t"
    using to_string_nat_digits [of n] assms
    by (cases t) (auto simp: dropWhile_append2 list_all_iff ends_number_def)
  have h: "is_digit (hd (to_string_nat n))"
    using to_string_nat_digits [of n] by (simp add: list_all_iff)
  have m: "hd (to_string_nat n) \<noteq> CHR ''-''"
    using h by (rule is_digit_not_minus)
  have z: "to_string_nat 0 = ''0''" 
    using to_string_nat_zero [of 0] by (simp add: to_string_nat_small)
  show "scan_integer (to_string_nat n @ t) = Inr t" "scan_integer (CHR ''-'' # to_string_nat n @ t) = Inr t"
    using d h m assms to_string_nat_zero [of n]
    by (cases "n = 0"; auto simp: scan_integer_def z ends_number_def)+
qed

lemma parse_number_int:
  assumes "- (2 ^ 63) \<le> i" "i < 2 ^ 63" "ends_number t"
  shows "parse_number (to_string_int i @ t) = Inr (JInt i, t)"
proof -
  let ?n = "nat \<bar>i\<bar>"
  have n: "?n < 10 ^ 20" "?n < 2 ^ 64" using assms by simp_all
  have "length (to_string_nat ?n) \<le> 20" by (rule to_string_nat_length) (use n in simp_all)
  then have len: "length (to_string_int i) \<le> 21" by (auto simp: to_string_int_def)
  have "scan_integer (to_string_int i @ t) = Inr t"
    using scan_integer_to_string [OF assms(3)] by (simp add: to_string_int_def)
  moreover have "scan_fraction t = Inr (False, t)" "scan_exponent t = Inr (False, t)"
    using assms(3) by (auto simp: scan_fraction_def scan_exponent_def ends_number_def)
  moreover have "integer_of_token (to_string_int i) = Some (JInt i)"
  proof -
    have "is_digit (hd (to_string_nat ?n))"
      using to_string_nat_digits [of ?n] by (simp add: list_all_iff)
    then have "hd (to_string_nat ?n) \<noteq> CHR ''-''" by (rule is_digit_not_minus)
    then show ?thesis
      using assms magnitude_loop_to_string [OF n(2)]
      by (auto simp: integer_of_token_def to_string_int_def)
  qed
  ultimately show ?thesis using len by (simp add: parse_number_def)
qed
section \<open>Decoding what was written\<close>

fun join_commas :: "string list \<Rightarrow> string" where
  "join_commas [] = []"
| "join_commas [x] = x"
| "join_commas (x # y # zs) = x @ CHR '','' # join_commas (y # zs)"

text \<open>The text of a value, without a budget.\<close>

fun json_text :: "json \<Rightarrow> string" where
  "json_text JNull = ''null''"
| "json_text (JBool b) = (if b then ''true'' else ''false'')"
| "json_text (JInt i) = to_string_int i"
| "json_text (JReal d) = (case format_canonical_real d of Some t \<Rightarrow> t | None \<Rightarrow> [])"
| "json_text (JString s) = write_escaped_string s"
| "json_text (JArray js) = CHR ''['' # join_commas (map json_text js) @ '']''"
| "json_text (JObject ms) =
     CHR ''{'' # join_commas (map (\<lambda>(k, j). write_escaped_string k @ CHR '':'' # json_text j) ms) @ ''}''"

lemma join_commas_Cons: "join_commas (x # xs) = x @ concat (map (\<lambda>y. CHR '','' # y) xs)"
  by (induction xs arbitrary: x) simp_all

abbreviation commas :: "string list \<Rightarrow> string" where
  "commas xs \<equiv> concat (map (\<lambda>y. CHR '','' # y) xs)"

abbreviation member_text :: "string \<times> json \<Rightarrow> string" where
  "member_text \<equiv> \<lambda>(k, j). write_escaped_string k @ CHR '':'' # json_text j"

declare dump_impl.simps [simp del]

lemma dump_impl_text:
  "length out + length (json_text j) \<le> budget \<Longrightarrow> dump_impl budget j out = out @ json_text j"
  "length out + length (if first then join_commas (map json_text js) else commas (map json_text js)) \<le> budget \<Longrightarrow>
     dump_items budget first js out = (False, out @ (if first then join_commas (map json_text js) else commas (map json_text js)))"
  "length out + length (if first then join_commas (map member_text ms) else commas (map member_text ms)) \<le> budget \<Longrightarrow>
     dump_members budget first ms out = (False, out @ (if first then join_commas (map member_text ms) else commas (map member_text ms)))"
proof (induction budget j out and budget first js out and budget first ms out
    rule: dump_impl_dump_items_dump_members.induct)
  case (1 budget j out)
  then show ?case by (cases j) (auto simp: dump_impl.simps [of budget] split: option.splits)
next
  case (3 budget first j js out)
  then show ?case by (auto simp: join_commas_Cons Let_def)
next
  case (5 budget first key j ms out)
  then show ?case by (auto simp: join_commas_Cons Let_def)
qed simp_all

text \<open>
  The values the decoder's bounds admit: \<^verbatim>\<open>json_plain m d j\<close> says that \<^verbatim>\<open>j\<close> has no reals,
  that its integers are 64 bit, that its strings are UTF-8 of at most \<^verbatim>\<open>m\<close> bytes, that
  its objects have ascending keys and that it nests at most \<^verbatim>\<open>d\<close> levels.
\<close>

fun json_plain :: "nat \<Rightarrow> nat \<Rightarrow> json \<Rightarrow> bool" where
  "json_plain m d (JReal _) = False"
| "json_plain m d (JInt i) = (- (2 ^ 63) \<le> i \<and> i < 2 ^ 63)"
| "json_plain m d (JString s) = (valid_utf8 s \<and> length s \<le> m)"
| "json_plain m d (JArray js) = (\<forall>j\<in>set js. 0 < d \<and> json_plain m (d - 1) j)"
| "json_plain m d (JObject ms) =
     (ascending ms \<and>
      (\<forall>(k, j)\<in>set ms. 0 < d \<and> valid_utf8 k \<and> length k \<le> m \<and> json_plain m (d - 1) j))"
| "json_plain m d _ = True"

lemma to_string_int_head: "is_digit (hd (to_string_int i)) \<or> hd (to_string_int i) = CHR ''-''"
  using to_string_nat_digits [of "nat i"] by (auto simp: to_string_int_def list_all_iff)

lemma to_string_int_nonempty [simp]: "to_string_int i \<noteq> []"
  by (simp add: to_string_int_def)

lemma is_digit_not_ws: "is_digit c \<Longrightarrow> \<not> is_ws c"
  by (auto simp: is_digit_iff is_ws_def)

lemma to_string_int_chars:
  "\<not> is_ws (hd (to_string_int i))" "hd (to_string_int i) \<notin> set '']}{[tfn''"
  "hd (to_string_int i) \<noteq> CHR 0x22"
  using to_string_int_head [of i] is_digit_not_ws by (auto simp: is_ws_def is_digit_iff)

lemma json_text_head:
  "json_plain m d j \<Longrightarrow>
     json_text j \<noteq> [] \<and> \<not> is_ws (hd (json_text j)) \<and> hd (json_text j) \<notin> set '']}''"
proof (cases j)
  case (JInt i)
  then show ?thesis using to_string_int_chars [of i] by simp
qed (auto simp: is_ws_def write_escaped_string_def)

lemma skip_ws_head [simp]: "\<not> is_ws c \<Longrightarrow> skip_ws (c # s) = c # s"
  by (simp add: skip_ws_def)

lemma skip_ws_text: "json_plain m d j \<Longrightarrow> skip_ws (json_text j @ t) = json_text j @ t"
  using json_text_head [of m d j] by (cases "json_text j") auto

lemma skip_ws_string [simp]: "skip_ws (write_escaped_string s @ t) = write_escaped_string s @ t"
  by (simp add: write_escaped_string_def is_ws_def)

definition depth_limit :: "json_decode_options \<Rightarrow> nat" where
  "depth_limit options = (if max_depth options = 0 then 1 else max_depth options)"

text \<open>What it means that a value is read back, at every depth, before every continuation.\<close>

definition reads_back :: "json_decode_options \<Rightarrow> json \<Rightarrow> bool" where
  "reads_back options j \<longleftrightarrow>
     (\<forall>n depth t. depth \<le> depth_limit options \<longrightarrow> ends_number t \<longrightarrow>
        json_plain (max_string_bytes options) (depth_limit options - depth) j \<longrightarrow>
        2 * length (json_text j @ t) < n \<longrightarrow>
        parse_value n options depth (json_text j @ t) = Some (Inr (j, t)))"

lemma reads_backD:
  assumes "reads_back options j" "depth \<le> depth_limit options" "ends_number t"
    "json_plain (max_string_bytes options) (depth_limit options - depth) j"
    "2 * length (json_text j @ t) < n"
  shows "parse_value n options depth (json_text j @ t) = Some (Inr (j, t))"
  using assms by (simp add: reads_back_def)

lemma ends_number_punct [simp]:
  "ends_number (CHR '','' # t)" "ends_number (CHR '']'' # t)" "ends_number (CHR ''}'' # t)"
  by (simp_all add: ends_number_def is_digit_iff)

lemma not_ws_punct [simp]:
  "\<not> is_ws (CHR '','')" "\<not> is_ws (CHR '']'')" "\<not> is_ws (CHR ''}'')" "\<not> is_ws (CHR '':'')"
  "\<not> is_ws (CHR ''['')" "\<not> is_ws (CHR ''{'')"
  by (simp_all add: is_ws_def)

lemma parse_items_text:
  assumes "\<forall>j\<in>set (j0 # js). reads_back options j"
    and "\<forall>j\<in>set (j0 # js). json_plain (max_string_bytes options) (depth_limit options - Suc depth) j"
    and "depth < depth_limit options"
    and "2 * length (join_commas (map json_text (j0 # js)) @ CHR '']'' # t) + 1 < n"
  shows "parse_items n options depth acc (join_commas (map json_text (j0 # js)) @ CHR '']'' # t) =
    Some (Inr (JArray (acc @ j0 # js), t))"
  using assms
proof (induction js arbitrary: j0 n acc)
  case Nil
  obtain n' where n: "n = Suc n'" using Nil.prems(4) by (cases n) auto
  have "parse_value n' options (Suc depth) (json_text j0 @ CHR '']'' # t) = Some (Inr (j0, CHR '']'' # t))"
    by (rule reads_backD) (use Nil.prems n in auto)
  with n Nil.prems show ?case
    by (simp add: skip_ws_text [of "max_string_bytes options" "depth_limit options - Suc depth" j0])
next
  case (Cons j1 js)
  obtain n' where n: "n = Suc n'" using Cons.prems(4) by (cases n) auto
  let ?r = "join_commas (map json_text (j1 # js)) @ CHR '']'' # t"
  have "parse_value n' options (Suc depth) (json_text j0 @ CHR '','' # ?r) = Some (Inr (j0, CHR '','' # ?r))"
    by (rule reads_backD) (use Cons.prems n in auto)
  moreover have "parse_items n' options depth (acc @ [j0]) ?r = Some (Inr (JArray ((acc @ [j0]) @ j1 # js), t))"
    using Cons.prems n by (intro Cons.IH) auto
  ultimately show ?case using n Cons.prems
    by (simp add: skip_ws_text [of "max_string_bytes options" "depth_limit options - Suc depth" j0])
qed

lemma map_put_above: "\<forall>k'\<in>set (map fst m). k' < k \<Longrightarrow> map_put k v m = m @ [(k, v)]"
  by (induction m) (auto simp: not_less_iff_gr_or_eq)

lemma parse_members_text:
  assumes "\<forall>p\<in>set (p0 # ms). reads_back options (snd p)"
    and "\<forall>(k, j)\<in>set (p0 # ms). valid_utf8 k \<and> length k \<le> max_string_bytes options \<and>
      json_plain (max_string_bytes options) (depth_limit options - Suc depth) j"
    and "depth < depth_limit options" and "ascending (acc @ p0 # ms)"
    and "2 * length (join_commas (map member_text (p0 # ms)) @ CHR ''}'' # t) + 1 < n"
  shows "parse_members n options depth acc (join_commas (map member_text (p0 # ms)) @ CHR ''}'' # t) =
    Some (Inr (JObject (acc @ p0 # ms), t))"
  using assms
proof (induction ms arbitrary: p0 n acc)
  case Nil
  obtain k j where p0: "p0 = (k, j)" by (cases p0)
  obtain n' where n: "n = Suc n'" using Nil.prems(5) by (cases n) auto
  have "parse_value n' options (Suc depth) (json_text j @ CHR ''}'' # t) = Some (Inr (j, CHR ''}'' # t))"
    by (rule reads_backD) (use Nil.prems n p0 in auto)
  moreover have "map_of acc k = None" "map_put k j acc = acc @ [(k, j)]"
    using Nil.prems(4) p0 by (auto simp: sorted_wrt_append map_of_eq_None_iff intro!: map_put_above)
  ultimately show ?case using n Nil.prems p0
    by (simp add: parse_string_written skip_ws_text [of "max_string_bytes options" "depth_limit options - Suc depth" j])
next
  case (Cons p1 ms)
  obtain k j where p0: "p0 = (k, j)" by (cases p0)
  obtain n' where n: "n = Suc n'" using Cons.prems(5) by (cases n) auto
  let ?r = "join_commas (map member_text (p1 # ms)) @ CHR ''}'' # t"
  have "parse_value n' options (Suc depth) (json_text j @ CHR '','' # ?r) = Some (Inr (j, CHR '','' # ?r))"
    by (rule reads_backD) (use Cons.prems n p0 in auto)
  moreover have "map_of acc k = None" "map_put k j acc = acc @ [(k, j)]"
    using Cons.prems(4) p0 by (auto simp: sorted_wrt_append map_of_eq_None_iff intro!: map_put_above)
  moreover have "parse_members n' options depth (acc @ [(k, j)]) ?r =
      Some (Inr (JObject ((acc @ [(k, j)]) @ p1 # ms), t))"
    using Cons.prems n p0 by (intro Cons.IH) auto
  ultimately show ?case using n Cons.prems p0
    by (simp add: parse_string_written skip_ws_text [of "max_string_bytes options" "depth_limit options - Suc depth" j])
qed

lemma reads_back_array:
  assumes "\<forall>j\<in>set js. reads_back options j"
  shows "reads_back options (JArray js)"
  unfolding reads_back_def
proof (intro allI impI)
  fix n depth t
  assume a: "depth \<le> depth_limit options" "ends_number t"
    "json_plain (max_string_bytes options) (depth_limit options - depth) (JArray js)"
    "2 * length (json_text (JArray js) @ t) < n"
  obtain n' where n: "n = Suc n'" using a(4) by (cases n) auto
  show "parse_value n options depth (json_text (JArray js) @ t) = Some (Inr (JArray js, t))"
  proof (cases js)
    case Nil
    with a n show ?thesis by (simp add: depth_limit_def)
  next
    case (Cons j0 js')
    let ?s = "join_commas (map json_text (j0 # js')) @ CHR '']'' # t"
    have "parse_items n' options depth [] ?s = Some (Inr (JArray ([] @ j0 # js'), t))"
      using a n Cons assms by (intro parse_items_text) auto
    moreover have "?s \<noteq> []" "\<not> is_ws (hd ?s)" "hd ?s \<noteq> CHR '']''"
      using a(3) json_text_head [of "max_string_bytes options" "depth_limit options - depth - 1" j0] Cons
      by (auto simp: join_commas_Cons)
    moreover from this have "skip_ws ?s = ?s" by (cases ?s) auto
    ultimately show ?thesis using a(1) n Cons by (simp add: depth_limit_def)
  qed
qed

lemma reads_back_object:
  assumes "\<forall>p\<in>set ms. reads_back options (snd p)"
  shows "reads_back options (JObject ms)"
  unfolding reads_back_def
proof (intro allI impI)
  fix n depth t
  assume a: "depth \<le> depth_limit options" "ends_number t"
    "json_plain (max_string_bytes options) (depth_limit options - depth) (JObject ms)"
    "2 * length (json_text (JObject ms) @ t) < n"
  obtain n' where n: "n = Suc n'" using a(4) by (cases n) auto
  show "parse_value n options depth (json_text (JObject ms) @ t) = Some (Inr (JObject ms, t))"
  proof (cases ms)
    case Nil
    with a n show ?thesis by (simp add: depth_limit_def)
  next
    case (Cons p0 ms')
    let ?s = "join_commas (map member_text (p0 # ms')) @ CHR ''}'' # t"
    have "parse_members n' options depth [] ?s = Some (Inr (JObject ([] @ p0 # ms'), t))"
      using a n Cons assms by (intro parse_members_text) auto
    moreover have "?s \<noteq> []" "\<not> is_ws (hd ?s)" "hd ?s \<noteq> CHR ''}''"
      by (auto simp: join_commas_Cons write_escaped_string_def is_ws_def split: prod.splits)
    moreover from this have "skip_ws ?s = ?s" by (cases ?s) auto
    ultimately show ?thesis using a(1) n Cons by (simp add: depth_limit_def)
  qed
qed

lemma reads_back_scalar:
  assumes "\<And>n depth t. depth \<le> depth_limit options \<Longrightarrow> ends_number t \<Longrightarrow>
      json_plain (max_string_bytes options) (depth_limit options - depth) j \<Longrightarrow>
      parse_value (Suc n) options depth (json_text j @ t) = Some (Inr (j, t))"
  shows "reads_back options j"
  unfolding reads_back_def using assms by (metis less_zeroE old.nat.exhaust)

lemma reads_back_all: "reads_back options j"
proof (induction j)
  case (JArray js)
  then show ?case by (intro reads_back_array) auto
next
  case (JObject ms)
  then show ?case by (intro reads_back_object) (auto simp: snds.simps)
next
  case (JInt i)
  show ?case
    using to_string_int_head [of i] to_string_int_chars [of i]
    by (intro reads_back_scalar) (auto simp: parse_number_int depth_limit_def)
next
  case (JString s)
  have "hd (write_escaped_string s @ t) = CHR 0x22" "write_escaped_string s \<noteq> []" for t
    by (simp_all add: write_escaped_string_def)
  then show ?case
    by (intro reads_back_scalar) (auto simp: parse_string_written depth_limit_def)
next
  case JNull
  show ?case by (intro reads_back_scalar) (simp add: depth_limit_def literal_def)
next
  case (JBool b)
  show ?case by (intro reads_back_scalar) (simp add: depth_limit_def literal_def)
qed (simp add: reads_back_def)

lemma json_decode_text:
  assumes "json_plain (max_string_bytes options) (depth_limit options) j"
    and "length (json_text j) \<le> max_bytes options" "require_object options \<longrightarrow> is_object j"
  shows "json_decode options (json_text j) = Some (Inr j)"
proof -
  have "parse_value (parse_fuel (json_text j @ [])) options 0 (json_text j @ []) = Some (Inr (j, []))"
    using assms(1) by (intro reads_backD [OF reads_back_all]) (auto simp: parse_fuel_def ends_number_def)
  with assms json_text_head [OF assms(1)] skip_ws_text [OF assms(1), of "[]"] show ?thesis
    by (simp add: json_decode_def parse_document_def skip_ws_def)
qed

lemma dump_impl_fits:
  "length (dump_impl budget j out) \<le> budget \<Longrightarrow> dump_impl budget j out = out @ json_text j"
  "length (snd (dump_items budget first js out)) \<le> budget \<Longrightarrow>
     dump_items budget first js out =
       (False, out @ (if first then join_commas (map json_text js) else commas (map json_text js)))"
  "length (snd (dump_members budget first ms out)) \<le> budget \<Longrightarrow>
     dump_members budget first ms out =
       (False, out @ (if first then join_commas (map member_text ms) else commas (map member_text ms)))"
proof (induction budget j out and budget first js out and budget first ms out
    rule: dump_impl_dump_items_dump_members.induct)
  case (1 budget j out)
  then show ?case
    by (cases j) (auto simp: dump_impl.simps [of budget] split: option.splits prod.splits if_splits)
next
  case (3 budget first j js out)
  then show ?case by (auto simp: join_commas_Cons Let_def split: if_splits)
next
  case (5 budget first key j ms out)
  then show ?case by (auto simp: join_commas_Cons Let_def split: if_splits)
qed simp_all

lemma dump_fits: "length (dump j) \<le> kMaxDocumentBytes * 2 \<Longrightarrow> dump j = json_text j"
  using dump_impl_fits(1) [of "kMaxDocumentBytes * 2" j "[]"] by (simp add: dump_def)

section \<open>What the decoder accepts\<close>

fun json_bounded :: "nat \<Rightarrow> nat \<Rightarrow> json \<Rightarrow> bool" where
  "json_bounded m d (JReal x) = isfinite x"
| "json_bounded m d (JInt i) = (- (2 ^ 63) \<le> i \<and> i < 2 ^ 63)"
| "json_bounded m d (JString s) = (length s \<le> m)"
| "json_bounded m d (JArray js) = (\<forall>j\<in>set js. 0 < d \<and> json_bounded m (d - 1) j)"
| "json_bounded m d (JObject ms) =
     (ascending ms \<and> (\<forall>(k, j)\<in>set ms. 0 < d \<and> length k \<le> m \<and> json_bounded m (d - 1) j))"
| "json_bounded m d _ = True"

lemma parse_chars_bounded:
  "parse_chars m s out = Inr (v, r) \<Longrightarrow> length out \<le> m \<Longrightarrow> length v \<le> m"
proof (induction m s out rule: parse_chars.induct)
  case (1 m s out)
  show ?case
  proof (cases "s = [] \<or> hd s = CHR 0x22")
    case True
    with "1.prems" show ?thesis
      by (cases s) (auto simp: parse_chars.simps [of m "[]" out] parse_chars.simps [of m "x # xs" out for x xs])
  next
    case False
    with "1.prems" obtain piece s1 where p: "parse_char s = Inr (piece, s1)"
      and room: "\<not> length (out @ piece) > m"
      and rest: "parse_chars m s1 (out @ piece) = Inr (v, r)"
      by (subst (asm) parse_chars.simps) (auto split: sum.splits if_splits)
    with "1.IH" [OF _ _ p refl] False show ?thesis by simp
  qed
qed

lemma parse_string_bounded: "parse_string m s = Inr (v, r) \<Longrightarrow> length v \<le> m"
  by (auto simp: parse_string_def split: if_splits dest: parse_chars_bounded)

lemma from_chars_finite: "from_chars t = Some x \<Longrightarrow> isfinite x"
  by (auto simp: from_chars_def Let_def split: double.splits if_splits) (metis isfinite.simps(1))+

lemma parse_number_bounded: "parse_number s = Inr (j, r) \<Longrightarrow> json_bounded m d j"
  by (auto simp: parse_number_def Let_def integer_of_token_def from_chars_finite
      split: sum.splits prod.splits if_splits option.splits)

lemma literal_value: "literal t v s = Inr (j, r) \<Longrightarrow> j = v"
  by (auto simp: literal_def split: if_splits)

lemma json_bounded_put:
  assumes "json_bounded m d (JObject ms)" "0 < d" "length k \<le> m" "json_bounded m (d - 1) j"
  shows "json_bounded m d (JObject (map_put k j ms))"
proof -
  have "set (map_put k j ms) \<subseteq> insert (k, j) (set ms)"
    by (induction ms) auto
  with assms show ?thesis by (auto simp: ascending_map_put simp del: map_put.simps)
qed

lemma parse_bounded:
  "parse_value n options depth s = Some (Inr (j, r)) \<Longrightarrow>
     depth \<le> depth_limit options \<and> json_bounded (max_string_bytes options) (depth_limit options - depth) j"
  "parse_members n options depth ms s = Some (Inr (j, r)) \<Longrightarrow>
     json_bounded (max_string_bytes options) (depth_limit options - depth) (JObject ms) \<Longrightarrow>
     json_bounded (max_string_bytes options) (depth_limit options - depth) j"
  "parse_items n options depth js s = Some (Inr (j, r)) \<Longrightarrow>
     json_bounded (max_string_bytes options) (depth_limit options - depth) (JArray js) \<Longrightarrow>
     json_bounded (max_string_bytes options) (depth_limit options - depth) j"
proof (induction n arbitrary: depth s j r ms js)
  case (Suc n)
  { case 1
    then have "depth \<le> depth_limit options" by (auto simp: depth_limit_def split: if_splits)
    moreover have "json_bounded (max_string_bytes options) (depth_limit options - depth) j"
      using 1 Suc.IH(2) [of depth "[]"] Suc.IH(3) [of depth "[]"]
      by (auto simp: Let_def split: if_splits sum.splits
          dest!: parse_string_bounded parse_number_bounded literal_value)
    ultimately show ?case by simp }
  { case 2
    from "2"(1) obtain key s1 val s3 where
      k: "parse_string (max_string_bytes options) (skip_ws s) = Inr (key, s1)" and
      v: "parse_value n options (Suc depth) (skip_ws (tl (skip_ws s1))) = Some (Inr (val, s3))" and
      e: "parse_members n options depth (map_put key val ms) (tl (skip_ws s3)) = Some (Inr (j, r)) \<or>
          j = JObject (map_put key val ms)"
      by (auto simp: Let_def split: if_splits sum.splits prod.splits option.splits)
    have "json_bounded (max_string_bytes options) (depth_limit options - depth) (JObject (map_put key val ms))"
      using Suc.IH(1) [OF v] parse_string_bounded [OF k] "2"(2) by (intro json_bounded_put) auto
    with e Suc.IH(2) show ?case by blast }
  { case 3
    from "3"(1) obtain val s1 where
      v: "parse_value n options (Suc depth) (skip_ws s) = Some (Inr (val, s1))" and
      e: "parse_items n options depth (js @ [val]) (tl (skip_ws s1)) = Some (Inr (j, r)) \<or>
          j = JArray (js @ [val])"
      by (auto simp: Let_def split: if_splits sum.splits prod.splits option.splits)
    have "json_bounded (max_string_bytes options) (depth_limit options - depth) (JArray (js @ [val]))"
      using Suc.IH(1) [OF v] "3"(2) by auto
    with e Suc.IH(3) show ?case by blast }
qed simp_all

section \<open>Properties\<close>

text \<open>
  The decoder returns for every text and every option: two parser calls for each byte of the
  text are enough fuel, so it never runs out, whatever the input nests.
\<close>

theorem json_decode_returns: "\<exists>r. json_decode options text = Some r"
  using json_decode_total by auto

text \<open>
  C38: Decoding the canonical serialization gives the value back: for every value without reals
  whose strings are UTF-8 within the string bound, whose integers are 64 bit and which nests no
  deeper than the depth bound, if the text fits the decoder's byte bound (and that bound does not
  exceed the serializer's budget), and if it is an object where the options demand one, the decoder
  accepts the text and returns the same value.
\<close>

theorem json_roundtrip:
  assumes "json_plain (max_string_bytes options) (depth_limit options) j"
    and "length (dump j) \<le> max_bytes options" "max_bytes options \<le> kMaxDocumentBytes * 2"
    and "require_object options \<longrightarrow> is_object j"
  shows "json_decode options (dump j) = Some (Inr j)"
  using assms json_decode_text dump_fits by (metis le_trans)

definition sample_document :: json where
  "sample_document =
     JObject [(''id'', JInt (- 42)), (''name'', JString [CHR ''a'', CHR 0x22, CHR 0x0A]),
       (''parts'', JArray [JNull, JBool True])]"

theorem json_roundtrip_witness:
  "json_decode default_decode_options (dump sample_document) = Some (Inr sample_document)"
proof (rule json_roundtrip)
  show "json_plain (max_string_bytes default_decode_options)
      (depth_limit default_decode_options) sample_document"
    by (simp add: sample_document_def depth_limit_def default_decode_options_def valid_utf8.simps decode_utf8.simps)
  show "length (dump sample_document) \<le> max_bytes default_decode_options"
    by (simp add: sample_document_def dump_def dump_impl.simps default_decode_options_def
       kMaxDocumentBytes_def to_string_int_def to_string_nat.simps write_escaped_string_def escape_char_def escape_for_def)
qed (simp_all add: default_decode_options_def kMaxDocumentBytes_def)

text \<open>
  What the decoder accepts is well formed: object members have strictly ascending, hence
  distinct, keys; strings and keys respect the string bound; integers are 64 bit; reals are
  finite; and the nesting is at most the depth bound. A top level object is returned when one is
  required, and a text above the byte bound is never accepted.
\<close>

theorem json_decode_accepts_bounded:
  assumes "json_decode options text = Some (Inr j)"
  shows "json_bounded (max_string_bytes options) (depth_limit options) j \<and>
    length text \<le> max_bytes options \<and> (require_object options \<longrightarrow> is_object j)"
proof -
  obtain s n r where "parse_value n options 0 s = Some (Inr (j, r))"
    using assms by (auto simp: json_decode_def parse_document_def Let_def
        split: if_splits option.splits sum.splits prod.splits)
  from parse_bounded(1) [OF this] show ?thesis
    using assms by (auto simp: json_decode_def parse_document_def Let_def
        split: if_splits option.splits sum.splits prod.splits)
qed

theorem json_decode_accepts_bounded_witness:
  "json_bounded 4096 32 (JObject [(''a'', JInt 7)]) \<and>
    length [CHR ''{'', CHR 0x22, CHR ''a'', CHR 0x22, CHR '':'', CHR ''7'', CHR ''}''] \<le> 512 * 1024"
proof -
  let ?text = "[CHR ''{'', CHR 0x22, CHR ''a'', CHR 0x22, CHR '':'', CHR ''7'', CHR ''}'']"
  have j: "json_text (JObject [(''a'', JInt 7)]) = ?text"
    by (simp add: to_string_int_def to_string_nat.simps write_escaped_string_def escape_char_def
        digit_char_def char_of_eq_iff)
  have "json_decode default_decode_options ?text = Some (Inr (JObject [(''a'', JInt 7)]))"
    unfolding j [symmetric]
    by (rule json_decode_text) (simp_all add: j default_decode_options_def depth_limit_def
        valid_utf8.simps decode_utf8.simps del: json_text.simps)
  from json_decode_accepts_bounded [OF this] show ?thesis
    by (simp add: default_decode_options_def depth_limit_def)
qed

lemma dropWhile_rev_prefix: "\<exists>zs. s = rev (dropWhile P (rev s)) @ zs"
  by (metis rev_append rev_rev_ident takeWhile_dropWhile_id)

lemma text_head_not_minus:
  assumes "\<forall>c\<in>set s. c \<noteq> CHR ''-''"
  shows "hd (fixed_text w s k) \<noteq> CHR ''-''" "hd (scientific_text s k) \<noteq> CHR ''-''"
proof -
  have "hd (to_string_nat n) \<noteq> CHR ''-''" for n
    using to_string_nat_digits [of n] is_digit_not_minus by (auto simp: list_all_iff)
  with assms show "hd (fixed_text w s k) \<noteq> CHR ''-''"
    by (cases s) (auto simp: fixed_text_def)
  from assms show "hd (scientific_text s k) \<noteq> CHR ''-''"
    by (cases s) (auto simp: scientific_text_def)
qed

lemma to_chars_positive_head: "hd (to_chars_positive v) \<noteq> CHR ''-''"
proof -
  obtain d n where s: "shortest_digits v (floor_log10 v) digit_counts = (d, n)" by fastforce
  define ds where "ds = rev (dropWhile (\<lambda>c. c = CHR ''0'') (rev (to_string_nat d)))"
  have "\<forall>c\<in>set ds. c \<noteq> CHR ''-''"
  proof
    fix c assume "c \<in> set ds"
    then have "c \<in> set (to_string_nat d)" unfolding ds_def by (metis set_dropWhileD set_rev)
    then show "c \<noteq> CHR ''-''"
      using to_string_nat_digits [of d] is_digit_not_minus unfolding list_all_iff by blast
  qed
  from text_head_not_minus [OF this] show ?thesis
    unfolding to_chars_positive_def Let_def s prod.case ds_def [symmetric] by presburger
qed

text \<open>Rules that evaluate the decimal text of a numeral.\<close>

lemma ilog2_small: "n < 2 \<Longrightarrow> ilog2 n = 0"
  by (simp add: ilog2.simps)

lemma ilog2_step: "2 \<le> n \<Longrightarrow> ilog2 n = Suc (ilog2 (n div 2))"
  by (simp add: ilog2.simps [of n])

lemma floor_rat:
  "\<lfloor>numeral a / numeral b :: rat\<rfloor> = numeral a div numeral b" "\<lfloor>1 / numeral b :: rat\<rfloor> = 1 div numeral b"
  by (metis floor_divide_of_int_eq of_int_numeral of_int_1)+

lemma ceiling_rat: "\<lceil>numeral a / numeral b :: rat\<rceil> = - (- numeral a div numeral b)"
  by (metis ceiling_divide_eq_div of_int_numeral)

lemmas digits_eval = floor_log10_def digits_candidate_def digit_counts_def to_string_nat_small
  to_string_nat_step scale_def round_positive_def floor_log2_def ilog2_small ilog2_step
  round_half_even_def digit_char_def char_of_eq_iff floor_rat ceiling_rat

lemma to_chars_sample: "to_chars (5 / 2) = ''2.5''"
proof -
  have k: "floor_log10 (5 / 2) = 0" by (simp add: digits_eval)
  have s: "shortest_digits (5 / 2) 0 digit_counts = (25, 2)" by (simp add: digits_eval upt_rec Let_def)
  have d: "to_string_nat 25 = ''25''" by (simp add: digits_eval)
  have "to_string_nat 0 = ''0''" by (simp add: digits_eval)
  then have "to_chars_positive (5 / 2) = ''2.5''"
    unfolding to_chars_positive_def Let_def k s prod.case d
    by (simp add: fixed_text_def scientific_text_def exponent_text_def)
  then show ?thesis by (simp add: to_chars_def)
qed

text \<open>
  A negative real that the standard library prints without an exponent loses its sign in the
  canonical form: its serialization, and hence every digest over it, is that of its absolute
  value.
\<close>

theorem canonical_real_drops_sign:
  assumes "0 < v" "set (to_chars v) \<inter> {CHR ''e'', CHR ''E''} = {}"
  shows "dump (JReal (Finite (- v))) = dump (JReal (Finite v))"
proof -
  have t: "to_chars (- v) = CHR ''-'' # to_chars v"
    using assms by (simp add: to_chars_def)
  have mantissa: "takeWhile (\<lambda>c. c \<noteq> CHR ''e'' \<and> c \<noteq> CHR ''E'') (to_chars v) = to_chars v"
    using assms by (auto simp: takeWhile_eq_all_conv)
  then have "length (takeWhile (\<lambda>c. c \<noteq> CHR ''e'' \<and> c \<noteq> CHR ''E'') (to_chars v)) =
      length (to_chars v)" by (rule arg_cong)
  moreover have "hd (to_chars v) \<noteq> CHR ''-''"
    using to_chars_positive_head [of v] assms(1) by (simp add: to_chars_def)
  ultimately have "format_canonical_real (Finite (- v)) = format_canonical_real (Finite v)"
    using t assms(1) by (simp add: Let_def)
  then show ?thesis by (simp add: dump_def dump_impl.simps)
qed

theorem canonical_real_drops_sign_witness:
  "dump (JReal (Finite (- (5 / 2)))) = dump (JReal (Finite (5 / 2)))"
  by (rule canonical_real_drops_sign) (simp_all add: to_chars_sample)

end
