(* ===== verification/Wnc_Signature.thy ===== *)
theory Wnc_Signature
  imports Wnc_Hash Wnc_Error
begin

text \<open>
  Publisher keys and signatures: \<^verbatim>\<open>include/wnc/signature.hpp\<close> and \<^verbatim>\<open>src/signature.cpp\<close>. The
  trust set keeps its records sorted and free of duplicates, a claim is bound to the publisher,
  the key and the subject before it is signed, and verification follows the branches of
  \<^verbatim>\<open>verify_signature\<close>. The Ed25519 primitives are arguments (\<^verbatim>\<open>ed_verify\<close>, \<^verbatim>\<open>ed_sign\<close>),
  so that the results hold for any scheme; those of the program are modelled in
  \<^verbatim>\<open>Wnc_Ed25519\<close>, which applies the results here to them. The HMAC branch is concrete.
\<close>

section \<open>Algorithms and keys\<close>

datatype signature_algorithm = AlgNone | AlgEd25519 | AlgHmacSha256

fun signature_algorithm_token :: "signature_algorithm \<Rightarrow> string" where
  "signature_algorithm_token AlgEd25519 = ''ED25519''"
| "signature_algorithm_token AlgHmacSha256 = ''HMAC-SHA256''"
| "signature_algorithm_token AlgNone = ''NONE''"

definition parse_signature_algorithm :: "string \<Rightarrow> signature_algorithm option" where
  "parse_signature_algorithm token =
     (if token = ''ED25519'' then Some AlgEd25519
      else if token = ''HMAC-SHA256'' then Some AlgHmacSha256
      else if token = ''NONE'' then Some AlgNone
      else None)"

definition issuer_key_id :: "signature_algorithm \<Rightarrow> bytes \<Rightarrow> string" where
  "issuer_key_id algorithm key_bytes =
     hex_encode (sha256_parts
       [''wnc/v1/key'', signature_algorithm_token algorithm, string_of key_bytes])"

definition publisher_identity :: "signature_algorithm \<Rightarrow> bytes \<Rightarrow> ident" where
  "publisher_identity algorithm key_bytes =
     from_digest (sha256_parts
       [''wnc/v1/publisher'', signature_algorithm_token algorithm, string_of key_bytes])"

record issuer =
  iss_publisher :: ident
  iss_algorithm :: signature_algorithm
  iss_key_id :: string
  iss_ed25519_public_key :: bytes
  iss_hmac_key :: bytes

section \<open>The trust set\<close>

type_synonym trust_set = "issuer list"

definition issuer_precedes :: "issuer \<Rightarrow> issuer \<Rightarrow> bool" where
  "issuer_precedes a b =
     (if iss_publisher a \<noteq> iss_publisher b then iss_publisher a < iss_publisher b
      else iss_key_id a < iss_key_id b)"

definition same_key :: "issuer \<Rightarrow> issuer \<Rightarrow> bool" where
  "same_key a b = (iss_publisher a = iss_publisher b \<and> iss_key_id a = iss_key_id b)"

text \<open>\<^verbatim>\<open>std::unique\<close>: of a run of equal elements the first stays.\<close>

fun unique_by :: "('a \<Rightarrow> 'a \<Rightarrow> bool) \<Rightarrow> 'a list \<Rightarrow> 'a list" where
  "unique_by eq (x # y # zs) =
     (if eq x y then unique_by eq (x # zs) else x # unique_by eq (y # zs))"
| "unique_by eq xs = xs"

definition sort_records :: "trust_set \<Rightarrow> trust_set" where
  "sort_records issuers = unique_by same_key (sort_by issuer_precedes issuers)"

definition add_ed25519 :: "ident \<Rightarrow> bytes \<Rightarrow> trust_set \<Rightarrow> trust_set" where
  "add_ed25519 publisher key trust =
     sort_records (trust @
       [\<lparr>iss_publisher = publisher, iss_algorithm = AlgEd25519,
         iss_key_id = issuer_key_id AlgEd25519 key, iss_ed25519_public_key = key,
         iss_hmac_key = []\<rparr>])"

definition add_hmac :: "ident \<Rightarrow> bytes \<Rightarrow> trust_set \<Rightarrow> trust_set" where
  "add_hmac publisher key trust =
     sort_records (trust @
       [\<lparr>iss_publisher = publisher, iss_algorithm = AlgHmacSha256,
         iss_key_id = issuer_key_id AlgHmacSha256 key, iss_ed25519_public_key = replicate 32 0,
         iss_hmac_key = key\<rparr>])"

definition trust_find :: "trust_set \<Rightarrow> ident \<Rightarrow> issuer option" where
  "trust_find trust publisher = find (\<lambda>i. iss_publisher i = publisher) trust"

definition trust_find_key :: "trust_set \<Rightarrow> ident \<Rightarrow> string \<Rightarrow> issuer option" where
  "trust_find_key trust publisher key_id =
     find (\<lambda>i. iss_publisher i = publisher \<and> iss_key_id i = key_id) trust"

definition trust_digest :: "trust_set \<Rightarrow> digest" where
  "trust_digest trust =
     sha256_parts (''wnc/v1/trust'' #
       concat (map (\<lambda>i. [iss_publisher i, signature_algorithm_token (iss_algorithm i),
                         iss_key_id i]) trust))"

section \<open>Signing and verification\<close>

record signature_bytes =
  sig_algorithm :: signature_algorithm
  sig_key_id :: string
  sig_bytes :: bytes

record local_signer =
  signer_seed :: bytes
  signer_public_key :: bytes
  signer_publisher :: ident

definition signer_key_id :: "local_signer \<Rightarrow> string" where
  "signer_key_id signer = issuer_key_id AlgEd25519 (signer_public_key signer)"

definition local_signer_from_seed :: "(bytes \<Rightarrow> bytes) \<Rightarrow> bytes \<Rightarrow> local_signer" where
  "local_signer_from_seed ed_public_key seed =
     (let key = ed_public_key seed
      in \<lparr>signer_seed = seed, signer_public_key = key,
          signer_publisher = publisher_identity AlgEd25519 key\<rparr>)"

definition bind_claim :: "ident \<Rightarrow> string \<Rightarrow> string \<Rightarrow> digest" where
  "bind_claim publisher key_id subject_hex =
     sha256_parts [''wnc/v1/bind'', publisher, key_id, subject_hex]"

definition signature_subject :: "string \<Rightarrow> string \<Rightarrow> digest" where
  "signature_subject domain canonical_bytes = digest_domain domain canonical_bytes"

definition sign_with_local_signer ::
    "(bytes \<Rightarrow> bytes \<Rightarrow> bytes) \<Rightarrow> local_signer \<Rightarrow> string \<Rightarrow> string \<Rightarrow> signature_bytes" where
  "sign_with_local_signer ed_sign signer domain canonical_bytes =
     (let subject = signature_subject domain canonical_bytes;
          bound = bind_claim (signer_publisher signer) (signer_key_id signer) (hex_encode subject)
      in \<lparr>sig_algorithm = AlgEd25519, sig_key_id = signer_key_id signer,
          sig_bytes = ed_sign (signer_seed signer) bound\<rparr>)"

definition kEd25519SignatureBytes :: nat where "kEd25519SignatureBytes = 64"

definition verify_signature ::
    "(bytes \<Rightarrow> bytes \<Rightarrow> bytes \<Rightarrow> bool) \<Rightarrow> trust_set \<Rightarrow> ident \<Rightarrow> string \<Rightarrow> string \<Rightarrow>
       signature_bytes \<Rightarrow> (ident \<times> string) result" where
  "verify_signature ed_verify trust claimed domain canonical_bytes sig =
     (if is_zero_id claimed then Inl kZeroIdentity
      else if sig_algorithm sig = AlgNone \<or> sig_bytes sig = [] then Inl kSignatureMissing
      else if length (sig_key_id sig) \<noteq> kSha256HexChars then Inl kSignatureInvalid
      else case trust_find_key trust claimed (sig_key_id sig) of
        None \<Rightarrow>
          (if trust_find trust claimed = None then Inl kPublisherNotTrusted
           else Inl kPublisherMismatch)
      | Some iss \<Rightarrow>
          let subject = signature_subject domain canonical_bytes;
              bound = bind_claim claimed (sig_key_id sig) (hex_encode subject)
          in if iss_algorithm iss = AlgEd25519 then
               if length (sig_bytes sig) \<noteq> kEd25519SignatureBytes then Inl kSignatureInvalid
               else if \<not> ed_verify (iss_ed25519_public_key iss) bound (sig_bytes sig)
                 then Inl kSignatureInvalid
               else Inr (iss_publisher iss, iss_key_id iss)
             else if iss_algorithm iss = AlgHmacSha256 then
               if \<not> constant_time_equal (hmac_sha256 (iss_hmac_key iss) bound) (sig_bytes sig)
                 then Inl kSignatureInvalid
               else Inr (iss_publisher iss, iss_key_id iss)
             else Inl kSignatureInvalid)"

section \<open>Lemmas\<close>

lemma parse_signature_algorithm_token [simp]:
  "parse_signature_algorithm (signature_algorithm_token a) = Some a"
  by (cases a) (simp_all add: parse_signature_algorithm_def)

lemma length_issuer_key_id [simp, wnc_length]: "length (issuer_key_id a key) = 64"
  by (simp add: issuer_key_id_def sha256_parts_eq)

interpretation issuers: comparator issuer_precedes
  by unfold_locales (auto simp: issuer_precedes_def split: if_splits)

lemma set_unique_by: "set (unique_by eq xs) \<subseteq> set xs"
  by (induction eq xs rule: unique_by.induct) auto

lemma unique_by_keys: "key ` set (unique_by (\<lambda>a b. key a = key b) xs) = key ` set xs"
  by (induction "\<lambda>a b. key a = key b" xs rule: unique_by.induct) auto

lemma unique_by_strict:
  fixes key :: "'a \<Rightarrow> 'k::linorder"
  shows "sorted_wrt (\<lambda>a b. key a \<le> key b) xs \<Longrightarrow>
    sorted_wrt (\<lambda>a b. key a < key b) (unique_by (\<lambda>a b. key a = key b) xs)"
proof (induction "\<lambda>a b. key a = key b" xs rule: unique_by.induct)
  case (1 x y zs)
  show ?case
  proof (cases "key x = key y")
    case True
    with 1 show ?thesis by simp
  next
    case False
    have "key ` set (unique_by (\<lambda>a b. key a = key b) (y # zs)) = key ` set (y # zs)"
      by (rule unique_by_keys)
    moreover have "\<forall>k \<in> key ` set (y # zs). key x < k"
      using "1.prems" False by force
    ultimately have "\<forall>z \<in> set (unique_by (\<lambda>a b. key a = key b) (y # zs)). key x < key z"
      by (metis imageI)
    with 1 False show ?thesis by simp
  qed
qed auto

definition issuer_key :: "issuer \<Rightarrow> string \<times> string" where
  "issuer_key i = (iss_publisher i, iss_key_id i)"

lemma issuer_precedes_key: "issuer_precedes = (\<lambda>a b. issuer_key a < issuer_key b)"
  by (auto simp: issuer_precedes_def issuer_key_def fun_eq_iff)

lemma same_key_key: "same_key = (\<lambda>a b. issuer_key a = issuer_key b)"
  by (auto simp: same_key_def issuer_key_def fun_eq_iff)

lemma issuer_key_sort_records: "issuer_key ` set (sort_records t) = issuer_key ` set t"
  by (simp add: sort_records_def same_key_key unique_by_keys)

text \<open>The records of a trust set are strictly ascending, so a key belongs to one record.\<close>

definition trust_ok :: "trust_set \<Rightarrow> bool" where
  "trust_ok t = sorted_wrt issuer_precedes t"

lemma trust_ok_sort_records: "trust_ok (sort_records t)"
proof -
  have "sorted_wrt (\<lambda>a b. issuer_key a \<le> issuer_key b) (sort_by issuer_precedes t)"
    using issuers.in_order_sort_by [of t] by (simp add: issuer_precedes_key not_less)
  then show ?thesis
    by (simp add: trust_ok_def sort_records_def same_key_key issuer_precedes_key unique_by_strict)
qed

lemma trust_find_key_Some_iff:
  "trust_find_key t p k \<noteq> None \<longleftrightarrow> (p, k) \<in> issuer_key ` set t"
  by (auto simp: trust_find_key_def issuer_key_def find_None_iff)

lemma trust_find_keyD:
  "trust_find_key t p k = Some i \<Longrightarrow> i \<in> set t \<and> iss_publisher i = p \<and> iss_key_id i = k"
  by (auto simp: trust_find_key_def find_Some_iff)

lemma local_signature_verifies:
  assumes correct: "\<And>m. ed_verify (signer_public_key s) m (ed_sign (signer_seed s) m)"
    and size: "\<And>m. length (ed_sign (signer_seed s) m) = kEd25519SignatureBytes"
    and "\<not> is_zero_id (signer_publisher s)"
    and "trust_find_key trust (signer_publisher s) (signer_key_id s) =
      Some \<lparr>iss_publisher = signer_publisher s, iss_algorithm = AlgEd25519,
            iss_key_id = signer_key_id s, iss_ed25519_public_key = signer_public_key s,
            iss_hmac_key = []\<rparr>"
  shows "verify_signature ed_verify trust (signer_publisher s) domain text
      (sign_with_local_signer ed_sign s domain text) = Inr (signer_publisher s, signer_key_id s)"
proof -
  have "ed_sign (signer_seed s) m \<noteq> []" for m
    using size [of m] by (auto simp: kEd25519SignatureBytes_def)
  with assms show ?thesis
    by (simp add: verify_signature_def sign_with_local_signer_def Let_def signer_key_id_def
        kSha256HexChars_def)
qed

text \<open>A concrete signer, with a stand-in for the signature scheme, to exercise the theorems on.\<close>

definition sample_signer :: local_signer where
  "sample_signer =
     \<lparr>signer_seed = replicate 32 1, signer_public_key = replicate 32 9,
      signer_publisher = replicate 64 (CHR ''a'')\<rparr>"

definition sample_ed_sign :: "bytes \<Rightarrow> bytes \<Rightarrow> bytes" where
  "sample_ed_sign seed m = take 32 (m @ replicate 32 0) @ replicate 32 9"

definition sample_ed_verify :: "bytes \<Rightarrow> bytes \<Rightarrow> bytes \<Rightarrow> bool" where
  "sample_ed_verify key m sig = (sig = take 32 (m @ replicate 32 0) @ key)"

definition sample_trust :: trust_set where
  "sample_trust = add_ed25519 (signer_publisher sample_signer) (signer_public_key sample_signer) []"

lemma sample_signer_ok:
  "sample_ed_verify (signer_public_key sample_signer) m (sample_ed_sign (signer_seed sample_signer) m)"
  "length (sample_ed_sign (signer_seed sample_signer) m) = kEd25519SignatureBytes"
  "\<not> is_zero_id (signer_publisher sample_signer)"
  "trust_find_key sample_trust (signer_publisher sample_signer) (signer_key_id sample_signer) =
     Some \<lparr>iss_publisher = signer_publisher sample_signer, iss_algorithm = AlgEd25519,
           iss_key_id = signer_key_id sample_signer,
           iss_ed25519_public_key = signer_public_key sample_signer, iss_hmac_key = []\<rparr>"
  by (simp_all add: sample_ed_verify_def sample_ed_sign_def sample_signer_def is_zero_id_def
      kEd25519SignatureBytes_def signer_key_id_def sample_trust_def add_ed25519_def
      sort_records_def trust_find_key_def list_all_iff)

section \<open>Properties\<close>

text \<open>
  Adding issuers in any order leaves the trust set strictly ordered by publisher and key
  identifier, keeps every key that was trusted before, and makes the added key findable.
\<close>

theorem trust_set_add:
  "trust_ok (add_ed25519 p key t) \<and> trust_ok (add_hmac p key t) \<and>
   trust_find_key (add_ed25519 p key t) p (issuer_key_id AlgEd25519 key) \<noteq> None \<and>
   trust_find_key (add_hmac p key t) p (issuer_key_id AlgHmacSha256 key) \<noteq> None \<and>
   (trust_find_key t q k \<noteq> None \<longrightarrow>
      trust_find_key (add_ed25519 p key t) q k \<noteq> None \<and>
      trust_find_key (add_hmac p key t) q k \<noteq> None)"
  unfolding trust_find_key_Some_iff
  by (simp add: add_ed25519_def add_hmac_def trust_ok_sort_records issuer_key_sort_records)
    (simp add: issuer_key_def)

theorem trust_set_add_witness:
  "trust_find_key (add_hmac ''p'' [1] (add_ed25519 ''q'' [2] [])) ''q''
     (issuer_key_id AlgEd25519 [2]) \<noteq> None"
  using trust_set_add [of "''q''" "[2]" "[]"]
    trust_set_add [of "''p''" "[1]" "add_ed25519 ''q'' [2] []" "''q''"
      "issuer_key_id AlgEd25519 [2]"]
  by blast

text \<open>
  C31: A signature is accepted only from a record of the trust set: the accepted publisher is the
  claimed, non zero one, the accepted key is the one the signature names, and the signature
  verifies under that record's own algorithm and key for the digest that binds publisher, key,
  domain and bytes. The algorithm the submission claims is never used to choose the check.
\<close>

theorem verify_signature_sound:
  assumes "verify_signature ed_verify trust claimed domain text sig = Inr (p, k)"
  shows "p = claimed \<and> k = sig_key_id sig \<and> \<not> is_zero_id claimed \<and>
    (\<exists>i \<in> set trust. iss_publisher i = claimed \<and> iss_key_id i = sig_key_id sig \<and>
       (let bound = bind_claim claimed (sig_key_id sig) (hex_encode (digest_domain domain text))
        in iss_algorithm i = AlgEd25519 \<and> length (sig_bytes sig) = 64 \<and>
             ed_verify (iss_ed25519_public_key i) bound (sig_bytes sig) \<or>
           iss_algorithm i = AlgHmacSha256 \<and> sig_bytes sig = hmac_sha256 (iss_hmac_key i) bound))"
  using assms
  by (auto simp: verify_signature_def Let_def constant_time_equal_iff signature_subject_def
      kEd25519SignatureBytes_def split: if_splits option.splits dest!: trust_find_keyD)

theorem verify_signature_sound_witness:
  "\<exists>i \<in> set sample_trust. iss_publisher i = signer_publisher sample_signer"
proof -
  have "verify_signature sample_ed_verify sample_trust (signer_publisher sample_signer)
      ''d'' ''x'' (sign_with_local_signer sample_ed_sign sample_signer ''d'' ''x'') =
    Inr (signer_publisher sample_signer, signer_key_id sample_signer)"
    by (rule local_signature_verifies) (rule sample_signer_ok)+
  from verify_signature_sound [OF this] show ?thesis by blast
qed

text \<open>
  What a local signer signs is accepted by every trust set that has its key, for every domain
  and every text, provided the Ed25519 primitives are correct for that signer's key pair and the
  signer's publisher identity is not zero.
\<close>

theorem local_signature_accepted:
  assumes correct: "\<And>m. ed_verify (signer_public_key s) m (ed_sign (signer_seed s) m)"
    and size: "\<And>m. length (ed_sign (signer_seed s) m) = kEd25519SignatureBytes"
    and "\<not> is_zero_id (signer_publisher s)"
    and "trust_find_key trust (signer_publisher s) (signer_key_id s) =
      Some \<lparr>iss_publisher = signer_publisher s, iss_algorithm = AlgEd25519,
            iss_key_id = signer_key_id s, iss_ed25519_public_key = signer_public_key s,
            iss_hmac_key = []\<rparr>"
  shows "verify_signature ed_verify trust (signer_publisher s) domain text
      (sign_with_local_signer ed_sign s domain text) = Inr (signer_publisher s, signer_key_id s)"
  using assms by (rule local_signature_verifies)

theorem local_signature_accepted_witness:
  "verify_signature sample_ed_verify sample_trust (signer_publisher sample_signer)
     ''wnc/v1/contract'' ''x''
     (sign_with_local_signer sample_ed_sign sample_signer ''wnc/v1/contract'' ''x'') =
   Inr (signer_publisher sample_signer, signer_key_id sample_signer)"
  by (rule local_signature_accepted) (rule sample_signer_ok)+

end
