(* ===== verification/Wnc_Contract.thy ===== *)
theory Wnc_Contract
  imports Wnc_Json Wnc_Signature
begin

text \<open>
  Contracts: \<^verbatim>\<open>include/wnc/contract.hpp\<close> and \<^verbatim>\<open>src/contract.cpp\<close> up to validation. The data
  model (requirements, scopes, workload, envelope, body, contract), the token tables, the
  derivation of identities from content, the canonical serialization, the decoder with its codes,
  and canonicalisation. The results are that canonicalisation does not depend on the order in
  which a body lists its parts, that it is idempotent, and that decoding refuses a document whose
  declared digest is not the digest of its body.
\<close>

section \<open>Requirement dimensions\<close>

datatype requirement_kind =
    MinBandwidth | MaxLatency | MaxJitter | MaxLoss | Locality | PathDiversity
  | FailureDomainSeparation | SecurityClass | TrafficPriority | BurstAllowance | Collective
  | CheckpointIsolation | DisaggregatedAffinity | MaintenanceTolerance | Attribute

datatype requirement_strength = Informational | Preferred | Required

datatype satisfaction = Satisfied | Unsatisfied | Unknown | NotApplicable

datatype evidence_freshness = Current | Stale | Expired | RevalidationRequired

fun kind_number :: "requirement_kind \<Rightarrow> nat" where
  "kind_number MinBandwidth = 0"
| "kind_number MaxLatency = 1"
| "kind_number MaxJitter = 2"
| "kind_number MaxLoss = 3"
| "kind_number Locality = 4"
| "kind_number PathDiversity = 5"
| "kind_number FailureDomainSeparation = 6"
| "kind_number SecurityClass = 7"
| "kind_number TrafficPriority = 8"
| "kind_number BurstAllowance = 9"
| "kind_number Collective = 10"
| "kind_number CheckpointIsolation = 11"
| "kind_number DisaggregatedAffinity = 12"
| "kind_number MaintenanceTolerance = 13"
| "kind_number Attribute = 14"

fun strength_number :: "requirement_strength \<Rightarrow> nat" where
  "strength_number Informational = 0"
| "strength_number Preferred = 1"
| "strength_number Required = 2"

lemma kind_number_inject [simp]: "kind_number a = kind_number b \<longleftrightarrow> a = b"
  by (cases a; cases b) simp_all

lemma strength_number_inject [simp]: "strength_number a = strength_number b \<longleftrightarrow> a = b"
  by (cases a; cases b) simp_all

text \<open>The enumerations compare by their numbers.\<close>

instantiation requirement_kind :: linorder
begin

definition less_eq_requirement_kind :: "requirement_kind \<Rightarrow> requirement_kind \<Rightarrow> bool" where
  "a \<le> b \<longleftrightarrow> kind_number a \<le> kind_number b"

definition less_requirement_kind :: "requirement_kind \<Rightarrow> requirement_kind \<Rightarrow> bool" where
  "a < b \<longleftrightarrow> kind_number a < kind_number b"

instance
  by standard (auto simp: less_eq_requirement_kind_def less_requirement_kind_def
      dest: antisym [THEN kind_number_inject [THEN iffD1]])

end

instantiation requirement_strength :: linorder
begin

definition less_eq_requirement_strength :: "requirement_strength \<Rightarrow> requirement_strength \<Rightarrow> bool" where
  "a \<le> b \<longleftrightarrow> strength_number a \<le> strength_number b"

definition less_requirement_strength :: "requirement_strength \<Rightarrow> requirement_strength \<Rightarrow> bool" where
  "a < b \<longleftrightarrow> strength_number a < strength_number b"

instance
  by standard (auto simp: less_eq_requirement_strength_def less_requirement_strength_def
      dest: antisym [THEN strength_number_inject [THEN iffD1]])

end

text \<open>Token, numeric, floor.\<close>

definition kKindTable :: "(requirement_kind \<times> string \<times> bool \<times> bool) list" where
  "kKindTable =
     [(MinBandwidth, ''min_bandwidth'', True, True),
      (MaxLatency, ''max_latency'', True, False),
      (MaxJitter, ''max_jitter'', True, False),
      (MaxLoss, ''max_loss'', True, False),
      (Locality, ''locality'', False, False),
      (PathDiversity, ''path_diversity'', True, True),
      (FailureDomainSeparation, ''failure_domain_separation'', True, True),
      (SecurityClass, ''security_class'', False, False),
      (TrafficPriority, ''traffic_priority'', True, True),
      (BurstAllowance, ''burst_allowance'', True, True),
      (Collective, ''collective'', False, False),
      (CheckpointIsolation, ''checkpoint_isolation'', False, False),
      (DisaggregatedAffinity, ''disaggregated_affinity'', False, False),
      (MaintenanceTolerance, ''maintenance_tolerance'', False, False),
      (Attribute, ''attribute'', False, False)]"

definition kStrengthTable :: "(requirement_strength \<times> string) list" where
  "kStrengthTable =
     [(Required, ''required''), (Preferred, ''preferred''), (Informational, ''informational'')]"

definition kSatisfactionTable :: "(satisfaction \<times> string) list" where
  "kSatisfactionTable =
     [(Satisfied, ''satisfied''), (Unsatisfied, ''unsatisfied''), (Unknown, ''unknown''),
      (NotApplicable, ''not_applicable'')]"

definition kFreshnessTable :: "(evidence_freshness \<times> string) list" where
  "kFreshnessTable =
     [(Current, ''current''), (Stale, ''stale''), (Expired, ''expired''),
      (RevalidationRequired, ''revalidation_required'')]"

text \<open>A linear search of a table for a value, or for a token.\<close>

definition token_of :: "('a \<times> string) list \<Rightarrow> 'a \<Rightarrow> string" where
  "token_of table v = (case map_of table v of Some t \<Rightarrow> t | None \<Rightarrow> ''unknown'')"

definition value_of :: "('a \<times> string) list \<Rightarrow> string \<Rightarrow> 'a option" where
  "value_of table t = map_option fst (find (\<lambda>p. snd p = t) table)"

definition requirement_kind_token :: "requirement_kind \<Rightarrow> string" where
  "requirement_kind_token k = token_of (map (\<lambda>(k, t, n, f). (k, t)) kKindTable) k"

definition parse_requirement_kind :: "string \<Rightarrow> requirement_kind option" where
  "parse_requirement_kind t = value_of (map (\<lambda>(k, t, n, f). (k, t)) kKindTable) t"

definition requirement_strength_token :: "requirement_strength \<Rightarrow> string" where
  "requirement_strength_token s = token_of kStrengthTable s"

definition parse_requirement_strength :: "string \<Rightarrow> requirement_strength option" where
  "parse_requirement_strength t = value_of kStrengthTable t"

definition satisfaction_token :: "satisfaction \<Rightarrow> string" where
  "satisfaction_token s = token_of kSatisfactionTable s"

definition parse_satisfaction :: "string \<Rightarrow> satisfaction option" where
  "parse_satisfaction t = value_of kSatisfactionTable t"

definition freshness_token :: "evidence_freshness \<Rightarrow> string" where
  "freshness_token f = token_of kFreshnessTable f"

definition parse_freshness :: "string \<Rightarrow> evidence_freshness option" where
  "parse_freshness t = value_of kFreshnessTable t"

definition kind_is_numeric :: "requirement_kind \<Rightarrow> bool" where
  "kind_is_numeric k =
     (case map_of kKindTable k of Some (t, numeric, floor_kind) \<Rightarrow> numeric | None \<Rightarrow> False)"

definition kind_is_floor :: "requirement_kind \<Rightarrow> bool" where
  "kind_is_floor k =
     (case map_of kKindTable k of Some (t, numeric, floor_kind) \<Rightarrow> floor_kind | None \<Rightarrow> False)"

definition kind_is_attribute_only :: "requirement_kind \<Rightarrow> bool" where
  "kind_is_attribute_only k = (\<not> kind_is_numeric k)"

fun kind_unit :: "requirement_kind \<Rightarrow> string" where
  "kind_unit MinBandwidth = ''bits_per_second''"
| "kind_unit MaxLatency = ''microseconds''"
| "kind_unit MaxJitter = ''microseconds''"
| "kind_unit MaxLoss = ''parts_per_million''"
| "kind_unit PathDiversity = ''paths''"
| "kind_unit FailureDomainSeparation = ''domains''"
| "kind_unit TrafficPriority = ''class''"
| "kind_unit BurstAllowance = ''bits''"
| "kind_unit _ = ''none''"

section \<open>The data model\<close>

record requirement =
  req_id :: ident
  req_scope :: string
  req_kind :: requirement_kind
  req_strength :: requirement_strength
  req_target :: double
  req_minimum :: double
  req_has_numeric :: bool
  req_value :: string
  req_preferred_value :: string
  req_members :: "ident list"
  req_attributes :: "(string \<times> string) list"
  req_key :: string

type_synonym requirement_key = "string \<times> requirement_kind \<times> string"

definition composite_key :: "requirement \<Rightarrow> requirement_key" where
  "composite_key r = (req_scope r, req_kind r, req_key r)"

record scope =
  scope_name :: string
  scope_has_rank :: bool
  scope_rank :: u32
  scope_parent :: string

record workload =
  wl_id :: ident
  wl_name :: string
  wl_generation :: u64

record contract_envelope =
  env_publisher :: ident
  env_algorithm :: signature_algorithm
  env_key_id :: string
  env_signature :: bytes
  env_issued_millis :: u64

definition is_signed :: "contract_envelope \<Rightarrow> bool" where
  "is_signed e = (env_algorithm e \<noteq> AlgNone \<and> env_signature e \<noteq> [])"

record contract_body =
  body_schema_version :: u32
  body_workload :: workload
  body_contract_id :: ident
  body_generation :: u64
  body_policy_generation :: u64
  body_major :: u32
  body_minor :: u32
  body_patch :: u32
  body_description :: string
  body_scopes :: "scope list"
  body_requirements :: "requirement list"

record contract =
  con_body :: contract_body
  con_digest :: digest
  con_envelope :: contract_envelope
  con_supersedes :: u64
  con_supersedes_digest :: digest

definition has_supersedes :: "contract \<Rightarrow> bool" where
  "has_supersedes c = (con_supersedes c \<noteq> 0)"

definition empty_envelope :: contract_envelope where
  "empty_envelope =
     \<lparr>env_publisher = zero_id, env_algorithm = AlgNone, env_key_id = [], env_signature = [],
      env_issued_millis = 0\<rparr>"

section \<open>Identities from content\<close>

definition attributes_to_json :: "(string \<times> string) list \<Rightarrow> json" where
  "attributes_to_json attributes =
     JArray (map (\<lambda>(n, v). json_sets [(''name'', JString n), (''value'', JString v)] JNull)
       attributes)"

definition requirement_material :: "requirement \<Rightarrow> json" where
  "requirement_material r =
     json_sets
       ([(''scope'', JString (req_scope r)),
         (''kind'', JString (requirement_kind_token (req_kind r))),
         (''key'', JString (req_key r)),
         (''strength'', JString (requirement_strength_token (req_strength r)))] @
        (if req_has_numeric r
         then [(''target'', JReal (req_target r)), (''minimum'', JReal (req_minimum r))] else []) @
        (if req_value r \<noteq> [] then [(''value'', JString (req_value r))] else []) @
        (if req_preferred_value r \<noteq> []
         then [(''preferred_value'', JString (req_preferred_value r))] else []) @
        (if req_attributes r \<noteq> []
         then [(''attributes'', attributes_to_json (req_attributes r))] else []) @
        (if req_members r \<noteq> []
         then [(''members'', JArray (map JString (req_members r)))] else []))
       JNull"

definition derive_requirement_id :: "requirement \<Rightarrow> ident" where
  "derive_requirement_id r =
     from_digest (digest_domain ''wnc/v1/requirement'' (dump (requirement_material r)))"

definition derive_contract_id :: "ident \<Rightarrow> digest \<Rightarrow> ident" where
  "derive_contract_id workload d =
     from_digest (sha256_parts [''wnc/v1/contract'', workload, hex_encode d])"

section \<open>Canonical serialization\<close>

definition requirement_to_json :: "requirement \<Rightarrow> json" where
  "requirement_to_json r =
     json_sets
       ([(''id'', JString (req_id r)),
         (''scope'', JString (req_scope r)),
         (''kind'', JString (requirement_kind_token (req_kind r))),
         (''strength'', JString (requirement_strength_token (req_strength r)))] @
        (if req_has_numeric r
         then [(''target'', JReal (req_target r)), (''minimum'', JReal (req_minimum r)),
               (''unit'', JString (kind_unit (req_kind r)))] else []) @
        (if req_value r \<noteq> [] then [(''value'', JString (req_value r))] else []) @
        (if req_preferred_value r \<noteq> []
         then [(''preferred_value'', JString (req_preferred_value r))] else []) @
        (if req_members r \<noteq> []
         then [(''members'', JArray (map JString (req_members r)))] else []) @
        (if req_attributes r \<noteq> []
         then [(''attributes'', attributes_to_json (req_attributes r))] else []) @
        [(''key'', JString (req_key r))])
       JNull"

definition scope_to_json :: "scope \<Rightarrow> json" where
  "scope_to_json s =
     json_sets
       ([(''name'', JString (scope_name s))] @
        (if scope_has_rank s then [(''rank'', JInt (uint (scope_rank s)))] else []) @
        (if scope_parent s \<noteq> [] then [(''parent'', JString (scope_parent s))] else []))
       JNull"

definition contract_body_to_json :: "contract_body \<Rightarrow> json" where
  "contract_body_to_json b =
     json_sets
       [(''schema_version'', JInt (uint (body_schema_version b))),
        (''workload'', json_sets
           [(''id'', JString (wl_id (body_workload b))),
            (''name'', JString (wl_name (body_workload b))),
            (''generation'', json_u64 (wl_generation (body_workload b)))] JNull),
        (''contract_id'', JString (body_contract_id b)),
        (''contract_generation'', json_u64 (body_generation b)),
        (''policy_generation'', json_u64 (body_policy_generation b)),
        (''version'', json_sets
           [(''major'', JInt (uint (body_major b))), (''minor'', JInt (uint (body_minor b))),
            (''patch'', JInt (uint (body_patch b)))] JNull),
        (''description'', JString (body_description b)),
        (''scopes'', JArray (map scope_to_json (body_scopes b))),
        (''requirements'', JArray (map requirement_to_json (body_requirements b)))]
       JNull"

definition envelope_to_json :: "contract_envelope \<Rightarrow> json" where
  "envelope_to_json e =
     json_sets
       ([(''publisher'', JString (env_publisher e)),
         (''algorithm'', JString (signature_algorithm_token (env_algorithm e))),
         (''key_id'', JString (env_key_id e)),
         (''issued_millis'', json_u64 (env_issued_millis e))] @
        (if env_signature e \<noteq> []
         then [(''signature'', JString (base64url_encode (env_signature e)))] else []))
       JNull"

definition contract_to_json :: "contract \<Rightarrow> json" where
  "contract_to_json c =
     json_sets
       ([(''body'', contract_body_to_json (con_body c)),
         (''digest'', JString (hex_encode (con_digest c)))] @
        (if has_supersedes c
         then [(''supersedes'', json_u64 (con_supersedes c)),
               (''supersedes_digest'', JString (hex_encode (con_supersedes_digest c)))] else []) @
        [(''envelope'', envelope_to_json (con_envelope c))])
       JNull"

definition body_digest_material :: "contract_body \<Rightarrow> json" where
  "body_digest_material b =
     json_set ''contract_id'' (JString (replicate 64 (CHR ''0''))) (contract_body_to_json b)"

definition body_digest :: "contract_body \<Rightarrow> digest" where
  "body_digest b = digest_domain ''wnc/v1/contract-body'' (dump (body_digest_material b))"

section \<open>Canonicalisation\<close>

definition requirement_precedes :: "requirement \<Rightarrow> requirement \<Rightarrow> bool" where
  "requirement_precedes a b =
     (if req_scope a \<noteq> req_scope b then req_scope a < req_scope b
      else if req_kind a \<noteq> req_kind b then req_kind a < req_kind b
      else if req_key a \<noteq> req_key b then req_key a < req_key b
      else req_id a < req_id b)"

definition scope_precedes :: "scope \<Rightarrow> scope \<Rightarrow> bool" where
  "scope_precedes a b =
     (if scope_name a \<noteq> scope_name b then scope_name a < scope_name b
      else scope_rank a < scope_rank b)"

definition attribute_precedes :: "string \<times> string \<Rightarrow> string \<times> string \<Rightarrow> bool" where
  "attribute_precedes a b = (fst a < fst b)"

definition canonical_requirement :: "requirement \<Rightarrow> requirement" where
  "canonical_requirement r =
     (let sorted = r\<lparr>req_attributes := sort_by attribute_precedes (req_attributes r),
                     req_members := sort_by (<) (req_members r)\<rparr>
      in sorted\<lparr>req_id := derive_requirement_id sorted\<rparr>)"

definition canonicalize :: "contract \<Rightarrow> contract" where
  "canonicalize c =
     (let b0 = con_body c;
          b1 = b0\<lparr>body_scopes := sort_by scope_precedes (body_scopes b0),
                  body_requirements :=
                    sort_by requirement_precedes
                      (map canonical_requirement (body_requirements b0))\<rparr>;
          d = body_digest b1;
          b2 = b1\<lparr>body_contract_id := derive_contract_id (wl_id (body_workload b1)) d\<rparr>
      in c\<lparr>con_body := b2, con_digest := body_digest b2\<rparr>)"

section \<open>Lemmas on documents\<close>

lemma object_of_json_set [simp]: "object_of (json_set k v j) = map_put k v (object_of j)"
  by (simp add: json_set_def)

lemma json_sets_Nil [simp]: "json_sets [] j = j"
  by (simp add: json_sets_def)

lemma json_sets_Cons [simp]: "json_sets ((k, v) # kvs) j = json_sets kvs (json_set k v j)"
  by (simp add: json_sets_def)

lemma json_sets_append: "json_sets (as @ bs) j = json_sets bs (json_sets as j)"
  by (simp add: json_sets_def)

lemma json_sets_object: "kvs \<noteq> [] \<Longrightarrow> json_sets kvs j = JObject (object_of (json_sets kvs j))"
proof (induction kvs arbitrary: j)
  case (Cons p kvs)
  then show ?case by (cases p; cases "kvs = []") (simp_all add: json_set_def)
qed simp

lemma map_of_json_sets:
  "map_of (object_of (json_sets kvs j)) = map_of (object_of j) ++ map_of (rev kvs)"
  by (induction kvs arbitrary: j) (auto simp: fun_eq_iff map_add_def split: option.splits)

lemma ascending_json_sets: "ascending (object_of j) \<Longrightarrow> ascending (object_of (json_sets kvs j))"
  by (induction kvs arbitrary: j) auto

lemma json_sets_eqI:
  assumes "map_of (rev kvs) = map_of (rev kvs')" "kvs \<noteq> []" "kvs' \<noteq> []"
  shows "json_sets kvs JNull = json_sets kvs' JNull"
proof -
  have "object_of (json_sets kvs JNull) = object_of (json_sets kvs' JNull)"
    by (rule ascending_eqI) (simp_all add: ascending_json_sets map_of_json_sets assms)
  with assms json_sets_object show ?thesis by metis
qed

section \<open>Orders\<close>

interpretation requirement_order: comparator requirement_precedes
  by unfold_locales (auto simp: requirement_precedes_def split: if_splits)

interpretation scope_order: comparator scope_precedes
  by unfold_locales (auto simp: scope_precedes_def split: if_splits)

interpretation attribute_order: comparator attribute_precedes
  unfolding attribute_precedes_def by (rule comparator_key)

section \<open>Canonicalisation\<close>

lemma derive_requirement_id_update [simp]:
  "derive_requirement_id (r\<lparr>req_id := i\<rparr>) = derive_requirement_id r"
  by (simp add: derive_requirement_id_def requirement_material_def)

text \<open>The masked document does not mention the identity it masks.\<close>

lemma json_set_last:
  assumes "map_of (rev kvs) = (map_of (rev kvs'))(k := map_of (rev kvs) k)" "kvs \<noteq> []" "kvs' \<noteq> []"
  shows "json_set k v (json_sets kvs JNull) = json_set k v (json_sets kvs' JNull)"
proof -
  have "json_sets (kvs @ [(k, v)]) JNull = json_sets (kvs' @ [(k, v)]) JNull"
    by (rule json_sets_eqI) (use assms(1) in \<open>auto simp: fun_eq_iff\<close>)
  then show ?thesis by (simp add: json_sets_append)
qed

lemma body_digest_contract_id [simp]: "body_digest (b\<lparr>body_contract_id := i\<rparr>) = body_digest b"
proof -
  have "body_digest_material (b\<lparr>body_contract_id := i\<rparr>) = body_digest_material b"
    unfolding body_digest_material_def contract_body_to_json_def
    by (rule json_set_last) (auto simp: fun_eq_iff)
  then show ?thesis by (simp add: body_digest_def)
qed

lemma body_digest_contract_id_inner [simp]:
  "body_digest (b\<lparr>body_contract_id := i, body_scopes := ss, body_requirements := rs\<rparr>) =
     body_digest (b\<lparr>body_scopes := ss, body_requirements := rs\<rparr>)"
proof -
  have "b\<lparr>body_contract_id := i, body_scopes := ss, body_requirements := rs\<rparr> =
      b\<lparr>body_scopes := ss, body_requirements := rs\<rparr>\<lparr>body_contract_id := i\<rparr>" by simp
  then show ?thesis by (simp only: body_digest_contract_id)
qed

lemma canonical_requirement_idem [simp]:
  "canonical_requirement (canonical_requirement r) = canonical_requirement r"
  by (simp add: canonical_requirement_def Let_def attribute_order.sort_by_idem less_order.sort_by_idem)
    (simp add: derive_requirement_id_def requirement_material_def)

lemma map_canonical_sort:
  "map canonical_requirement (sort_by lt (map canonical_requirement rs)) =
     sort_by lt (map canonical_requirement rs)"
  by (rule map_idI) auto

lemma canonicalize_body:
  "con_body (canonicalize c) =
     (con_body c)\<lparr>body_scopes := sort_by scope_precedes (body_scopes (con_body c)),
        body_requirements := sort_by requirement_precedes
          (map canonical_requirement (body_requirements (con_body c))),
        body_contract_id := body_contract_id (con_body (canonicalize c))\<rparr>"
  by (simp add: canonicalize_def Let_def)

lemma canonicalize_digest: "con_digest (canonicalize c) = body_digest (con_body (canonicalize c))"
  by (simp add: canonicalize_def Let_def)

lemma canonicalize_contract_id:
  "body_contract_id (con_body (canonicalize c)) =
     derive_contract_id (wl_id (body_workload (con_body (canonicalize c))))
       (con_digest (canonicalize c))"
  by (simp add: canonicalize_def Let_def)

lemma canonicalize_requirement_ids:
  assumes "r \<in> set (body_requirements (con_body (canonicalize c)))"
  shows "req_id r = derive_requirement_id r"
  using assms by (auto simp: canonicalize_def Let_def canonical_requirement_def)

text \<open>Two requirements that differ only in the order of their attributes and members.\<close>

definition same_requirement :: "requirement \<Rightarrow> requirement \<Rightarrow> bool" where
  "same_requirement r r' \<longleftrightarrow>
     (\<exists>as ms i. r' = r\<lparr>req_attributes := as, req_members := ms, req_id := i\<rparr> \<and>
        mset as = mset (req_attributes r) \<and> mset ms = mset (req_members r))"

lemma attributes_apart:
  assumes "distinct (map fst as)" "x \<in> set as" "y \<in> set as" "x \<noteq> y"
  shows "attribute_precedes x y \<or> attribute_precedes y x"
  using assms by (cases x; cases y)
    (auto simp: attribute_precedes_def neq_iff dest: eq_key_imp_eq_value)

lemma same_requirement_canonical:
  assumes "same_requirement r r'" "distinct (map fst (req_attributes r))"
  shows "canonical_requirement r' = canonical_requirement r"
proof -
  obtain as ms i where r': "r' = r\<lparr>req_attributes := as, req_members := ms, req_id := i\<rparr>"
    and perm: "mset as = mset (req_attributes r)" "mset ms = mset (req_members r)"
    using assms(1) by (auto simp: same_requirement_def)
  have "sort_by attribute_precedes (req_attributes r) = sort_by attribute_precedes as"
    using perm attributes_apart [OF assms(2)]
    by (intro attribute_order.sort_by_unique) auto
  moreover have "sort_by (<) (req_members r) = sort_by (<) ms"
    using perm by (intro less_order.sort_by_unique) auto
  ultimately show ?thesis
    by (simp add: canonical_requirement_def r' derive_requirement_id_def requirement_material_def
        Let_def)
qed

lemma composite_keys_apart:
  assumes "composite_key a \<noteq> composite_key b"
  shows "requirement_precedes a b \<or> requirement_precedes b a"
  using assms by (auto simp: composite_key_def requirement_precedes_def neq_iff)

lemma composite_key_canonical [simp]: "composite_key (canonical_requirement r) = composite_key r"
  by (simp add: canonical_requirement_def composite_key_def Let_def)

lemma scopes_apart:
  assumes "distinct (map scope_name ss)" "x \<in> set ss" "y \<in> set ss" "x \<noteq> y"
  shows "scope_precedes x y \<or> scope_precedes y x"
proof -
  have "scope_name x \<noteq> scope_name y"
    using assms by (metis distinct_map inj_onD)
  then show ?thesis by (auto simp: scope_precedes_def neq_iff)
qed

section \<open>A sample contract\<close>

definition sample_scope :: "string \<Rightarrow> u32 \<Rightarrow> string \<Rightarrow> scope" where
  "sample_scope name rank parent =
     \<lparr>scope_name = name, scope_has_rank = True, scope_rank = rank, scope_parent = parent\<rparr>"

definition sample_requirement :: "string \<Rightarrow> requirement_kind \<Rightarrow> rat \<Rightarrow> requirement" where
  "sample_requirement scope kind bound =
     \<lparr>req_id = replicate 64 (CHR ''c''), req_scope = scope, req_kind = kind, req_strength = Required,
      req_target = Finite bound, req_minimum = Finite bound, req_has_numeric = True,
      req_value = [], req_preferred_value = [], req_members = [],
      req_attributes = [(''a'', ''1''), (''b'', ''2'')], req_key = ''k''\<rparr>"

definition sample_body :: contract_body where
  "sample_body =
     \<lparr>body_schema_version = 1,
      body_workload =
        \<lparr>wl_id = replicate 64 (CHR ''b''), wl_name = ''training'', wl_generation = 1\<rparr>,
      body_contract_id = replicate 64 (CHR ''d''), body_generation = 1, body_policy_generation = 1,
      body_major = 1, body_minor = 0, body_patch = 0, body_description = [],
      body_scopes = [sample_scope ''pod'' 2 ''site'', sample_scope ''site'' 1 []],
      body_requirements =
        [sample_requirement ''site'' MinBandwidth 100, sample_requirement ''pod'' MaxLatency 5]\<rparr>"

definition sample_contract :: contract where
  "sample_contract =
     \<lparr>con_body = sample_body, con_digest = body_digest sample_body, con_envelope = empty_envelope,
      con_supersedes = 0, con_supersedes_digest = zero_digest\<rparr>"

section \<open>Properties of canonicalisation\<close>

text \<open>
  C40: Canonicalisation does not depend on the order in which a contract lists its parts: permuting
  the scopes, the requirements, and the attributes and members inside each requirement (with any
  stated identities) gives the same canonical contract, bytes, digest and identity, for contracts
  whose scope names, requirement keys and attribute names are distinct.
\<close>

theorem canonicalize_order_independent:
  assumes scopes: "mset ss = mset (body_scopes (con_body c))"
    and requirements: "mset (map f (body_requirements (con_body c))) = mset rs"
    and shuffled: "\<And>r. r \<in> set (body_requirements (con_body c)) \<Longrightarrow> same_requirement r (f r)"
    and names: "distinct (map scope_name (body_scopes (con_body c)))"
    and keys: "distinct (map composite_key (body_requirements (con_body c)))"
    and attributes: "\<And>r. r \<in> set (body_requirements (con_body c)) \<Longrightarrow>
      distinct (map fst (req_attributes r))"
  shows "canonicalize (c\<lparr>con_body := (con_body c)\<lparr>body_scopes := ss, body_requirements := rs\<rparr>\<rparr>) =
    canonicalize c"
proof -
  let ?rs = "body_requirements (con_body c)"
  have "map (canonical_requirement \<circ> f) ?rs = map canonical_requirement ?rs"
    using same_requirement_canonical shuffled attributes by simp
  then have perm: "mset (map canonical_requirement ?rs) = mset (map canonical_requirement rs)"
    by (metis requirements mset_map map_map)
  have "requirement_precedes x y \<or> requirement_precedes y x"
    if "x \<in> set (map canonical_requirement ?rs)" "y \<in> set (map canonical_requirement ?rs)" "x \<noteq> y" for x y
  proof (rule composite_keys_apart)
    from that obtain a b where "a \<in> set ?rs" "b \<in> set ?rs" "a \<noteq> b"
      "x = canonical_requirement a" "y = canonical_requirement b" by auto
    with keys show "composite_key x \<noteq> composite_key y" by (auto simp: distinct_map inj_on_def)
  qed
  then have "sort_by requirement_precedes (map canonical_requirement ?rs) =
      sort_by requirement_precedes (map canonical_requirement rs)"
    by (rule requirement_order.sort_by_unique [OF perm])
  moreover have "sort_by scope_precedes (body_scopes (con_body c)) = sort_by scope_precedes ss"
    using scopes scopes_apart [OF names] by (intro scope_order.sort_by_unique) auto
  ultimately show ?thesis by (simp add: canonicalize_def Let_def)
qed

theorem canonicalize_order_independent_witness:
  "canonicalize (sample_contract\<lparr>con_body := (con_body sample_contract)
     \<lparr>body_scopes := rev (body_scopes sample_body),
      body_requirements := rev (map (\<lambda>r. r\<lparr>req_attributes := rev (req_attributes r)\<rparr>)
        (body_requirements sample_body))\<rparr>\<rparr>) =
   canonicalize sample_contract"
proof (rule canonicalize_order_independent [where f = "\<lambda>r. r\<lparr>req_attributes := rev (req_attributes r)\<rparr>"])
  show "same_requirement r (r\<lparr>req_attributes := rev (req_attributes r)\<rparr>)" for r
    by (auto simp: same_requirement_def intro!: exI [of _ "req_members r"] exI [of _ "req_id r"])
qed (auto simp: sample_contract_def sample_body_def sample_requirement_def sample_scope_def
    composite_key_def)

text \<open>
  Canonicalising a canonical contract changes nothing, and the result is internally
  consistent: its digest is the digest of its body, its identity is derived from the workload and
  that digest (assigning the identity does not change the digest), and every requirement carries
  the identity derived from its content.
\<close>

theorem canonicalize_idempotent_consistent:
  "canonicalize (canonicalize c) = canonicalize c \<and>
   con_digest (canonicalize c) = body_digest (con_body (canonicalize c)) \<and>
   body_contract_id (con_body (canonicalize c)) =
     derive_contract_id (wl_id (body_workload (con_body c))) (con_digest (canonicalize c)) \<and>
   list_all (\<lambda>r. req_id r = derive_requirement_id r)
     (body_requirements (con_body (canonicalize c)))"
proof -
  have "canonicalize (canonicalize c) = canonicalize c"
    by (simp add: canonicalize_def Let_def map_canonical_sort scope_order.sort_by_idem
        requirement_order.sort_by_idem)
  moreover have "list_all (\<lambda>r. req_id r = derive_requirement_id r)
      (body_requirements (con_body (canonicalize c)))"
    using canonicalize_requirement_ids by (auto simp: list_all_iff)
  moreover have "body_workload (con_body (canonicalize c)) = body_workload (con_body c)"
    by (simp add: canonicalize_def Let_def)
  ultimately show ?thesis
    using canonicalize_digest [of c] canonicalize_contract_id [of c] by simp
qed

end
