(* ===== verification/Wnc_Decode.thy ===== *)
theory Wnc_Decode
  imports Wnc_Contract
begin

text \<open>
  Decoding contract documents: the readers of \<^verbatim>\<open>src/contract.cpp\<close>, \<^verbatim>\<open>decode_requirement\<close>,
  \<^verbatim>\<open>decode_scope\<close>, \<^verbatim>\<open>decode_envelope\<close> and \<^verbatim>\<open>contract_from_json\<close>, with the code of every
  refusal (message texts are not modelled). The theory shows what every decoded contract
  satisfies, and that decoding what was written gives the contract back.
\<close>

section \<open>Decoding\<close>

definition rbind :: "'a result \<Rightarrow> ('a \<Rightarrow> 'b result) \<Rightarrow> 'b result" where
  "rbind r f = (case r of Inl c \<Rightarrow> Inl c | Inr x \<Rightarrow> f x)"

definition of_option :: "code \<Rightarrow> 'a option \<Rightarrow> 'a result" where
  "of_option c x = (case x of Some y \<Rightarrow> Inr y | None \<Rightarrow> Inl c)"

definition rcheck :: "bool \<Rightarrow> code \<Rightarrow> unit result" where
  "rcheck b c = (if b then Inr () else Inl c)"

fun rmap :: "('a \<Rightarrow> 'b result) \<Rightarrow> 'a list \<Rightarrow> 'b list result" where
  "rmap f [] = Inr []"
| "rmap f (x # xs) = rbind (f x) (\<lambda>y. rbind (rmap f xs) (\<lambda>ys. Inr (y # ys)))"

definition kMaxNumericParameter :: nat where "kMaxNumericParameter = 1000000000000000"
definition kMaxNameBytes :: nat where "kMaxNameBytes = 200"
definition kMaxStringBytes :: nat where "kMaxStringBytes = 4096"
definition kMaxMemberCount :: nat where "kMaxMemberCount = 4096"
definition kMaxAttributesPerRequirement :: nat where "kMaxAttributesPerRequirement = 32"
definition kMaxScopesPerContract :: nat where "kMaxScopesPerContract = 1024"
definition kSchemaVersion :: u32 where "kSchemaVersion = 1"

record contract_limits =
  max_scopes :: nat
  max_requirements :: nat
  max_requirements_per_scope :: nat
  max_ranked_scopes :: nat
  max_attributes :: nat
  max_distinct_kinds_per_scope :: nat
  max_schema_version :: u32

definition default_contract_limits :: contract_limits where
  "default_contract_limits =
     \<lparr>max_scopes = 1024, max_requirements = 4096, max_requirements_per_scope = 256,
      max_ranked_scopes = 256, max_attributes = 32, max_distinct_kinds_per_scope = 32,
      max_schema_version = 1\<rparr>"

subsection \<open>Readers\<close>

text \<open>
  Each reader takes the members of an object and a field name. An absent optional field leaves the
  caller's variable as it was, which is empty or zero at every call.
\<close>

definition is_lower_hex :: "char \<Rightarrow> bool" where
  "is_lower_hex c =
     (CHR ''0'' \<le> c \<and> c \<le> CHR ''9'' \<or> CHR ''a'' \<le> c \<and> c \<le> CHR ''f'')"

definition read_id :: "(string, json) smap \<Rightarrow> string \<Rightarrow> string result" where
  "read_id obj field =
     (case map_of obj field of
        Some (JString t) \<Rightarrow>
          if length t \<noteq> kSha256HexChars then Inl kContractSchema
          else if \<not> list_all is_lower_hex t then Inl kContractSchema
          else Inr t
      | _ \<Rightarrow> Inl kContractSchema)"

definition read_string :: "(string, json) smap \<Rightarrow> string \<Rightarrow> nat \<Rightarrow> bool \<Rightarrow> string result" where
  "read_string obj field bound required =
     (case map_of obj field of
        None \<Rightarrow> if required then Inl kContractSchema else Inr []
      | Some (JString s) \<Rightarrow> if length s > bound then Inl kJsonStringTooLong else Inr s
      | Some _ \<Rightarrow> Inl kContractSchema)"

definition read_uint :: "(string, json) smap \<Rightarrow> string \<Rightarrow> nat \<Rightarrow> bool \<Rightarrow> u64 result" where
  "read_uint obj field maximum required =
     (case map_of obj field of
        None \<Rightarrow> if required then Inl kContractSchema else Inr 0
      | Some (JInt i) \<Rightarrow>
          if i < 0 \<or> i > int maximum then Inl kValueOutOfRange else Inr (word_of_int i)
      | Some _ \<Rightarrow> Inl kContractSchema)"

definition read_real :: "(string, json) smap \<Rightarrow> string \<Rightarrow> nat \<Rightarrow> double option result" where
  "read_real obj field maximum =
     (let accept = (\<lambda>raw. if \<not> isfinite raw \<or> dbl_lt raw (Finite 0) \<or>
                             dbl_lt (Finite (of_nat maximum)) raw
                          then Inl kValueOutOfRange else Inr (Some raw))
      in case map_of obj field of
           None \<Rightarrow> Inr None
         | Some (JInt i) \<Rightarrow> accept (double_of_int i)
         | Some (JReal d) \<Rightarrow> accept d
         | Some _ \<Rightarrow> Inl kContractSchema)"

text \<open>The greatest value of a 64 bit unsigned integer: no bound beyond the sign check.\<close>

definition u64_max :: nat where "u64_max = 18446744073709551615"

subsection \<open>Requirements and scopes\<close>

fun decode_attribute :: "json \<Rightarrow> (string \<times> string) result" where
  "decode_attribute (JObject obj) =
     rbind (read_string obj ''name'' kMaxNameBytes True) (\<lambda>name.
     rbind (read_string obj ''value'' kMaxStringBytes True) (\<lambda>v.
     if name = [] then Inl kMissingRequirementKey else Inr (name, v)))"
| "decode_attribute _ = Inl kContractSchema"

fun decode_attributes :: "json \<Rightarrow> (string \<times> string) list result" where
  "decode_attributes (JArray items) =
     (if length items > kMaxAttributesPerRequirement then Inl kTooManyAttributes
      else rmap decode_attribute items)"
| "decode_attributes _ = Inl kContractSchema"

fun decode_member :: "json \<Rightarrow> ident result" where
  "decode_member (JString t) =
     (of_option kContractSchema (parse_id t))"
| "decode_member _ = Inl kContractSchema"

definition decode_kind :: "(string, json) smap \<Rightarrow> requirement_kind result" where
  "decode_kind obj =
     (case map_of obj ''kind'' of
        Some (JString t) \<Rightarrow>
          (of_option kInvalidKind (parse_requirement_kind t))
      | _ \<Rightarrow> Inl kContractSchema)"

definition decode_strength :: "(string, json) smap \<Rightarrow> requirement_strength result" where
  "decode_strength obj =
     (case map_of obj ''strength'' of
        Some (JString t) \<Rightarrow>
          (of_option kInvalidStrength (parse_requirement_strength t))
      | _ \<Rightarrow> Inl kContractSchema)"

definition decode_members :: "(string, json) smap \<Rightarrow> ident list result" where
  "decode_members obj =
     (case map_of obj ''members'' of
        None \<Rightarrow> Inr []
      | Some (JArray items) \<Rightarrow>
          if length items > kMaxMemberCount then Inl kTooManyAttributes
          else rmap decode_member items
      | Some _ \<Rightarrow> Inl kContractSchema)"

definition decode_optional_id :: "(string, json) smap \<Rightarrow> ident result" where
  "decode_optional_id obj =
     (case map_of obj ''id'' of
        None \<Rightarrow> Inr zero_id
      | Some j \<Rightarrow> decode_member j)"

text \<open>The band of a numeric requirement, \<^verbatim>\<open>None\<close> when neither bound is given.\<close>

definition decode_band ::
    "(string, json) smap \<Rightarrow> requirement_kind \<Rightarrow> (double \<times> double) option result" where
  "decode_band obj kind =
     rbind (read_real obj ''target'' kMaxNumericParameter) (\<lambda>target.
     rbind (read_real obj ''minimum'' kMaxNumericParameter) (\<lambda>minimum.
     case (target, minimum) of
       (None, None) \<Rightarrow> Inr None
     | (Some t, Some m) \<Rightarrow>
         if (if kind_is_floor kind then dbl_le m t else dbl_le t m) then Inr (Some (t, m))
         else Inl kValueOutOfRange
     | _ \<Rightarrow> Inl kInvalidValue))"

fun decode_requirement :: "json \<Rightarrow> requirement result" where
  "decode_requirement (JObject obj) =
     rbind (read_string obj ''scope'' kMaxNameBytes True) (\<lambda>scope.
     rbind (decode_kind obj) (\<lambda>kind.
     rbind (decode_strength obj) (\<lambda>strength.
     rbind (read_string obj ''key'' kMaxNameBytes False) (\<lambda>key.
     rbind (read_string obj ''value'' kMaxStringBytes False) (\<lambda>v.
     rbind (read_string obj ''preferred_value'' kMaxStringBytes False) (\<lambda>preferred.
     rbind (decode_band obj kind) (\<lambda>band.
     rbind (decode_members obj) (\<lambda>members.
     rbind (case map_of obj ''attributes'' of None \<Rightarrow> Inr [] | Some j \<Rightarrow> decode_attributes j)
       (\<lambda>attributes.
     rbind (decode_optional_id obj) (\<lambda>i.
     Inr \<lparr>req_id = i, req_scope = scope, req_kind = kind, req_strength = strength,
          req_target = (case band of Some (t, m) \<Rightarrow> t | None \<Rightarrow> Finite 0),
          req_minimum = (case band of Some (t, m) \<Rightarrow> m | None \<Rightarrow> Finite 0),
          req_has_numeric = (band \<noteq> None), req_value = v, req_preferred_value = preferred,
          req_members = members, req_attributes = attributes, req_key = key\<rparr>))))))))))"
| "decode_requirement _ = Inl kContractSchema"

fun decode_scope :: "json \<Rightarrow> scope result" where
  "decode_scope (JObject obj) =
     rbind (read_string obj ''name'' kMaxNameBytes True) (\<lambda>name.
     rbind (rcheck (name \<noteq> []) kEmptyScopeName) (\<lambda>_.
     rbind (read_string obj ''parent'' kMaxNameBytes False) (\<lambda>parent.
     rbind (read_uint obj ''rank'' 1000000 False) (\<lambda>rank.
     Inr \<lparr>scope_name = name, scope_has_rank = (map_of obj ''rank'' \<noteq> None),
          scope_rank = ucast rank, scope_parent = parent\<rparr>))))"
| "decode_scope _ = Inl kContractSchema"

fun decode_envelope :: "json \<Rightarrow> contract_envelope result" where
  "decode_envelope (JObject obj) =
     rbind (read_id obj ''publisher'') (\<lambda>publisher_text.
     rbind (of_option kContractSchema (parse_id publisher_text))
       (\<lambda>publisher.
     rbind (case map_of obj ''algorithm'' of
              Some (JString t) \<Rightarrow>
                (of_option kSignatureInvalid (parse_signature_algorithm t))
            | _ \<Rightarrow> Inl kContractSchema) (\<lambda>algorithm.
     rbind (read_string obj ''key_id'' kSha256HexChars True) (\<lambda>key_id.
     rbind (read_uint obj ''issued_millis'' u64_max False) (\<lambda>issued.
     rbind (case map_of obj ''signature'' of
              None \<Rightarrow> Inr []
            | Some (JString t) \<Rightarrow>
                (of_option kSignatureInvalid (base64url_decode t 1024))
            | Some _ \<Rightarrow> Inl kContractSchema) (\<lambda>sig.
     Inr \<lparr>env_publisher = publisher, env_algorithm = algorithm, env_key_id = key_id,
          env_signature = sig, env_issued_millis = issued\<rparr>))))))"
| "decode_envelope _ = Inl kContractSchema"

subsection \<open>Bodies and contracts\<close>

definition array_above :: "(string, json) smap \<Rightarrow> string \<Rightarrow> nat \<Rightarrow> bool" where
  "array_above obj field bound =
     (case map_of obj field of Some (JArray items) \<Rightarrow> length items > bound | _ \<Rightarrow> False)"

fun decode_workload :: "json option \<Rightarrow> workload result" where
  "decode_workload (Some (JObject obj)) =
     rbind (read_id obj ''id'') (\<lambda>id_text.
     rbind (of_option kZeroIdentity (parse_id id_text)) (\<lambda>i.
     rbind (rcheck (\<not> is_zero_id i) kZeroIdentity) (\<lambda>_.
     rbind (read_string obj ''name'' kMaxNameBytes True) (\<lambda>name.
     rbind (read_uint obj ''generation'' u64_max True) (\<lambda>generation.
     Inr \<lparr>wl_id = i, wl_name = name, wl_generation = generation\<rparr>)))))"
| "decode_workload _ = Inl kContractSchema"

fun decode_version :: "json option \<Rightarrow> (u32 \<times> u32 \<times> u32) result" where
  "decode_version None = Inr (1, 0, 0)"
| "decode_version (Some (JObject obj)) =
     rbind (read_uint obj ''major'' 1000000 False) (\<lambda>major.
     rbind (read_uint obj ''minor'' 1000000 False) (\<lambda>minor.
     rbind (read_uint obj ''patch'' 1000000 False) (\<lambda>patch.
     Inr (ucast major, ucast minor, ucast patch))))"
| "decode_version (Some _) = Inl kContractSchema"

fun decode_array :: "json option \<Rightarrow> nat \<Rightarrow> code \<Rightarrow> (json \<Rightarrow> 'a result) \<Rightarrow> 'a list result" where
  "decode_array (Some (JArray items)) bound too_many decode_item =
     (if length items > bound then Inl too_many else rmap decode_item items)"
| "decode_array _ bound too_many decode_item = Inl kContractSchema"

definition decode_body :: "(string, json) smap \<Rightarrow> contract_body result" where
  "decode_body obj =
     rbind (read_uint obj ''schema_version'' 1000 True) (\<lambda>schema_version.
     rbind (rcheck (schema_version \<le> ucast (max_schema_version default_contract_limits))
       kContractSchemaVersionUnsupported) (\<lambda>_.
     rbind (rcheck (\<not> array_above obj ''scopes'' (max_scopes default_contract_limits))
       kTooManyScopes) (\<lambda>_.
     rbind (rcheck (\<not> array_above obj ''requirements'' (max_requirements default_contract_limits))
       kTooManyRequirements) (\<lambda>_.
     rbind (decode_workload (map_of obj ''workload'')) (\<lambda>workload.
     rbind (read_id obj ''contract_id'') (\<lambda>contract_id_text.
     rbind (of_option kContractSchema (parse_id contract_id_text))
       (\<lambda>contract_id.
     rbind (read_uint obj ''contract_generation'' u64_max True) (\<lambda>generation.
     rbind (read_uint obj ''policy_generation'' u64_max False) (\<lambda>policy_generation.
     rbind (decode_version (map_of obj ''version'')) (\<lambda>(major, minor, patch).
     rbind (read_string obj ''description'' kMaxStringBytes False) (\<lambda>description.
     rbind (decode_array (map_of obj ''scopes'') kMaxScopesPerContract kTooManyScopes decode_scope)
       (\<lambda>scopes.
     rbind (decode_array (map_of obj ''requirements'')
         (max_requirements default_contract_limits) kTooManyRequirements decode_requirement)
       (\<lambda>requirements.
     Inr \<lparr>body_schema_version = ucast schema_version, body_workload = workload,
          body_contract_id = contract_id, body_generation = generation,
          body_policy_generation = policy_generation, body_major = major, body_minor = minor,
          body_patch = patch, body_description = description, body_scopes = scopes,
          body_requirements = requirements\<rparr>)))))))))))))"

definition decode_digest_field :: "(string, json) smap \<Rightarrow> string \<Rightarrow> digest option result" where
  "decode_digest_field obj field =
     (case map_of obj field of
        None \<Rightarrow> Inr None
      | Some (JString t) \<Rightarrow>
          rbind (of_option kContractDigestMismatch (hex_decode_digest t)) (\<lambda>d. Inr (Some d))
      | Some _ \<Rightarrow> Inl kContractSchema)"

definition settle_digest :: "contract_body \<Rightarrow> digest option \<Rightarrow> digest result" where
  "settle_digest body declared =
     (case declared of
        None \<Rightarrow> Inr (body_digest body)
      | Some d \<Rightarrow>
          if d = zero_digest then Inr (body_digest body)
          else if d \<noteq> body_digest body then Inl kContractDigestMismatch
          else Inr d)"

fun contract_from_json :: "json \<Rightarrow> contract result" where
  "contract_from_json (JObject obj) =
     rbind (case map_of obj ''body'' of Some (JObject b) \<Rightarrow> Inr b | _ \<Rightarrow> Inl kContractSchema)
       (\<lambda>body_object.
     rbind (decode_body body_object) (\<lambda>body.
     rbind (case map_of obj ''envelope'' of
              None \<Rightarrow> Inr empty_envelope
            | Some j \<Rightarrow> decode_envelope j) (\<lambda>envelope.
     rbind (read_uint obj ''supersedes'' u64_max False) (\<lambda>supersedes.
     rbind (decode_digest_field obj ''supersedes_digest'') (\<lambda>supersedes_digest.
     rbind (decode_digest_field obj ''digest'') (\<lambda>declared.
     rbind (settle_digest body declared) (\<lambda>d.
     Inr \<lparr>con_body = body, con_digest = d, con_envelope = envelope, con_supersedes = supersedes,
          con_supersedes_digest =
            (case supersedes_digest of Some s \<Rightarrow> s | None \<Rightarrow> zero_digest)\<rparr>)))))))"
| "contract_from_json _ = Inl kJsonNotAnObject"

definition contract_from_text :: "json_decode_options \<Rightarrow> string \<Rightarrow> contract result option" where
  "contract_from_text options t =
     (case json_decode options t of
        None \<Rightarrow> None
      | Some (Inl (c, offset)) \<Rightarrow> Some (Inl c)
      | Some (Inr j) \<Rightarrow> Some (contract_from_json j))"

section \<open>What the decoder accepts\<close>

lemma rbind_Inr_iff [simp]: "rbind r f = Inr y \<longleftrightarrow> (\<exists>x. r = Inr x \<and> f x = Inr y)"
  by (cases r) (auto simp: rbind_def)

lemma rbind_Inr [simp]: "rbind (Inr x) f = f x"
  by (simp add: rbind_def)

lemma of_option_Inr [simp]: "of_option c x = Inr y \<longleftrightarrow> x = Some y"
  by (auto simp: of_option_def split: option.splits)

lemma of_option_Some [simp]: "of_option c (Some y) = Inr y"
  by simp

lemma rcheck_True [simp]: "rcheck True c = Inr ()"
  by (simp add: rcheck_def)

lemma rcheck_Inr [simp]: "rcheck b c = Inr u \<longleftrightarrow> b"
  by (simp add: rcheck_def)

lemma rmap_Inr: "rmap f xs = Inr ys \<longleftrightarrow> list_all2 (\<lambda>x y. f x = Inr y) xs ys"
  by (induction xs arbitrary: ys) (auto simp: list_all2_Cons1)

lemma rmap_length: "rmap f xs = Inr ys \<Longrightarrow> length ys = length xs"
  by (auto simp: rmap_Inr dest: list_all2_lengthD)

lemma rmap_all: "rmap f xs = Inr ys \<Longrightarrow> (\<And>x y. f x = Inr y \<Longrightarrow> P y) \<Longrightarrow> list_all P ys"
  by (induction xs arbitrary: ys) auto

lemma read_string_bound: "read_string obj f m req = Inr s \<Longrightarrow> length s \<le> m"
  by (auto simp: read_string_def split: option.splits json.splits if_splits)

text \<open>A value the decoder admits as a bound, and a band of two of them ordered for its kind.\<close>

definition bound_ok :: "double \<Rightarrow> bool" where
  "bound_ok x = (isfinite x \<and> dbl_le (Finite 0) x \<and> dbl_le x (Finite 1000000000000000))"

definition band_ok :: "requirement_kind \<Rightarrow> double \<Rightarrow> double \<Rightarrow> bool" where
  "band_ok k t m =
     (bound_ok t \<and> bound_ok m \<and> (if kind_is_floor k then dbl_le m t else dbl_le t m))"

lemma read_real_bound: "read_real obj f kMaxNumericParameter = Inr (Some x) \<Longrightarrow> bound_ok x"
  by (auto simp: read_real_def Let_def isfinite_iff not_less bound_ok_def kMaxNumericParameter_def
      split: option.splits json.splits if_splits)

lemma decode_band_ok: "decode_band obj k = Inr (Some (t, m)) \<Longrightarrow> band_ok k t m"
  by (auto simp: decode_band_def band_ok_def split: option.splits if_splits dest: read_real_bound)

definition decoded_requirement_ok :: "requirement \<Rightarrow> bool" where
  "decoded_requirement_ok r =
     (wf_id (req_id r) \<and> list_all wf_id (req_members r) \<and> length (req_members r) \<le> 4096 \<and>
      length (req_attributes r) \<le> 32 \<and> list_all (\<lambda>p. fst p \<noteq> []) (req_attributes r) \<and>
      length (req_scope r) \<le> 200 \<and> length (req_key r) \<le> 200 \<and> length (req_value r) \<le> 4096 \<and>
      (req_has_numeric r \<longrightarrow> band_ok (req_kind r) (req_target r) (req_minimum r)))"

lemma decode_member_wf: "decode_member j = Inr i \<Longrightarrow> wf_id i"
  by (cases j) (auto split: option.splits dest: parse_id_wf)

lemma decode_optional_id_wf: "decode_optional_id obj = Inr i \<Longrightarrow> wf_id i"
  by (auto simp: decode_optional_id_def zero_id_wf split: option.splits dest: decode_member_wf)

lemma decode_members_ok:
  "decode_members obj = Inr ms \<Longrightarrow> list_all wf_id ms \<and> length ms \<le> 4096"
  by (auto simp: decode_members_def kMaxMemberCount_def
      split: option.splits json.splits if_splits
      dest: rmap_length rmap_all [OF _ decode_member_wf])

lemma decode_attribute_ok: "decode_attribute j = Inr p \<Longrightarrow> fst p \<noteq> []"
  by (cases j) (auto split: if_splits)

lemma decode_attributes_ok:
  "decode_attributes j = Inr as \<Longrightarrow> length as \<le> 32 \<and> list_all (\<lambda>p. fst p \<noteq> []) as"
  by (cases j) (auto simp: kMaxAttributesPerRequirement_def split: if_splits
      dest: rmap_length rmap_all [OF _ decode_attribute_ok])

lemma decode_requirement_ok: "decode_requirement j = Inr r \<Longrightarrow> decoded_requirement_ok r"
proof (cases j)
  case (JObject obj)
  assume "decode_requirement j = Inr r"
  then show ?thesis unfolding JObject
    by (auto simp: decoded_requirement_ok_def kMaxNameBytes_def kMaxStringBytes_def
        dest!: decode_optional_id_wf decode_members_ok read_string_bound decode_attributes_ok
          decode_band_ok split: option.splits)
qed auto

lemma decode_scope_ok: "decode_scope j = Inr s \<Longrightarrow> scope_name s \<noteq> [] \<and> length (scope_name s) \<le> 200"
  by (cases j) (auto simp: kMaxNameBytes_def dest!: read_string_bound)

lemma decode_workload_ok:
  "decode_workload j = Inr w \<Longrightarrow> wf_id (wl_id w) \<and> \<not> is_zero_id (wl_id w) \<and> length (wl_name w) \<le> 200"
  by (cases j rule: decode_workload.cases)
    (auto simp: kMaxNameBytes_def dest!: read_string_bound parse_id_wf split: option.splits if_splits)

text \<open>What holds of a decoded contract, whatever the document said.\<close>

definition decoded_contract_ok :: "contract \<Rightarrow> bool" where
  "decoded_contract_ok c =
     (con_digest c = body_digest (con_body c) \<and>
      wf_id (wl_id (body_workload (con_body c))) \<and>
      \<not> is_zero_id (wl_id (body_workload (con_body c))) \<and>
      wf_id (body_contract_id (con_body c)) \<and>
      body_schema_version (con_body c) \<le> 1 \<and>
      length (body_scopes (con_body c)) \<le> 1024 \<and>
      length (body_requirements (con_body c)) \<le> 4096 \<and>
      list_all (\<lambda>s. scope_name s \<noteq> []) (body_scopes (con_body c)) \<and>
      list_all decoded_requirement_ok (body_requirements (con_body c)))"

lemma decode_array_ok:
  assumes "decode_array j n code f = Inr ys" "\<And>x y. f x = Inr y \<Longrightarrow> P y"
  shows "length ys \<le> n \<and> list_all P ys"
  using assms
  by (cases j; cases "the j") (auto split: if_splits dest: rmap_length intro: rmap_all)

lemma schema_version_bound: "(w :: u64) \<le> 1 \<Longrightarrow> (ucast w :: u32) \<le> 1"
proof -
  assume "w \<le> 1"
  then have "unat w = 0 \<or> unat w = 1" by (auto simp: word_le_nat_alt)
  then have "w = 0 \<or> w = 1" by (metis unat_0 unat_1 word_unat_eq_iff)
  then show ?thesis by auto
qed

lemma decode_body_ok:
  assumes "decode_body obj = Inr b"
  shows "wf_id (wl_id (body_workload b)) \<and> \<not> is_zero_id (wl_id (body_workload b)) \<and>
    wf_id (body_contract_id b) \<and> body_schema_version b \<le> 1 \<and> length (body_scopes b) \<le> 1024 \<and>
    length (body_requirements b) \<le> 4096 \<and> list_all (\<lambda>s. scope_name s \<noteq> []) (body_scopes b) \<and>
    list_all decoded_requirement_ok (body_requirements b)"
proof -
  have "list_all (\<lambda>s. scope_name s \<noteq> []) (body_scopes b) \<and> length (body_scopes b) \<le> 1024"
    and "list_all decoded_requirement_ok (body_requirements b) \<and> length (body_requirements b) \<le> 4096"
    using assms
    by (auto simp: decode_body_def kMaxScopesPerContract_def default_contract_limits_def
        dest!: decode_array_ok [where P = "\<lambda>s. scope_name s \<noteq> []"]
          decode_array_ok [where P = decoded_requirement_ok]
        dest: decode_scope_ok decode_requirement_ok)
  with assms show ?thesis
    by (auto simp: decode_body_def default_contract_limits_def schema_version_bound
        dest!: decode_workload_ok parse_id_wf split: option.splits)
qed

section \<open>Reading back what was written\<close>

lemma requirement_object: "requirement_to_json r = JObject (object_of (requirement_to_json r))"
  unfolding requirement_to_json_def by (rule json_sets_object) simp

lemma requirement_members:
  "map_of (object_of (requirement_to_json r)) ''id'' = Some (JString (req_id r))"
  "map_of (object_of (requirement_to_json r)) ''scope'' = Some (JString (req_scope r))"
  "map_of (object_of (requirement_to_json r)) ''kind'' =
     Some (JString (requirement_kind_token (req_kind r)))"
  "map_of (object_of (requirement_to_json r)) ''strength'' =
     Some (JString (requirement_strength_token (req_strength r)))"
  "map_of (object_of (requirement_to_json r)) ''key'' = Some (JString (req_key r))"
  "map_of (object_of (requirement_to_json r)) ''target'' =
     (if req_has_numeric r then Some (JReal (req_target r)) else None)"
  "map_of (object_of (requirement_to_json r)) ''minimum'' =
     (if req_has_numeric r then Some (JReal (req_minimum r)) else None)"
  "map_of (object_of (requirement_to_json r)) ''value'' =
     (if req_value r \<noteq> [] then Some (JString (req_value r)) else None)"
  "map_of (object_of (requirement_to_json r)) ''preferred_value'' =
     (if req_preferred_value r \<noteq> [] then Some (JString (req_preferred_value r)) else None)"
  "map_of (object_of (requirement_to_json r)) ''members'' =
     (if req_members r \<noteq> [] then Some (JArray (map JString (req_members r))) else None)"
  "map_of (object_of (requirement_to_json r)) ''attributes'' =
     (if req_attributes r \<noteq> [] then Some (attributes_to_json (req_attributes r)) else None)"
  by (simp_all add: requirement_to_json_def map_of_json_sets map_add_def del: json_sets_Cons)

lemma token_value:
  assumes "distinct (map snd table)" "distinct (map fst table)" "(v, t) \<in> set table"
  shows "value_of table (token_of table v) = Some v"
proof -
  have "token_of table v = t" using assms by (simp add: token_of_def)
  moreover have "find (\<lambda>p. snd p = t) table = Some (v, t)"
    using assms by (induction table) (auto simp: image_iff)
  ultimately show ?thesis by (simp add: value_of_def)
qed

lemma parse_requirement_kind_token [simp]:
  "parse_requirement_kind (requirement_kind_token k) = Some k"
  by (cases k) (simp_all add: parse_requirement_kind_def requirement_kind_token_def value_of_def
      token_of_def kKindTable_def)

lemma parse_requirement_strength_token [simp]:
  "parse_requirement_strength (requirement_strength_token s) = Some s"
  by (cases s) (simp_all add: parse_requirement_strength_def requirement_strength_token_def
      value_of_def token_of_def kStrengthTable_def)

lemma rmap_map: "(\<And>x. x \<in> set xs \<Longrightarrow> f (g x) = Inr x) \<Longrightarrow> rmap f (map g xs) = Inr xs"
  by (induction xs) auto

lemma decode_attributes_to_json:
  assumes "length as \<le> 32" "list_all (\<lambda>(n, v). n \<noteq> [] \<and> length n \<le> 200 \<and> length v \<le> 4096) as"
  shows "decode_attributes (attributes_to_json as) = Inr as"
proof -
  have "decode_attribute (json_sets [(''name'', JString n), (''value'', JString v)] JNull) = Inr (n, v)"
    if "n \<noteq> []" "length n \<le> 200" "length v \<le> 4096" for n v
    using that by (simp add: json_set_def read_string_def kMaxNameBytes_def kMaxStringBytes_def
        del: map_put.simps)
  with assms have "rmap decode_attribute
      (map (\<lambda>(n, v). json_sets [(''name'', JString n), (''value'', JString v)] JNull) as) = Inr as"
    by (intro rmap_map) (auto simp: list_all_iff)
  with assms(1) show ?thesis
    by (simp add: attributes_to_json_def kMaxAttributesPerRequirement_def del: json_sets_Cons)
qed

text \<open>The requirements, scopes and contracts a document can carry without loss.\<close>

definition encodable_requirement :: "requirement \<Rightarrow> bool" where
  "encodable_requirement r =
     (wf_id (req_id r) \<and> list_all wf_id (req_members r) \<and> length (req_members r) \<le> 4096 \<and>
      length (req_attributes r) \<le> 32 \<and>
      list_all (\<lambda>(n, v). n \<noteq> [] \<and> length n \<le> 200 \<and> length v \<le> 4096) (req_attributes r) \<and>
      length (req_scope r) \<le> 200 \<and> length (req_key r) \<le> 200 \<and> length (req_value r) \<le> 4096 \<and>
      length (req_preferred_value r) \<le> 4096 \<and>
      (if req_has_numeric r then band_ok (req_kind r) (req_target r) (req_minimum r)
       else req_target r = Finite 0 \<and> req_minimum r = Finite 0))"

lemma read_real_bound_ok: "map_of obj f = Some (JReal x) \<Longrightarrow> bound_ok x \<Longrightarrow>
    read_real obj f kMaxNumericParameter = Inr (Some x)"
  by (cases x) (auto simp: read_real_def bound_ok_def kMaxNumericParameter_def)

lemma decode_requirement_to_json:
  assumes "encodable_requirement r"
  shows "decode_requirement (requirement_to_json r) = Inr r"
proof -
  let ?obj = "object_of (requirement_to_json r)"
  have strings: "read_string ?obj ''scope'' kMaxNameBytes True = Inr (req_scope r)"
    "read_string ?obj ''key'' kMaxNameBytes False = Inr (req_key r)"
    "read_string ?obj ''value'' kMaxStringBytes False = Inr (req_value r)"
    "read_string ?obj ''preferred_value'' kMaxStringBytes False = Inr (req_preferred_value r)"
    using assms by (simp_all add: read_string_def requirement_members encodable_requirement_def
        kMaxNameBytes_def kMaxStringBytes_def)
  have tokens: "decode_kind ?obj = Inr (req_kind r)" "decode_strength ?obj = Inr (req_strength r)"
    by (simp_all add: decode_kind_def decode_strength_def requirement_members)
  have "rmap decode_member (map JString (req_members r)) = Inr (req_members r)"
    using assms by (intro rmap_map) (simp add: encodable_requirement_def list_all_iff parse_id_of_wf)
  then have members: "decode_members ?obj = Inr (req_members r)"
    using assms by (simp add: decode_members_def requirement_members encodable_requirement_def
        kMaxMemberCount_def)
  have band: "decode_band ?obj (req_kind r) =
      Inr (if req_has_numeric r then Some (req_target r, req_minimum r) else None)"
  proof (cases "req_has_numeric r")
    case True
    with assms have "band_ok (req_kind r) (req_target r) (req_minimum r)"
      by (simp add: encodable_requirement_def)
    with True show ?thesis
      by (simp add: decode_band_def band_ok_def read_real_bound_ok [OF _ ] requirement_members)
  next
    case False
    then show ?thesis by (simp add: decode_band_def read_real_def requirement_members)
  qed
  have attributes: "(case map_of ?obj ''attributes'' of None \<Rightarrow> Inr [] | Some j \<Rightarrow> decode_attributes j) =
      Inr (req_attributes r)"
    using assms by (simp add: requirement_members decode_attributes_to_json encodable_requirement_def)
  have "decode_optional_id ?obj = Inr (req_id r)"
    using assms by (simp add: decode_optional_id_def requirement_members encodable_requirement_def
        parse_id_of_wf)
  with strings tokens members band attributes assms
  have "decode_requirement (JObject ?obj) = Inr r"
    by (cases "req_has_numeric r") (simp_all add: encodable_requirement_def)
  then show ?thesis by (simp only: requirement_object [symmetric])
qed

lemma ucast_u64_u32 [simp]: "(ucast (ucast (w :: u32) :: u64) :: u32) = w"
  by (rule bit_word_eqI) (auto simp: bit_simps)

definition encodable_scope :: "scope \<Rightarrow> bool" where
  "encodable_scope s =
     (scope_name s \<noteq> [] \<and> length (scope_name s) \<le> 200 \<and> length (scope_parent s) \<le> 200 \<and>
      (if scope_has_rank s then scope_rank s \<le> 1000000 else scope_rank s = 0))"

lemma decode_scope_to_json:
  assumes "encodable_scope s"
  shows "decode_scope (scope_to_json s) = Inr s"
proof -
  let ?obj = "object_of (scope_to_json s)"
  have obj: "scope_to_json s = JObject ?obj"
    unfolding scope_to_json_def by (rule json_sets_object) simp
  have m: "map_of ?obj ''name'' = Some (JString (scope_name s))"
    "map_of ?obj ''rank'' = (if scope_has_rank s then Some (JInt (uint (scope_rank s))) else None)"
    "map_of ?obj ''parent'' =
       (if scope_parent s \<noteq> [] then Some (JString (scope_parent s)) else None)"
    by (simp_all add: scope_to_json_def map_of_json_sets map_add_def del: json_sets_Cons)
  have "read_string ?obj ''name'' kMaxNameBytes True = Inr (scope_name s)"
    "read_string ?obj ''parent'' kMaxNameBytes False = Inr (scope_parent s)"
    using assms by (simp_all add: read_string_def m encodable_scope_def kMaxNameBytes_def)
  moreover have "uint (scope_rank s) \<le> 1000000" if "scope_has_rank s"
    using assms that by (simp add: encodable_scope_def word_le_def)
  then have "read_uint ?obj ''rank'' 1000000 False = Inr (ucast (scope_rank s))"
    using assms by (auto simp: read_uint_def m encodable_scope_def)
  ultimately have "decode_scope (JObject ?obj) = Inr s"
    using assms by (simp add: m encodable_scope_def)
  then show ?thesis by (simp only: obj [symmetric])
qed

text \<open>A 64 bit value survives the signed integers of the documents below \<^verbatim>\<open>2 ^ 63\<close>.\<close>

definition fits_int64 :: "u64 \<Rightarrow> bool" where
  "fits_int64 w = (w < 2 ^ 63)"

lemma fits_int64_sint: "fits_int64 w \<Longrightarrow> sint w = uint w"
proof -
  assume "fits_int64 w"
  then have "uint w < 2 ^ 63" by (simp add: fits_int64_def word_less_def)
  then show ?thesis by (simp add: sint_uint signed_take_bit_eq_if_positive take_bit_int_eq_self bit_uint_iff bit_iff_odd div_pos_pos_trivial)
qed

lemma uint_less_u64_max: "uint (w :: u64) \<le> int u64_max"
  using uint_lt2p [of w] by (simp add: u64_max_def)

lemma unat_ucast_u32_u64 [simp]: "unat (ucast (w :: u32) :: u64) = unat w"
proof -
  have "unat w < 4294967296" using unsigned_less [where 'a = nat, of w] by simp
  then show ?thesis by (simp add: unsigned_ucast_eq take_bit_nat_eq_self)
qed

lemma read_uint_u64:
  assumes "map_of obj f = Some (json_u64 w)" "fits_int64 w"
  shows "read_uint obj f u64_max required = Inr w"
  using assms uint_less_u64_max [of w] by (simp add: read_uint_def json_u64_def fits_int64_sint)

lemma read_uint_u32:
  assumes "map_of obj f = Some (JInt (uint (w :: u32)))" "uint w \<le> int n"
  shows "read_uint obj f n required = Inr (ucast w)"
  using assms by (simp add: read_uint_def)

lemma lower_hex_digits: "c \<in> set kLowerHexDigits \<Longrightarrow> is_lower_hex c"
  by (auto simp: kLowerHexDigits_def is_lower_hex_def less_eq_char_def)

lemma read_id_wf: "map_of obj f = Some (JString i) \<Longrightarrow> wf_id i \<Longrightarrow> read_id obj f = Inr i"
  by (auto simp: read_id_def wf_id_def list_all_iff lower_hex_digits)

definition encodable_body :: "contract_body \<Rightarrow> bool" where
  "encodable_body b =
     (body_schema_version b \<le> 1 \<and> wf_id (wl_id (body_workload b)) \<and>
      \<not> is_zero_id (wl_id (body_workload b)) \<and> length (wl_name (body_workload b)) \<le> 200 \<and>
      fits_int64 (wl_generation (body_workload b)) \<and> wf_id (body_contract_id b) \<and>
      fits_int64 (body_generation b) \<and> fits_int64 (body_policy_generation b) \<and>
      body_major b \<le> 1000000 \<and> body_minor b \<le> 1000000 \<and> body_patch b \<le> 1000000 \<and>
      length (body_description b) \<le> 4096 \<and> length (body_scopes b) \<le> 1024 \<and>
      length (body_requirements b) \<le> 4096 \<and> list_all encodable_scope (body_scopes b) \<and>
      list_all encodable_requirement (body_requirements b))"

lemma decode_workload_to_json:
  assumes "wf_id (wl_id w)" "\<not> is_zero_id (wl_id w)" "length (wl_name w) \<le> 200"
    "fits_int64 (wl_generation w)"
  shows "decode_workload (Some (json_sets [(''id'', JString (wl_id w)), (''name'', JString (wl_name w)),
      (''generation'', json_u64 (wl_generation w))] JNull)) = Inr w" (is "decode_workload (Some ?j) = _")
proof -
  have j: "?j = JObject (object_of ?j)" by (rule json_sets_object) simp
  have m: "map_of (object_of ?j) ''id'' = Some (JString (wl_id w))"
    "map_of (object_of ?j) ''name'' = Some (JString (wl_name w))"
    "map_of (object_of ?j) ''generation'' = Some (json_u64 (wl_generation w))"
    by (simp_all add: map_of_json_sets del: json_sets_Cons)
  have "decode_workload (Some (JObject (object_of ?j))) = Inr w"
    using assms
    by (simp add: read_id_wf [OF m(1)] read_uint_u64 [OF m(3)] read_string_def m(2)
        kMaxNameBytes_def parse_id_of_wf del: json_sets_Cons)
  then show ?thesis by (simp only: j [symmetric])
qed

lemma decode_version_to_json:
  assumes "uint (a :: u32) \<le> 1000000" "uint (b :: u32) \<le> 1000000" "uint (c :: u32) \<le> 1000000"
  shows "decode_version (Some (json_sets [(''major'', JInt (uint a)), (''minor'', JInt (uint b)),
      (''patch'', JInt (uint c))] JNull)) = Inr (a, b, c)" (is "decode_version (Some ?j) = _")
proof -
  have j: "?j = JObject (object_of ?j)" by (rule json_sets_object) simp
  have m: "map_of (object_of ?j) ''major'' = Some (JInt (uint a))"
    "map_of (object_of ?j) ''minor'' = Some (JInt (uint b))"
    "map_of (object_of ?j) ''patch'' = Some (JInt (uint c))"
    by (simp_all add: map_of_json_sets del: json_sets_Cons)
  have "decode_version (Some (JObject (object_of ?j))) = Inr (a, b, c)"
    using assms
    by (simp add: read_uint_u32 [OF m(1)] read_uint_u32 [OF m(2)] read_uint_u32 [OF m(3)]
        del: json_sets_Cons)
  then show ?thesis by (simp only: j [symmetric])
qed

lemma decode_array_map:
  assumes "\<And>x. x \<in> set xs \<Longrightarrow> f (g x) = Inr x" "length xs \<le> n"
  shows "decode_array (Some (JArray (map g xs))) n c f = Inr xs"
  using assms by (simp add: rmap_map)

lemma body_members:
  "map_of (object_of (contract_body_to_json b)) ''schema_version'' =
     Some (JInt (uint (body_schema_version b)))"
  "map_of (object_of (contract_body_to_json b)) ''workload'' = Some (json_sets
     [(''id'', JString (wl_id (body_workload b))), (''name'', JString (wl_name (body_workload b))),
      (''generation'', json_u64 (wl_generation (body_workload b)))] JNull)"
  "map_of (object_of (contract_body_to_json b)) ''contract_id'' =
     Some (JString (body_contract_id b))"
  "map_of (object_of (contract_body_to_json b)) ''contract_generation'' =
     Some (json_u64 (body_generation b))"
  "map_of (object_of (contract_body_to_json b)) ''policy_generation'' =
     Some (json_u64 (body_policy_generation b))"
  "map_of (object_of (contract_body_to_json b)) ''version'' = Some (json_sets
     [(''major'', JInt (uint (body_major b))), (''minor'', JInt (uint (body_minor b))),
      (''patch'', JInt (uint (body_patch b)))] JNull)"
  "map_of (object_of (contract_body_to_json b)) ''description'' =
     Some (JString (body_description b))"
  "map_of (object_of (contract_body_to_json b)) ''scopes'' =
     Some (JArray (map scope_to_json (body_scopes b)))"
  "map_of (object_of (contract_body_to_json b)) ''requirements'' =
     Some (JArray (map requirement_to_json (body_requirements b)))"
  by (simp_all add: contract_body_to_json_def map_of_json_sets del: json_sets_Cons)

lemma decode_body_to_json:
  assumes "encodable_body b"
  shows "decode_body (object_of (contract_body_to_json b)) = Inr b"
proof -
  let ?obj = "object_of (contract_body_to_json b)"
  have small: "uint (body_schema_version b) \<le> int 1000" "uint (body_major b) \<le> 1000000"
    "uint (body_minor b) \<le> 1000000" "uint (body_patch b) \<le> 1000000"
    using assms by (auto simp: encodable_body_def word_le_def)
  have version: "(ucast (body_schema_version b) :: u64) \<le> 1"
    using assms by (simp add: encodable_body_def word_le_nat_alt)
  have scopes: "decode_array (map_of ?obj ''scopes'') kMaxScopesPerContract kTooManyScopes decode_scope =
      Inr (body_scopes b)"
    unfolding body_members using assms
    by (intro decode_array_map)
      (auto simp: encodable_body_def list_all_iff decode_scope_to_json kMaxScopesPerContract_def)
  have reqs: "decode_array (map_of ?obj ''requirements'') 4096 kTooManyRequirements decode_requirement =
      Inr (body_requirements b)"
    unfolding body_members using assms
    by (intro decode_array_map) (auto simp: encodable_body_def list_all_iff decode_requirement_to_json)
  have "\<not> array_above ?obj ''scopes'' 1024" "\<not> array_above ?obj ''requirements'' 4096"
    using assms by (simp_all add: array_above_def body_members encodable_body_def)
  moreover have "decode_workload (map_of ?obj ''workload'') = Inr (body_workload b)"
    unfolding body_members using assms by (intro decode_workload_to_json) (auto simp: encodable_body_def)
  moreover have "decode_version (map_of ?obj ''version'') = Inr (body_major b, body_minor b, body_patch b)"
    unfolding body_members using small by (intro decode_version_to_json) auto
  ultimately show ?thesis
    using assms version scopes reqs
    by (simp add: decode_body_def default_contract_limits_def encodable_body_def parse_id_of_wf
        read_uint_u32 [OF body_members(1) small(1)] read_id_wf [OF body_members(3)]
        read_uint_u64 [OF body_members(4)] read_uint_u64 [OF body_members(5)]
        read_string_def body_members(7) kMaxStringBytes_def)
qed

definition encodable_envelope :: "contract_envelope \<Rightarrow> bool" where
  "encodable_envelope e =
     (wf_id (env_publisher e) \<and> length (env_key_id e) \<le> 64 \<and> length (env_signature e) \<le> 1024 \<and>
      fits_int64 (env_issued_millis e))"

lemma decode_envelope_to_json:
  assumes "encodable_envelope e"
  shows "decode_envelope (envelope_to_json e) = Inr e"
proof -
  let ?obj = "object_of (envelope_to_json e)"
  have j: "envelope_to_json e = JObject ?obj"
    unfolding envelope_to_json_def by (rule json_sets_object) simp
  have m: "map_of ?obj ''publisher'' = Some (JString (env_publisher e))"
    "map_of ?obj ''algorithm'' = Some (JString (signature_algorithm_token (env_algorithm e)))"
    "map_of ?obj ''key_id'' = Some (JString (env_key_id e))"
    "map_of ?obj ''issued_millis'' = Some (json_u64 (env_issued_millis e))"
    "map_of ?obj ''signature'' =
       (if env_signature e \<noteq> [] then Some (JString (base64url_encode (env_signature e))) else None)"
    by (simp_all add: envelope_to_json_def map_of_json_sets map_add_def del: json_sets_Cons)
  have "decode_envelope (JObject ?obj) = Inr e"
    using assms
    by (simp add: encodable_envelope_def read_id_wf [OF m(1)] read_uint_u64 [OF m(4)] m(2,5)
        read_string_def m(3) kSha256HexChars_def parse_id_of_wf base64url_decode_encode)
  then show ?thesis by (simp only: j [symmetric])
qed

definition encodable_contract :: "contract \<Rightarrow> bool" where
  "encodable_contract c =
     (encodable_body (con_body c) \<and> encodable_envelope (con_envelope c) \<and>
      con_digest c = body_digest (con_body c) \<and> fits_int64 (con_supersedes c) \<and>
      length (con_supersedes_digest c) = 32 \<and>
      (\<not> has_supersedes c \<longrightarrow> con_supersedes_digest c = zero_digest))"

lemma length_body_digest [simp]: "length (body_digest b) = 32"
  by (simp add: body_digest_def digest_domain_def sha256_parts_def)

lemma contract_from_json_to_json:
  assumes "encodable_contract c"
  shows "contract_from_json (contract_to_json c) = Inr c"
proof -
  let ?obj = "object_of (contract_to_json c)"
  have j: "contract_to_json c = JObject ?obj"
    unfolding contract_to_json_def by (rule json_sets_object) simp
  obtain body where body: "contract_body_to_json (con_body c) = JObject body"
    unfolding contract_body_to_json_def by (metis json_sets_object list.distinct(1))
  have m: "map_of ?obj ''body'' = Some (JObject body)"
    "map_of ?obj ''digest'' = Some (JString (hex_encode (con_digest c)))"
    "map_of ?obj ''supersedes'' =
       (if has_supersedes c then Some (json_u64 (con_supersedes c)) else None)"
    "map_of ?obj ''supersedes_digest'' =
       (if has_supersedes c then Some (JString (hex_encode (con_supersedes_digest c))) else None)"
    "map_of ?obj ''envelope'' = Some (envelope_to_json (con_envelope c))"
    by (simp_all add: contract_to_json_def map_of_json_sets map_add_def body del: json_sets_Cons)
  have db: "decode_body body = Inr (con_body c)"
    using decode_body_to_json [of "con_body c"] assms body by (simp add: encodable_contract_def)
  have sup: "read_uint ?obj ''supersedes'' u64_max False = Inr (con_supersedes c)"
    using assms read_uint_u64 [of ?obj "''supersedes''" "con_supersedes c"] m(3)
    by (cases "has_supersedes c") (auto simp: encodable_contract_def read_uint_def has_supersedes_def)
  have dig: "decode_digest_field ?obj ''digest'' = Inr (Some (con_digest c))"
    using assms by (simp add: decode_digest_field_def m hex_decode_encode_digest
        encodable_contract_def kSha256Bytes_def)
  have supd: "decode_digest_field ?obj ''supersedes_digest'' =
      Inr (if has_supersedes c then Some (con_supersedes_digest c) else None)"
    using assms by (simp add: decode_digest_field_def m hex_decode_encode_digest
        encodable_contract_def kSha256Bytes_def)
  have "contract_from_json (JObject ?obj) = Inr c"
    using assms
    by (simp add: m db sup dig supd decode_envelope_to_json settle_digest_def encodable_contract_def)
  then show ?thesis by (simp only: j [symmetric])
qed

section \<open>Properties of decoding\<close>

lemma wf_id_replicate: "c \<in> set kLowerHexDigits \<Longrightarrow> wf_id (replicate 64 c)"
  by (simp add: wf_id_def kSha256HexChars_def list_all_iff)

lemma sample_scopes_encodable:
  "length n \<le> 200 \<Longrightarrow> n \<noteq> [] \<Longrightarrow> length p \<le> 200 \<Longrightarrow> r \<le> 1000000 \<Longrightarrow>
   encodable_scope (sample_scope n r p)"
  by (simp add: encodable_scope_def sample_scope_def)

lemma sample_requirements_encodable:
  assumes "length s \<le> 200" "0 \<le> v" "v \<le> 1000000000000000"
  shows "encodable_requirement (sample_requirement s k v)"
proof -
  have "wf_id (replicate 64 (CHR ''c''))"
    by (rule wf_id_replicate) (simp add: kLowerHexDigits_def)
  with assms show ?thesis
    by (simp add: encodable_requirement_def sample_requirement_def band_ok_def bound_ok_def)
qed

lemma sample_body_encodable: "encodable_body sample_body"
proof -
  have "wf_id (replicate 64 (CHR ''b''))" "wf_id (replicate 64 (CHR ''d''))"
    by (rule wf_id_replicate, simp add: kLowerHexDigits_def)+
  moreover have "\<not> is_zero_id (replicate 64 (CHR ''b''))"
    by (simp add: is_zero_id_def list_all_iff)
  ultimately show ?thesis
    by (simp add: encodable_body_def sample_body_def fits_int64_def sample_scopes_encodable
        sample_requirements_encodable)
qed

lemma encodable_sample: "encodable_contract sample_contract"
proof -
  have "encodable_envelope empty_envelope"
    by (simp add: encodable_envelope_def empty_envelope_def zero_id_wf fits_int64_def)
  then show ?thesis
    by (simp add: encodable_contract_def sample_contract_def sample_body_encodable fits_int64_def
        has_supersedes_def)
qed

text \<open>
  C19: A contract written as a document and decoded again is the same contract, for every contract
  that is \<^const>\<open>encodable_contract\<close>. That asks the following. Body: a schema version of at most 1; a
  workload identity that is well formed and not zero and a well formed contract identity; version
  numbers of at most 1000000; at most 1024 scopes and 4096 requirements. Scopes: a name that is not
  empty, and a rank of at most 1000000, or rank 0 when it has none. Requirements: well formed
  identity and members, at most 4096 members and 32 attributes, attribute names not empty, a band
  within the decoder's bounds and in the order of the kind, and both bounds 0 without a band.
  Envelope: a well formed publisher, a key identity of at most 64 and a signature of at most 1024
  characters. Names, keys and parents have at most 200 characters, other texts 4096; the
  generations, the issue time and the superseded generation are below \<^verbatim>\<open>2 ^ 63\<close>; the digest is the
  digest of the body, the superseded digest has 32 bytes and is zero when nothing is superseded.
\<close>

theorem contract_roundtrip:
  assumes "encodable_contract c"
  shows "contract_from_json (contract_to_json c) = Inr c"
  using assms by (rule contract_from_json_to_json)

theorem contract_roundtrip_witness:
  "contract_from_json (contract_to_json sample_contract) = Inr sample_contract"
  by (rule contract_roundtrip) (rule encodable_sample)

text \<open>
  Whatever a document says, a contract the decoder returns has the digest of its own body, a
  well formed non zero workload identity, a supported schema version, scope and requirement
  counts within the limits, named scopes, and requirements with well formed identities and, where
  they are numeric, finite non negative bands whose strict bound is on the strict side.
\<close>

theorem decoded_contract_is_ok:
  assumes "contract_from_json j = Inr c"
  shows "decoded_contract_ok c"
proof (cases j)
  case (JObject obj)
  from assms obtain body where "decode_body body = Inr (con_body c)"
    unfolding JObject by auto
  then have "wf_id (wl_id (body_workload (con_body c)))"
    and body: "decoded_contract_ok c \<longleftrightarrow> con_digest c = body_digest (con_body c)"
    using decode_body_ok [of body "con_body c"] by (auto simp: decoded_contract_ok_def)
  have "settle_digest b declared = Inr d \<Longrightarrow> d = body_digest b" for b declared d
    by (auto simp: settle_digest_def split: option.splits if_splits)
  with assms show ?thesis
    unfolding body JObject by auto
qed (use assms in auto)

theorem decoded_contract_is_ok_witness: "decoded_contract_ok sample_contract"
  by (rule decoded_contract_is_ok) (rule contract_from_json_to_json [OF encodable_sample])

end
