(* ===== verification/Wnc_Validation.thy ===== *)
theory Wnc_Validation
  imports Wnc_Decode
begin

text \<open>
  Contract validation: \<^verbatim>\<open>validate_body\<close>, \<^verbatim>\<open>validate_contract_body\<close> and
  \<^verbatim>\<open>validate_contract\<close> of \<^verbatim>\<open>src/contract.cpp\<close>. Each block of the validator is the list of the
  diagnostics it adds, in order; the log of the result is the bounded log of their concatenation.
  The results are that the validator accepts exactly the contracts of a declarative
  specification, that its bounded parent walk reports exactly the cyclic parent relations, and
  that canonicalisation leaves nothing for the identity and digest checks to report.
\<close>

section \<open>The validator\<close>

definition report_if :: "bool \<Rightarrow> diagnostic \<Rightarrow> diagnostic list" where
  "report_if b d = (if b then [d] else [])"

lemma report_if_Nil [simp]: "report_if b d = [] \<longleftrightarrow> \<not> b"
  by (simp add: report_if_def)

lemma set_report_if [simp]: "set (report_if b d) = (if b then {d} else {})"
  by (simp add: report_if_def)

record validation_result =
  val_ok :: bool
  val_diagnostics :: diagnostic_log

definition header_diags :: "contract_limits \<Rightarrow> contract_body \<Rightarrow> diagnostic list" where
  "header_diags limits b =
     (if body_schema_version b = 0 then [diag kContractSchema]
      else report_if (body_schema_version b > max_schema_version limits)
        (diag kContractSchemaVersionUnsupported)) @
     report_if (is_zero_id (wl_id (body_workload b))) (diag kZeroIdentity) @
     report_if (wl_generation (body_workload b) = 0) (diag kZeroIdentity) @
     report_if (is_zero_id (body_contract_id b)) (diag kZeroIdentity) @
     report_if (body_generation b = 0) (diag kZeroIdentity) @
     report_if (body_policy_generation b = 0) (diag kZeroIdentity) @
     report_if (wl_name (body_workload b) = []) (diag kContractSchema) @
     report_if (body_major b = 0) (diag kContractSchema) @
     report_if (length (body_scopes b) > max_scopes limits) (diag kTooManyScopes) @
     report_if (length (body_requirements b) > max_requirements limits)
       (diag kTooManyRequirements) @
     report_if (body_requirements b = []) (diag kEmptyRequirementSet)"

text \<open>
  The loop over the scopes: the diagnostics, the index of the first scope of each name
  (\<^verbatim>\<open>emplace\<close> keeps it), and the number of ranked scopes.
\<close>

fun declare_scopes ::
    "scope list \<Rightarrow> (string, scope) smap \<Rightarrow> nat \<Rightarrow> diagnostic list \<times> (string, scope) smap \<times> nat" where
  "declare_scopes [] index ranked = ([], index, ranked)"
| "declare_scopes (s # ss) index ranked =
     (if scope_name s = [] then
        (let (ds, result) = declare_scopes ss index ranked in (diag kEmptyScopeName # ds, result))
      else
        (let ranked' = (if scope_has_rank s then Suc ranked else ranked) in
         if map_of index (scope_name s) \<noteq> None then
           (let (ds, result) = declare_scopes ss index ranked'
            in (diag kDuplicateRequirement # ds, result))
         else declare_scopes ss (map_put (scope_name s) s index) ranked'))"

definition parent_diags :: "(string, scope) smap \<Rightarrow> scope \<Rightarrow> diagnostic list" where
  "parent_diags index s =
     (if scope_parent s = [] then []
      else (case map_of index (scope_parent s) of
              None \<Rightarrow> [diag kUnknownScope]
            | Some p \<Rightarrow>
                if scope_parent s = scope_name s then [diag kCompositionCycle]
                else report_if (scope_has_rank p \<and> scope_has_rank s \<and> scope_rank p \<ge> scope_rank s)
                  (diag kCompositionConflict)))"

text \<open>The walk to the root, at most one step more than there are scopes: the steps it took.\<close>

function walk_parents :: "(string, scope) smap \<Rightarrow> nat \<Rightarrow> string \<Rightarrow> nat \<Rightarrow> nat" where
  "walk_parents index bound current steps =
     (if current \<noteq> [] \<and> steps \<le> bound then
        (case map_of index current of
           None \<Rightarrow> steps
         | Some s \<Rightarrow> walk_parents index bound (scope_parent s) (Suc steps))
      else steps)"
  by auto
termination by (relation "measure (\<lambda>(index, bound, current, steps). Suc bound - steps)") auto

declare walk_parents.simps [simp del]

fun cycle_diags :: "(string, scope) smap \<Rightarrow> nat \<Rightarrow> scope list \<Rightarrow> diagnostic list" where
  "cycle_diags index bound [] = []"
| "cycle_diags index bound (s # ss) =
     (if walk_parents index bound (scope_name s) 0 > bound then [diag kCompositionCycle]
      else cycle_diags index bound ss)"

definition numeric_diags :: "requirement \<Rightarrow> diagnostic list" where
  "numeric_diags r =
     (if \<not> req_has_numeric r then []
      else if \<not> isfinite (req_target r) \<or> \<not> isfinite (req_minimum r)
        then [diag_req kInvalidValue (req_id r)]
      else if dbl_lt (req_target r) (Finite 0) \<or> dbl_lt (req_minimum r) (Finite 0)
        then [diag_req kValueOutOfRange (req_id r)]
      else
        report_if (\<not> (if kind_is_floor (req_kind r) then dbl_le (req_minimum r) (req_target r)
                      else dbl_le (req_target r) (req_minimum r)))
          (diag_req kValueOutOfRange (req_id r)) @
        report_if (req_strength r = Required \<and> \<not> dbl_eq (req_target r) (req_minimum r))
          (diag_req kValueOutOfRange (req_id r)) @
        report_if (req_strength r = Preferred \<and> dbl_eq (req_target r) (req_minimum r))
          (diag_req kValueOutOfRange (req_id r)))"

definition needs_value :: "requirement_kind \<Rightarrow> bool" where
  "needs_value k =
     (k = Locality \<or> k = SecurityClass \<or> k = CheckpointIsolation \<or> k = DisaggregatedAffinity \<or>
      k = MaintenanceTolerance \<or> k = Attribute)"

definition value_diags :: "requirement \<Rightarrow> diagnostic list" where
  "value_diags r =
     report_if (needs_value (req_kind r) \<and> req_value r = []) (diag_req kInvalidValue (req_id r)) @
     (if req_preferred_value r \<noteq> [] then
        report_if (req_strength r \<noteq> Preferred) (diag_req kInvalidValue (req_id r)) @
        report_if (req_preferred_value r = req_value r) (diag_req kInvalidValue (req_id r))
      else [])"

fun attribute_diags :: "ident \<Rightarrow> string list \<Rightarrow> (string \<times> string) list \<Rightarrow> diagnostic list" where
  "attribute_diags rid seen [] = []"
| "attribute_diags rid seen ((n, v) # as) =
     report_if (n \<in> set seen) (diag_req kDuplicateRequirement rid) @
     report_if (length n > kMaxNameBytes \<or> length v > kMaxStringBytes)
       (diag_req kValueOutOfRange rid) @
     attribute_diags rid (n # seen) as"

fun member_diags :: "ident \<Rightarrow> ident list \<Rightarrow> ident list \<Rightarrow> diagnostic list" where
  "member_diags rid seen [] = []"
| "member_diags rid seen (m # ms) =
     report_if (is_zero_id m) (diag_req kZeroIdentity rid) @
     report_if (m \<in> set seen) (diag_req kDuplicateCollectiveMember rid) @
     member_diags rid (m # seen) ms"

definition collective_diags :: "requirement \<Rightarrow> diagnostic list" where
  "collective_diags r =
     (if req_kind r = Collective then
        report_if (req_members r = []) (diag_req kEmptyCollective (req_id r)) @
        member_diags (req_id r) [] (req_members r)
      else report_if (req_members r \<noteq> []) (diag_req kInvalidValue (req_id r)))"

text \<open>One pass of the requirement loop; the identities and keys of the earlier passes are given.\<close>

definition requirement_diags ::
    "contract_limits \<Rightarrow> (string, scope) smap \<Rightarrow> ident list \<Rightarrow> requirement_key list \<Rightarrow>
     requirement \<Rightarrow> diagnostic list" where
  "requirement_diags limits index identities keys r =
     report_if (req_scope r = [] \<or> map_of index (req_scope r) = None)
       (diag_req kUnknownScope (req_id r)) @
     report_if (is_zero_id (req_id r)) (diag kZeroIdentity) @
     report_if (req_id r \<in> set identities) (diag_req kDuplicateRequirement (req_id r)) @
     report_if (composite_key r \<in> set keys) (diag_req kDuplicateRequirement (req_id r)) @
     report_if (kind_is_numeric (req_kind r) \<and> \<not> req_has_numeric r)
       (diag_req kInvalidValue (req_id r)) @
     report_if (\<not> kind_is_numeric (req_kind r) \<and> req_has_numeric r)
       (diag_req kInvalidValue (req_id r)) @
     numeric_diags r @ value_diags r @
     report_if (length (req_key r) > kMaxNameBytes \<or> length (req_value r) > kMaxStringBytes)
       (diag_req kValueOutOfRange (req_id r)) @
     report_if (length (req_attributes r) > max_attributes limits)
       (diag_req kTooManyAttributes (req_id r)) @
     attribute_diags (req_id r) [] (req_attributes r) @ collective_diags r"

fun requirement_loop ::
    "contract_limits \<Rightarrow> (string, scope) smap \<Rightarrow> ident list \<Rightarrow> requirement_key list \<Rightarrow>
     requirement list \<Rightarrow> diagnostic list" where
  "requirement_loop limits index identities keys [] = []"
| "requirement_loop limits index identities keys (r # rs) =
     requirement_diags limits index identities keys r @
     requirement_loop limits index (req_id r # identities) (composite_key r # keys) rs"

text \<open>\<^verbatim>\<open>++m[k]\<close>, and the two counting maps the loop fills.\<close>

definition increment :: "'k::linorder \<Rightarrow> ('k, nat) smap \<Rightarrow> ('k, nat) smap" where
  "increment k m = map_put k (case map_of m k of Some n \<Rightarrow> Suc n | None \<Rightarrow> 1) m"

definition per_scope :: "requirement list \<Rightarrow> (string, nat) smap" where
  "per_scope rs = fold (\<lambda>r. increment (req_scope r)) rs []"

definition kinds_per_scope :: "requirement list \<Rightarrow> (string, (requirement_kind, nat) smap) smap" where
  "kinds_per_scope rs =
     fold (\<lambda>r m. map_put (req_scope r)
       (increment (req_kind r) (case map_of m (req_scope r) of Some k \<Rightarrow> k | None \<Rightarrow> [])) m) rs []"

definition count_diags :: "contract_limits \<Rightarrow> requirement list \<Rightarrow> diagnostic list" where
  "count_diags limits rs =
     concat (map (\<lambda>(s, n). report_if (n > max_requirements_per_scope limits)
       (diag kTooManyRequirements)) (per_scope rs)) @
     concat (map (\<lambda>(s, kinds). report_if (length kinds > max_distinct_kinds_per_scope limits)
       (diag kTooManyRequirements)) (kinds_per_scope rs))"

definition validate_body :: "contract_body \<Rightarrow> contract_limits \<Rightarrow> diagnostic list" where
  "validate_body b limits =
     (let (ds, index, ranked) = declare_scopes (body_scopes b) [] 0 in
      header_diags limits b @ ds @
      report_if (ranked > max_ranked_scopes limits) (diag kTooManyRankedScopes) @
      concat (map (parent_diags index) (body_scopes b)) @
      cycle_diags index (length (body_scopes b)) (body_scopes b) @
      requirement_loop limits index [] [] (body_requirements b) @
      count_diags limits (body_requirements b))"

definition identity_diags :: "requirement list \<Rightarrow> diagnostic list" where
  "identity_diags rs =
     concat (map (\<lambda>r. report_if (\<not> is_zero_id (req_id r) \<and> derive_requirement_id r \<noteq> req_id r)
       (diag_req kContractDigestMismatch (req_id r))) rs)"

text \<open>The calls of \<^verbatim>\<open>add\<close> the two entry points make, and their results.\<close>

definition body_diags :: "contract_body \<Rightarrow> diagnostic list" where
  "body_diags b = validate_body b default_contract_limits @ identity_diags (body_requirements b)"

definition contract_diags :: "contract \<Rightarrow> diagnostic list" where
  "contract_diags c =
     (let computed = body_digest (con_body c) in
      body_diags (con_body c) @
      report_if (computed \<noteq> con_digest c) (diag kContractDigestMismatch) @
      (if is_zero_id (body_contract_id (con_body c)) then [diag kZeroIdentity]
       else report_if
         (derive_contract_id (wl_id (body_workload (con_body c))) computed \<noteq>
            body_contract_id (con_body c)) (diag kContractDigestMismatch)) @
      (if has_supersedes c then
         report_if (con_supersedes c \<ge> body_generation (con_body c)) (diag kStaleGeneration) @
         report_if (con_supersedes_digest c = zero_digest) (diag kContractSchema)
       else report_if (con_supersedes_digest c \<noteq> zero_digest) (diag kContractSchema)))"

definition result_of_diags :: "diagnostic list \<Rightarrow> validation_result" where
  "result_of_diags ds = \<lparr>val_ok = (\<not> has_errors (log_of ds)), val_diagnostics = log_of ds\<rparr>"

definition validate_contract_body :: "contract_body \<Rightarrow> validation_result" where
  "validate_contract_body b = result_of_diags (body_diags b)"

definition validate_contract :: "contract \<Rightarrow> validation_result" where
  "validate_contract c = result_of_diags (contract_diags c)"

section \<open>The index of the scopes\<close>

abbreviation scope_index :: "scope list \<Rightarrow> (string, scope) smap" where
  "scope_index ss \<equiv> fst (snd (declare_scopes ss [] 0))"

lemma declare_scopes_lookup:
  "map_of (fst (snd (declare_scopes ss index ranked))) n =
     (case map_of index n of
        Some s \<Rightarrow> Some s
      | None \<Rightarrow> if n = [] then None else find (\<lambda>s. scope_name s = n) ss)"
proof (induction ss index ranked rule: declare_scopes.induct)
  case (2 s ss index ranked)
  show ?case
    using 2 by (cases "scope_name s = []"; cases "map_of index (scope_name s)")
      (auto simp: split_beta Let_def split: option.splits)
qed (simp split: option.splits)

lemma declare_scopes_ranked:
  "snd (snd (declare_scopes ss index ranked)) =
     ranked + length (filter (\<lambda>s. scope_name s \<noteq> [] \<and> scope_has_rank s) ss)"
  by (induction ss index ranked rule: declare_scopes.induct) (auto simp: split_beta Let_def)

lemma declare_scopes_diags:
  "fst (declare_scopes ss index ranked) = [] \<longleftrightarrow>
     (\<forall>s\<in>set ss. scope_name s \<noteq> [] \<and> map_of index (scope_name s) = None) \<and>
     distinct (map scope_name ss)"
proof (induction ss index ranked rule: declare_scopes.induct)
  case (2 s ss index ranked)
  show ?case
    using 2 by (cases "scope_name s = []"; cases "map_of index (scope_name s)")
      (auto simp: split_beta Let_def image_iff split: if_splits)
qed simp

lemma scope_index_iff:
  "map_of (scope_index ss) n = (if n = [] then None else find (\<lambda>s. scope_name s = n) ss)"
  by (simp add: declare_scopes_lookup)

lemma scope_index_Some: "map_of (scope_index ss) n = Some s \<Longrightarrow> s \<in> set ss \<and> scope_name s = n \<and> n \<noteq> []"
  by (auto simp: scope_index_iff find_Some_iff split: if_splits)

lemma scope_index_declared:
  "map_of (scope_index ss) n \<noteq> None \<longleftrightarrow> n \<noteq> [] \<and> n \<in> scope_name ` set ss"
  by (auto simp: scope_index_iff image_iff find_None_iff find_Some_iff simp del: not_None_eq)

lemma scope_index_distinct:
  assumes "distinct (map scope_name ss)" "s \<in> set ss" "scope_name s \<noteq> []"
  shows "map_of (scope_index ss) (scope_name s) = Some s"
proof (cases "map_of (scope_index ss) (scope_name s)")
  case None
  with assms scope_index_declared [of ss "scope_name s"] show ?thesis by auto
next
  case (Some t)
  with assms scope_index_Some [OF Some] show ?thesis by (metis distinct_map inj_onD)
qed

section \<open>The parent walk\<close>

text \<open>The parent of a name, and the edges between declared scopes.\<close>

definition parent_of :: "(string, scope) smap \<Rightarrow> string \<Rightarrow> string" where
  "parent_of index n = (case map_of index n of Some s \<Rightarrow> scope_parent s | None \<Rightarrow> [])"

abbreviation declared_scope :: "(string, scope) smap \<Rightarrow> string \<Rightarrow> bool" where
  "declared_scope index n \<equiv> n \<noteq> [] \<and> map_of index n \<noteq> None"

definition parent_edges :: "(string, scope) smap \<Rightarrow> (string \<times> string) set" where
  "parent_edges index = {(n, p). declared_scope index n \<and> p = parent_of index n \<and> declared_scope index p}"

lemma all_le_Suc: "(\<forall>i \<le> Suc k. P i) \<longleftrightarrow> P 0 \<and> (\<forall>i \<le> k. P (Suc i))"
  by (metis Suc_le_mono le0 not0_implies_Suc)

lemma walk_parents_exceeds:
  "walk_parents index bound n steps > bound \<longleftrightarrow>
     steps > bound \<or> (\<forall>i \<le> bound - steps. declared_scope index ((parent_of index ^^ i) n))"
proof (induction index bound n steps rule: walk_parents.induct)
  case (1 index bound n steps)
  show ?case
  proof (cases "steps \<le> bound \<and> declared_scope index n")
    case True
    then obtain s where s: "map_of index n = Some s" by auto
    have "(\<forall>i \<le> bound - steps. declared_scope index ((parent_of index ^^ i) n)) \<longleftrightarrow>
        steps = bound \<or> (\<forall>i \<le> bound - Suc steps. declared_scope index ((parent_of index ^^ i) (parent_of index n)))"
    proof (cases "steps = bound")
      case False
      with True have "bound - steps = Suc (bound - Suc steps)" by (simp add: Suc_diff_Suc)
      with False True show ?thesis by (simp only: all_le_Suc) (simp add: funpow_swap1)
    qed (use True in simp)
    moreover have "walk_parents index bound n steps = walk_parents index bound (parent_of index n) (Suc steps)"
      using True s by (subst walk_parents.simps) (simp add: parent_of_def)
    moreover have "walk_parents index bound (parent_of index n) (Suc steps) > bound \<longleftrightarrow> Suc steps > bound \<or>
        (\<forall>i \<le> bound - Suc steps. declared_scope index ((parent_of index ^^ i) (parent_of index n)))"
    proof -
      have "parent_of index n = scope_parent s" using s by (simp add: parent_of_def)
      with 1 [OF _ s] True show ?thesis by simp
    qed
    ultimately show ?thesis using True by (simp only:) auto
  next
    case False
    then show ?thesis
      by (subst walk_parents.simps) (auto split: option.splits dest!: spec [of _ 0])
  qed
qed


lemma parent_edges_funpow:
  assumes "\<forall>i \<le> k. declared_scope index ((parent_of index ^^ i) n)" "i < j" "j \<le> k"
  shows "((parent_of index ^^ i) n, (parent_of index ^^ j) n) \<in> (parent_edges index)\<^sup>+"
  using assms(2,3)
proof (induction j)
  case (Suc j)
  have edge: "((parent_of index ^^ j) n, (parent_of index ^^ Suc j) n) \<in> parent_edges index"
    using assms(1) Suc.prems by (auto simp: parent_edges_def dest!: spec [of _ "Suc j"])
  show ?case
  proof (cases "i = j")
    case True
    with edge show ?thesis by auto
  next
    case False
    with Suc have "((parent_of index ^^ i) n, (parent_of index ^^ j) n) \<in> (parent_edges index)\<^sup>+" by auto
    then show ?thesis using edge by (rule trancl_into_trancl)
  qed
qed simp

lemma cycle_closed:
  assumes "(n, n) \<in> (parent_edges index)\<^sup>+"
  shows "declared_scope index n \<and> (parent_of index n, parent_of index n) \<in> (parent_edges index)\<^sup>+"
proof -
  obtain p where p: "(n, p) \<in> parent_edges index" "(p, n) \<in> (parent_edges index)\<^sup>*"
    using tranclD [OF assms] by blast
  then have "(p, p) \<in> (parent_edges index)\<^sup>+" by (rule rtrancl_into_trancl1 [rotated])
  with p show ?thesis by (auto simp: parent_edges_def)
qed

lemma cycle_declared:
  assumes "(n, n) \<in> (parent_edges index)\<^sup>+"
  shows "declared_scope index ((parent_of index ^^ i) n)"
proof -
  have "((parent_of index ^^ i) n, (parent_of index ^^ i) n) \<in> (parent_edges index)\<^sup>+"
    by (induction i) (auto simp: assms cycle_closed)
  then show ?thesis using cycle_closed by blast
qed

lemma cycle_diags_Nil:
  "cycle_diags index bound ss = [] \<longleftrightarrow>
     (\<forall>s\<in>set ss. \<not> walk_parents index bound (scope_name s) 0 > bound)"
  by (induction ss) auto

lemma long_walk_cycles:
  assumes "walk_parents (scope_index ss) (length ss) n 0 > length ss"
  shows "\<not> acyclic (parent_edges (scope_index ss))"
proof -
  let ?f = "\<lambda>i. (parent_of (scope_index ss) ^^ i) n"
  have declared: "\<forall>i \<le> length ss. declared_scope (scope_index ss) (?f i)"
    using assms unfolding walk_parents_exceeds by auto
  then have "?f ` {..length ss} \<subseteq> scope_name ` set ss"
    using scope_index_declared [of ss] by blast
  then have "card (?f ` {..length ss}) \<le> length ss"
    by (meson List.finite_set card_image_le card_length card_mono finite_imageI le_trans)
  then have "\<not> inj_on ?f {..length ss}"
    using card_image [of ?f "{..length ss}"] by auto
  then obtain i j where ij: "i \<le> length ss" "j \<le> length ss" "i < j" "?f i = ?f j"
    unfolding inj_on_def by (metis atMost_iff linorder_neqE_nat)
  have "(?f i, ?f j) \<in> (parent_edges (scope_index ss))\<^sup>+"
    by (rule parent_edges_funpow [OF declared ij(3,2)])
  with ij(4) show ?thesis by (auto simp: acyclic_def)
qed

lemma cycle_diags_iff:
  "cycle_diags (scope_index ss) (length ss) ss = [] \<longleftrightarrow> acyclic (parent_edges (scope_index ss))"
proof
  assume none: "cycle_diags (scope_index ss) (length ss) ss = []"
  show "acyclic (parent_edges (scope_index ss))"
  proof (rule acyclicI, rule allI, rule notI)
    fix n assume cycle: "(n, n) \<in> (parent_edges (scope_index ss))\<^sup>+"
    then have "n \<in> scope_name ` set ss"
      using cycle_declared [OF cycle, of 0] scope_index_declared [of ss n] by auto
    with none have "\<not> walk_parents (scope_index ss) (length ss) n 0 > length ss"
      by (auto simp: cycle_diags_Nil)
    with cycle_declared [OF cycle] show False by (simp add: walk_parents_exceeds)
  qed
qed (use long_walk_cycles in \<open>auto simp: cycle_diags_Nil\<close>)

section \<open>The specification\<close>

text \<open>
  What a valid contract is, without the order and the bookkeeping of the validator. There is no
  bound on the kinds of a scope: there are fewer kinds than the bound.
\<close>

definition valid_scopes :: "scope list \<Rightarrow> bool" where
  "valid_scopes ss \<longleftrightarrow>
     length ss \<le> 1024 \<and> [] \<notin> scope_name ` set ss \<and> distinct (map scope_name ss) \<and>
     length (filter scope_has_rank ss) \<le> 256 \<and>
     (\<forall>s\<in>set ss. scope_parent s \<noteq> [] \<longrightarrow>
        (\<exists>p\<in>set ss. scope_name p = scope_parent s \<and>
           (scope_has_rank p \<and> scope_has_rank s \<longrightarrow> scope_rank p < scope_rank s))) \<and>
     acyclic {(scope_name s, scope_parent s) | s. s \<in> set ss \<and> scope_parent s \<noteq> []}"

definition valid_band :: "requirement \<Rightarrow> bool" where
  "valid_band r \<longleftrightarrow>
     (\<exists>t m. req_target r = Finite t \<and> req_minimum r = Finite m \<and> 0 \<le> t \<and> 0 \<le> m \<and>
        (if kind_is_floor (req_kind r) then m \<le> t else t \<le> m) \<and>
        (req_strength r = Required \<longrightarrow> t = m) \<and> (req_strength r = Preferred \<longrightarrow> t \<noteq> m))"

definition valid_requirement :: "string set \<Rightarrow> requirement \<Rightarrow> bool" where
  "valid_requirement names r \<longleftrightarrow>
     req_scope r \<in> names \<and> \<not> is_zero_id (req_id r) \<and>
     (kind_is_numeric (req_kind r) = req_has_numeric r) \<and> (req_has_numeric r \<longrightarrow> valid_band r) \<and>
     (needs_value (req_kind r) \<longrightarrow> req_value r \<noteq> []) \<and>
     (req_preferred_value r \<noteq> [] \<longrightarrow>
        req_strength r = Preferred \<and> req_preferred_value r \<noteq> req_value r) \<and>
     length (req_key r) \<le> 200 \<and> length (req_value r) \<le> 4096 \<and>
     length (req_attributes r) \<le> 32 \<and> distinct (map fst (req_attributes r)) \<and>
     (\<forall>(n, v)\<in>set (req_attributes r). length n \<le> 200 \<and> length v \<le> 4096) \<and>
     (req_members r \<noteq> [] \<longleftrightarrow> req_kind r = Collective) \<and> distinct (req_members r) \<and>
     (\<forall>m\<in>set (req_members r). \<not> is_zero_id m)"

definition valid_requirements :: "string set \<Rightarrow> requirement list \<Rightarrow> bool" where
  "valid_requirements names rs \<longleftrightarrow>
     rs \<noteq> [] \<and> length rs \<le> 4096 \<and> distinct (map req_id rs) \<and> distinct (map composite_key rs) \<and>
     (\<forall>r\<in>set rs. valid_requirement names r) \<and>
     (\<forall>s. length (filter (\<lambda>r. req_scope r = s) rs) \<le> 256)"

definition valid_body :: "contract_body \<Rightarrow> bool" where
  "valid_body b \<longleftrightarrow>
     body_schema_version b = 1 \<and> \<not> is_zero_id (wl_id (body_workload b)) \<and>
     wl_generation (body_workload b) \<noteq> 0 \<and> \<not> is_zero_id (body_contract_id b) \<and>
     body_generation b \<noteq> 0 \<and> body_policy_generation b \<noteq> 0 \<and> wl_name (body_workload b) \<noteq> [] \<and>
     body_major b \<noteq> 0 \<and> valid_scopes (body_scopes b) \<and>
     valid_requirements (scope_name ` set (body_scopes b)) (body_requirements b) \<and>
     (\<forall>r\<in>set (body_requirements b). req_id r = derive_requirement_id r)"

definition valid_contract :: "contract \<Rightarrow> bool" where
  "valid_contract c \<longleftrightarrow>
     valid_body (con_body c) \<and> con_digest c = body_digest (con_body c) \<and>
     body_contract_id (con_body c) =
       derive_contract_id (wl_id (body_workload (con_body c))) (con_digest c) \<and>
     (if con_supersedes c = 0 then con_supersedes_digest c = zero_digest
      else con_supersedes c < body_generation (con_body c) \<and>
           con_supersedes_digest c \<noteq> zero_digest)"

section \<open>The validator meets the specification\<close>

lemma attribute_diags_Nil:
  "attribute_diags rid seen as = [] \<longleftrightarrow>
     distinct (map fst as) \<and> set (map fst as) \<inter> set seen = {} \<and>
     (\<forall>(n, v)\<in>set as. length n \<le> 200 \<and> length v \<le> 4096)"
  by (induction rid seen as rule: attribute_diags.induct)
    (auto simp: kMaxNameBytes_def kMaxStringBytes_def)

lemma member_diags_Nil:
  "member_diags rid seen ms = [] \<longleftrightarrow>
     distinct ms \<and> set ms \<inter> set seen = {} \<and> (\<forall>m\<in>set ms. \<not> is_zero_id m)"
  by (induction rid seen ms rule: member_diags.induct) auto

lemma numeric_diags_Nil: "numeric_diags r = [] \<longleftrightarrow> (req_has_numeric r \<longrightarrow> valid_band r)"
  by (cases "req_target r"; cases "req_minimum r")
    (auto simp: numeric_diags_def valid_band_def not_less)

lemma value_diags_Nil:
  "value_diags r = [] \<longleftrightarrow> (needs_value (req_kind r) \<longrightarrow> req_value r \<noteq> []) \<and>
     (req_preferred_value r \<noteq> [] \<longrightarrow>
        req_strength r = Preferred \<and> req_preferred_value r \<noteq> req_value r)"
  by (auto simp: value_diags_def)

lemma collective_diags_Nil:
  "collective_diags r = [] \<longleftrightarrow> (req_members r \<noteq> [] \<longleftrightarrow> req_kind r = Collective) \<and>
     distinct (req_members r) \<and> (\<forall>m\<in>set (req_members r). \<not> is_zero_id m)"
  by (auto simp: collective_diags_def member_diags_Nil)

lemma requirement_diags_Nil:
  "requirement_diags default_contract_limits (scope_index ss) ids keys r = [] \<longleftrightarrow>
     valid_requirement (scope_name ` set ss - {[]}) r \<and> req_id r \<notin> set ids \<and>
     composite_key r \<notin> set keys"
  using scope_index_declared [of ss "req_scope r"]
  by (auto simp: requirement_diags_def valid_requirement_def numeric_diags_Nil value_diags_Nil
      attribute_diags_Nil collective_diags_Nil kMaxNameBytes_def kMaxStringBytes_def
      default_contract_limits_def)

lemma requirement_loop_Nil:
  "requirement_loop default_contract_limits (scope_index ss) ids keys rs = [] \<longleftrightarrow>
     (\<forall>r\<in>set rs. valid_requirement (scope_name ` set ss - {[]}) r) \<and>
     distinct (map req_id rs) \<and> req_id ` set rs \<inter> set ids = {} \<and>
     distinct (map composite_key rs) \<and> composite_key ` set rs \<inter> set keys = {}"
  by (induction rs arbitrary: ids keys) (auto simp: requirement_diags_Nil)

lemma map_of_per_scope:
  "map_of (per_scope rs) s =
     (let n = length (filter (\<lambda>r. req_scope r = s) rs) in if n = 0 then None else Some n)"
proof (induction rs arbitrary: s rule: rev_induct)
  case (snoc r rs)
  have "per_scope (rs @ [r]) = increment (req_scope r) (per_scope rs)" by (simp add: per_scope_def)
  then show ?case
    using snoc [of s] snoc [of "req_scope r"]
    by (auto simp: increment_def Let_def split: option.splits if_splits)
qed (simp add: per_scope_def)

lemma ascending_per_scope: "ascending (per_scope rs)"
  by (induction rs rule: rev_induct) (auto simp: per_scope_def increment_def)

lemma per_scope_bound:
  "(\<forall>(s, n)\<in>set (per_scope rs). n \<le> k) \<longleftrightarrow> (\<forall>s. length (filter (\<lambda>r. req_scope r = s) rs) \<le> k)"
proof -
  have "(s, n) \<in> set (per_scope rs) \<longleftrightarrow> map_of (per_scope rs) s = Some n" for s n
    using ascending_distinct [OF ascending_per_scope] by (metis map_of_eq_Some_iff)
  then have "(\<forall>(s, n)\<in>set (per_scope rs). n \<le> k) \<longleftrightarrow>
      (\<forall>s n. map_of (per_scope rs) s = Some n \<longrightarrow> n \<le> k)" by fastforce
  also have "\<dots> \<longleftrightarrow> (\<forall>s. length (filter (\<lambda>r. req_scope r = s) rs) \<le> k)"
    unfolding map_of_per_scope by (auto simp: Let_def) (metis le0 list.size(3))
  finally show ?thesis .
qed

text \<open>No scope has more kinds than there are.\<close>

lemma card_requirement_kind: "card (A :: requirement_kind set) \<le> 15"
proof -
  have "(UNIV :: requirement_kind set) = set (map fst kKindTable)"
    by (auto simp: kKindTable_def) (metis requirement_kind.exhaust)
  then have fin: "finite (UNIV :: requirement_kind set)" and "card (UNIV :: requirement_kind set) \<le> 15"
    using card_length [of "map fst kKindTable"] by (metis List.finite_set, simp add: kKindTable_def)
  then show ?thesis using card_mono [OF fin, of A] by simp
qed

lemma kinds_per_scope_ascending:
  "\<forall>(s, kinds)\<in>set (kinds_per_scope rs). ascending kinds"
proof (induction rs rule: rev_induct)
  case (snoc r rs)
  have "ascending (case map_of (kinds_per_scope rs) (req_scope r) of Some k \<Rightarrow> k | None \<Rightarrow> [])"
    using snoc by (auto split: option.splits dest: map_of_SomeD)
  moreover have "set (map_put k v m) \<subseteq> insert (k, v) (set m)" for k v and m :: "(string, (requirement_kind, nat) smap) smap"
    by (induction m) auto
  ultimately show ?case using snoc
    by (fastforce simp: kinds_per_scope_def increment_def)
qed (simp add: kinds_per_scope_def)

lemma kinds_per_scope_bound: "(s, kinds) \<in> set (kinds_per_scope rs) \<Longrightarrow> length kinds \<le> 15"
  using kinds_per_scope_ascending [of rs] card_requirement_kind [of "fst ` set kinds"]
  by (metis (no_types, lifting) ascending_distinct case_prodD distinct_card length_map set_map)

lemma count_diags_Nil:
  "count_diags default_contract_limits rs = [] \<longleftrightarrow>
     (\<forall>s. length (filter (\<lambda>r. req_scope r = s) rs) \<le> 256)"
proof -
  have "concat (map (\<lambda>(s, kinds). report_if (length kinds > 32) (diag kTooManyRequirements))
      (kinds_per_scope rs)) = []"
    by (auto dest!: kinds_per_scope_bound)
  then show ?thesis
    unfolding per_scope_bound [symmetric]
    by (auto simp: count_diags_def default_contract_limits_def not_less)
qed

lemma header_diags_Nil:
  "header_diags default_contract_limits b = [] \<longleftrightarrow>
     body_schema_version b = 1 \<and> \<not> is_zero_id (wl_id (body_workload b)) \<and>
     wl_generation (body_workload b) \<noteq> 0 \<and> \<not> is_zero_id (body_contract_id b) \<and>
     body_generation b \<noteq> 0 \<and> body_policy_generation b \<noteq> 0 \<and> wl_name (body_workload b) \<noteq> [] \<and>
     body_major b \<noteq> 0 \<and> length (body_scopes b) \<le> 1024 \<and>
     body_requirements b \<noteq> [] \<and> length (body_requirements b) \<le> 4096"
proof -
  have "v \<noteq> 0 \<Longrightarrow> v \<le> 1 \<longleftrightarrow> v = 1" for v :: u32
    by (auto simp: le_less)
  then show ?thesis
    by (simp add: header_diags_def default_contract_limits_def not_less conj_ac)
qed

lemma parent_diags_Nil:
  assumes "distinct (map scope_name ss)" "[] \<notin> scope_name ` set ss"
  shows "parent_diags (scope_index ss) s = [] \<longleftrightarrow>
    (scope_parent s \<noteq> [] \<longrightarrow> scope_parent s \<noteq> scope_name s \<and>
       (\<exists>p\<in>set ss. scope_name p = scope_parent s \<and>
          (scope_has_rank p \<and> scope_has_rank s \<longrightarrow> scope_rank p < scope_rank s)))"
proof (cases "map_of (scope_index ss) (scope_parent s)")
  case None
  then show ?thesis
    using scope_index_declared [of ss "scope_parent s"] by (auto simp: parent_diags_def image_iff)
next
  case (Some p)
  have "q = p" if "q \<in> set ss" "scope_name q = scope_parent s" for q
    using scope_index_distinct [OF assms(1) that(1)] that Some assms(2) by force
  with Some scope_index_Some [OF Some] show ?thesis
    by (auto simp: parent_diags_def not_le)
qed

lemma parent_edges_scopes:
  assumes "distinct (map scope_name ss)" "[] \<notin> scope_name ` set ss"
    and "\<And>s. s \<in> set ss \<Longrightarrow> scope_parent s \<noteq> [] \<Longrightarrow> \<exists>p\<in>set ss. scope_name p = scope_parent s"
  shows "parent_edges (scope_index ss) =
    {(scope_name s, scope_parent s) | s. s \<in> set ss \<and> scope_parent s \<noteq> []}"
proof -
  have 1: "map_of (scope_index ss) n = Some s \<longleftrightarrow> s \<in> set ss \<and> scope_name s = n" for n s
    using scope_index_distinct [OF assms(1), of s] scope_index_Some [of ss n s] assms(2) by force
  have 2: "declared_scope (scope_index ss) n \<longleftrightarrow> n \<in> scope_name ` set ss" for n
    using scope_index_declared [of ss n] assms(2) by auto
  show ?thesis
  proof (rule set_eqI, clarify)
    fix n p
    show "(n, p) \<in> parent_edges (scope_index ss) \<longleftrightarrow>
        (n, p) \<in> {(scope_name s, scope_parent s) | s. s \<in> set ss \<and> scope_parent s \<noteq> []}"
    proof (cases "map_of (scope_index ss) n")
      case None
      with 1 have "\<nexists>s. s \<in> set ss \<and> scope_name s = n" by (metis option.distinct(1))
      with None show ?thesis by (auto simp: parent_edges_def)
    next
      case (Some s)
      have only: "t \<in> set ss \<and> scope_name t = n \<longleftrightarrow> t = s" for t
        using 1 [of n t] Some by auto
      have "(n, p) \<in> parent_edges (scope_index ss) \<longleftrightarrow> p = scope_parent s \<and> p \<in> scope_name ` set ss"
        using 2 [of n] 2 [of p] only [of s] Some by (auto simp: parent_edges_def parent_of_def)
      also have "\<dots> \<longleftrightarrow> p = scope_parent s \<and> p \<noteq> []"
        using assms(2) assms(3) [of s] only [of s] by force
      also have "\<dots> \<longleftrightarrow> (\<exists>t. t \<in> set ss \<and> scope_name t = n \<and> p = scope_parent t \<and> scope_parent t \<noteq> [])"
        using only by metis
      finally show ?thesis by auto
    qed
  qed
qed


lemma parents_and_cycles:
  assumes "[] \<notin> scope_name ` set ss" "distinct (map scope_name ss)"
  shows "(\<forall>s\<in>set ss. parent_diags (scope_index ss) s = []) \<and>
      cycle_diags (scope_index ss) (length ss) ss = [] \<longleftrightarrow>
    (\<forall>s\<in>set ss. scope_parent s \<noteq> [] \<longrightarrow>
       (\<exists>p\<in>set ss. scope_name p = scope_parent s \<and>
          (scope_has_rank p \<and> scope_has_rank s \<longrightarrow> scope_rank p < scope_rank s))) \<and>
    acyclic {(scope_name s, scope_parent s) | s. s \<in> set ss \<and> scope_parent s \<noteq> []}"
  (is "_ \<longleftrightarrow> ?parents \<and> acyclic ?edges")
proof (cases ?parents)
  case True
  then have "parent_edges (scope_index ss) = ?edges"
    by (intro parent_edges_scopes assms) auto
  moreover have "scope_parent s \<noteq> scope_name s"
    if "acyclic ?edges" "s \<in> set ss" "scope_parent s \<noteq> []" for s
    using that unfolding acyclic_def by (metis (mono_tags, lifting) mem_Collect_eq r_into_trancl')
  ultimately show ?thesis using True assms by (auto simp: parent_diags_Nil cycle_diags_iff)
next
  case False
  then show ?thesis using assms by (simp add: parent_diags_Nil) blast
qed

lemma declare_scopes_Nil:
  "fst (declare_scopes ss [] 0) = [] \<longleftrightarrow>
     [] \<notin> scope_name ` set ss \<and> distinct (map scope_name ss)"
  by (force simp: declare_scopes_diags)

lemma scope_diags_Nil:
  "fst (declare_scopes ss [] 0) = [] \<and> snd (snd (declare_scopes ss [] 0)) \<le> 256 \<and>
   (\<forall>s\<in>set ss. parent_diags (scope_index ss) s = []) \<and>
   cycle_diags (scope_index ss) (length ss) ss = [] \<and> length ss \<le> 1024 \<longleftrightarrow> valid_scopes ss"
proof (cases "[] \<notin> scope_name ` set ss \<and> distinct (map scope_name ss)")
  case True
  then have "filter (\<lambda>s. scope_name s \<noteq> [] \<and> scope_has_rank s) ss = filter scope_has_rank ss"
    by (intro filter_cong) force+
  with True show ?thesis
    using parents_and_cycles [of ss]
    by (auto simp: declare_scopes_Nil declare_scopes_ranked valid_scopes_def)
next
  case False
  then show ?thesis by (auto simp: declare_scopes_Nil valid_scopes_def)
qed

lemma identity_diags_Nil:
  "(\<And>r. r \<in> set rs \<Longrightarrow> \<not> is_zero_id (req_id r)) \<Longrightarrow>
   identity_diags rs = [] \<longleftrightarrow> (\<forall>r\<in>set rs. req_id r = derive_requirement_id r)"
  by (auto simp: identity_diags_def)

lemma requirements_diags_Nil:
  assumes "[] \<notin> scope_name ` set ss"
  shows "rs \<noteq> [] \<and> length rs \<le> 4096 \<and>
    requirement_loop default_contract_limits (scope_index ss) [] [] rs = [] \<and>
    count_diags default_contract_limits rs = [] \<longleftrightarrow> valid_requirements (scope_name ` set ss) rs"
proof -
  have "scope_name ` set ss - {[]} = scope_name ` set ss" using assms by auto
  then show ?thesis
    by (auto simp: requirement_loop_Nil count_diags_Nil valid_requirements_def)
qed

lemma body_diags_Nil: "body_diags b = [] \<longleftrightarrow> valid_body b"
proof -
  let ?ss = "body_scopes b" and ?rs = "body_requirements b"
  have "body_diags b = [] \<longleftrightarrow>
      header_diags default_contract_limits b = [] \<and> valid_scopes ?ss \<and>
      requirement_loop default_contract_limits (scope_index ?ss) [] [] ?rs = [] \<and>
      count_diags default_contract_limits ?rs = [] \<and> identity_diags ?rs = []"
    unfolding scope_diags_Nil [symmetric]
    by (auto simp: body_diags_def validate_body_def split_beta not_less header_diags_Nil
        default_contract_limits_def [THEN arg_cong, of max_ranked_scopes])
  also have "\<dots> \<longleftrightarrow> valid_body b"
  proof (cases "valid_scopes ?ss")
    case True
    then have names: "[] \<notin> scope_name ` set ?ss" by (simp add: valid_scopes_def)
    have "identity_diags ?rs = [] \<longleftrightarrow> (\<forall>r\<in>set ?rs. req_id r = derive_requirement_id r)"
      if "valid_requirements (scope_name ` set ?ss) ?rs"
      using that by (intro identity_diags_Nil) (auto simp: valid_requirements_def valid_requirement_def)
    then show ?thesis
      using True requirements_diags_Nil [OF names, of ?rs]
      by (auto simp: valid_body_def header_diags_Nil valid_scopes_def valid_requirements_def)
  qed (simp add: valid_body_def)
  finally show ?thesis .
qed


text \<open>The validator reports errors only, so its verdict does not depend on the bound of the log.\<close>

definition structural :: "diagnostic \<Rightarrow> bool" where
  "structural d = (diag_code d \<noteq> kOk \<and> diag_code d \<noteq> kContractDigestMismatch)"

lemma structural_diag [simp]:
  "structural (diag c) \<longleftrightarrow> c \<noteq> kOk \<and> c \<noteq> kContractDigestMismatch"
  "structural (diag_req c r) \<longleftrightarrow> c \<noteq> kOk \<and> c \<noteq> kContractDigestMismatch"
  by (simp_all add: structural_def)

lemma list_all_report_if [simp]: "list_all P (report_if b d) \<longleftrightarrow> (b \<longrightarrow> P d)"
  by (simp add: report_if_def)

lemma declare_scopes_structural: "list_all structural (fst (declare_scopes ss index ranked))"
  by (induction ss index ranked rule: declare_scopes.induct) (auto simp: split_beta Let_def)

lemma attribute_diags_structural: "list_all structural (attribute_diags rid seen as)"
  by (induction rid seen as rule: attribute_diags.induct) auto

lemma member_diags_structural: "list_all structural (member_diags rid seen ms)"
  by (induction rid seen ms rule: member_diags.induct) auto

lemma cycle_diags_structural: "list_all structural (cycle_diags index n ss)"
  by (induction ss) auto

lemma parent_diags_structural: "list_all structural (parent_diags index s)"
  by (simp add: parent_diags_def split: option.split)

lemma requirement_diags_structural: "list_all structural (requirement_diags limits index ids keys r)"
  by (simp add: requirement_diags_def numeric_diags_def value_diags_def collective_diags_def
      attribute_diags_structural member_diags_structural)

lemma requirement_loop_structural: "list_all structural (requirement_loop limits index ids keys rs)"
  by (induction rs arbitrary: ids keys) (auto simp: requirement_diags_structural)

lemma list_all_concat_map: "(\<And>x. list_all P (f x)) \<Longrightarrow> list_all P (concat (map f xs))"
  by (induction xs) auto

lemma validate_body_structural: "list_all structural (validate_body b limits)"
  by (simp add: validate_body_def split_beta header_diags_def count_diags_def
      declare_scopes_structural cycle_diags_structural requirement_loop_structural
      list_all_concat_map parent_diags_structural)

lemma contract_diags_errors: "d \<in> set (contract_diags c) \<Longrightarrow> diag_code d \<noteq> kOk"
  using validate_body_structural [of "con_body c" default_contract_limits]
  by (auto simp: contract_diags_def Let_def body_diags_def identity_diags_def list_all_iff
      structural_def split: if_splits)

lemma contract_diags_Nil: "contract_diags c = [] \<longleftrightarrow> valid_contract c"
proof (cases "valid_body (con_body c)")
  case True
  then have "\<not> is_zero_id (body_contract_id (con_body c))" by (simp add: valid_body_def)
  with True show ?thesis
    by (auto simp: contract_diags_def Let_def body_diags_Nil valid_contract_def has_supersedes_def not_le)
next
  case False
  then show ?thesis by (simp add: contract_diags_def Let_def body_diags_Nil valid_contract_def)
qed

section \<open>Properties of validation\<close>

text \<open>
  C18: The validator accepts exactly the valid contracts of the specification: a contract passes
  if and only if its header fields are set, its counts of scopes and requirements are within the
  bounds, its scopes form a forest with distinct names and ranks that grow away from the root, its
  requirements name declared scopes, have distinct identities and keys, are well formed for their
  kind and strength and carry the identity of their content, its digest and
  identity are those of its body, and its supersession fields agree. What passes reports nothing.
\<close>

theorem validate_contract_exact:
  "(val_ok (validate_contract c) \<longleftrightarrow> valid_contract c) \<and>
   (val_ok (validate_contract c) \<longleftrightarrow> entries (val_diagnostics (validate_contract c)) = [])"
proof -
  have "val_ok (validate_contract c) \<longleftrightarrow> contract_diags c = []"
    using has_errors_log_of_errors [of "contract_diags c", OF contract_diags_errors]
    by (simp add: validate_contract_def result_of_diags_def)
  then show ?thesis
    by (simp add: contract_diags_Nil validate_contract_def result_of_diags_def log_of_entries
        kDefaultDiagnosticLimit_def flip: contract_diags_Nil)
qed

text \<open>
  C39: The bounded walk of the validator finds every cycle of the parent relation and nothing
  else: it reports a cycle if and only if the parent edges between the declared scopes are
  cyclic, whatever else is wrong with the scopes.
\<close>

theorem cycle_detection_exact:
  "cycle_diags (fst (snd (declare_scopes ss [] 0))) (length ss) ss \<noteq> [] \<longleftrightarrow>
   (\<exists>n. (n, n) \<in> (parent_edges (fst (snd (declare_scopes ss [] 0))))\<^sup>+)"
  by (simp add: cycle_diags_iff acyclic_def)

text \<open>
  After canonicalisation the validator never reports a mismatch of a digest, of the contract
  identity or of a requirement identity, whatever the contract was.
\<close>

theorem canonical_contract_no_mismatch:
  "kContractDigestMismatch \<notin>
     diag_code ` set (entries (val_diagnostics (validate_contract (canonicalize c))))"
proof -
  have "diag_code d \<noteq> kContractDigestMismatch" if "d \<in> set (contract_diags (canonicalize c))" for d
    using that canonicalize_digest [of c] canonicalize_contract_id [of c]
      validate_body_structural [of "con_body (canonicalize c)" default_contract_limits]
    by (auto simp: contract_diags_def Let_def body_diags_def identity_diags_def
        canonicalize_requirement_ids list_all_iff structural_def split: if_splits)
  then have "kContractDigestMismatch \<notin> diag_code ` set (contract_diags (canonicalize c))" by force
  then show ?thesis
    using set_take_subset [of kDefaultDiagnosticLimit "contract_diags (canonicalize c)"]
    by (auto simp: validate_contract_def result_of_diags_def log_of_entries)
qed

end
