(* ===== verification/Wnc_Composition.thy ===== *)
theory Wnc_Composition
  imports Wnc_Validation
begin

text \<open>
  Composition of a contract body with overlay layers: \<^verbatim>\<open>include/wnc/composition.hpp\<close> and
  \<^verbatim>\<open>src/composition.cpp\<close>. The comparison of two requirements of one key, the loops of
  \<^verbatim>\<open>compose\<close> with every refusal, and the final canonical order. The results are that a
  composition that is accepted keeps every key once and never lowers what the base or a layer
  declared, in the order the code compares by, and where that order lets a bound fall.
\<close>

section \<open>Comparing requirements\<close>

datatype composition_decision_kind = Added | Strengthened | Kept | Conflict | Rejected

definition kDecisionTokens :: "(composition_decision_kind \<times> string) list" where
  "kDecisionTokens =
     [(Added, ''added''), (Strengthened, ''strengthened''), (Kept, ''kept''),
      (Conflict, ''conflict''), (Rejected, ''rejected'')]"

definition composition_decision_token :: "composition_decision_kind \<Rightarrow> string" where
  "composition_decision_token k =
     (case map_of kDecisionTokens k of Some t \<Rightarrow> t | None \<Rightarrow> snd (hd kDecisionTokens))"

definition same_constraint :: "requirement \<Rightarrow> requirement \<Rightarrow> bool" where
  "same_constraint a b =
     (if req_has_numeric a \<noteq> req_has_numeric b then False
      else if \<not> req_has_numeric a
        then req_value a = req_value b \<and> req_preferred_value a = req_preferred_value b
      else dbl_eq (req_target a) (req_target b) \<and> dbl_eq (req_minimum a) (req_minimum b))"

definition dominates :: "requirement_kind \<Rightarrow> requirement \<Rightarrow> requirement \<Rightarrow> bool" where
  "dominates k a b =
     (if kind_is_floor k
      then dbl_le (req_target b) (req_target a) \<and> dbl_le (req_minimum b) (req_minimum a)
      else dbl_le (req_target a) (req_target b) \<and> dbl_le (req_minimum a) (req_minimum b))"

definition compare_requirement_strength :: "requirement \<Rightarrow> requirement \<Rightarrow> int" where
  "compare_requirement_strength a b =
     (if req_strength a \<noteq> req_strength b
        then (if strength_number (req_strength a) > strength_number (req_strength b) then 1 else -1)
      else if req_has_numeric a \<and> req_has_numeric b
        then (let a_dominates = dominates (req_kind a) a b;
                  b_dominates = dominates (req_kind a) b a
              in if a_dominates \<and> \<not> b_dominates then 1
                 else if b_dominates \<and> \<not> a_dominates then -1
                 else if a_dominates \<and> b_dominates then 1
                 else 0)
      else if \<not> req_has_numeric a \<and> \<not> req_has_numeric b
        then (if same_constraint a b then 1 else 0)
      else 0)"

section \<open>Composing\<close>

record overlay_layer =
  layer_name :: string
  layer_scopes :: "scope list"
  layer_requirements :: "requirement list"

record composition_decision =
  dec_kind :: composition_decision_kind
  dec_layer :: string
  dec_scope :: string
  dec_requirement_kind :: requirement_kind
  dec_key :: string

record composition_result =
  comp_ok :: bool
  comp_code :: code
  comp_body :: contract_body
  comp_diagnostics :: diagnostic_log
  comp_decisions :: "composition_decision list"

definition empty_body :: contract_body where
  "empty_body =
     \<lparr>body_schema_version = kSchemaVersion,
      body_workload = \<lparr>wl_id = zero_id, wl_name = [], wl_generation = 0\<rparr>,
      body_contract_id = zero_id, body_generation = 0, body_policy_generation = 0,
      body_major = 1, body_minor = 0, body_patch = 0, body_description = [],
      body_scopes = [], body_requirements = []\<rparr>"

definition kMaxCompositionLayers :: nat where "kMaxCompositionLayers = 16"

text \<open>What the loops carry, and an early return: its diagnostic and the decisions so far.\<close>

record compose_state =
  cs_body :: contract_body
  cs_index :: "(requirement_key, nat) smap"
  cs_decisions :: "composition_decision list"

type_synonym compose_failure = "diagnostic \<times> composition_decision list"

text \<open>A loop whose passes may return early.\<close>

fun efold :: "('a \<Rightarrow> 's \<Rightarrow> 'e + 's) \<Rightarrow> 'a list \<Rightarrow> 's \<Rightarrow> 'e + 's" where
  "efold f [] s = Inr s"
| "efold f (x # xs) s = (case f x s of Inl e \<Rightarrow> Inl e | Inr s' \<Rightarrow> efold f xs s')"

definition decision :: "composition_decision_kind \<Rightarrow> string \<Rightarrow> requirement \<Rightarrow> composition_decision" where
  "decision k layer r =
     \<lparr>dec_kind = k, dec_layer = layer, dec_scope = req_scope r, dec_requirement_kind = req_kind r,
      dec_key = req_key r\<rparr>"

text \<open>The index of the base: the position of each key, \<^verbatim>\<open>None\<close> when a key repeats.\<close>

fun index_base ::
    "requirement list \<Rightarrow> nat \<Rightarrow> (requirement_key, nat) smap \<Rightarrow> (requirement_key, nat) smap option" where
  "index_base [] i index = Some index"
| "index_base (r # rs) i index =
     (if map_of index (composite_key r) \<noteq> None then None
      else index_base rs (Suc i) (map_put (composite_key r) i index))"

definition compose_scope :: "string \<Rightarrow> scope \<Rightarrow> compose_state \<Rightarrow> compose_state" where
  "compose_scope layer s st =
     (if list_ex (\<lambda>e. scope_name e = scope_name s) (body_scopes (cs_body st)) then st
      else st\<lparr>cs_body := (cs_body st)\<lparr>body_scopes := body_scopes (cs_body st) @ [s]\<rparr>,
              cs_decisions := cs_decisions st @
                [\<lparr>dec_kind = Added, dec_layer = layer, dec_scope = scope_name s,
                  dec_requirement_kind = Attribute, dec_key = []\<rparr>]\<rparr>)"

definition compose_requirement ::
    "string \<Rightarrow> requirement \<Rightarrow> compose_state \<Rightarrow> compose_failure + compose_state" where
  "compose_requirement layer incoming st =
     (let rs = body_requirements (cs_body st) in
      case map_of (cs_index st) (composite_key incoming) of
        None \<Rightarrow>
          Inr (st\<lparr>cs_body := (cs_body st)\<lparr>body_requirements := rs @ [incoming]\<rparr>,
                  cs_index := map_put (composite_key incoming) (length rs) (cs_index st),
                  cs_decisions := cs_decisions st @ [decision Added layer incoming]\<rparr>)
      | Some i \<Rightarrow>
          (let accumulated = rs ! i;
               weaker = strength_number (req_strength incoming) < strength_number (req_strength accumulated);
               order = compare_requirement_strength incoming accumulated
           in if weaker \<or> order < 0 then
                Inl (diag_req kWeakeningDenied (req_id accumulated),
                     cs_decisions st @ [decision Rejected layer incoming])
              else if order > 0 then
                Inr (st\<lparr>cs_body := (cs_body st)\<lparr>body_requirements := rs[i := incoming]\<rparr>,
                        cs_decisions := cs_decisions st @ [decision Strengthened layer incoming]\<rparr>)
              else
                Inl (diag_req kCompositionConflict (req_id accumulated),
                     cs_decisions st @ [decision Conflict layer incoming])))"

definition compose_layer :: "overlay_layer \<Rightarrow> compose_state \<Rightarrow> compose_failure + compose_state" where
  "compose_layer layer st =
     (if layer_name layer = [] then Inl (diag kOverlayInvalid, cs_decisions st)
      else efold (compose_requirement (layer_name layer)) (layer_requirements layer)
             (fold (compose_scope (layer_name layer)) (layer_scopes layer) st))"

definition scope_name_precedes :: "scope \<Rightarrow> scope \<Rightarrow> bool" where
  "scope_name_precedes a b = (scope_name a < scope_name b)"

definition finish_composition :: "contract_body \<Rightarrow> contract_body" where
  "finish_composition b =
     (let b1 = b\<lparr>body_scopes := sort_by scope_name_precedes (body_scopes b),
                 body_requirements := sort_by requirement_precedes
                   (map canonical_requirement (body_requirements b))\<rparr>
      in b1\<lparr>body_contract_id := derive_contract_id (wl_id (body_workload b1)) (body_digest b1)\<rparr>)"

fun repeats_key :: "requirement list \<Rightarrow> bool" where
  "repeats_key (a # b # rs) = (composite_key b = composite_key a \<or> repeats_key (b # rs))"
| "repeats_key _ = False"

definition compose_failed :: "compose_failure \<Rightarrow> composition_result" where
  "compose_failed f =
     \<lparr>comp_ok = False, comp_code = diag_code (fst f), comp_body = empty_body,
      comp_diagnostics = log_of [fst f], comp_decisions = snd f\<rparr>"

definition compose :: "contract_body \<Rightarrow> overlay_layer list \<Rightarrow> nat \<Rightarrow> composition_result" where
  "compose base layers max_layers =
     (if length layers > max_layers then compose_failed (diag kTooManyLayers, [])
      else case index_base (body_requirements base) 0 [] of
        None \<Rightarrow> compose_failed (diag kDuplicateRequirement, [])
      | Some index \<Rightarrow>
          (case efold compose_layer layers \<lparr>cs_body = base, cs_index = index, cs_decisions = []\<rparr> of
             Inl f \<Rightarrow> compose_failed f
           | Inr st \<Rightarrow>
               (let composed = finish_composition (cs_body st) in
                if body_requirements composed = []
                  then compose_failed (diag kEmptyRequirementSet, cs_decisions st)
                else if repeats_key (body_requirements composed)
                  then compose_failed (diag kCompositionConflict, cs_decisions st)
                else \<lparr>comp_ok = True, comp_code = kOk, comp_body = composed,
                      comp_diagnostics = log_of [], comp_decisions = cs_decisions st\<rparr>)))"

section \<open>What composition keeps\<close>

text \<open>
  One requirement upholds another of its key when it is stronger, or equally strong and no weaker
  in either bound (or, for textual requirements, the same text).
\<close>

definition upholds :: "requirement \<Rightarrow> requirement \<Rightarrow> bool" where
  "upholds a b \<longleftrightarrow>
     composite_key a = composite_key b \<and>
     (strength_number (req_strength b) < strength_number (req_strength a) \<or>
      req_strength a = req_strength b \<and> req_has_numeric a = req_has_numeric b \<and>
      (if req_has_numeric a
       then req_target a = req_target b \<and> req_minimum a = req_minimum b \<or> dominates (req_kind a) a b
       else req_value a = req_value b \<and> req_preferred_value a = req_preferred_value b))"

lemma upholds_refl [simp]: "upholds r r"
  by (simp add: upholds_def)

lemma dominates_trans: "dominates k a b \<Longrightarrow> dominates k b c \<Longrightarrow> dominates k a c"
  by (auto simp: dominates_def split: if_splits intro: dbl_le_trans)

lemma dominates_cong:
  "req_target a = req_target a' \<Longrightarrow> req_minimum a = req_minimum a' \<Longrightarrow>
   req_target b = req_target b' \<Longrightarrow> req_minimum b = req_minimum b' \<Longrightarrow>
   dominates k a b = dominates k a' b'"
  by (simp add: dominates_def)

lemma upholds_trans:
  assumes "upholds a b" "upholds b c"
  shows "upholds a c"
proof -
  have "req_kind a = req_kind b" using assms by (simp add: upholds_def composite_key_def)
  with assms show ?thesis
    unfolding upholds_def
    by (auto split: if_splits intro: dominates_trans simp: dominates_cong [of b a c c])
      (auto simp: dominates_def split: if_splits)
qed

lemma compare_upholds:
  assumes "composite_key a = composite_key b" "compare_requirement_strength a b > 0"
  shows "upholds a b"
  using assms
  by (auto simp: compare_requirement_strength_def upholds_def Let_def same_constraint_def
      split: if_splits)

lemma upholds_canonical [simp]:
  "upholds (canonical_requirement a) b = upholds a b" "upholds a (canonical_requirement b) = upholds a b"
  by (auto simp: upholds_def canonical_requirement_def composite_key_def dominates_def Let_def)

text \<open>The index points at every requirement, once.\<close>

definition index_ok :: "compose_state \<Rightarrow> bool" where
  "index_ok st \<longleftrightarrow>
     (\<forall>k i. map_of (cs_index st) k = Some i \<longleftrightarrow>
        i < length (body_requirements (cs_body st)) \<and>
        composite_key (body_requirements (cs_body st) ! i) = k)"

lemma index_okD:
  "index_ok st \<Longrightarrow> map_of (cs_index st) k = Some i \<longleftrightarrow>
     i < length (body_requirements (cs_body st)) \<and> composite_key (body_requirements (cs_body st) ! i) = k"
  unfolding index_ok_def by blast

lemma index_base_lookup:
  "index_base rs i index = Some index' \<Longrightarrow>
   map_of index' k = Some j \<longleftrightarrow>
     map_of index k = Some j \<or> i \<le> j \<and> j < i + length rs \<and> composite_key (rs ! (j - i)) = k"
proof (induction rs i index rule: index_base.induct)
  case (2 r rs i index)
  then have fresh: "map_of index (composite_key r) = None" by (auto split: if_splits)
  have IH: "map_of index' k = Some j \<longleftrightarrow> map_of (map_put (composite_key r) i index) k = Some j \<or>
      Suc i \<le> j \<and> j < Suc i + length rs \<and> composite_key (rs ! (j - Suc i)) = k"
    using 2 by (auto split: if_splits)
  show ?case
  proof (cases "j = i")
    case True
    then show ?thesis using IH fresh by auto
  next
    case False
    have "(r # rs) ! (j - i) = rs ! (j - Suc i)" if "i \<le> j"
      using that False by (simp add: nth_Cons')
    moreover have "i \<le> j \<longleftrightarrow> Suc i \<le> j" using False by auto
    ultimately show ?thesis using IH fresh False by auto
  qed
qed auto

lemma index_ok_keys:
  assumes "index_ok st"
  shows "distinct (map composite_key (body_requirements (cs_body st)))"
proof -
  have "i = j" if "i < length (body_requirements (cs_body st))" "j < length (body_requirements (cs_body st))"
    "composite_key (body_requirements (cs_body st) ! i) = composite_key (body_requirements (cs_body st) ! j)" for i j
    using assms that unfolding index_ok_def by (metis option.inject)
  then show ?thesis by (simp add: distinct_conv_nth) blast
qed

lemma efold_induct:
  assumes "efold f xs s = Inr s'" "P s"
    and "\<And>x a b. x \<in> set xs \<Longrightarrow> P a \<Longrightarrow> f x a = Inr b \<Longrightarrow> P b"
  shows "P s'"
  using assms
proof (induction xs arbitrary: s)
  case (Cons x xs)
  then obtain t where t: "f x s = Inr t" "efold f xs t = Inr s'" by (auto split: sum.splits)
  with Cons.prems have "P t" by (meson list.set_intros(1))
  with t Cons show ?case by (meson list.set_intros(2))
qed simp

lemma compose_scope_requirements [simp]:
  "body_requirements (cs_body (compose_scope n s st)) = body_requirements (cs_body st)"
  "cs_index (compose_scope n s st) = cs_index st"
  by (simp_all add: compose_scope_def)

lemma fold_compose_scope [simp]:
  "body_requirements (cs_body (fold (compose_scope n) ss st)) = body_requirements (cs_body st)"
  "cs_index (fold (compose_scope n) ss st) = cs_index st"
  by (induction ss arbitrary: st) auto

text \<open>Every requirement of one list is upheld by one of another.\<close>

definition upheld_in :: "requirement list \<Rightarrow> requirement \<Rightarrow> bool" where
  "upheld_in rs r \<longleftrightarrow> (\<exists>a\<in>set rs. upholds a r)"

lemma compose_requirement_step:
  assumes "index_ok st" "compose_requirement n r st = Inr st'"
  shows "index_ok st' \<and> upheld_in (body_requirements (cs_body st')) r \<and>
    (\<forall>q. upheld_in (body_requirements (cs_body st)) q \<longrightarrow> upheld_in (body_requirements (cs_body st')) q) \<and>
    set (map composite_key (body_requirements (cs_body st'))) =
      insert (composite_key r) (set (map composite_key (body_requirements (cs_body st))))"
proof (cases "map_of (cs_index st) (composite_key r)")
  case None
  let ?rs = "body_requirements (cs_body st)"
  have st': "body_requirements (cs_body st') = ?rs @ [r]"
    "cs_index st' = map_put (composite_key r) (length ?rs) (cs_index st)"
    using assms(2) None by (auto simp: compose_requirement_def Let_def)
  have lookup: "map_of (cs_index st) k = Some i \<longleftrightarrow> i < length ?rs \<and> composite_key (?rs ! i) = k" for k i
    using assms(1) by (rule index_okD)
  then have "composite_key (?rs ! i) \<noteq> composite_key r" if "i < length ?rs" for i
    using None that by (metis option.distinct(1))
  then have "map_of (cs_index st') k = Some i \<longleftrightarrow>
      i < length (?rs @ [r]) \<and> composite_key ((?rs @ [r]) ! i) = k" for k i
    unfolding st' using lookup [of k i]
    by (cases "i = length ?rs"; cases "i < length ?rs") (auto simp: nth_append)
  then have "index_ok st'" unfolding index_ok_def st' by blast
  then show ?thesis by (auto simp: upheld_in_def st')
next
  case (Some i)
  let ?rs = "body_requirements (cs_body st)"
  have i: "i < length ?rs" "composite_key (?rs ! i) = composite_key r"
    using Some index_okD [OF assms(1)] by auto
  have st': "body_requirements (cs_body st') = ?rs[i := r]" "cs_index st' = cs_index st"
    and "compare_requirement_strength r (?rs ! i) > 0"
    using assms(2) Some by (auto simp: compose_requirement_def Let_def split: if_splits)
  then have up: "upholds r (?rs ! i)" using i by (intro compare_upholds) auto
  have "index_ok st'"
    using index_okD [OF assms(1)] i unfolding index_ok_def st' by (auto simp: nth_list_update)
  moreover have "upheld_in (?rs[i := r]) q" if "upheld_in ?rs q" for q
  proof -
    from that obtain j where j: "j < length ?rs" "upholds (?rs ! j) q"
      by (auto simp: upheld_in_def in_set_conv_nth)
    have "upholds (?rs[i := r] ! j) q"
    proof (cases "j = i")
      case True
      with j up show ?thesis by (auto intro: upholds_trans)
    qed (use j in simp)
    then show ?thesis using j by (metis length_list_update nth_mem upheld_in_def)
  qed
  moreover have "upheld_in (?rs[i := r]) r"
    using i by (auto simp: upheld_in_def intro!: bexI [of _ r] set_update_memI)
  moreover have "map composite_key (?rs[i := r]) = map composite_key ?rs"
    using i by (intro nth_equalityI) (auto simp: nth_list_update)
  moreover have "composite_key r \<in> set (map composite_key ?rs)"
    using i by (metis length_map nth_map nth_mem)
  ultimately show ?thesis by (simp only: st') (simp add: insert_absorb)
qed


text \<open>The invariant of the loops, for what the base and the layers so far declared.\<close>

definition composes :: "requirement set \<Rightarrow> compose_state \<Rightarrow> bool" where
  "composes Q st \<longleftrightarrow>
     index_ok st \<and> (\<forall>q\<in>Q. upheld_in (body_requirements (cs_body st)) q) \<and>
     composite_key ` set (body_requirements (cs_body st)) = composite_key ` Q"

lemma composes_requirement:
  assumes "composes Q st" "compose_requirement n r st = Inr st'"
  shows "composes (insert r Q) st'"
  using compose_requirement_step [OF _ assms(2)] assms(1) unfolding composes_def by auto

lemma composes_requirements:
  "efold (compose_requirement n) rs st = Inr st' \<Longrightarrow> composes Q st \<Longrightarrow> composes (Q \<union> set rs) st'"
proof (induction rs arbitrary: st Q)
  case (Cons r rs)
  then obtain t where t: "compose_requirement n r st = Inr t" "efold (compose_requirement n) rs t = Inr st'"
    by (auto split: sum.splits)
  have "composes (insert r Q \<union> set rs) st'"
    using t(2) composes_requirement [OF Cons.prems(2) t(1)] by (rule Cons.IH)
  then show ?case by simp
qed simp

lemma composes_layers:
  "efold compose_layer layers st = Inr st' \<Longrightarrow> composes Q st \<Longrightarrow>
   composes (Q \<union> (\<Union>l\<in>set layers. set (layer_requirements l))) st'"
proof (induction layers arbitrary: st Q)
  case (Cons l layers)
  then obtain t where t: "compose_layer l st = Inr t" "efold compose_layer layers t = Inr st'"
    by (auto split: sum.splits)
  have "composes Q (fold (compose_scope (layer_name l)) (layer_scopes l) st)"
    using Cons.prems(2) by (simp add: composes_def index_ok_def upheld_in_def)
  then have "composes (Q \<union> set (layer_requirements l)) t"
    using t(1) by (auto simp: compose_layer_def split: if_splits intro: composes_requirements)
  then have "composes ((Q \<union> set (layer_requirements l)) \<union> (\<Union>l\<in>set layers. set (layer_requirements l))) st'"
    by (rule Cons.IH [OF t(2)])
  then show ?case by (simp add: Un_assoc)
qed simp

lemma composes_base:
  assumes "index_base (body_requirements base) 0 [] = Some index"
  shows "composes (set (body_requirements base)) \<lparr>cs_body = base, cs_index = index, cs_decisions = []\<rparr>"
proof -
  have "map_of index k = Some j \<longleftrightarrow> j < length (body_requirements base) \<and>
      composite_key (body_requirements base ! j) = k" for k j
    using index_base_lookup [OF assms, of k j] by simp
  then show ?thesis unfolding composes_def index_ok_def upheld_in_def by force
qed

lemma composed_requirements:
  "set (body_requirements (finish_composition b)) = canonical_requirement ` set (body_requirements b)"
  by (simp add: finish_composition_def Let_def)

lemma distinct_composed:
  assumes "distinct (map composite_key (body_requirements b))"
  shows "distinct (map composite_key (body_requirements (finish_composition b)))"
proof -
  have "mset (map composite_key (body_requirements (finish_composition b))) =
      mset (map composite_key (map canonical_requirement (body_requirements b)))"
    by (simp add: finish_composition_def Let_def multiset.map_comp)
  also have "map composite_key (map canonical_requirement (body_requirements b)) =
      map composite_key (body_requirements b)" by simp
  finally show ?thesis using assms by (metis mset_eq_imp_distinct_iff)
qed

lemma repeats_key_distinct: "distinct (map composite_key rs) \<Longrightarrow> \<not> repeats_key rs"
  by (induction rs rule: repeats_key.induct) auto

definition declared_requirements :: "contract_body \<Rightarrow> overlay_layer list \<Rightarrow> requirement set" where
  "declared_requirements base layers =
     set (body_requirements base) \<union> (\<Union>l\<in>set layers. set (layer_requirements l))"

lemma compose_ok_state:
  assumes "comp_ok (compose base layers max_layers)"
  obtains st where "composes (declared_requirements base layers) st"
    "comp_body (compose base layers max_layers) = finish_composition (cs_body st)"
    "efold compose_layer layers \<lparr>cs_body = base,
       cs_index = the (index_base (body_requirements base) 0 []), cs_decisions = []\<rparr> = Inr st"
proof -
  obtain index st where index: "index_base (body_requirements base) 0 [] = Some index"
    and st: "efold compose_layer layers \<lparr>cs_body = base, cs_index = index, cs_decisions = []\<rparr> = Inr st"
    and body: "comp_body (compose base layers max_layers) = finish_composition (cs_body st)"
    using assms
    by (auto simp: compose_def compose_failed_def Let_def split: if_splits option.splits sum.splits)
  have "composes (declared_requirements base layers) st"
    unfolding declared_requirements_def by (rule composes_layers [OF st composes_base [OF index]])
  with index st body that show ?thesis by simp
qed

lemma compose_layer_frame:
  assumes "compose_layer l st = Inr st'"
  shows "body_workload (cs_body st') = body_workload (cs_body st) \<and>
    body_generation (cs_body st') = body_generation (cs_body st) \<and>
    body_policy_generation (cs_body st') = body_policy_generation (cs_body st)"
    (is "?frame st st'")
proof -
  let ?P = "?frame st"
  have scopes: "?P (fold (compose_scope n) ss st)" for n ss
    by (rule fold_invariant [where P = ?P and Q = "\<lambda>_. True"]) (auto simp: compose_scope_def)
  have step: "?P b" if "?P a" "compose_requirement n r a = Inr b" for n r a b
    using that by (auto simp: compose_requirement_def Let_def split: option.splits if_splits)
  have "efold (compose_requirement (layer_name l)) (layer_requirements l)
      (fold (compose_scope (layer_name l)) (layer_scopes l) st) = Inr st'"
    using assms by (simp add: compose_layer_def split: if_splits)
  then show ?thesis by (rule efold_induct [where P = ?P]) (fact scopes, rule step)
qed

section \<open>Properties of composition\<close>

lemma compose_upholds:
  assumes "comp_ok (compose base layers max_layers)"
    and "body = comp_body (compose base layers max_layers)"
  shows "composite_key ` set (body_requirements body) =
      composite_key ` declared_requirements base layers \<and>
    distinct (map composite_key (body_requirements body)) \<and>
    (\<forall>r \<in> declared_requirements base layers. \<exists>a \<in> set (body_requirements body). upholds a r) \<and>
    body_workload body = body_workload base \<and> body_generation body = body_generation base \<and>
    body_policy_generation body = body_policy_generation base"
proof -
  obtain st where st: "composes (declared_requirements base layers) st"
    "body = finish_composition (cs_body st)"
    "efold compose_layer layers \<lparr>cs_body = base,
       cs_index = the (index_base (body_requirements base) 0 []), cs_decisions = []\<rparr> = Inr st"
    using compose_ok_state [OF assms(1)] assms(2) by metis
  let ?P = "\<lambda>s. body_workload (cs_body s) = body_workload base \<and>
    body_generation (cs_body s) = body_generation base \<and>
    body_policy_generation (cs_body s) = body_policy_generation base"
  have "?P st"
    by (rule efold_induct [OF st(3), where P = ?P]) (auto dest: compose_layer_frame)
  moreover have "distinct (map composite_key (body_requirements body))"
    using st(1,2) by (auto simp: composes_def intro: distinct_composed index_ok_keys)
  moreover have "\<exists>a\<in>set (body_requirements body). upholds a r"
    if "r \<in> declared_requirements base layers" for r
    using st(1,2) that unfolding composes_def upheld_in_def by (fastforce simp: composed_requirements)
  moreover have "composite_key ` set (body_requirements body) = composite_key ` declared_requirements base layers"
    using st(1) unfolding composes_def st(2) composed_requirements by (simp add: image_image)
  ultimately show ?thesis by (simp add: st(2) finish_composition_def Let_def)
qed

text \<open>
  C20: A composition that is accepted weakens nothing: its requirement keys are exactly those of
  the base and the layers, each once, and every requirement that the base or a layer declared is
  upheld by the composed requirement of its key, which is stronger, or equally strong with no
  weaker bound (the same text for requirements without a numeric band). Members of collective
  requirements and attributes are not compared. It carries the base's workload and generations.
\<close>

theorem compose_never_weakens:
  assumes "comp_ok (compose base layers max_layers)"
    and "body = comp_body (compose base layers max_layers)"
  shows "composite_key ` set (body_requirements body) =
      composite_key ` declared_requirements base layers \<and>
    distinct (map composite_key (body_requirements body)) \<and>
    (\<forall>r \<in> declared_requirements base layers. \<exists>a \<in> set (body_requirements body). upholds a r) \<and>
    body_workload body = body_workload base \<and> body_generation body = body_generation base \<and>
    body_policy_generation body = body_policy_generation base"
  using assms by (rule compose_upholds)


text \<open>The last check of \<^verbatim>\<open>compose\<close> never refuses: after the loops no key repeats.\<close>

lemma compose_accepts:
  assumes "length layers \<le> max_layers" "index_base (body_requirements base) 0 [] = Some index"
    and st: "efold compose_layer layers \<lparr>cs_body = base, cs_index = index, cs_decisions = []\<rparr> = Inr st"
    and "body_requirements (cs_body st) \<noteq> []"
  shows "compose base layers max_layers =
    \<lparr>comp_ok = True, comp_code = kOk, comp_body = finish_composition (cs_body st),
     comp_diagnostics = log_of [], comp_decisions = cs_decisions st\<rparr>"
proof -
  have "composes (declared_requirements base layers) st"
    unfolding declared_requirements_def by (rule composes_layers [OF st composes_base [OF assms(2)]])
  then have "\<not> repeats_key (body_requirements (finish_composition (cs_body st)))"
    by (auto simp: composes_def intro!: repeats_key_distinct distinct_composed index_ok_keys)
  moreover have "body_requirements (finish_composition (cs_body st)) \<noteq> []"
    using assms(4) composed_requirements [of "cs_body st"] by force
  ultimately show ?thesis using assms by (simp add: compose_def Let_def)
qed

definition sample_layer :: overlay_layer where
  "sample_layer =
     \<lparr>layer_name = ''fabric'', layer_scopes = [],
      layer_requirements = [sample_requirement ''site'' MinBandwidth 200]\<rparr>"

lemma sample_requirement_fields [simp]:
  "composite_key (sample_requirement s k v) = (s, k, ''k'')"
  "req_strength (sample_requirement s k v) = Required"
  "req_kind (sample_requirement s k v) = k"
  "req_has_numeric (sample_requirement s k v)"
  "req_target (sample_requirement s k v) = Finite v"
  "req_minimum (sample_requirement s k v) = Finite v"
  by (simp_all add: sample_requirement_def composite_key_def)

lemmas compose_eval = compose_layer_def compose_requirement_def compare_requirement_strength_def
  dominates_def kind_is_floor_def kKindTable_def Let_def sample_layer_def

lemma sample_index:
  "index_base (body_requirements sample_body) 0 [] =
     Some [((''pod'', MaxLatency, ''k''), 1), ((''site'', MinBandwidth, ''k''), 0)]"
  by (simp add: sample_body_def less_prod_def')

lemma sample_composes:
  "compose sample_body [sample_layer] kMaxCompositionLayers =
    \<lparr>comp_ok = True, comp_code = kOk, comp_body = finish_composition (sample_body
       \<lparr>body_requirements := [sample_requirement ''site'' MinBandwidth 200,
          sample_requirement ''pod'' MaxLatency 5]\<rparr>),
     comp_diagnostics = log_of [], comp_decisions =
       [decision Strengthened ''fabric'' (sample_requirement ''site'' MinBandwidth 200)]\<rparr>"
proof -
  let ?index = "[((''pod'', MaxLatency, ''k''), 1), ((''site'', MinBandwidth, ''k''), 0)]"
  have rs: "body_requirements sample_body =
      [sample_requirement ''site'' MinBandwidth 100, sample_requirement ''pod'' MaxLatency 5]"
    by (simp add: sample_body_def)
  have "efold compose_layer [sample_layer] \<lparr>cs_body = sample_body, cs_index = ?index, cs_decisions = []\<rparr> =
    Inr \<lparr>cs_body = sample_body\<lparr>body_requirements := [sample_requirement ''site'' MinBandwidth 200,
          sample_requirement ''pod'' MaxLatency 5]\<rparr>, cs_index = ?index,
        cs_decisions = [decision Strengthened ''fabric'' (sample_requirement ''site'' MinBandwidth 200)]\<rparr>"
    by (simp add: compose_eval rs)
  then show ?thesis
    using compose_accepts [OF _ sample_index, of "[sample_layer]" kMaxCompositionLayers]
    by (simp add: kMaxCompositionLayers_def)
qed

theorem compose_never_weakens_witness:
  "(\<exists>a \<in> set (body_requirements (comp_body (compose sample_body [sample_layer] kMaxCompositionLayers))).
      upholds a (sample_requirement ''site'' MinBandwidth 100)) \<and>
   body_generation (comp_body (compose sample_body [sample_layer] kMaxCompositionLayers)) = 1"
proof -
  have "sample_requirement ''site'' MinBandwidth 100 \<in> declared_requirements sample_body [sample_layer]"
    by (simp add: declared_requirements_def sample_body_def)
  moreover have "body_generation sample_body = 1" by (simp add: sample_body_def)
  ultimately show ?thesis
    using compose_never_weakens [OF _ refl, of sample_body "[sample_layer]" kMaxCompositionLayers]
    by (simp add: sample_composes)
qed

text \<open>
  A refused composition returns nothing of the layers: its body is the empty body, its code
  is one of the six codes of \<^verbatim>\<open>compose\<close>, and its diagnostics hold exactly that code. A
  composition succeeds exactly when its code is \<^verbatim>\<open>kOk\<close>.
\<close>

theorem compose_refusal:
  "(comp_ok (compose base layers n) \<longleftrightarrow> comp_code (compose base layers n) = kOk) \<and>
   (comp_ok (compose base layers n) \<or>
    comp_body (compose base layers n) = empty_body \<and>
    map diag_code (entries (comp_diagnostics (compose base layers n))) = [comp_code (compose base layers n)] \<and>
    comp_code (compose base layers n) \<in>
      {kTooManyLayers, kDuplicateRequirement, kOverlayInvalid, kWeakeningDenied,
       kCompositionConflict, kEmptyRequirementSet})"
proof -
  let ?codes = "{kTooManyLayers, kDuplicateRequirement, kOverlayInvalid, kWeakeningDenied,
       kCompositionConflict, kEmptyRequirementSet}"
  have req: "diag_code (fst f) \<in> ?codes" if "compose_requirement m r s = Inl f" for m r s f
    using that by (auto simp: compose_requirement_def Let_def split: option.splits if_splits)
  have reqs: "diag_code (fst f) \<in> ?codes" if "efold (compose_requirement m) rs s = Inl f" for m rs s f
    using that by (induction rs arbitrary: s) (auto split: sum.splits dest: req)
  have layer: "diag_code (fst f) \<in> ?codes" if "compose_layer l s = Inl f" for l s f
    using that reqs by (auto simp: compose_layer_def split: if_splits)
  have layers: "diag_code (fst f) \<in> ?codes" if "efold compose_layer ls s = Inl f" for ls s f
    using that by (induction ls arbitrary: s) (auto split: sum.splits dest: layer)
  define good where "good r \<longleftrightarrow> (comp_ok r \<longleftrightarrow> comp_code r = kOk) \<and>
     (comp_ok r \<or> comp_body r = empty_body \<and>
        map diag_code (entries (comp_diagnostics r)) = [comp_code r] \<and> comp_code r \<in> ?codes)" for r :: composition_result
  have failed: "good (compose_failed f)" if "diag_code (fst f) \<in> ?codes" for f
    using that by (auto simp: good_def compose_failed_def log_of_entries kDefaultDiagnosticLimit_def)
  have accepted: "good \<lparr>comp_ok = True, comp_code = kOk, comp_body = b,
      comp_diagnostics = log_of [], comp_decisions = ds\<rparr>" for b ds
    by (simp add: good_def)
  have "good (compose base layers n)"
    unfolding compose_def Let_def
    by (auto intro!: failed accepted dest: layers split: option.split sum.split)
  then show ?thesis unfolding good_def .
qed

text \<open>
  A layer that raises the strength replaces the accumulated requirement whatever its bounds:
  a preferred bandwidth of 20 with a floor of 10 is replaced by a required bandwidth of 1, so the
  weakest acceptable bound falls although \<^verbatim>\<open>compose\<close> states that no bound may.
\<close>

theorem compose_strength_lowers_bound:
  "let preferred = (sample_requirement ''site'' MinBandwidth 10)
         \<lparr>req_strength := Preferred, req_target := Finite 20\<rparr>;
       required = sample_requirement ''site'' MinBandwidth 1;
       result = compose (sample_body\<lparr>body_requirements := [preferred]\<rparr>)
         [sample_layer\<lparr>layer_requirements := [required]\<rparr>] kMaxCompositionLayers
   in comp_ok result \<and> map req_minimum (body_requirements (comp_body result)) = [Finite 1]"
proof -
  let ?preferred = "(sample_requirement ''site'' MinBandwidth 10)
    \<lparr>req_strength := Preferred, req_target := Finite 20\<rparr>"
  let ?required = "sample_requirement ''site'' MinBandwidth 1"
  let ?base = "sample_body\<lparr>body_requirements := [?preferred]\<rparr>"
  let ?layer = "sample_layer\<lparr>layer_requirements := [?required]\<rparr>"
  have index: "index_base (body_requirements ?base) 0 [] = Some [((''site'', MinBandwidth, ''k''), 0)]"
    by (simp add: sample_requirement_def composite_key_def)
  have "efold compose_layer [?layer]
      \<lparr>cs_body = ?base, cs_index = [((''site'', MinBandwidth, ''k''), 0)], cs_decisions = []\<rparr> =
    Inr \<lparr>cs_body = ?base\<lparr>body_requirements := [?required]\<rparr>,
      cs_index = [((''site'', MinBandwidth, ''k''), 0)],
      cs_decisions = [decision Strengthened ''fabric'' ?required]\<rparr>"
    by (simp add: compose_eval)
  then have "compose ?base [?layer] kMaxCompositionLayers =
    \<lparr>comp_ok = True, comp_code = kOk,
     comp_body = finish_composition (?base\<lparr>body_requirements := [?required]\<rparr>),
     comp_diagnostics = log_of [], comp_decisions = [decision Strengthened ''fabric'' ?required]\<rparr>"
    using compose_accepts [OF _ index, of "[?layer]" kMaxCompositionLayers]
    by (simp add: kMaxCompositionLayers_def)
  then show ?thesis
    by (simp add: Let_def finish_composition_def canonical_requirement_def)
qed

end
