(* ===== verification/Wnc_Policy.thy ===== *)
theory Wnc_Policy
  imports Wnc_Composition
begin

text \<open>
  Policies and compatibility: \<^verbatim>\<open>include/wnc/policy.hpp\<close> and \<^verbatim>\<open>src/policy.cpp\<close>. The policy
  document with its decoder and derived identity, the checks of a policy and of a contract body
  against it, and the compatibility verdict between two generations of a contract.
\<close>

section \<open>The data model\<close>

record policy_rule =
  rule_requirement :: ident
  rule_kind :: requirement_kind
  rule_scope :: string
  rule_key :: string
  rule_min_target :: double
  rule_max_target :: double
  rule_min_minimum :: double
  rule_max_minimum :: double
  rule_minimum_strength :: requirement_strength
  rule_maximum_strength :: requirement_strength
  rule_allow :: bool
  rule_allowed_values :: "string list"

record policy =
  pol_schema_version :: u32
  pol_id :: ident
  pol_generation :: u64
  pol_description :: string
  pol_rules :: "policy_rule list"

definition kMaxPolicyRules :: nat where "kMaxPolicyRules = 4096"
definition kMaxAllowedValues :: nat where "kMaxAllowedValues = 64"
definition kMaxPolicyParameter :: nat where "kMaxPolicyParameter = 1000000000000000"

section \<open>Policy documents\<close>

definition rule_to_json :: "policy_rule \<Rightarrow> json" where
  "rule_to_json rule =
     json_sets
       ([(''kind'', JString (requirement_kind_token (rule_kind rule))),
         (''scope'', JString (rule_scope rule)),
         (''key'', JString (rule_key rule)),
         (''allow'', JBool (rule_allow rule)),
         (''min_target'', JReal (rule_min_target rule)),
         (''max_target'', JReal (rule_max_target rule)),
         (''min_minimum'', JReal (rule_min_minimum rule)),
         (''max_minimum'', JReal (rule_max_minimum rule)),
         (''minimum_strength'', JString (requirement_strength_token (rule_minimum_strength rule))),
         (''maximum_strength'', JString (requirement_strength_token (rule_maximum_strength rule)))] @
        (if rule_allowed_values rule \<noteq> []
         then [(''allowed_values'', JArray (map JString (rule_allowed_values rule)))] else []))
       JNull"

definition policy_to_json :: "policy \<Rightarrow> json" where
  "policy_to_json p =
     json_sets
       [(''schema_version'', JInt (uint (pol_schema_version p))),
        (''policy_id'', JString (pol_id p)),
        (''policy_generation'', json_u64 (pol_generation p)),
        (''description'', JString (pol_description p)),
        (''rules'', JArray (map rule_to_json (pol_rules p)))]
       JNull"

definition policy_digest :: "policy \<Rightarrow> digest" where
  "policy_digest p = digest_domain ''wnc/v1/policy'' (dump (policy_to_json p))"

definition derive_policy_id :: "digest \<Rightarrow> ident" where
  "derive_policy_id d = from_digest (sha256_parts [''wnc/v1/policy-id'', hex_encode d])"

definition read_string_field :: "(string, json) smap \<Rightarrow> string \<Rightarrow> nat \<Rightarrow> bool \<Rightarrow> string result" where
  "read_string_field obj field bound required =
     (case map_of obj field of
        None \<Rightarrow> if required then Inl kPolicyDenied else Inr []
      | Some (JString s) \<Rightarrow> if length s > bound then Inl kJsonStringTooLong else Inr s
      | Some _ \<Rightarrow> Inl kPolicyDenied)"

text \<open>An absent number leaves the default of the rule, which is zero.\<close>

definition read_number_field :: "(string, json) smap \<Rightarrow> string \<Rightarrow> double result" where
  "read_number_field obj field =
     (let accept = (\<lambda>v. if \<not> isfinite v \<or> dbl_lt v (Finite 0) \<or>
                           dbl_lt (Finite (of_nat kMaxPolicyParameter)) v
                        then Inl kValueOutOfRange else Inr v)
      in case map_of obj field of
           None \<Rightarrow> Inr (Finite 0)
         | Some (JInt i) \<Rightarrow> accept (double_of_int i)
         | Some (JReal d) \<Rightarrow> accept d
         | Some _ \<Rightarrow> Inl kPolicyDenied)"

definition read_allow :: "(string, json) smap \<Rightarrow> bool result" where
  "read_allow obj =
     (case map_of obj ''allow'' of
        None \<Rightarrow> Inr True
      | Some (JBool b) \<Rightarrow> Inr b
      | Some _ \<Rightarrow> Inl kPolicyDenied)"

definition rule_strength :: "string \<Rightarrow> requirement_strength \<Rightarrow> requirement_strength result" where
  "rule_strength t default_strength =
     (if t = [] then Inr default_strength
      else of_option kInvalidStrength (parse_requirement_strength t))"

fun allowed_value :: "json \<Rightarrow> string result" where
  "allowed_value (JString s) = Inr s"
| "allowed_value _ = Inl kPolicyDenied"

definition read_allowed_values :: "(string, json) smap \<Rightarrow> string list result" where
  "read_allowed_values obj =
     (case map_of obj ''allowed_values'' of
        None \<Rightarrow> Inr []
      | Some (JArray items) \<Rightarrow>
          if length items > kMaxAllowedValues then Inl kTooManyAttributes
          else rmap allowed_value items
      | Some _ \<Rightarrow> Inl kPolicyDenied)"

fun decode_rule :: "json \<Rightarrow> policy_rule result" where
  "decode_rule (JObject obj) =
     rbind (read_string_field obj ''kind'' 64 True) (\<lambda>kind_token.
     rbind (of_option kInvalidKind (parse_requirement_kind kind_token)) (\<lambda>kind.
     rbind (read_string_field obj ''scope'' kMaxStringBytes False) (\<lambda>scope.
     rbind (read_string_field obj ''key'' kMaxStringBytes False) (\<lambda>key.
     rbind (read_allow obj) (\<lambda>allow.
     rbind (read_number_field obj ''min_target'') (\<lambda>min_target.
     rbind (read_number_field obj ''max_target'') (\<lambda>max_target.
     rbind (read_number_field obj ''min_minimum'') (\<lambda>min_minimum.
     rbind (read_number_field obj ''max_minimum'') (\<lambda>max_minimum.
     rbind (read_string_field obj ''minimum_strength'' 32 False) (\<lambda>minimum_token.
     rbind (read_string_field obj ''maximum_strength'' 32 False) (\<lambda>maximum_token.
     rbind (rule_strength minimum_token Informational) (\<lambda>minimum_strength.
     rbind (rule_strength maximum_token Required) (\<lambda>maximum_strength.
     rbind (read_allowed_values obj) (\<lambda>allowed.
     Inr \<lparr>rule_requirement = zero_id, rule_kind = kind, rule_scope = scope, rule_key = key,
          rule_min_target = min_target, rule_max_target = max_target,
          rule_min_minimum = min_minimum, rule_max_minimum = max_minimum,
          rule_minimum_strength = minimum_strength, rule_maximum_strength = maximum_strength,
          rule_allow = allow, rule_allowed_values = allowed\<rparr>))))))))))))))"
| "decode_rule _ = Inl kPolicyDenied"

definition read_policy_int :: "(string, json) smap \<Rightarrow> string \<Rightarrow> int \<Rightarrow> int option \<Rightarrow> int result" where
  "read_policy_int obj field least greatest =
     (case map_of obj field of
        Some (JInt i) \<Rightarrow>
          if i < least \<or> (case greatest of Some g \<Rightarrow> i > g | None \<Rightarrow> False)
          then Inl kPolicyDenied else Inr i
      | _ \<Rightarrow> Inl kPolicyDenied)"

definition read_rules :: "(string, json) smap \<Rightarrow> policy_rule list result" where
  "read_rules obj =
     (case map_of obj ''rules'' of
        Some (JArray items) \<Rightarrow>
          if length items > kMaxPolicyRules then Inl kTooManyRequirements
          else rmap decode_rule items
      | _ \<Rightarrow> Inl kPolicyDenied)"

definition seal_policy :: "policy \<Rightarrow> policy" where
  "seal_policy p = p\<lparr>pol_id := derive_policy_id (policy_digest p)\<rparr>"

fun policy_from_json :: "json \<Rightarrow> policy result" where
  "policy_from_json (JObject obj) =
     rbind (read_policy_int obj ''schema_version'' 0 (Some 1000)) (\<lambda>schema_version.
     rbind (read_policy_int obj ''policy_generation'' 1 None) (\<lambda>generation.
     rbind (read_string_field obj ''description'' kMaxStringBytes False) (\<lambda>description.
     rbind (read_string_field obj ''policy_id'' kSha256HexChars False) (\<lambda>policy_id.
     rbind (read_rules obj) (\<lambda>rules.
     let p = seal_policy
           \<lparr>pol_schema_version = word_of_int schema_version, pol_id = zero_id,
            pol_generation = word_of_int generation, pol_description = description,
            pol_rules = rules\<rparr>
     in if policy_id \<noteq> [] \<and> parse_id policy_id \<noteq> Some (pol_id p) then Inl kContractDigestMismatch
        else Inr p)))))"
| "policy_from_json _ = Inl kJsonNotAnObject"

definition policy_from_text :: "string \<Rightarrow> policy result option" where
  "policy_from_text t =
     (case json_decode default_decode_options t of
        None \<Rightarrow> None
      | Some (Inl (c, offset)) \<Rightarrow> Some (Inl c)
      | Some (Inr j) \<Rightarrow> Some (policy_from_json j))"

section \<open>Checking policies and contracts\<close>

definition rule_diags :: "policy_rule \<Rightarrow> diagnostic list" where
  "rule_diags rule =
     report_if (dbl_lt (rule_max_target rule) (rule_min_target rule)) (diag kPolicyDenied) @
     report_if (dbl_lt (rule_max_minimum rule) (rule_min_minimum rule)) (diag kPolicyDenied) @
     report_if (rule_maximum_strength rule < rule_minimum_strength rule) (diag kPolicyDenied) @
     report_if (rule_kind rule = Attribute \<and> rule_key rule = []) (diag kPolicyDenied) @
     report_if (\<not> rule_allow rule \<and> rule_allowed_values rule \<noteq> []) (diag kPolicyDenied)"

definition validate_policy :: "policy \<Rightarrow> validation_result" where
  "validate_policy p =
     result_of_diags
       (report_if (pol_schema_version p = 0) (diag kPolicyDenied) @
        report_if (pol_generation p = 0) (diag kZeroIdentity) @
        concat (map rule_diags (pol_rules p)))"

definition rule_applies :: "policy_rule \<Rightarrow> requirement \<Rightarrow> bool" where
  "rule_applies rule r =
     (if rule_kind rule \<noteq> req_kind r then False
      else if rule_scope rule \<noteq> [] \<and> rule_scope rule \<noteq> req_scope r then False
      else if rule_key rule \<noteq> [] \<and> rule_key rule \<noteq> req_key r then False
      else True)"

definition value_allowed :: "policy_rule \<Rightarrow> string \<Rightarrow> bool" where
  "value_allowed rule v = (rule_allowed_values rule = [] \<or> v \<in> set (rule_allowed_values rule))"

definition outside :: "double \<Rightarrow> double \<Rightarrow> double \<Rightarrow> bool" where
  "outside lo hi v = (dbl_lt v lo \<or> dbl_lt hi v)"

definition rule_violations :: "requirement \<Rightarrow> policy_rule \<Rightarrow> diagnostic list" where
  "rule_violations r rule =
     (let d = diag_req kPolicyDenied (req_id r) in
      if \<not> rule_allow rule then [d]
      else
        report_if (req_strength r < rule_minimum_strength rule) d @
        report_if (req_strength r > rule_maximum_strength rule) d @
        (if req_has_numeric r then
           report_if (outside (rule_min_target rule) (rule_max_target rule) (req_target r)) d @
           report_if (outside (rule_min_minimum rule) (rule_max_minimum rule) (req_minimum r)) d
         else []) @
        report_if (\<not> value_allowed rule (req_value r)) d @
        concat (map (\<lambda>(n, v). report_if (\<not> value_allowed rule v) d) (req_attributes r)))"

definition requirement_policy_diags :: "policy \<Rightarrow> requirement \<Rightarrow> diagnostic list" where
  "requirement_policy_diags p r =
     (let matching = filter (\<lambda>rule. rule_applies rule r) (pol_rules p) in
      concat (map (rule_violations r) matching) @
      report_if (matching = []) (diag_req kOk (req_id r)))"

text \<open>An empty policy returns the default result, whose \<^verbatim>\<open>ok\<close> is false.\<close>

definition check_contract_against_policy :: "policy \<Rightarrow> contract_body \<Rightarrow> validation_result" where
  "check_contract_against_policy p b =
     (if pol_rules p = [] then \<lparr>val_ok = False, val_diagnostics = log_of []\<rparr>
      else result_of_diags (concat (map (requirement_policy_diags p) (body_requirements b))))"

section \<open>Compatibility\<close>

datatype compatibility_verdict = Compatible | CompatibleWithAdditions | Incompatible

record compatibility_result =
  compat_verdict :: compatibility_verdict
  compat_diagnostics :: diagnostic_log

definition compatible :: "compatibility_result \<Rightarrow> bool" where
  "compatible r = (compat_verdict r \<noteq> Incompatible)"

text \<open>\<^verbatim>\<open>emplace\<close> of a whole list: the first of each key stays.\<close>

definition first_by :: "('a \<Rightarrow> 'k) \<Rightarrow> 'a list \<Rightarrow> 'k \<Rightarrow> 'a option" where
  "first_by key xs k = find (\<lambda>x. key x = k) xs"

definition weakened :: "bool \<Rightarrow> double \<Rightarrow> double \<Rightarrow> bool" where
  "weakened is_floor before after = (if is_floor then dbl_lt after before else dbl_lt before after)"

definition candidate_diags :: "requirement \<Rightarrow> requirement \<Rightarrow> diagnostic list" where
  "candidate_diags r candidate =
     report_if (req_strength candidate < req_strength r)
       (diag_req kIncompatibleRequirementWeakened (req_id r)) @
     (if req_has_numeric r \<and> req_has_numeric candidate then
        report_if (weakened (kind_is_floor (req_kind r)) (req_minimum r) (req_minimum candidate))
          (diag_req kIncompatibleRequirementWeakened (req_id r)) @
        report_if (weakened (kind_is_floor (req_kind r)) (req_target r) (req_target candidate))
          (diag_req kIncompatibleRequirementWeakened (req_id r))
      else if req_has_numeric r \<noteq> req_has_numeric candidate then
        [diag_req kIncompatibleKindChanged (req_id r)]
      else
        report_if (req_strength r = Required \<and>
            (req_value r \<noteq> req_value candidate \<or> req_preferred_value r \<noteq> req_preferred_value candidate))
          (diag_req kIncompatibleKindChanged (req_id r)))"

definition previous_diags :: "contract_body \<Rightarrow> requirement \<Rightarrow> diagnostic list" where
  "previous_diags next_body r =
     (case first_by composite_key (body_requirements next_body) (composite_key r) of
        None \<Rightarrow>
          if req_strength r = Required then [diag_req kIncompatibleRequirementRemoved (req_id r)]
          else report_if (first_by scope_name (body_scopes next_body) (req_scope r) = None)
            (diag_req kIncompatibleScopeRemoved (req_id r))
      | Some candidate \<Rightarrow> candidate_diags r candidate)"

definition compatibility_diags :: "contract_body \<Rightarrow> contract_body \<Rightarrow> diagnostic list" where
  "compatibility_diags previous next_body =
     report_if (body_major previous \<noteq> body_major next_body) (diag kIncompatibleMajor) @
     report_if (wl_id (body_workload previous) \<noteq> wl_id (body_workload next_body))
       (diag kIncompatibleKindChanged) @
     report_if (body_generation next_body \<le> body_generation previous) (diag kStaleGeneration) @
     concat (map (previous_diags next_body) (body_requirements previous))"

definition check_compatibility :: "contract_body \<Rightarrow> contract_body \<Rightarrow> compatibility_result" where
  "check_compatibility previous next_body =
     (let dl = log_of (compatibility_diags previous next_body);
          added = length (body_requirements next_body) > length (body_requirements previous) \<or>
            list_ex (\<lambda>r. \<not> list_ex (\<lambda>old. composite_key old = composite_key r)
              (body_requirements previous)) (body_requirements next_body)
      in if has_errors dl then \<lparr>compat_verdict = Incompatible, compat_diagnostics = dl\<rparr>
         else \<lparr>compat_verdict = (if added then CompatibleWithAdditions else Compatible),
               compat_diagnostics = dl\<rparr>)"

section \<open>Reading back a policy\<close>

definition encodable_rule :: "policy_rule \<Rightarrow> bool" where
  "encodable_rule rule =
     (rule_requirement rule = zero_id \<and> length (rule_scope rule) \<le> 4096 \<and>
      length (rule_key rule) \<le> 4096 \<and> bound_ok (rule_min_target rule) \<and>
      bound_ok (rule_max_target rule) \<and> bound_ok (rule_min_minimum rule) \<and>
      bound_ok (rule_max_minimum rule) \<and> length (rule_allowed_values rule) \<le> 64)"

lemma rule_members:
  "map_of (object_of (rule_to_json rule)) ''kind'' = Some (JString (requirement_kind_token (rule_kind rule)))"
  "map_of (object_of (rule_to_json rule)) ''scope'' = Some (JString (rule_scope rule))"
  "map_of (object_of (rule_to_json rule)) ''key'' = Some (JString (rule_key rule))"
  "map_of (object_of (rule_to_json rule)) ''allow'' = Some (JBool (rule_allow rule))"
  "map_of (object_of (rule_to_json rule)) ''min_target'' = Some (JReal (rule_min_target rule))"
  "map_of (object_of (rule_to_json rule)) ''max_target'' = Some (JReal (rule_max_target rule))"
  "map_of (object_of (rule_to_json rule)) ''min_minimum'' = Some (JReal (rule_min_minimum rule))"
  "map_of (object_of (rule_to_json rule)) ''max_minimum'' = Some (JReal (rule_max_minimum rule))"
  "map_of (object_of (rule_to_json rule)) ''minimum_strength'' =
     Some (JString (requirement_strength_token (rule_minimum_strength rule)))"
  "map_of (object_of (rule_to_json rule)) ''maximum_strength'' =
     Some (JString (requirement_strength_token (rule_maximum_strength rule)))"
  "map_of (object_of (rule_to_json rule)) ''allowed_values'' =
     (if rule_allowed_values rule \<noteq> [] then Some (JArray (map JString (rule_allowed_values rule))) else None)"
  by (simp_all add: rule_to_json_def map_of_json_sets map_add_def del: json_sets_Cons)

lemma read_number_field_ok:
  "map_of obj f = Some (JReal x) \<Longrightarrow> bound_ok x \<Longrightarrow> read_number_field obj f = Inr x"
  by (cases x) (auto simp: read_number_field_def bound_ok_def kMaxPolicyParameter_def)

lemma token_lengths:
  "length (requirement_kind_token k) \<le> 64"
  "length (requirement_strength_token s) \<le> 32" "requirement_strength_token s \<noteq> []"
  by (cases k; simp add: requirement_kind_token_def token_of_def kKindTable_def)
    (cases s; simp add: requirement_strength_token_def token_of_def kStrengthTable_def)+

lemma decode_rule_to_json:
  assumes "encodable_rule rule"
  shows "decode_rule (rule_to_json rule) = Inr rule"
proof -
  let ?obj = "object_of (rule_to_json rule)"
  have j: "rule_to_json rule = JObject ?obj"
    unfolding rule_to_json_def by (rule json_sets_object) simp
  have numbers: "read_number_field ?obj ''min_target'' = Inr (rule_min_target rule)"
    "read_number_field ?obj ''max_target'' = Inr (rule_max_target rule)"
    "read_number_field ?obj ''min_minimum'' = Inr (rule_min_minimum rule)"
    "read_number_field ?obj ''max_minimum'' = Inr (rule_max_minimum rule)"
    using assms by (auto simp: encodable_rule_def rule_members intro: read_number_field_ok)
  have strings: "read_string_field ?obj ''scope'' kMaxStringBytes False = Inr (rule_scope rule)"
    "read_string_field ?obj ''key'' kMaxStringBytes False = Inr (rule_key rule)"
    "read_string_field ?obj ''kind'' 64 True = Inr (requirement_kind_token (rule_kind rule))"
    "read_string_field ?obj ''minimum_strength'' 32 False =
       Inr (requirement_strength_token (rule_minimum_strength rule))"
    "read_string_field ?obj ''maximum_strength'' 32 False =
       Inr (requirement_strength_token (rule_maximum_strength rule))"
    using assms token_lengths
    by (simp_all add: read_string_field_def rule_members encodable_rule_def kMaxStringBytes_def not_less)
  have "read_allow ?obj = Inr (rule_allow rule)" by (simp add: read_allow_def rule_members)
  moreover have "read_allowed_values ?obj = Inr (rule_allowed_values rule)"
    using assms rmap_map [of "rule_allowed_values rule" allowed_value JString]
    by (auto simp: read_allowed_values_def rule_members encodable_rule_def kMaxAllowedValues_def)
  ultimately have "decode_rule (JObject ?obj) = Inr rule"
    using assms numbers strings token_lengths(3)
    by (simp add: rule_strength_def encodable_rule_def)
  then show ?thesis by (simp only: j [symmetric])
qed

definition encodable_policy :: "policy \<Rightarrow> bool" where
  "encodable_policy p =
     (pol_schema_version p \<le> 1000 \<and> pol_id p = zero_id \<and> pol_generation p \<noteq> 0 \<and>
      fits_int64 (pol_generation p) \<and> length (pol_description p) \<le> 4096 \<and>
      length (pol_rules p) \<le> 4096 \<and> list_all encodable_rule (pol_rules p))"

lemma seal_policy_fields [simp]:
  "pol_schema_version (seal_policy p) = pol_schema_version p"
  "pol_generation (seal_policy p) = pol_generation p"
  "pol_description (seal_policy p) = pol_description p"
  "pol_rules (seal_policy p) = pol_rules p"
  by (simp_all add: seal_policy_def)

lemma wf_id_derive_policy_id: "wf_id (derive_policy_id d)"
  unfolding derive_policy_id_def
  by (rule from_digest_wf) (simp add: sha256_parts_def kSha256Bytes_def)

lemma policy_members:
  "map_of (object_of (policy_to_json p)) ''schema_version'' = Some (JInt (uint (pol_schema_version p)))"
  "map_of (object_of (policy_to_json p)) ''policy_id'' = Some (JString (pol_id p))"
  "map_of (object_of (policy_to_json p)) ''policy_generation'' = Some (json_u64 (pol_generation p))"
  "map_of (object_of (policy_to_json p)) ''description'' = Some (JString (pol_description p))"
  "map_of (object_of (policy_to_json p)) ''rules'' = Some (JArray (map rule_to_json (pol_rules p)))"
  by (simp_all add: policy_to_json_def map_of_json_sets del: json_sets_Cons)

lemma policy_from_json_seal:
  assumes "encodable_policy p"
  shows "policy_from_json (policy_to_json (seal_policy p)) = Inr (seal_policy p)"
proof -
  let ?obj = "object_of (policy_to_json (seal_policy p))"
  have j: "policy_to_json (seal_policy p) = JObject ?obj"
    unfolding policy_to_json_def by (rule json_sets_object) simp
  have id: "wf_id (pol_id (seal_policy p))" by (simp add: seal_policy_def wf_id_derive_policy_id)
  then have id_length: "length (pol_id (seal_policy p)) = kSha256HexChars" by (simp add: wf_id_def)
  have generation: "sint (pol_generation p) = uint (pol_generation p)" "1 \<le> uint (pol_generation p)"
    using assms by (auto simp: encodable_policy_def fits_int64_sint)
      (metis int_one_le_iff_zero_less order_le_less uint_0_iff unsigned_greater_eq)
  have "uint (pol_schema_version p) \<le> 1000"
    using assms by (simp add: encodable_policy_def word_le_def)
  then have "read_policy_int ?obj ''schema_version'' 0 (Some 1000) = Inr (uint (pol_schema_version p))"
    by (simp add: read_policy_int_def policy_members)
  moreover have "read_policy_int ?obj ''policy_generation'' 1 None = Inr (uint (pol_generation p))"
    using generation by (simp add: read_policy_int_def policy_members json_u64_def)
  moreover have "read_string_field ?obj ''description'' kMaxStringBytes False = Inr (pol_description p)"
    "read_string_field ?obj ''policy_id'' kSha256HexChars False = Inr (pol_id (seal_policy p))"
    using assms id_length
    by (simp_all add: read_string_field_def policy_members encodable_policy_def kMaxStringBytes_def)
  moreover have "read_rules ?obj = Inr (pol_rules p)"
    using assms rmap_map [of "pol_rules p" decode_rule rule_to_json]
    by (simp add: read_rules_def policy_members encodable_policy_def kMaxPolicyRules_def list_all_iff
        decode_rule_to_json)
  moreover have "\<lparr>pol_schema_version = word_of_int (uint (pol_schema_version p)), pol_id = zero_id,
      pol_generation = word_of_int (uint (pol_generation p)), pol_description = pol_description p,
      pol_rules = pol_rules p\<rparr> = p"
    using assms by (simp add: encodable_policy_def)
  ultimately have "policy_from_json (JObject ?obj) = Inr (seal_policy p)"
    by (simp add: Let_def parse_id_of_wf [OF id])
  then show ?thesis by (simp only: j [symmetric])
qed

section \<open>What the checks decide\<close>

text \<open>A requirement complies with a rule.\<close>

definition complies :: "policy_rule \<Rightarrow> requirement \<Rightarrow> bool" where
  "complies rule r \<longleftrightarrow>
     rule_allow rule \<and> rule_minimum_strength rule \<le> req_strength r \<and>
     req_strength r \<le> rule_maximum_strength rule \<and>
     (req_has_numeric r \<longrightarrow>
        \<not> outside (rule_min_target rule) (rule_max_target rule) (req_target r) \<and>
        \<not> outside (rule_min_minimum rule) (rule_max_minimum rule) (req_minimum r)) \<and>
     value_allowed rule (req_value r) \<and> (\<forall>(n, v)\<in>set (req_attributes r). value_allowed rule v)"

lemma rule_violations_Nil: "rule_violations r rule = [] \<longleftrightarrow> complies rule r"
  by (auto simp: rule_violations_def complies_def Let_def not_less)

lemma rule_violations_code: "d \<in> set (rule_violations r rule) \<Longrightarrow> diag_code d = kPolicyDenied"
  by (auto simp: rule_violations_def Let_def split: if_splits)

lemma policy_diags_errors:
  "(\<exists>d\<in>set (concat (map (requirement_policy_diags p) rs)). diag_code d \<noteq> kOk) \<longleftrightarrow>
   (\<exists>r\<in>set rs. \<exists>rule\<in>set (pol_rules p). rule_applies rule r \<and> \<not> complies rule r)"
proof -
  have denied: "(\<exists>d\<in>set (rule_violations r rule). diag_code d \<noteq> kOk) \<longleftrightarrow> \<not> complies rule r" for r rule
    unfolding rule_violations_Nil [symmetric]
  proof (cases "rule_violations r rule")
    case (Cons d ds)
    then have "diag_code d = kPolicyDenied" using rule_violations_code [of d r rule] by simp
    then show "(\<exists>d\<in>set (rule_violations r rule). diag_code d \<noteq> kOk) \<longleftrightarrow> rule_violations r rule \<noteq> []"
      by (simp add: Cons)
  qed simp
  have "(\<exists>d\<in>set (requirement_policy_diags p r). diag_code d \<noteq> kOk) \<longleftrightarrow>
      (\<exists>rule\<in>set (pol_rules p). rule_applies rule r \<and> \<not> complies rule r)" for r
    unfolding denied [symmetric] requirement_policy_diags_def Let_def by auto
  then show ?thesis by auto
qed


lemma compatibility_diags_errors: "d \<in> set (compatibility_diags a b) \<Longrightarrow> diag_code d \<noteq> kOk"
proof -
  have "list_all (\<lambda>d. diag_code d \<noteq> kOk) (previous_diags b r)" for r
    by (simp add: previous_diags_def candidate_diags_def split: option.split)
  then have "list_all (\<lambda>d. diag_code d \<noteq> kOk) (compatibility_diags a b)"
    by (simp add: compatibility_diags_def list_all_concat_map)
  then show "d \<in> set (compatibility_diags a b) \<Longrightarrow> diag_code d \<noteq> kOk" by (simp add: list_all_iff)
qed

lemma compatible_iff: "compatible (check_compatibility a b) \<longleftrightarrow> compatibility_diags a b = []"
  using has_errors_log_of_errors [of "compatibility_diags a b", OF compatibility_diags_errors]
  by (simp add: compatible_def check_compatibility_def Let_def)

lemma two_u64: "\<not> (2 :: u64) \<le> 1"
  by (simp add: word_le_nat_alt)

section \<open>Properties of policies and compatibility\<close>

definition sample_rule :: policy_rule where
  "sample_rule =
     \<lparr>rule_requirement = zero_id, rule_kind = MinBandwidth, rule_scope = [], rule_key = [],
      rule_min_target = Finite 0, rule_max_target = Finite 1000, rule_min_minimum = Finite 0,
      rule_max_minimum = Finite 1000, rule_minimum_strength = Informational,
      rule_maximum_strength = Required, rule_allow = True, rule_allowed_values = []\<rparr>"

definition sample_policy :: policy where
  "sample_policy =
     \<lparr>pol_schema_version = 1, pol_id = zero_id, pol_generation = 1, pol_description = ''base'',
      pol_rules = [sample_rule]\<rparr>"

text \<open>
  A sealed policy written as a document and decoded again is the same policy, identity
  included, for every policy within the decoder's bounds.
\<close>

theorem policy_roundtrip:
  assumes "encodable_policy p"
  shows "policy_from_json (policy_to_json (seal_policy p)) = Inr (seal_policy p)"
  using assms by (rule policy_from_json_seal)

theorem policy_roundtrip_witness:
  "policy_from_json (policy_to_json (seal_policy sample_policy)) = Inr (seal_policy sample_policy)"
  by (rule policy_roundtrip)
    (simp add: encodable_policy_def sample_policy_def encodable_rule_def sample_rule_def bound_ok_def
      fits_int64_def)

text \<open>
  C23: A contract that complies with every rule of a policy that has rules is accepted; and as
  long as the check reports no more than the sixty four diagnostics its log keeps, a contract is
  accepted only if every requirement complies with every rule that applies to it.
\<close>

theorem policy_check_exact:
  assumes "pol_rules p \<noteq> []"
  shows "((\<forall>r\<in>set (body_requirements b). \<forall>rule\<in>set (pol_rules p).
            rule_applies rule r \<longrightarrow> complies rule r) \<longrightarrow>
          val_ok (check_contract_against_policy p b)) \<and>
     (length (concat (map (requirement_policy_diags p) (body_requirements b))) \<le> 64 \<longrightarrow> val_ok (check_contract_against_policy p b) \<longrightarrow>
        (\<forall>r\<in>set (body_requirements b). \<forall>rule\<in>set (pol_rules p).
           rule_applies rule r \<longrightarrow> complies rule r))"
proof -
  define ds where "ds = concat (map (requirement_policy_diags p) (body_requirements b))"
  have ok: "val_ok (check_contract_against_policy p b) \<longleftrightarrow> (\<forall>d\<in>set (take 64 ds). diag_code d = kOk)"
    using assms(1) by (simp add: check_contract_against_policy_def result_of_diags_def ds_def
        has_errors_log_of kDefaultDiagnosticLimit_def)
  have all: "(\<forall>d\<in>set ds. diag_code d = kOk) \<longleftrightarrow>
      (\<forall>r\<in>set (body_requirements b). \<forall>rule\<in>set (pol_rules p). rule_applies rule r \<longrightarrow> complies rule r)"
    using policy_diags_errors [of p "body_requirements b"] unfolding ds_def by blast
  show ?thesis
    unfolding ok all [symmetric] ds_def [symmetric] by (auto dest: in_set_takeD)
qed

theorem policy_check_exact_witness:
  "val_ok (check_contract_against_policy sample_policy sample_body)"
  using policy_check_exact [of sample_policy sample_body]
  by (auto simp: sample_policy_def sample_rule_def sample_body_def rule_applies_def complies_def
      outside_def value_allowed_def less_eq_requirement_strength_def)

text \<open>
  The bound of the log can hide a violation: behind sixty four requirements that no rule
  constrains, each recorded with \<^verbatim>\<open>kOk\<close>, a requirement of a kind that the policy forbids is
  accepted.
\<close>

theorem policy_check_hides_violation:
  "let p = sample_policy\<lparr>pol_rules := [sample_rule\<lparr>rule_allow := False\<rparr>]\<rparr>;
       forbidden = sample_requirement ''site'' MinBandwidth 100;
       b = sample_body\<lparr>body_requirements :=
             map (\<lambda>i. sample_requirement (to_string_nat i) MaxLatency 5) [0..<64] @ [forbidden]\<rparr>
   in val_ok (check_contract_against_policy p b) \<and> forbidden \<in> set (body_requirements b) \<and>
      rule_applies (hd (pol_rules p)) forbidden \<and> \<not> rule_allow (hd (pol_rules p))"
proof -
  let ?p = "sample_policy\<lparr>pol_rules := [sample_rule\<lparr>rule_allow := False\<rparr>]\<rparr>"
  have "requirement_policy_diags ?p (sample_requirement s MaxLatency 5) =
      [diag_req kOk (replicate 64 (CHR ''c''))]" for s
    by (simp add: requirement_policy_diags_def rule_applies_def sample_rule_def
        sample_requirement_def report_if_def)
  then have "concat (map (requirement_policy_diags ?p)
      (map (\<lambda>i. sample_requirement (to_string_nat i) MaxLatency 5) [0..<64])) =
      replicate 64 (diag_req kOk (replicate 64 (CHR ''c'')))"
    by (simp add: map_replicate_const comp_def)
  then show ?thesis
    by (simp add: Let_def check_contract_against_policy_def result_of_diags_def has_errors_log_of
        kDefaultDiagnosticLimit_def rule_applies_def sample_rule_def)
qed

text \<open>
  C22: A contract generation that is judged compatible with its predecessor keeps the major
  version and the workload, moves the generation forward, and keeps every required requirement of
  the predecessor: the requirement of its key is still required and carries a numeric band exactly
  when it did; with a band it is no weaker in either bound, without one its value and its preferred
  value are the same. The texts of a requirement with a band, the members and the attributes are not
  compared.
\<close>

theorem compatible_keeps_required:
  assumes "compatible (check_compatibility previous candidate)"
  shows "body_major candidate = body_major previous \<and>
    wl_id (body_workload candidate) = wl_id (body_workload previous) \<and>
    body_generation previous < body_generation candidate \<and>
    (\<forall>r\<in>set (body_requirements previous). req_strength r = Required \<longrightarrow>
       (\<exists>c\<in>set (body_requirements candidate).
          composite_key c = composite_key r \<and> req_strength c = Required \<and>
          req_has_numeric c = req_has_numeric r \<and>
          (if req_has_numeric r
           then \<not> weakened (kind_is_floor (req_kind r)) (req_minimum r) (req_minimum c) \<and>
                \<not> weakened (kind_is_floor (req_kind r)) (req_target r) (req_target c)
           else req_value c = req_value r \<and> req_preferred_value c = req_preferred_value r)))"
proof -
  have none: "compatibility_diags previous candidate = []"
    using assms by (simp add: compatible_iff)
  have "\<exists>c\<in>set (body_requirements candidate). composite_key c = composite_key r \<and>
      req_strength c = Required \<and> req_has_numeric c = req_has_numeric r \<and>
      (if req_has_numeric r
       then \<not> weakened (kind_is_floor (req_kind r)) (req_minimum r) (req_minimum c) \<and>
            \<not> weakened (kind_is_floor (req_kind r)) (req_target r) (req_target c)
       else req_value c = req_value r \<and> req_preferred_value c = req_preferred_value r)"
    if mem: "r \<in> set (body_requirements previous)" and req: "req_strength r = Required" for r
  proof -
    have "previous_diags candidate r = []"
      using none mem by (simp add: compatibility_diags_def)
    then obtain c where c: "first_by composite_key (body_requirements candidate) (composite_key r) = Some c"
      and "candidate_diags r c = []"
      using req by (auto simp: previous_diags_def split: option.splits)
    moreover from c have "c \<in> set (body_requirements candidate)" "composite_key c = composite_key r"
      by (auto simp: first_by_def find_Some_iff)
    moreover have "\<not> req_strength c < Required \<Longrightarrow> req_strength c = Required"
      by (cases "req_strength c") (simp_all add: less_requirement_strength_def)
    ultimately show ?thesis
      using req by (intro bexI [of _ c]) (auto simp: candidate_diags_def split: if_splits)
  qed
  with none show ?thesis by (simp add: compatibility_diags_def not_le)
qed

theorem compatible_keeps_required_witness:
  "\<exists>c\<in>set (body_requirements (sample_body\<lparr>body_generation := 2\<rparr>)).
     composite_key c = (''site'', MinBandwidth, ''k'') \<and> req_strength c = Required"
proof -
  have "compatible (check_compatibility sample_body (sample_body\<lparr>body_generation := 2\<rparr>))"
    by (simp add: compatible_iff compatibility_diags_def previous_diags_def first_by_def
        candidate_diags_def weakened_def sample_body_def two_u64)
  from compatible_keeps_required [OF this] show ?thesis
    by (auto simp: sample_body_def)
qed

text \<open>
  A candidate that drops a preferred requirement is judged fully compatible as long as its
  scope stays, although the interface states that no requirement may be removed.
\<close>

theorem compatibility_allows_removal:
  "compat_verdict (check_compatibility
     (sample_body\<lparr>body_requirements := [sample_requirement ''site'' MinBandwidth 100,
        (sample_requirement ''pod'' MaxLatency 5)\<lparr>req_strength := Preferred, req_minimum := Finite 9\<rparr>]\<rparr>)
     (sample_body\<lparr>body_generation := 2,
        body_requirements := [sample_requirement ''site'' MinBandwidth 100]\<rparr>)) = Compatible"
proof -
  let ?r = "(sample_requirement ''pod'' MaxLatency 5)\<lparr>req_strength := Preferred, req_minimum := Finite 9\<rparr>"
  have r: "composite_key ?r = (''pod'', MaxLatency, ''k'')" "req_scope ?r = ''pod''"
    by (simp_all add: sample_requirement_def composite_key_def)
  show ?thesis
    by (simp add: check_compatibility_def compatibility_diags_def previous_diags_def first_by_def
        candidate_diags_def weakened_def sample_body_def r Let_def report_if_def
        has_errors_log_of sample_scope_def two_u64)
qed

end
