(* ===== verification/Wnc_Evidence.thy ===== *)
theory Wnc_Evidence
  imports Wnc_Policy
begin

text \<open>
  Evidence: the first half of \<^verbatim>\<open>include/wnc/evaluation.hpp\<close> and \<^verbatim>\<open>src/evaluation.cpp\<close>. The
  observations of a candidate, evidence entries and sets, their documents with the decoder and
  every refusal, the derived identity, and the validation that stamps each entry with its
  freshness under the running incarnation.
\<close>

section \<open>The data model\<close>

record candidate =
  min_bandwidth :: "double option"
  max_latency :: "double option"
  max_jitter :: "double option"
  max_loss :: "double option"
  locality :: "string option"
  path_diversity :: "double option"
  failure_domain_separation :: "double option"
  security_class :: "string option"
  traffic_priority :: "double option"
  burst_allowance :: "double option"
  collective_supported :: "bool option"
  checkpoint_isolation :: "bool option"
  disaggregated_affinity :: "string option"
  maintenance_tolerance :: "string option"
  cand_attributes :: "(string \<times> string) list"

record evidence_entry =
  ev_scope :: string
  ev_id :: ident
  ev_publisher :: ident
  ev_generation :: u64
  ev_captured_by :: incarnation
  ev_epoch :: u64
  ev_produced_at_millis :: u64
  ev_candidate :: candidate
  ev_freshness :: evidence_freshness

record evidence_set =
  es_evidence_id :: ident
  es_generation :: u64
  es_epoch :: u64
  es_publisher :: ident
  es_produced_at_millis :: u64
  es_entries :: "evidence_entry list"

definition empty_candidate :: candidate where
  "empty_candidate =
     \<lparr>min_bandwidth = None, max_latency = None, max_jitter = None, max_loss = None,
      locality = None, path_diversity = None, failure_domain_separation = None,
      security_class = None, traffic_priority = None, burst_allowance = None,
      collective_supported = None, checkpoint_isolation = None, disaggregated_affinity = None,
      maintenance_tolerance = None, cand_attributes = []\<rparr>"

definition candidate_attribute :: "candidate \<Rightarrow> string \<Rightarrow> string option" where
  "candidate_attribute c name = map_of (cand_attributes c) name"

definition has_any_dimension :: "candidate \<Rightarrow> bool" where
  "has_any_dimension c =
     (min_bandwidth c \<noteq> None \<or> max_latency c \<noteq> None \<or> max_jitter c \<noteq> None \<or> max_loss c \<noteq> None \<or>
      locality c \<noteq> None \<or> path_diversity c \<noteq> None \<or> failure_domain_separation c \<noteq> None \<or>
      security_class c \<noteq> None \<or> traffic_priority c \<noteq> None \<or> burst_allowance c \<noteq> None \<or>
      collective_supported c \<noteq> None \<or> checkpoint_isolation c \<noteq> None \<or>
      disaggregated_affinity c \<noteq> None \<or> maintenance_tolerance c \<noteq> None \<or> cand_attributes c \<noteq> [])"

definition evidence_find :: "evidence_set \<Rightarrow> string \<Rightarrow> evidence_entry option" where
  "evidence_find es scope = find (\<lambda>e. ev_scope e = scope) (es_entries es)"

definition all_current :: "evidence_set \<Rightarrow> bool" where
  "all_current es = list_all (\<lambda>e. ev_freshness e = Current) (es_entries es)"

section \<open>Evidence documents\<close>

definition add_optional :: "('a \<Rightarrow> json) \<Rightarrow> string \<Rightarrow> 'a option \<Rightarrow> (string \<times> json) list" where
  "add_optional to_json field v = (case v of Some x \<Rightarrow> [(field, to_json x)] | None \<Rightarrow> [])"

text \<open>A candidate with no dimension stays the null value the code starts from.\<close>

definition candidate_to_json :: "candidate \<Rightarrow> json" where
  "candidate_to_json c =
     json_sets
       (add_optional JReal ''min_bandwidth'' (min_bandwidth c) @
        add_optional JReal ''max_latency'' (max_latency c) @
        add_optional JReal ''max_jitter'' (max_jitter c) @
        add_optional JReal ''max_loss'' (max_loss c) @
        add_optional JString ''locality'' (locality c) @
        add_optional JReal ''path_diversity'' (path_diversity c) @
        add_optional JReal ''failure_domain_separation'' (failure_domain_separation c) @
        add_optional JString ''security_class'' (security_class c) @
        add_optional JReal ''traffic_priority'' (traffic_priority c) @
        add_optional JReal ''burst_allowance'' (burst_allowance c) @
        add_optional JBool ''collective_supported'' (collective_supported c) @
        add_optional JBool ''checkpoint_isolation'' (checkpoint_isolation c) @
        add_optional JString ''disaggregated_affinity'' (disaggregated_affinity c) @
        add_optional JString ''maintenance_tolerance'' (maintenance_tolerance c) @
        (if cand_attributes c \<noteq> []
         then [(''attributes'', attributes_to_json (cand_attributes c))] else []))
       JNull"

definition entry_to_json :: "evidence_entry \<Rightarrow> json" where
  "entry_to_json e =
     json_sets
       ([(''scope'', JString (ev_scope e)), (''id'', JString (ev_id e)),
         (''publisher'', JString (ev_publisher e)), (''generation'', json_u64 (ev_generation e))] @
        (if \<not> is_zero_incarnation (ev_captured_by e)
         then [(''captured_by'', JString (incarnation_str (ev_captured_by e)))] else []) @
        [(''epoch'', json_u64 (ev_epoch e)),
         (''produced_at_millis'', json_u64 (ev_produced_at_millis e)),
         (''freshness'', JString (freshness_token (ev_freshness e))),
         (''candidate'', candidate_to_json (ev_candidate e))])
       JNull"

definition evidence_to_json :: "evidence_set \<Rightarrow> json" where
  "evidence_to_json es =
     json_sets
       [(''schema_version'', JInt (uint kSchemaVersion)),
        (''evidence_id'', JString (es_evidence_id es)),
        (''evidence_generation'', json_u64 (es_generation es)),
        (''epoch'', json_u64 (es_epoch es)),
        (''publisher'', JString (es_publisher es)),
        (''produced_at_millis'', json_u64 (es_produced_at_millis es)),
        (''entries'', JArray (map entry_to_json (es_entries es)))]
       JNull"

definition evidence_digest :: "evidence_set \<Rightarrow> digest" where
  "evidence_digest es =
     digest_domain_generation ''wnc/v1/evidence'' (dump (evidence_to_json es)) (es_generation es)"

definition derive_evidence_id :: "digest \<Rightarrow> ident" where
  "derive_evidence_id d = from_digest (sha256_parts [''wnc/v1/evidence-id'', hex_encode d])"

definition kMaxEvidenceEntries :: nat where "kMaxEvidenceEntries = 4096"
definition kMaxEvidenceMillis :: int where "kMaxEvidenceMillis = 1152921504606846976"

subsection \<open>The decoder\<close>

definition read_optional_real :: "(string, json) smap \<Rightarrow> string \<Rightarrow> double option result" where
  "read_optional_real obj field =
     (let accept = (\<lambda>v. if \<not> isfinite v \<or> dbl_lt v (Finite 0) \<or>
                           dbl_lt (Finite (of_nat kMaxNumericParameter)) v
                        then Inl kValueOutOfRange else Inr (Some v))
      in case map_of obj field of
           None \<Rightarrow> Inr None
         | Some (JInt i) \<Rightarrow> accept (double_of_int i)
         | Some (JReal d) \<Rightarrow> accept d
         | Some _ \<Rightarrow> Inl kJsonWrongType)"

definition read_optional_bool :: "(string, json) smap \<Rightarrow> string \<Rightarrow> bool option result" where
  "read_optional_bool obj field =
     (case map_of obj field of
        None \<Rightarrow> Inr None
      | Some (JBool b) \<Rightarrow> Inr (Some b)
      | Some _ \<Rightarrow> Inl kJsonWrongType)"

definition read_optional_string ::
    "(string, json) smap \<Rightarrow> string \<Rightarrow> bool \<Rightarrow> string option result" where
  "read_optional_string obj field allow_empty =
     (case map_of obj field of
        None \<Rightarrow> Inr None
      | Some (JString s) \<Rightarrow>
          if length s > kMaxStringBytes then Inl kJsonStringTooLong
          else if \<not> allow_empty \<and> s = [] then Inl kValueOutOfRange
          else Inr (Some s)
      | Some _ \<Rightarrow> Inl kJsonWrongType)"

fun candidate_attribute_item :: "json \<Rightarrow> (string \<times> string) result" where
  "candidate_attribute_item (JObject obj) =
     (case (map_of obj ''name'', map_of obj ''value'') of
        (Some (JString n), Some (JString v)) \<Rightarrow>
          if length n > kMaxStringBytes \<or> length v > kMaxStringBytes then Inl kJsonStringTooLong
          else Inr (n, v)
      | _ \<Rightarrow> Inl kJsonWrongType)"
| "candidate_attribute_item _ = Inl kJsonWrongType"

fun adjacent_names :: "(string \<times> string) list \<Rightarrow> bool" where
  "adjacent_names (a # b # as) = (fst b = fst a \<or> adjacent_names (b # as))"
| "adjacent_names _ = False"

definition read_candidate_attributes :: "(string, json) smap \<Rightarrow> (string \<times> string) list result" where
  "read_candidate_attributes obj =
     (case map_of obj ''attributes'' of
        None \<Rightarrow> Inr []
      | Some (JArray items) \<Rightarrow>
          if length items > kMaxAttributesPerRequirement then Inl kTooManyAttributes
          else rbind (rmap candidate_attribute_item items) (\<lambda>as.
            let sorted = sort_by attribute_precedes as
            in if adjacent_names sorted then Inl kDuplicateRequirement else Inr sorted)
      | Some _ \<Rightarrow> Inl kJsonWrongType)"

fun decode_candidate :: "json \<Rightarrow> candidate result" where
  "decode_candidate (JObject obj) =
     rbind (read_optional_real obj ''min_bandwidth'') (\<lambda>bandwidth.
     rbind (read_optional_real obj ''max_latency'') (\<lambda>latency.
     rbind (read_optional_real obj ''max_jitter'') (\<lambda>jitter.
     rbind (read_optional_real obj ''max_loss'') (\<lambda>loss.
     rbind (read_optional_real obj ''path_diversity'') (\<lambda>diversity.
     rbind (read_optional_real obj ''failure_domain_separation'') (\<lambda>separation.
     rbind (read_optional_real obj ''traffic_priority'') (\<lambda>priority.
     rbind (read_optional_real obj ''burst_allowance'') (\<lambda>burst.
     rbind (read_optional_string obj ''locality'' False) (\<lambda>loc.
     rbind (read_optional_string obj ''security_class'' False) (\<lambda>security.
     rbind (read_optional_string obj ''disaggregated_affinity'' False) (\<lambda>affinity.
     rbind (read_optional_string obj ''maintenance_tolerance'' False) (\<lambda>maintenance.
     rbind (read_optional_bool obj ''collective_supported'') (\<lambda>collective.
     rbind (read_optional_bool obj ''checkpoint_isolation'') (\<lambda>isolation.
     rbind (read_candidate_attributes obj) (\<lambda>attributes.
     Inr \<lparr>min_bandwidth = bandwidth, max_latency = latency, max_jitter = jitter, max_loss = loss,
          locality = loc, path_diversity = diversity, failure_domain_separation = separation,
          security_class = security, traffic_priority = priority, burst_allowance = burst,
          collective_supported = collective, checkpoint_isolation = isolation,
          disaggregated_affinity = affinity, maintenance_tolerance = maintenance,
          cand_attributes = attributes\<rparr>)))))))))))))))"
| "decode_candidate _ = Inl kJsonNotAnObject"

text \<open>An optional integer between zero and a bound, with the code of its refusal.\<close>

definition read_natural :: "(string, json) smap \<Rightarrow> string \<Rightarrow> int option \<Rightarrow> code \<Rightarrow> u64 result" where
  "read_natural obj field greatest refusal =
     (case map_of obj field of
        None \<Rightarrow> Inr 0
      | Some (JInt i) \<Rightarrow>
          if i < 0 \<or> (case greatest of Some g \<Rightarrow> i > g | None \<Rightarrow> False)
          then Inl refusal else Inr (word_of_int i)
      | Some _ \<Rightarrow> Inl refusal)"

text \<open>An optional string read by a parser, \<^verbatim>\<open>d\<close> when it is absent.\<close>

definition read_parsed :: "(string, json) smap \<Rightarrow> string \<Rightarrow> (string \<Rightarrow> 'a option) \<Rightarrow> 'a \<Rightarrow> 'a result" where
  "read_parsed obj field parse d =
     (case map_of obj field of
        None \<Rightarrow> Inr d
      | Some (JString t) \<Rightarrow> of_option kJsonWrongType (parse t)
      | Some _ \<Rightarrow> Inl kJsonWrongType)"

definition read_entry_scope :: "(string, json) smap \<Rightarrow> string result" where
  "read_entry_scope obj =
     (case map_of obj ''scope'' of
        Some (JString s) \<Rightarrow>
          if s = [] \<or> length s > kMaxStringBytes then Inl kJsonWrongType else Inr s
      | _ \<Rightarrow> Inl kJsonWrongType)"

fun decode_entry :: "json \<Rightarrow> evidence_entry result" where
  "decode_entry (JObject obj) =
     rbind (read_entry_scope obj) (\<lambda>scope.
     rbind (read_natural obj ''generation'' None kJsonWrongType) (\<lambda>generation.
     rbind (read_parsed obj ''captured_by'' incarnation_parse zero_incarnation) (\<lambda>captured.
     rbind (read_natural obj ''epoch'' None kJsonWrongType) (\<lambda>epoch.
     rbind (read_natural obj ''produced_at_millis'' (Some kMaxEvidenceMillis) kValueOutOfRange)
       (\<lambda>produced.
     rbind (read_parsed obj ''publisher'' parse_id zero_id) (\<lambda>publisher.
     rbind (case map_of obj ''candidate'' of
              None \<Rightarrow> Inl kJsonMissingField
            | Some j \<Rightarrow> decode_candidate j) (\<lambda>cand.
     rbind (read_parsed obj ''freshness'' parse_freshness Current) (\<lambda>freshness.
     Inr \<lparr>ev_scope = scope, ev_id = zero_id, ev_publisher = publisher, ev_generation = generation,
          ev_captured_by = captured, ev_epoch = epoch, ev_produced_at_millis = produced,
          ev_candidate = cand, ev_freshness = freshness\<rparr>))))))))"
| "decode_entry _ = Inl kJsonWrongType"

definition read_evidence_generation :: "(string, json) smap \<Rightarrow> u64 result" where
  "read_evidence_generation obj =
     (case map_of obj ''evidence_generation'' of
        Some (JInt i) \<Rightarrow> if i < 1 then Inl kEvidenceGenerationBackwards else Inr (word_of_int i)
      | _ \<Rightarrow> Inl kEvidenceGenerationBackwards)"

definition read_entries :: "(string, json) smap \<Rightarrow> evidence_entry list result" where
  "read_entries obj =
     (case map_of obj ''entries'' of
        Some (JArray items) \<Rightarrow>
          if length items > kMaxEvidenceEntries then Inl kEvidenceTooManyEntries
          else rmap decode_entry items
      | _ \<Rightarrow> Inl kJsonMissingField)"

definition seal_evidence :: "evidence_set \<Rightarrow> evidence_set" where
  "seal_evidence es = es\<lparr>es_evidence_id := derive_evidence_id (evidence_digest es)\<rparr>"

text \<open>A declared identity of sixty four zeros is the same as none.\<close>

definition declared_id_ok :: "json option \<Rightarrow> ident \<Rightarrow> unit result" where
  "declared_id_ok stated i =
     (case stated of
        None \<Rightarrow> Inr ()
      | Some (JString t) \<Rightarrow>
          if t = replicate kSha256HexChars (CHR ''0'') then Inr ()
          else rcheck (parse_id t = Some i) kContractDigestMismatch
      | Some _ \<Rightarrow> Inl kJsonWrongType)"

fun evidence_from_json :: "json \<Rightarrow> evidence_set result" where
  "evidence_from_json (JObject obj) =
     rbind (read_evidence_generation obj) (\<lambda>generation.
     rbind (read_natural obj ''epoch'' None kJsonWrongType) (\<lambda>epoch.
     rbind (read_natural obj ''produced_at_millis'' (Some kMaxEvidenceMillis) kValueOutOfRange)
       (\<lambda>produced.
     rbind (read_parsed obj ''publisher'' parse_id zero_id) (\<lambda>publisher.
     rbind (read_entries obj) (\<lambda>evidence_entries.
     let es = seal_evidence
           \<lparr>es_evidence_id = zero_id, es_generation = generation, es_epoch = epoch,
            es_publisher = publisher, es_produced_at_millis = produced,
            es_entries = evidence_entries\<rparr>
     in rbind (declared_id_ok (map_of obj ''evidence_id'') (es_evidence_id es)) (\<lambda>_. Inr es))))))"
| "evidence_from_json _ = Inl kJsonNotAnObject"

definition evidence_from_text :: "string \<Rightarrow> evidence_set result option" where
  "evidence_from_text t =
     (case json_decode default_decode_options t of
        None \<Rightarrow> None
      | Some (Inl (c, offset)) \<Rightarrow> Some (Inl c)
      | Some (Inr j) \<Rightarrow> Some (evidence_from_json j))"

section \<open>Validation\<close>

record evidence_validation_result =
  evr_ok :: bool
  evr_stale_scopes :: "string list"
  evr_diagnostics :: diagnostic_log

definition entry_freshness ::
    "incarnation \<Rightarrow> u64 \<Rightarrow> u64 \<Rightarrow> u64 \<Rightarrow> evidence_entry \<Rightarrow> evidence_freshness" where
  "entry_freshness current epoch now_millis max_age_millis e =
     (if ev_captured_by e \<noteq> current \<or> ev_epoch e \<noteq> epoch then RevalidationRequired
      else if max_age_millis > 0 \<and> now_millis > ev_produced_at_millis e \<and>
              now_millis - ev_produced_at_millis e > max_age_millis then Expired
      else Current)"

fun evidence_diags :: "scope list \<Rightarrow> string list \<Rightarrow> evidence_entry list \<Rightarrow> diagnostic list" where
  "evidence_diags scopes seen [] = []"
| "evidence_diags scopes seen (e # es) =
     report_if (ev_scope e \<notin> scope_name ` set scopes) (diag kEvidenceUnknownScope) @
     report_if (ev_scope e \<in> set seen) (diag kEvidenceDuplicate) @
     report_if (\<not> has_any_dimension (ev_candidate e)) (diag kEvaluationMissingDimension) @
     evidence_diags scopes (ev_scope e # seen) es"

definition validate_evidence ::
    "evidence_set \<Rightarrow> contract_body \<Rightarrow> incarnation \<Rightarrow> u64 \<Rightarrow> u64 \<Rightarrow>
     evidence_validation_result \<times> evidence_set" where
  "validate_evidence es b current now_millis max_age_millis =
     (let stamp = (\<lambda>e. e\<lparr>ev_freshness :=
            entry_freshness current (es_epoch es) now_millis max_age_millis e\<rparr>);
          stamped = map stamp (es_entries es);
          dl = log_of (evidence_diags (body_scopes b) [] (es_entries es))
      in (\<lparr>evr_ok = (\<not> has_errors dl),
           evr_stale_scopes =
             sort_by (<) (map ev_scope (filter (\<lambda>e. ev_freshness e \<noteq> Current) stamped)),
           evr_diagnostics = dl\<rparr>,
          es\<lparr>es_entries := stamped\<rparr>))"

section \<open>Reading back evidence\<close>

lemma map_of_rev_add_optional [simp]:
  "map_of (rev (add_optional t g v)) f = (if f = g then map_option t v else None)"
  by (cases v) (auto simp: add_optional_def)

lemma candidate_members:
  "map_of (object_of (candidate_to_json c)) ''min_bandwidth'' = map_option JReal (min_bandwidth c)"
  "map_of (object_of (candidate_to_json c)) ''max_latency'' = map_option JReal (max_latency c)"
  "map_of (object_of (candidate_to_json c)) ''max_jitter'' = map_option JReal (max_jitter c)"
  "map_of (object_of (candidate_to_json c)) ''max_loss'' = map_option JReal (max_loss c)"
  "map_of (object_of (candidate_to_json c)) ''locality'' = map_option JString (locality c)"
  "map_of (object_of (candidate_to_json c)) ''path_diversity'' = map_option JReal (path_diversity c)"
  "map_of (object_of (candidate_to_json c)) ''failure_domain_separation'' =
     map_option JReal (failure_domain_separation c)"
  "map_of (object_of (candidate_to_json c)) ''security_class'' = map_option JString (security_class c)"
  "map_of (object_of (candidate_to_json c)) ''traffic_priority'' = map_option JReal (traffic_priority c)"
  "map_of (object_of (candidate_to_json c)) ''burst_allowance'' = map_option JReal (burst_allowance c)"
  "map_of (object_of (candidate_to_json c)) ''collective_supported'' =
     map_option JBool (collective_supported c)"
  "map_of (object_of (candidate_to_json c)) ''checkpoint_isolation'' =
     map_option JBool (checkpoint_isolation c)"
  "map_of (object_of (candidate_to_json c)) ''disaggregated_affinity'' =
     map_option JString (disaggregated_affinity c)"
  "map_of (object_of (candidate_to_json c)) ''maintenance_tolerance'' =
     map_option JString (maintenance_tolerance c)"
  "map_of (object_of (candidate_to_json c)) ''attributes'' =
     (if cand_attributes c \<noteq> [] then Some (attributes_to_json (cand_attributes c)) else None)"
  unfolding candidate_to_json_def map_of_json_sets
  by (simp_all add: map_add_def split: option.split)

lemma read_optional_real_ok:
  "map_of obj f = map_option JReal v \<Longrightarrow> pred_option bound_ok v \<Longrightarrow> read_optional_real obj f = Inr v"
proof (cases v)
  case (Some x)
  assume "map_of obj f = map_option JReal v" "pred_option bound_ok v"
  with Some show ?thesis
    by (cases x) (auto simp: read_optional_real_def bound_ok_def kMaxNumericParameter_def)
qed (simp add: read_optional_real_def)

lemma read_optional_bool_ok: "map_of obj f = map_option JBool v \<Longrightarrow> read_optional_bool obj f = Inr v"
  by (cases v) (auto simp: read_optional_bool_def)

abbreviation text_ok :: "string \<Rightarrow> bool" where
  "text_ok s \<equiv> s \<noteq> [] \<and> length s \<le> 4096"

lemma read_optional_string_ok:
  "map_of obj f = map_option JString v \<Longrightarrow> pred_option text_ok v \<Longrightarrow>
   read_optional_string obj f False = Inr v"
  by (cases v) (auto simp: read_optional_string_def kMaxStringBytes_def)

definition encodable_candidate :: "candidate \<Rightarrow> bool" where
  "encodable_candidate c =
     (has_any_dimension c \<and>
      pred_option bound_ok (min_bandwidth c) \<and> pred_option bound_ok (max_latency c) \<and>
      pred_option bound_ok (max_jitter c) \<and> pred_option bound_ok (max_loss c) \<and>
      pred_option bound_ok (path_diversity c) \<and> pred_option bound_ok (failure_domain_separation c) \<and>
      pred_option bound_ok (traffic_priority c) \<and> pred_option bound_ok (burst_allowance c) \<and>
      pred_option text_ok (locality c) \<and> pred_option text_ok (security_class c) \<and>
      pred_option text_ok (disaggregated_affinity c) \<and> pred_option text_ok (maintenance_tolerance c) \<and>
      length (cand_attributes c) \<le> 32 \<and> sorted_wrt (<) (map fst (cand_attributes c)) \<and>
      list_all (\<lambda>(n, v). length n \<le> 4096 \<and> length v \<le> 4096) (cand_attributes c))"

lemma adjacent_names_sorted: "sorted_wrt (<) (map fst as) \<Longrightarrow> \<not> adjacent_names as"
  by (induction as rule: adjacent_names.induct) auto

lemma read_candidate_attributes_ok:
  assumes "map_of obj ''attributes'' = (if as \<noteq> [] then Some (attributes_to_json as) else None)"
    "length as \<le> 32" "sorted_wrt (<) (map fst as)"
    "list_all (\<lambda>(n, v). length n \<le> 4096 \<and> length v \<le> 4096) as"
  shows "read_candidate_attributes obj = Inr as"
proof -
  have "candidate_attribute_item (json_sets [(''name'', JString n), (''value'', JString v)] JNull) = Inr (n, v)"
    if "length n \<le> 4096" "length v \<le> 4096" for n v
    using that by (simp add: json_set_def kMaxStringBytes_def del: map_put.simps)
  with assms(4) have items: "rmap candidate_attribute_item
      (map (\<lambda>(n, v). json_sets [(''name'', JString n), (''value'', JString v)] JNull) as) = Inr as"
    by (intro rmap_map) (auto simp: list_all_iff)
  have "attribute_order.in_order as"
    using assms(3) by (auto simp: attribute_precedes_def sorted_wrt_map elim!: sorted_wrt_mono_rel [rotated])
  then have "sort_by attribute_precedes as = as" by (rule attribute_order.sort_by_idle)
  with items assms(1,2) adjacent_names_sorted [OF assms(3)] show ?thesis
    by (auto simp: read_candidate_attributes_def attributes_to_json_def kMaxAttributesPerRequirement_def
        simp del: json_sets_Cons)
qed

lemma candidate_object:
  assumes "has_any_dimension c"
  shows "candidate_to_json c = JObject (object_of (candidate_to_json c))"
  unfolding candidate_to_json_def
  by (rule json_sets_object)
    (use assms in \<open>auto simp: has_any_dimension_def add_optional_def split: option.splits\<close>)

lemma decode_candidate_to_json:
  assumes "encodable_candidate c"
  shows "decode_candidate (candidate_to_json c) = Inr c"
proof -
  let ?obj = "object_of (candidate_to_json c)"
  note enc = assms [unfolded encodable_candidate_def]
  note reals = candidate_members(1,2,3,4,6,7,9,10) [THEN read_optional_real_ok]
  note strings = candidate_members(5,8,13,14) [THEN read_optional_string_ok]
  note bools = candidate_members(11,12) [THEN read_optional_bool_ok]
  have "decode_candidate (JObject ?obj) = Inr c"
    using enc by (simp add: reals strings bools read_candidate_attributes_ok [OF candidate_members(15)])
  moreover have "candidate_to_json c = JObject ?obj" using enc by (intro candidate_object) simp
  ultimately show ?thesis by metis
qed

lemma parse_freshness_token [simp]: "parse_freshness (freshness_token f) = Some f"
  by (cases f) (simp_all add: parse_freshness_def freshness_token_def value_of_def token_of_def
      kFreshnessTable_def)

definition millis_ok :: "u64 \<Rightarrow> bool" where
  "millis_ok w = (w \<le> 1152921504606846976)"

definition encodable_entry :: "evidence_entry \<Rightarrow> bool" where
  "encodable_entry e =
     (text_ok (ev_scope e) \<and> ev_id e = zero_id \<and> wf_id (ev_publisher e) \<and>
      fits_int64 (ev_generation e) \<and> length (ev_captured_by e) = kIncarnationBytes \<and>
      fits_int64 (ev_epoch e) \<and> millis_ok (ev_produced_at_millis e) \<and>
      encodable_candidate (ev_candidate e))"

lemma read_natural_u64:
  assumes "map_of obj f = Some (json_u64 w)" "fits_int64 w"
  shows "read_natural obj f None c = Inr w"
  using assms by (simp add: read_natural_def json_u64_def fits_int64_sint)

lemma millis_fits: "millis_ok w \<Longrightarrow> fits_int64 w \<and> uint w \<le> kMaxEvidenceMillis"
  by (auto simp: millis_ok_def fits_int64_def kMaxEvidenceMillis_def word_le_def word_less_def)

lemma read_natural_millis:
  assumes "map_of obj f = Some (json_u64 w)" "millis_ok w"
  shows "read_natural obj f (Some kMaxEvidenceMillis) c = Inr w"
  using assms millis_fits [of w] by (simp add: read_natural_def json_u64_def fits_int64_sint)

lemma zero_incarnation_unique:
  "is_zero_incarnation i \<Longrightarrow> length i = kIncarnationBytes \<Longrightarrow> i = zero_incarnation"
  by (auto simp: is_zero_incarnation_def zero_incarnation_def list_all_iff intro: replicate_eqI)

lemma entry_members:
  "map_of (object_of (entry_to_json e)) ''scope'' = Some (JString (ev_scope e))"
  "map_of (object_of (entry_to_json e)) ''publisher'' = Some (JString (ev_publisher e))"
  "map_of (object_of (entry_to_json e)) ''generation'' = Some (json_u64 (ev_generation e))"
  "map_of (object_of (entry_to_json e)) ''captured_by'' =
     (if is_zero_incarnation (ev_captured_by e) then None
      else Some (JString (incarnation_str (ev_captured_by e))))"
  "map_of (object_of (entry_to_json e)) ''epoch'' = Some (json_u64 (ev_epoch e))"
  "map_of (object_of (entry_to_json e)) ''produced_at_millis'' =
     Some (json_u64 (ev_produced_at_millis e))"
  "map_of (object_of (entry_to_json e)) ''freshness'' =
     Some (JString (freshness_token (ev_freshness e)))"
  "map_of (object_of (entry_to_json e)) ''candidate'' = Some (candidate_to_json (ev_candidate e))"
  by (simp_all add: entry_to_json_def map_of_json_sets map_add_def del: json_sets_Cons)

lemma decode_entry_to_json:
  assumes "encodable_entry e"
  shows "decode_entry (entry_to_json e) = Inr e"
proof -
  let ?obj = "object_of (entry_to_json e)"
  note enc = assms [unfolded encodable_entry_def]
  have j: "entry_to_json e = JObject ?obj"
    unfolding entry_to_json_def by (rule json_sets_object) simp
  have captured: "read_parsed ?obj ''captured_by'' incarnation_parse zero_incarnation = Inr (ev_captured_by e)"
    using enc zero_incarnation_unique [of "ev_captured_by e"]
    by (auto simp: read_parsed_def entry_members incarnation_parse_str)
  have parsed: "read_parsed ?obj ''publisher'' parse_id zero_id = Inr (ev_publisher e)"
    "read_parsed ?obj ''freshness'' parse_freshness Current = Inr (ev_freshness e)"
    using enc by (simp_all add: read_parsed_def entry_members parse_id_of_wf)
  have "decode_entry (JObject ?obj) = Inr e"
    using enc
    by (simp add: read_entry_scope_def entry_members(1) entry_members(8) captured kMaxStringBytes_def
        read_natural_u64 [OF entry_members(3)] read_natural_u64 [OF entry_members(5)]
        read_natural_millis [OF entry_members(6)] parsed decode_candidate_to_json)
  then show ?thesis by (simp only: j [symmetric])
qed

definition encodable_evidence :: "evidence_set \<Rightarrow> bool" where
  "encodable_evidence es =
     (es_evidence_id es = zero_id \<and> es_generation es \<noteq> 0 \<and> fits_int64 (es_generation es) \<and>
      fits_int64 (es_epoch es) \<and> wf_id (es_publisher es) \<and> millis_ok (es_produced_at_millis es) \<and>
      length (es_entries es) \<le> 4096 \<and> list_all encodable_entry (es_entries es))"

lemma evidence_members:
  "map_of (object_of (evidence_to_json es)) ''evidence_id'' = Some (JString (es_evidence_id es))"
  "map_of (object_of (evidence_to_json es)) ''evidence_generation'' = Some (json_u64 (es_generation es))"
  "map_of (object_of (evidence_to_json es)) ''epoch'' = Some (json_u64 (es_epoch es))"
  "map_of (object_of (evidence_to_json es)) ''publisher'' = Some (JString (es_publisher es))"
  "map_of (object_of (evidence_to_json es)) ''produced_at_millis'' =
     Some (json_u64 (es_produced_at_millis es))"
  "map_of (object_of (evidence_to_json es)) ''entries'' = Some (JArray (map entry_to_json (es_entries es)))"
  by (simp_all add: evidence_to_json_def map_of_json_sets del: json_sets_Cons)

lemma seal_evidence_fields [simp]:
  "es_generation (seal_evidence es) = es_generation es" "es_epoch (seal_evidence es) = es_epoch es"
  "es_publisher (seal_evidence es) = es_publisher es"
  "es_produced_at_millis (seal_evidence es) = es_produced_at_millis es"
  "es_entries (seal_evidence es) = es_entries es"
  by (simp_all add: seal_evidence_def)

lemma wf_id_seal_evidence: "wf_id (es_evidence_id (seal_evidence es))"
  unfolding seal_evidence_def derive_evidence_id_def
  by simp (rule from_digest_wf, simp add: sha256_parts_def kSha256Bytes_def)

lemma uint_positive: "(w :: u64) \<noteq> 0 \<Longrightarrow> 1 \<le> uint w"
  by (metis int_one_le_iff_zero_less order_le_less uint_0_iff unsigned_greater_eq)

lemma evidence_from_json_seal:
  assumes "encodable_evidence es"
  shows "evidence_from_json (evidence_to_json (seal_evidence es)) = Inr (seal_evidence es)"
proof -
  let ?obj = "object_of (evidence_to_json (seal_evidence es))"
  note enc = assms [unfolded encodable_evidence_def]
  have j: "evidence_to_json (seal_evidence es) = JObject ?obj"
    unfolding evidence_to_json_def by (rule json_sets_object) simp
  have generation: "read_evidence_generation ?obj = Inr (es_generation es)"
    using enc uint_positive [of "es_generation es"]
    by (simp add: read_evidence_generation_def evidence_members json_u64_def fits_int64_sint)
  have "rmap decode_entry (map entry_to_json (es_entries es)) = Inr (es_entries es)"
    using enc by (intro rmap_map) (simp add: list_all_iff decode_entry_to_json)
  then have items: "read_entries ?obj = Inr (es_entries es)"
    using enc by (simp add: read_entries_def evidence_members kMaxEvidenceEntries_def)
  have stated: "declared_id_ok (map_of ?obj ''evidence_id'') (es_evidence_id (seal_evidence es)) = Inr ()"
    by (simp add: declared_id_ok_def evidence_members parse_id_of_wf wf_id_seal_evidence)
  have publisher: "read_parsed ?obj ''publisher'' parse_id zero_id = Inr (es_publisher es)"
    using enc by (simp add: read_parsed_def evidence_members parse_id_of_wf)
  have same: "\<lparr>es_evidence_id = zero_id, es_generation = es_generation es, es_epoch = es_epoch es,
      es_publisher = es_publisher es, es_produced_at_millis = es_produced_at_millis es,
      es_entries = es_entries es\<rparr> = es"
    using enc by simp
  from enc have "evidence_from_json (JObject ?obj) = Inr (seal_evidence es)"
    by (simp add: generation items Let_def read_natural_u64 [OF evidence_members(3)]
        read_natural_millis [OF evidence_members(5)] publisher same stated)
  then show ?thesis by (simp only: j [symmetric])
qed

section \<open>What validation decides\<close>

lemma evidence_diags_errors: "d \<in> set (evidence_diags scopes seen es) \<Longrightarrow> diag_code d \<noteq> kOk"
  by (induction scopes seen es rule: evidence_diags.induct) (auto split: if_splits)

lemma evidence_diags_Nil:
  "evidence_diags scopes seen es = [] \<longleftrightarrow>
     set (map ev_scope es) \<subseteq> scope_name ` set scopes \<and> distinct (map ev_scope es) \<and>
     set (map ev_scope es) \<inter> set seen = {} \<and> list_all (\<lambda>e. has_any_dimension (ev_candidate e)) es"
  by (induction scopes seen es rule: evidence_diags.induct) auto

text \<open>The age of an entry is computed only when it is not negative, so it does not wrap.\<close>

lemma entry_freshness_Current:
  "entry_freshness current epoch now max_age e = Current \<longleftrightarrow>
     ev_captured_by e = current \<and> ev_epoch e = epoch \<and>
     (max_age = 0 \<or> unat now \<le> unat (ev_produced_at_millis e) + unat max_age)"
proof -
  have "now - p > max_age \<longleftrightarrow> unat now > unat p + unat max_age" if "now > p" for p :: u64
  proof -
    have "unat (now - p) = unat now - unat p" using that by (simp add: unat_sub less_imp_le)
    then show ?thesis using that by (auto simp: word_less_nat_alt)
  qed
  moreover have "0 < max_age \<longleftrightarrow> max_age \<noteq> 0" by (simp add: word_neq_0_conv)
  moreover have "\<not> now > p \<Longrightarrow> unat now \<le> unat p + k" for p :: u64 and k
    by (simp add: word_less_nat_alt)
  ultimately show ?thesis
    by (cases "now > ev_produced_at_millis e") (auto simp: entry_freshness_def not_le not_less)
qed

section \<open>Properties of evidence\<close>

definition sample_incarnation :: incarnation where
  "sample_incarnation = replicate 16 7"

definition sample_candidate :: candidate where
  "sample_candidate =
     empty_candidate\<lparr>min_bandwidth := Some (Finite 150), max_latency := Some (Finite 4)\<rparr>"

definition sample_entry :: "string \<Rightarrow> evidence_entry" where
  "sample_entry s =
     \<lparr>ev_scope = s, ev_id = zero_id, ev_publisher = zero_id, ev_generation = 1,
      ev_captured_by = sample_incarnation, ev_epoch = 3, ev_produced_at_millis = 1000,
      ev_candidate = sample_candidate, ev_freshness = Current\<rparr>"

definition sample_evidence :: evidence_set where
  "sample_evidence =
     \<lparr>es_evidence_id = zero_id, es_generation = 1, es_epoch = 3, es_publisher = zero_id,
      es_produced_at_millis = 1000, es_entries = [sample_entry ''site'', sample_entry ''pod'']\<rparr>"

text \<open>
  Sealed evidence written as a document and decoded again is the same evidence, identity and
  freshness included, for every evidence set within the decoder's bounds whose entries carry a
  dimension and no entry identity.
\<close>

theorem evidence_roundtrip:
  assumes "encodable_evidence es"
  shows "evidence_from_json (evidence_to_json (seal_evidence es)) = Inr (seal_evidence es)"
  using assms by (rule evidence_from_json_seal)

theorem evidence_roundtrip_witness:
  "evidence_from_json (evidence_to_json (seal_evidence sample_evidence)) =
     Inr (seal_evidence sample_evidence)"
  by (rule evidence_roundtrip)
    (simp add: encodable_evidence_def sample_evidence_def sample_entry_def encodable_entry_def
      sample_candidate_def empty_candidate_def encodable_candidate_def has_any_dimension_def
      fits_int64_def millis_ok_def zero_id_wf bound_ok_def sample_incarnation_def
      kIncarnationBytes_def)

text \<open>
  Validation of evidence accepts exactly the sets whose entries name declared scopes, each
  once, and carry a dimension. It stamps an entry as current exactly when the running incarnation
  captured it in the epoch of the set and its age, in unbounded arithmetic, is within the maximum
  (a maximum of zero means none); the stale scopes are empty exactly when every stamped entry is
  current, and validating twice is the same as once.
\<close>

theorem validate_evidence_exact:
  "case validate_evidence es b current now max_age of (r, es') \<Rightarrow>
     (evr_ok r \<longleftrightarrow>
        set (map ev_scope (es_entries es)) \<subseteq> scope_name ` set (body_scopes b) \<and>
        distinct (map ev_scope (es_entries es)) \<and>
        list_all (\<lambda>e. has_any_dimension (ev_candidate e)) (es_entries es)) \<and>
     list_all (\<lambda>e. (ev_freshness e = Current) =
         (ev_captured_by e = current \<and> ev_epoch e = es_epoch es \<and>
          (max_age = 0 \<or> unat now \<le> unat (ev_produced_at_millis e) + unat max_age)))
       (es_entries es') \<and>
     (evr_stale_scopes r = [] \<longleftrightarrow> all_current es') \<and>
     validate_evidence es' b current now max_age = (r, es')"
proof -
  let ?stamp = "\<lambda>e. e\<lparr>ev_freshness := entry_freshness current (es_epoch es) now max_age e\<rparr>"
  have diags: "evidence_diags ss seen (map ?stamp xs) = evidence_diags ss seen xs" for ss seen xs
    by (induction ss seen xs rule: evidence_diags.induct) auto
  have again: "entry_freshness current epoch now max_age (e\<lparr>ev_freshness := f\<rparr>) =
      entry_freshness current epoch now max_age e" for e epoch f
    by (simp add: entry_freshness_def)
  have "\<not> has_errors (log_of (evidence_diags (body_scopes b) [] (es_entries es))) \<longleftrightarrow>
      evidence_diags (body_scopes b) [] (es_entries es) = []"
    using has_errors_log_of_errors [of "evidence_diags (body_scopes b) [] (es_entries es)"]
      evidence_diags_errors by blast
  then show ?thesis
    by (auto simp: validate_evidence_def Let_def evidence_diags_Nil list_all_iff all_current_def
        entry_freshness_Current diags again comp_def filter_empty_conv)
qed

end
