(* ===== verification/Wnc_Evaluation.thy ===== *)
theory Wnc_Evaluation
  imports Wnc_Evidence
begin

text \<open>
  Evaluation of a contract against evidence: the second half of \<^verbatim>\<open>src/evaluation.cpp\<close>. The
  decision for one requirement with every branch and its code, the aggregate, and the evaluation
  of a whole contract with its counters. The theory states the decision as a table of what is
  known and what is met, shows that nothing absent is ever read as satisfied, and relates the
  verdicts to composition.
\<close>

section \<open>Deciding one requirement\<close>

record requirement_decision =
  rd_satisfaction :: satisfaction
  rd_reason_code :: code
  rd_observed :: "double option"

definition decided :: "satisfaction \<Rightarrow> code \<Rightarrow> requirement_decision" where
  "decided s c = \<lparr>rd_satisfaction = s, rd_reason_code = c, rd_observed = None\<rparr>"

definition ceiling :: "double option \<Rightarrow> requirement \<Rightarrow> requirement_decision" where
  "ceiling observed r =
     (case observed of
        None \<Rightarrow> decided Unknown kEvaluationMissingDimension
      | Some x \<Rightarrow>
          (decided
             (if dbl_le x (req_target r) then Satisfied
              else if dbl_le x (req_minimum r)
                then (if req_strength r = Preferred then Satisfied else Unsatisfied)
              else Unsatisfied) kOk)\<lparr>rd_observed := Some x\<rparr>)"

definition floor_value :: "double option \<Rightarrow> requirement \<Rightarrow> requirement_decision" where
  "floor_value observed r =
     (case observed of
        None \<Rightarrow> decided Unknown kEvaluationMissingDimension
      | Some x \<Rightarrow>
          (decided
             (if dbl_le (req_target r) x then Satisfied
              else if dbl_le (req_minimum r) x
                then (if req_strength r = Preferred then Satisfied else Unsatisfied)
              else Unsatisfied) kOk)\<lparr>rd_observed := Some x\<rparr>)"

text \<open>\<^verbatim>\<open>std::string::find\<close> of a text in another.\<close>

fun contains_text :: "string \<Rightarrow> string \<Rightarrow> bool" where
  "contains_text s w =
     (take (length w) s = w \<or> (case s of [] \<Rightarrow> False | _ # t \<Rightarrow> contains_text t w))"

declare contains_text.simps [simp del]

definition textual :: "string option \<Rightarrow> requirement \<Rightarrow> bool \<Rightarrow> requirement_decision" where
  "textual observed r exact =
     (case observed of
        None \<Rightarrow> decided Unknown kEvaluationMissingDimension
      | Some s \<Rightarrow>
          if s = [] then decided Unknown kEvaluationMissingDimension
          else
            (let matches = (\<lambda>wanted. if exact then s = wanted else contains_text s wanted) in
             if matches (req_value r) then decided Satisfied kOk
             else if req_strength r \<noteq> Required \<and> req_preferred_value r \<noteq> [] \<and>
                     matches (req_preferred_value r) then decided Satisfied kOk
             else decided Unsatisfied kOk))"

definition decide_isolation :: "bool option \<Rightarrow> requirement \<Rightarrow> requirement_decision" where
  "decide_isolation observed r =
     (case observed of
        None \<Rightarrow> decided Unknown kEvaluationMissingDimension
      | Some isolated \<Rightarrow>
          (let wanted = (req_value r \<noteq> ''none'' \<and> req_value r \<noteq> []);
               satisfied = (if wanted then isolated else \<not> isolated)
           in decided (if satisfied then Satisfied else Unsatisfied) kOk))"

text \<open>The loop over the members: how many are present, and whether one is not mentioned.\<close>

fun count_members :: "candidate \<Rightarrow> ident list \<Rightarrow> nat \<Rightarrow> bool \<Rightarrow> nat \<times> bool" where
  "count_members c [] matched missing = (matched, missing)"
| "count_members c (m # ms) matched missing =
     (case candidate_attribute c (''member.'' @ m) of
        None \<Rightarrow> count_members c ms matched True
      | Some present \<Rightarrow>
          count_members c ms (if present = ''present'' then Suc matched else matched) missing)"

definition decide_collective :: "candidate \<Rightarrow> requirement \<Rightarrow> requirement_decision" where
  "decide_collective c r =
     (case collective_supported c of
        None \<Rightarrow> decided Unknown kEvaluationMissingDimension
      | Some supported \<Rightarrow>
          if req_value r = ''unsupported''
            then decided (if supported then Unsatisfied else Satisfied) kOk
          else if \<not> supported then decided Unsatisfied kOk
          else if req_members r = [] then decided Satisfied kOk
          else
            (let (matched, missing) = count_members c (req_members r) 0 False in
             if matched = length (req_members r) then decided Satisfied kOk
             else if missing then decided Unknown kEvaluationMissingDimension
             else decided Unsatisfied kOk))"

definition decide_attribute :: "candidate \<Rightarrow> requirement \<Rightarrow> requirement_decision" where
  "decide_attribute c r =
     (case candidate_attribute c (req_key r) of
        None \<Rightarrow> decided Unknown kEvaluationMissingDimension
      | Some v \<Rightarrow> decided (if v = req_value r then Satisfied else Unsatisfied) kOk)"

fun decide_kind :: "requirement_kind \<Rightarrow> candidate \<Rightarrow> requirement \<Rightarrow> requirement_decision" where
  "decide_kind MinBandwidth c r = floor_value (min_bandwidth c) r"
| "decide_kind MaxLatency c r = ceiling (max_latency c) r"
| "decide_kind MaxJitter c r = ceiling (max_jitter c) r"
| "decide_kind MaxLoss c r = ceiling (max_loss c) r"
| "decide_kind PathDiversity c r = floor_value (path_diversity c) r"
| "decide_kind FailureDomainSeparation c r = floor_value (failure_domain_separation c) r"
| "decide_kind TrafficPriority c r = floor_value (traffic_priority c) r"
| "decide_kind BurstAllowance c r = floor_value (burst_allowance c) r"
| "decide_kind Locality c r = textual (locality c) r True"
| "decide_kind SecurityClass c r = textual (security_class c) r True"
| "decide_kind DisaggregatedAffinity c r = textual (disaggregated_affinity c) r True"
| "decide_kind MaintenanceTolerance c r = textual (maintenance_tolerance c) r True"
| "decide_kind CheckpointIsolation c r = decide_isolation (checkpoint_isolation c) r"
| "decide_kind Collective c r = decide_collective c r"
| "decide_kind Attribute c r = decide_attribute c r"

text \<open>The two last arguments of \<^verbatim>\<open>decide_requirement\<close>, the time and the maximum age, are not used.\<close>

definition decide_requirement ::
    "requirement \<Rightarrow> evidence_entry option \<Rightarrow> incarnation \<Rightarrow> u64 \<Rightarrow> u64 \<Rightarrow> requirement_decision" where
  "decide_requirement r entry current now_millis max_age_millis =
     (if req_strength r = Informational then decided NotApplicable kOk
      else case entry of
        None \<Rightarrow> decided Unknown kEvaluationNoEvidence
      | Some e \<Rightarrow>
          if ev_captured_by e \<noteq> current then decided Unknown kRevalidationRequired
          else if ev_freshness e = RevalidationRequired then decided Unknown kRevalidationRequired
          else if ev_freshness e = Expired then decided Unknown kEvidenceExpired
          else if ev_freshness e = Stale then decided Unknown kEvidenceStale
          else decide_kind (req_kind r) (ev_candidate e) r)"

section \<open>Evaluating a contract\<close>

record requirement_evaluation =
  re_requirement :: ident
  re_scope :: string
  re_kind :: requirement_kind
  re_strength :: requirement_strength
  re_satisfaction :: satisfaction
  re_reason_code :: code
  re_evidence :: ident
  re_evidence_generation :: u64
  re_freshness :: evidence_freshness
  re_observed :: "double option"

record evaluation_summary =
  required_total :: nat
  required_satisfied :: nat
  required_unsatisfied :: nat
  required_unknown :: nat
  preferred_satisfied :: nat
  preferred_unsatisfied :: nat
  preferred_unknown :: nat
  informational :: nat
  not_applicable :: nat

record contract_evaluation =
  ce_workload :: ident
  ce_contract :: ident
  ce_contract_generation :: u64
  ce_contract_digest :: digest
  ce_policy_generation :: u64
  ce_evidence_generation :: u64
  ce_evaluated_by :: incarnation
  ce_epoch :: u64
  ce_evaluated_at_millis :: u64
  ce_aggregate :: satisfaction
  ce_summary :: evaluation_summary
  ce_requirements :: "requirement_evaluation list"

definition evaluation_find ::
    "contract_evaluation \<Rightarrow> string \<Rightarrow> requirement_kind \<Rightarrow> requirement_evaluation option" where
  "evaluation_find ce scope kind =
     find (\<lambda>e. re_scope e = scope \<and> re_kind e = kind) (ce_requirements ce)"

fun aggregate_loop :: "requirement_evaluation list \<Rightarrow> bool \<Rightarrow> bool \<Rightarrow> satisfaction" where
  "aggregate_loop [] any_unknown any_required =
     (if any_unknown then Unknown else if \<not> any_required then NotApplicable else Satisfied)"
| "aggregate_loop (e # es) any_unknown any_required =
     (if re_strength e \<noteq> Required then aggregate_loop es any_unknown any_required
      else if re_satisfaction e = Unsatisfied then Unsatisfied
      else aggregate_loop es (any_unknown \<or> re_satisfaction e = Unknown) True)"

definition aggregate_satisfaction :: "requirement_evaluation list \<Rightarrow> satisfaction" where
  "aggregate_satisfaction es = aggregate_loop es False False"

definition evaluate_requirement ::
    "evidence_set \<Rightarrow> incarnation \<Rightarrow> u64 \<Rightarrow> u64 \<Rightarrow> requirement \<Rightarrow> requirement_evaluation" where
  "evaluate_requirement es current now_millis max_age_millis r =
     (let entry = evidence_find es (req_scope r);
          d = decide_requirement r entry current now_millis max_age_millis
      in \<lparr>re_requirement = req_id r, re_scope = req_scope r, re_kind = req_kind r,
          re_strength = req_strength r, re_satisfaction = rd_satisfaction d,
          re_reason_code = rd_reason_code d,
          re_evidence = (case entry of Some e \<Rightarrow> ev_id e | None \<Rightarrow> zero_id),
          re_evidence_generation = (case entry of Some e \<Rightarrow> ev_generation e | None \<Rightarrow> 0),
          re_freshness = (case entry of Some e \<Rightarrow> ev_freshness e | None \<Rightarrow> RevalidationRequired),
          re_observed = rd_observed d\<rparr>)"

definition empty_summary :: evaluation_summary where
  "empty_summary =
     \<lparr>required_total = 0, required_satisfied = 0, required_unsatisfied = 0, required_unknown = 0,
      preferred_satisfied = 0, preferred_unsatisfied = 0, preferred_unknown = 0,
      informational = 0, not_applicable = 0\<rparr>"

definition count_strength :: "requirement_evaluation \<Rightarrow> evaluation_summary \<Rightarrow> evaluation_summary" where
  "count_strength e s =
     (case re_strength e of
        Required \<Rightarrow>
          (let s = s\<lparr>required_total := Suc (required_total s)\<rparr> in
           if re_satisfaction e = Satisfied
             then s\<lparr>required_satisfied := Suc (required_satisfied s)\<rparr>
           else if re_satisfaction e = Unsatisfied
             then s\<lparr>required_unsatisfied := Suc (required_unsatisfied s)\<rparr>
           else s\<lparr>required_unknown := Suc (required_unknown s)\<rparr>)
      | Preferred \<Rightarrow>
          if re_satisfaction e = Satisfied
            then s\<lparr>preferred_satisfied := Suc (preferred_satisfied s)\<rparr>
          else if re_satisfaction e = Unsatisfied
            then s\<lparr>preferred_unsatisfied := Suc (preferred_unsatisfied s)\<rparr>
          else s\<lparr>preferred_unknown := Suc (preferred_unknown s)\<rparr>
      | Informational \<Rightarrow> s\<lparr>informational := Suc (informational s)\<rparr>)"

definition count_evaluation :: "requirement_evaluation \<Rightarrow> evaluation_summary \<Rightarrow> evaluation_summary" where
  "count_evaluation e s =
     (let s = count_strength e s in
      if re_satisfaction e = NotApplicable then s\<lparr>not_applicable := Suc (not_applicable s)\<rparr> else s)"

definition evaluate_contract ::
    "contract \<Rightarrow> evidence_set \<Rightarrow> incarnation \<Rightarrow> u64 \<Rightarrow> u64 \<Rightarrow> contract_evaluation" where
  "evaluate_contract c es current now_millis max_age_millis =
     (let ordered = sort_by requirement_precedes (body_requirements (con_body c));
          items = map (evaluate_requirement es current now_millis max_age_millis) ordered
      in \<lparr>ce_workload = wl_id (body_workload (con_body c)),
          ce_contract = body_contract_id (con_body c),
          ce_contract_generation = body_generation (con_body c),
          ce_contract_digest = con_digest c,
          ce_policy_generation = body_policy_generation (con_body c),
          ce_evidence_generation = es_generation es,
          ce_evaluated_by = current, ce_epoch = es_epoch es,
          ce_evaluated_at_millis = now_millis,
          ce_aggregate = aggregate_satisfaction items,
          ce_summary = fold count_evaluation items empty_summary,
          ce_requirements = items\<rparr>)"

section \<open>The decision table\<close>

text \<open>The number and the text a candidate reports for a kind.\<close>

fun number_of :: "requirement_kind \<Rightarrow> candidate \<Rightarrow> double option" where
  "number_of MinBandwidth c = min_bandwidth c"
| "number_of MaxLatency c = max_latency c"
| "number_of MaxJitter c = max_jitter c"
| "number_of MaxLoss c = max_loss c"
| "number_of PathDiversity c = path_diversity c"
| "number_of FailureDomainSeparation c = failure_domain_separation c"
| "number_of TrafficPriority c = traffic_priority c"
| "number_of BurstAllowance c = burst_allowance c"
| "number_of _ c = None"

fun text_of :: "requirement_kind \<Rightarrow> candidate \<Rightarrow> string" where
  "text_of Locality c = (case locality c of Some s \<Rightarrow> s | None \<Rightarrow> [])"
| "text_of SecurityClass c = (case security_class c of Some s \<Rightarrow> s | None \<Rightarrow> [])"
| "text_of DisaggregatedAffinity c = (case disaggregated_affinity c of Some s \<Rightarrow> s | None \<Rightarrow> [])"
| "text_of MaintenanceTolerance c = (case maintenance_tolerance c of Some s \<Rightarrow> s | None \<Rightarrow> [])"
| "text_of _ c = []"

abbreviation member_state :: "candidate \<Rightarrow> ident \<Rightarrow> string option" where
  "member_state c m \<equiv> candidate_attribute c (''member.'' @ m)"

text \<open>The candidate says enough about a requirement to decide it.\<close>

definition known :: "requirement \<Rightarrow> candidate \<Rightarrow> bool" where
  "known r c =
     (if kind_is_numeric (req_kind r) then number_of (req_kind r) c \<noteq> None
      else case req_kind r of
        CheckpointIsolation \<Rightarrow> checkpoint_isolation c \<noteq> None
      | Collective \<Rightarrow>
          collective_supported c \<noteq> None \<and>
          (req_value r = ''unsupported'' \<or> collective_supported c = Some False \<or>
           list_all (\<lambda>m. member_state c m \<noteq> None) (req_members r))
      | Attribute \<Rightarrow> candidate_attribute c (req_key r) \<noteq> None
      | k \<Rightarrow> text_of k c \<noteq> [])"

text \<open>What it says meets the requirement: its strict bound or, when preferred, its weak one.\<close>

definition number_meets :: "requirement \<Rightarrow> double \<Rightarrow> bool" where
  "number_meets r x =
     (if kind_is_floor (req_kind r)
      then dbl_le (req_target r) x \<or> req_strength r = Preferred \<and> dbl_le (req_minimum r) x
      else dbl_le x (req_target r) \<or> req_strength r = Preferred \<and> dbl_le x (req_minimum r))"

definition meets :: "requirement \<Rightarrow> candidate \<Rightarrow> bool" where
  "meets r c =
     (if kind_is_numeric (req_kind r)
      then (case number_of (req_kind r) c of Some x \<Rightarrow> number_meets r x | None \<Rightarrow> False)
      else case req_kind r of
        CheckpointIsolation \<Rightarrow>
          checkpoint_isolation c = Some (req_value r \<noteq> ''none'' \<and> req_value r \<noteq> [])
      | Collective \<Rightarrow>
          if req_value r = ''unsupported'' then collective_supported c = Some False
          else collective_supported c = Some True \<and>
            list_all (\<lambda>m. member_state c m = Some ''present'') (req_members r)
      | Attribute \<Rightarrow> candidate_attribute c (req_key r) = Some (req_value r)
      | k \<Rightarrow> text_of k c = req_value r \<or>
             req_strength r \<noteq> Required \<and> req_preferred_value r \<noteq> [] \<and>
             text_of k c = req_preferred_value r)"

text \<open>The entry may be used: captured by the running incarnation and current.\<close>

definition usable :: "incarnation \<Rightarrow> evidence_entry \<Rightarrow> bool" where
  "usable current e = (ev_captured_by e = current \<and> ev_freshness e = Current)"

definition decision_table ::
    "requirement \<Rightarrow> evidence_entry option \<Rightarrow> incarnation \<Rightarrow> satisfaction" where
  "decision_table r entry current =
     (if req_strength r = Informational then NotApplicable
      else case entry of
        None \<Rightarrow> Unknown
      | Some e \<Rightarrow>
          if \<not> usable current e \<or> \<not> known r (ev_candidate e) then Unknown
          else if meets r (ev_candidate e) then Satisfied else Unsatisfied)"

lemma rd_decided [simp]: "rd_satisfaction (decided s c) = s"
  by (simp add: decided_def)

lemma count_members_spec:
  "count_members c ms matched missing =
     (matched + length (filter (\<lambda>m. member_state c m = Some ''present'') ms),
      missing \<or> list_ex (\<lambda>m. member_state c m = None) ms)"
  by (induction c ms matched missing rule: count_members.induct) (auto split: option.splits)

lemma filter_all_length: "length (filter P xs) = length xs \<longleftrightarrow> list_all P xs"
proof (induction xs)
  case (Cons x xs)
  have "length (filter P xs) \<noteq> Suc (length xs)" using length_filter_le [of P xs] by linarith
  with Cons show ?case by auto
qed simp

lemma decide_collective_table:
  "rd_satisfaction (decide_collective c r) =
     (if collective_supported c = None \<or>
         \<not> (req_value r = ''unsupported'' \<or> collective_supported c = Some False \<or>
            list_all (\<lambda>m. member_state c m \<noteq> None) (req_members r)) then Unknown
      else if (if req_value r = ''unsupported'' then collective_supported c = Some False
               else collective_supported c = Some True \<and>
                 list_all (\<lambda>m. member_state c m = Some ''present'') (req_members r))
        then Satisfied else Unsatisfied)"
proof (cases "collective_supported c")
  case (Some supported)
  have "list_all (\<lambda>m. member_state c m = Some ''present'') ms \<Longrightarrow>
      list_all (\<lambda>m. member_state c m \<noteq> None) ms" for ms
    by (auto simp: list_all_iff)
  with Some show ?thesis
    by (cases supported)
      (auto simp: decide_collective_def Let_def count_members_spec filter_all_length list_ex_iff list_all_iff)
qed (simp add: decide_collective_def)

lemma textual_table:
  "rd_satisfaction (textual observed r True) =
     (let s = (case observed of Some s \<Rightarrow> s | None \<Rightarrow> []) in
      if s = [] then Unknown
      else if s = req_value r \<or> req_strength r \<noteq> Required \<and> req_preferred_value r \<noteq> [] \<and>
              s = req_preferred_value r then Satisfied else Unsatisfied)"
  by (cases observed) (auto simp: textual_def Let_def)

lemma floor_value_table:
  "rd_satisfaction (floor_value observed r) =
     (case observed of None \<Rightarrow> Unknown
      | Some x \<Rightarrow> if dbl_le (req_target r) x \<or> req_strength r = Preferred \<and> dbl_le (req_minimum r) x
          then Satisfied else Unsatisfied)"
  by (cases observed) (auto simp: floor_value_def)

lemma ceiling_table:
  "rd_satisfaction (ceiling observed r) =
     (case observed of None \<Rightarrow> Unknown
      | Some x \<Rightarrow> if dbl_le x (req_target r) \<or> req_strength r = Preferred \<and> dbl_le x (req_minimum r)
          then Satisfied else Unsatisfied)"
  by (cases observed) (auto simp: ceiling_def)

lemma kind_numeric_simps [simp]:
  "kind_is_numeric MinBandwidth" "kind_is_numeric MaxLatency" "kind_is_numeric MaxJitter"
  "kind_is_numeric MaxLoss" "kind_is_numeric PathDiversity"
  "kind_is_numeric FailureDomainSeparation" "kind_is_numeric TrafficPriority"
  "kind_is_numeric BurstAllowance" "\<not> kind_is_numeric Locality" "\<not> kind_is_numeric SecurityClass"
  "\<not> kind_is_numeric Collective" "\<not> kind_is_numeric CheckpointIsolation"
  "\<not> kind_is_numeric DisaggregatedAffinity" "\<not> kind_is_numeric MaintenanceTolerance"
  "\<not> kind_is_numeric Attribute"
  by (simp_all add: kind_is_numeric_def kKindTable_def)

lemma kind_floor_simps [simp]:
  "kind_is_floor MinBandwidth" "\<not> kind_is_floor MaxLatency" "\<not> kind_is_floor MaxJitter"
  "\<not> kind_is_floor MaxLoss" "kind_is_floor PathDiversity" "kind_is_floor FailureDomainSeparation"
  "kind_is_floor TrafficPriority" "kind_is_floor BurstAllowance"
  by (simp_all add: kind_is_floor_def kKindTable_def)

lemma decide_kind_table:
  "rd_satisfaction (decide_kind (req_kind r) c r) =
     (if \<not> known r c then Unknown else if meets r c then Satisfied else Unsatisfied)"
proof (cases "req_kind r")
  case Collective
  then show ?thesis by (simp add: known_def meets_def decide_collective_table)
next
  case CheckpointIsolation
  then show ?thesis
    by (auto simp: known_def meets_def decide_isolation_def Let_def split: option.split)
next
  case Attribute
  then show ?thesis
    by (simp add: known_def meets_def decide_attribute_def split: option.split)
qed (simp_all add: known_def meets_def number_meets_def floor_value_table ceiling_table textual_table
    Let_def split: option.split)

lemma decide_requirement_is_table:
  "rd_satisfaction (decide_requirement r entry current now max_age) = decision_table r entry current"
  by (cases entry; cases "ev_freshness (the entry)")
    (auto simp: decide_requirement_def decision_table_def usable_def decide_kind_table)

lemma decided_Satisfied:
  "decision_table r entry current = Satisfied \<longleftrightarrow>
     req_strength r \<noteq> Informational \<and>
     (\<exists>e. entry = Some e \<and> usable current e \<and> known r (ev_candidate e) \<and> meets r (ev_candidate e))"
  by (auto simp: decision_table_def split: option.splits)


section \<open>Aggregates and counters\<close>

lemma aggregate_loop_spec:
  "aggregate_loop es u q =
     (if \<exists>e\<in>set es. re_strength e = Required \<and> re_satisfaction e = Unsatisfied then Unsatisfied
      else if u \<or> (\<exists>e\<in>set es. re_strength e = Required \<and> re_satisfaction e = Unknown) then Unknown
      else if q \<or> (\<exists>e\<in>set es. re_strength e = Required) then Satisfied
      else NotApplicable)"
proof (induction es u q rule: aggregate_loop.induct)
  case (2 e es u q)
  then show ?case
    by (cases "re_strength e = Required"; cases "re_satisfaction e") simp_all
qed simp

lemma evaluate_requirement_fields [simp]:
  "re_strength (evaluate_requirement es cur now age r) = req_strength r"
  "re_satisfaction (evaluate_requirement es cur now age r) =
     decision_table r (evidence_find es (req_scope r)) cur"
  by (simp_all add: evaluate_requirement_def Let_def decide_requirement_is_table)

lemma evaluate_contract_fields:
  "ce_aggregate (evaluate_contract c es cur now age) =
     aggregate_satisfaction (ce_requirements (evaluate_contract c es cur now age))"
  "ce_summary (evaluate_contract c es cur now age) =
     fold count_evaluation (ce_requirements (evaluate_contract c es cur now age)) empty_summary"
  "set (ce_requirements (evaluate_contract c es cur now age)) =
     evaluate_requirement es cur now age ` set (body_requirements (con_body c))"
  "length (ce_requirements (evaluate_contract c es cur now age)) = length (body_requirements (con_body c))"
  by (simp_all add: evaluate_contract_def Let_def)

definition summary_total :: "evaluation_summary \<Rightarrow> nat" where
  "summary_total s =
     required_total s + preferred_satisfied s + preferred_unsatisfied s + preferred_unknown s +
     informational s"

lemma count_evaluation_step:
  "summary_total (count_evaluation e s) = Suc (summary_total s)"
  "required_total s = required_satisfied s + required_unsatisfied s + required_unknown s \<Longrightarrow>
   required_total (count_evaluation e s) =
     required_satisfied (count_evaluation e s) + required_unsatisfied (count_evaluation e s) +
     required_unknown (count_evaluation e s)"
  "required_satisfied (count_evaluation e s) = required_satisfied s +
     (if re_strength e = Required \<and> re_satisfaction e = Satisfied then 1 else 0)"
  "required_unsatisfied (count_evaluation e s) = required_unsatisfied s +
     (if re_strength e = Required \<and> re_satisfaction e = Unsatisfied then 1 else 0)"
  "required_total (count_evaluation e s) = required_total s + (if re_strength e = Required then 1 else 0)"
  by (cases "re_strength e"; simp add: count_evaluation_def count_strength_def Let_def summary_total_def)+

lemma count_fold:
  "summary_total (fold count_evaluation es s) = summary_total s + length es"
  "required_satisfied (fold count_evaluation es s) = required_satisfied s +
     length (filter (\<lambda>e. re_strength e = Required \<and> re_satisfaction e = Satisfied) es)"
  "required_unsatisfied (fold count_evaluation es s) = required_unsatisfied s +
     length (filter (\<lambda>e. re_strength e = Required \<and> re_satisfaction e = Unsatisfied) es)"
  "required_total (fold count_evaluation es s) = required_total s +
     length (filter (\<lambda>e. re_strength e = Required) es)"
  by (induction es arbitrary: s) (simp_all add: count_evaluation_step(1,3,4,5))

lemma count_fold_sum:
  "required_total s = required_satisfied s + required_unsatisfied s + required_unknown s \<Longrightarrow>
   required_total (fold count_evaluation es s) =
     required_satisfied (fold count_evaluation es s) +
     required_unsatisfied (fold count_evaluation es s) + required_unknown (fold count_evaluation es s)"
proof (induction es arbitrary: s)
  case (Cons e es)
  from Cons.IH [OF count_evaluation_step(2) [OF Cons.prems]] show ?case by simp
qed simp

section \<open>Properties of evaluation\<close>

definition established :: "evidence_set \<Rightarrow> incarnation \<Rightarrow> requirement \<Rightarrow> bool" where
  "established es current r \<longleftrightarrow>
     (\<exists>e. evidence_find es (req_scope r) = Some e \<and> usable current e \<and> known r (ev_candidate e))"

definition holds_under :: "evidence_set \<Rightarrow> requirement \<Rightarrow> bool" where
  "holds_under es r \<longleftrightarrow>
     (\<exists>e. evidence_find es (req_scope r) = Some e \<and> meets r (ev_candidate e))"

text \<open>
  C21: The decision procedure for a requirement is its table: informational requirements are not
  applicable, a requirement without a current entry of the running incarnation that reports its
  dimension is unknown, and otherwise it is satisfied exactly when the reported value meets it.
  In particular no verdict of satisfied rests on absent, stale or foreign evidence.
\<close>

theorem decide_requirement_table:
  "rd_satisfaction (decide_requirement r entry current now max_age) = decision_table r entry current \<and>
   (rd_satisfaction (decide_requirement r entry current now max_age) = Satisfied \<longleftrightarrow>
      req_strength r \<noteq> Informational \<and>
      (\<exists>e. entry = Some e \<and> ev_captured_by e = current \<and> ev_freshness e = Current \<and>
         known r (ev_candidate e) \<and> meets r (ev_candidate e)))"
  by (simp add: decide_requirement_is_table decided_Satisfied usable_def)

lemma evaluate_aggregate:
  "ce_aggregate (evaluate_contract c es current now max_age) =
     (let required = filter (\<lambda>r. req_strength r = Required) (body_requirements (con_body c)) in
      if \<exists>r\<in>set required. established es current r \<and> \<not> holds_under es r then Unsatisfied
      else if \<exists>r\<in>set required. \<not> established es current r then Unknown
      else if required = [] then NotApplicable else Satisfied)"
proof -
  have table: "decision_table r (evidence_find es (req_scope r)) current = Unsatisfied \<longleftrightarrow>
      established es current r \<and> \<not> holds_under es r"
    "decision_table r (evidence_find es (req_scope r)) current = Unknown \<longleftrightarrow> \<not> established es current r"
    if "req_strength r = Required" for r
    using that
    by (auto simp: decision_table_def established_def holds_under_def split: option.splits)
  show ?thesis
    unfolding evaluate_contract_fields aggregate_satisfaction_def aggregate_loop_spec
    by (simp add: evaluate_contract_fields table Let_def filter_empty_conv cong: conj_cong)
qed

text \<open>
  The aggregate of an evaluation is unsatisfied exactly when a required requirement is
  established by usable evidence and does not hold under it, unknown when none is but some
  required requirement is not established, not applicable when the contract requires nothing, and
  satisfied otherwise, when every required requirement is established and holds.
\<close>

theorem evaluate_aggregate_exact:
  "ce_aggregate (evaluate_contract c es current now max_age) =
     (let required = filter (\<lambda>r. req_strength r = Required) (body_requirements (con_body c)) in
      if \<exists>r\<in>set required. established es current r \<and> \<not> holds_under es r then Unsatisfied
      else if \<exists>r\<in>set required. \<not> established es current r then Unknown
      else if required = [] then NotApplicable else Satisfied)"
  by (rule evaluate_aggregate)

text \<open>
  The verdicts and the aggregate do not depend on the order in which the contract lists its
  requirements, when their keys are distinct.
\<close>

theorem evaluation_order_independent:
  assumes "mset rs = mset (body_requirements (con_body c))"
    and "distinct (map composite_key (body_requirements (con_body c)))"
  shows "evaluate_contract (c\<lparr>con_body := (con_body c)\<lparr>body_requirements := rs\<rparr>\<rparr>) es current now max_age =
    evaluate_contract c es current now max_age"
proof -
  have "sort_by requirement_precedes (body_requirements (con_body c)) = sort_by requirement_precedes rs"
    using assms
    by (intro requirement_order.sort_by_unique)
      (auto intro!: composite_keys_apart simp: distinct_map inj_on_def)
  then show ?thesis by (simp add: evaluate_contract_def Let_def)
qed

theorem evaluation_order_independent_witness:
  "evaluate_contract (sample_contract\<lparr>con_body := (con_body sample_contract)
      \<lparr>body_requirements := rev (body_requirements sample_body)\<rparr>\<rparr>) sample_evidence sample_incarnation 2000 0 =
   evaluate_contract sample_contract sample_evidence sample_incarnation 2000 0"
  by (rule evaluation_order_independent) (simp_all add: sample_contract_def sample_body_def)

text \<open>
  The counters of an evaluation account for every requirement once: required, preferred and
  informational verdicts add up to the requirements of the contract, the required total is the
  sum of its three verdicts, and the required counters count the verdicts of that kind.
\<close>

theorem evaluation_counts:
  "let ce = evaluate_contract c es current now max_age; s = ce_summary ce in
     required_total s + preferred_satisfied s + preferred_unsatisfied s + preferred_unknown s +
       informational s = length (body_requirements (con_body c)) \<and>
     required_total s = required_satisfied s + required_unsatisfied s + required_unknown s \<and>
     required_satisfied s = length (filter (\<lambda>e. re_strength e = Required \<and>
       re_satisfaction e = Satisfied) (ce_requirements ce)) \<and>
     required_unsatisfied s = length (filter (\<lambda>e. re_strength e = Required \<and>
       re_satisfaction e = Unsatisfied) (ce_requirements ce)) \<and>
     (ce_aggregate ce = Satisfied \<longleftrightarrow> 0 < required_total s \<and> required_satisfied s = required_total s)"
proof -
  let ?es = "ce_requirements (evaluate_contract c es current now max_age)"
  let ?s = "fold count_evaluation ?es empty_summary"
  have zero: "summary_total empty_summary = 0" "required_satisfied empty_summary = 0"
    "required_unsatisfied empty_summary = 0" "required_total empty_summary = 0"
    "required_unknown empty_summary = 0"
    by (simp_all add: empty_summary_def summary_total_def)
  note counts = count_fold [of ?es empty_summary, unfolded zero add_0]
  have sum: "required_total ?s = required_satisfied ?s + required_unsatisfied ?s + required_unknown ?s"
    by (rule count_fold_sum) (simp add: zero)
  have "length (filter (\<lambda>e. re_strength e = Required \<and> re_satisfaction e = Satisfied) ?es) =
      length (filter (\<lambda>e. re_strength e = Required) ?es) \<longleftrightarrow>
      (\<forall>e\<in>set ?es. re_strength e = Required \<longrightarrow> re_satisfaction e = Satisfied)"
    using filter_all_length [of "\<lambda>e. re_satisfaction e = Satisfied"
        "filter (\<lambda>e. re_strength e = Required) ?es"]
    by (simp add: list_all_iff conj_commute) blast
  moreover have "aggregate_satisfaction ?es = Satisfied \<longleftrightarrow>
      (\<exists>e\<in>set ?es. re_strength e = Required) \<and>
      (\<forall>e\<in>set ?es. re_strength e = Required \<longrightarrow> re_satisfaction e = Satisfied)"
  proof -
    have "re_satisfaction e \<noteq> NotApplicable" if "e \<in> set ?es" "re_strength e = Required" for e
      using that
      by (auto simp: evaluate_contract_fields decision_table_def split: option.splits if_splits)
    then show ?thesis
      unfolding aggregate_satisfaction_def aggregate_loop_spec
      by (auto) (metis satisfaction.exhaust)+
  qed
  moreover have "0 < length (filter (\<lambda>e. re_strength e = Required) ?es) \<longleftrightarrow>
      (\<exists>e\<in>set ?es. re_strength e = Required)"
    by (simp add: filter_empty_conv)
  ultimately have "aggregate_satisfaction ?es = Satisfied \<longleftrightarrow>
      0 < required_total ?s \<and> required_satisfied ?s = required_total ?s"
    unfolding counts by blast
  with sum counts show ?thesis
    unfolding Let_def evaluate_contract_fields(1,2)
    by (simp only: summary_total_def evaluate_contract_fields(4))
qed

end
