(* ===== verification/Wnc_Frame.thy ===== *)
theory Wnc_Frame
  imports Wnc_Evaluation
begin

text \<open>
  Journal frames: the byte layout of \<^verbatim>\<open>src/ledger.cpp\<close>, \<^verbatim>\<open>build_frame\<close>, \<^verbatim>\<open>parse_frame\<close> and
  the scan of a segment. A file is the list of its bytes. The results are that a frame that was
  built is read back, that every strict prefix of it is recognised as a torn tail, that a segment
  of linked frames scans to its records whatever torn tail follows, and what the links do and do
  not cover.
\<close>

section \<open>Little endian integers\<close>

definition write_u16 :: "u16 \<Rightarrow> bytes" where
  "write_u16 w = map (\<lambda>i. ucast (drop_bit (8 * i) w AND 0xFF)) [0..<2]"

definition write_u32 :: "u32 \<Rightarrow> bytes" where
  "write_u32 w = map (\<lambda>i. ucast (drop_bit (8 * i) w AND 0xFF)) [0..<4]"

definition write_u64 :: "u64 \<Rightarrow> bytes" where
  "write_u64 w = map (\<lambda>i. ucast (drop_bit (8 * i) w AND 0xFF)) [0..<8]"

text \<open>The readers take the bytes from the pointer on.\<close>

definition read_u16 :: "bytes \<Rightarrow> u16" where
  "read_u16 bs = ucast (bs ! 0) OR push_bit 8 (ucast (bs ! 1))"

definition read_u32 :: "bytes \<Rightarrow> u32" where
  "read_u32 bs = fold (\<lambda>i v. v OR push_bit (8 * i) (ucast (bs ! i))) [0..<4] 0"

definition read_u64 :: "bytes \<Rightarrow> u64" where
  "read_u64 bs = fold (\<lambda>i v. v OR push_bit (8 * i) (ucast (bs ! i))) [0..<8] 0"

section \<open>Records and frames\<close>

datatype record_type =
    RecUnknown | RecGenesis | RecWorkloadRegistered | RecContractPublished | RecWorkloadRetired
  | RecEvidenceAttached | RecPolicyInstalled | RecEvaluationRecorded | RecRecoveryMarker

fun record_number :: "record_type \<Rightarrow> u16" where
  "record_number RecUnknown = 0"
| "record_number RecGenesis = 1"
| "record_number RecWorkloadRegistered = 2"
| "record_number RecContractPublished = 3"
| "record_number RecWorkloadRetired = 4"
| "record_number RecEvidenceAttached = 5"
| "record_number RecPolicyInstalled = 6"
| "record_number RecEvaluationRecorded = 7"
| "record_number RecRecoveryMarker = 8"

definition kRecordTokens :: "(record_type \<times> string) list" where
  "kRecordTokens =
     [(RecUnknown, ''unknown''), (RecGenesis, ''genesis''),
      (RecWorkloadRegistered, ''workload_registered''),
      (RecContractPublished, ''contract_published''),
      (RecWorkloadRetired, ''workload_retired''),
      (RecEvidenceAttached, ''evidence_attached''), (RecPolicyInstalled, ''policy_installed''),
      (RecEvaluationRecorded, ''evaluation_recorded'')]"

definition record_type_token :: "record_type \<Rightarrow> string" where
  "record_type_token t =
     (case map_of kRecordTokens t of Some s \<Rightarrow> s | None \<Rightarrow> snd (hd kRecordTokens))"

definition parse_record_type :: "string \<Rightarrow> record_type option" where
  "parse_record_type t = value_of kRecordTokens t"

text \<open>A record read from a frame; its type is whatever number the header carries.\<close>

record ledger_record =
  rec_sequence :: u64
  rec_type :: u16
  rec_payload :: string
  rec_payload_digest :: digest
  rec_previous_chain :: digest
  rec_chain :: digest

definition kRecordMagic :: u32 where "kRecordMagic = 0x314C4E57"
definition kFrameHeaderBytes :: nat where "kFrameHeaderBytes = 92"
definition kMaxRecordBytes :: nat where "kMaxRecordBytes = kMaxDocumentBytes"

definition digest_of :: "string \<Rightarrow> digest" where
  "digest_of s = sha256 (bytes_of s)"

definition chain_of :: "bytes \<Rightarrow> string \<Rightarrow> digest" where
  "chain_of header_prefix payload = sha256 (header_prefix @ bytes_of payload)"

text \<open>The fields before the link, and the chain value, computed with the link zeroed.\<close>

definition frame_fields :: "u16 \<Rightarrow> u64 \<Rightarrow> string \<Rightarrow> bytes" where
  "frame_fields t sequence payload =
     write_u32 kRecordMagic @ write_u16 1 @ write_u16 t @ write_u64 sequence @
     write_u64 (of_nat (length payload)) @ digest_of payload"

definition frame_chain :: "u16 \<Rightarrow> u64 \<Rightarrow> string \<Rightarrow> digest" where
  "frame_chain t sequence payload =
     chain_of (frame_fields t sequence payload @ replicate 32 0) payload"

definition build_frame :: "u16 \<Rightarrow> u64 \<Rightarrow> string \<Rightarrow> digest \<Rightarrow> bytes \<times> digest \<times> digest" where
  "build_frame t sequence payload previous_chain =
     (let header = frame_fields t sequence payload @ previous_chain
      in (header @ write_u32 (crc32 header) @ bytes_of payload,
          frame_chain t sequence payload, digest_of payload))"

text \<open>The bytes are those from the offset on.\<close>

definition parse_frame :: "bytes \<Rightarrow> (ledger_record \<times> nat) result" where
  "parse_frame bs =
     (if length bs < kFrameHeaderBytes then Inl kLedgerTruncated
      else if read_u32 bs \<noteq> kRecordMagic then Inl kLedgerCorrupt
      else if read_u16 (drop 4 bs) \<noteq> 1 then Inl kLedgerIncompatible
      else
        (let payload_length = unat (read_u64 (drop 16 bs)) in
         if payload_length > kMaxRecordBytes then Inl kLedgerOversized
         else if read_u32 (drop 88 bs) \<noteq> crc32 (take 88 bs) then Inl kLedgerCorrupt
         else
           (let total = kFrameHeaderBytes + payload_length in
            if length bs < total then Inl kLedgerTruncated
            else
              (let payload = string_of (take payload_length (drop kFrameHeaderBytes bs));
                   payload_digest = take 32 (drop 24 bs)
               in if digest_of payload \<noteq> payload_digest then Inl kLedgerCorrupt
                  else Inr (\<lparr>rec_sequence = read_u64 (drop 8 bs), rec_type = read_u16 (drop 6 bs),
                             rec_payload = payload, rec_payload_digest = payload_digest,
                             rec_previous_chain = zero_digest,
                             rec_chain = take 32 (drop 56 bs)\<rparr>, total)))))"

section \<open>Scanning\<close>

record recovery_report =
  rep_recovered :: bool
  rep_valid_records :: nat
  rep_truncated_bytes :: nat
  rep_last_valid_sequence :: u64
  rep_valid_bytes :: nat
  rep_excess_segments :: nat
  rep_chain_break :: bool

definition empty_report :: recovery_report where
  "empty_report =
     \<lparr>rep_recovered = False, rep_valid_records = 0, rep_truncated_bytes = 0,
      rep_last_valid_sequence = 0, rep_valid_bytes = 0, rep_excess_segments = 0,
      rep_chain_break = False\<rparr>"

text \<open>What the scan carries from frame to frame.\<close>

record scan_state =
  scan_records :: "ledger_record list"
  scan_report :: recovery_report
  scan_expected :: u64
  scan_previous :: digest
  scan_torn :: bool

definition scan_start :: scan_state where
  "scan_start =
     \<lparr>scan_records = [], scan_report = empty_report, scan_expected = 1,
      scan_previous = zero_digest, scan_torn = False\<rparr>"

lemma parse_frame_consumes:
  "parse_frame bs = Inr (r, n) \<Longrightarrow> 0 < n \<and> n \<le> length bs"
  by (auto simp: parse_frame_def Let_def kFrameHeaderBytes_def split: if_splits)

text \<open>The loop over the frames of one segment, from an offset on.\<close>

function scan_segment :: "bytes \<Rightarrow> nat \<Rightarrow> scan_state \<Rightarrow> scan_state result" where
  "scan_segment rest offset st =
     (if rest = [] then Inr st
      else case parse_frame rest of
        Inl c \<Rightarrow>
          if c \<noteq> kLedgerTruncated then Inl c
          else Inr (st\<lparr>scan_report := (scan_report st)\<lparr>rep_recovered := True,
                         rep_truncated_bytes := length rest, rep_valid_bytes := offset\<rparr>,
                       scan_torn := True\<rparr>)
      | Inr (r, consumed) \<Rightarrow>
          if rec_sequence r \<noteq> scan_expected st then Inl kIndexGapDetected
          else
            (let derived = chain_of (take 56 rest @ replicate 32 0) (rec_payload r) in
             if rec_chain r \<noteq> scan_previous st then Inl kLedgerCorrupt
             else scan_segment (drop consumed rest) (offset + consumed)
               (st\<lparr>scan_previous := derived, scan_expected := rec_sequence r + 1,
                   scan_report := (scan_report st)\<lparr>rep_last_valid_sequence := rec_sequence r,
                     rep_valid_bytes := offset + consumed\<rparr>,
                   scan_records := scan_records st @ [r]\<rparr>)))"
  by auto
termination
  by (relation "measure (\<lambda>(rest, offset, st). length rest)") (auto dest: parse_frame_consumes)

declare scan_segment.simps [simp del]

text \<open>The loop over the segments; after a torn one the rest is excess. A segment may not be readable.\<close>

fun scan_segments :: "bytes result list \<Rightarrow> scan_state \<Rightarrow> scan_state result" where
  "scan_segments [] st = Inr st"
| "scan_segments (segment # segments) st =
     (if scan_torn st then
        scan_segments segments
          (st\<lparr>scan_report := (scan_report st)\<lparr>rep_excess_segments :=
             Suc (rep_excess_segments (scan_report st))\<rparr>\<rparr>)
      else
        rbind segment (\<lambda>bs. rbind (scan_segment bs 0 st) (\<lambda>st'. scan_segments segments st')))"

section \<open>Reading back frames\<close>

lemma length_write [simp, wnc_length]:
  "length (write_u16 a) = 2" "length (write_u32 b) = 4" "length (write_u64 c) = 8"
  by (simp_all add: write_u16_def write_u32_def write_u64_def)

lemma bit_fold_or:
  "bit (fold (\<lambda>i v. v OR push_bit (8 * i) (ucast (f i :: u8))) is (v0 :: 'a::len word)) n \<longleftrightarrow>
     bit v0 n \<or> n < LENGTH('a) \<and> (\<exists>i\<in>set is. 8 * i \<le> n \<and> bit (f i) (n - 8 * i))"
  by (induction "is" arbitrary: v0) (auto simp: bit_simps)

lemma little_endian:
  fixes w :: "'a::len word"
  assumes "LENGTH('a) = 8 * k"
  shows "fold (\<lambda>i v. v OR push_bit (8 * i)
      (ucast ((map (\<lambda>i. ucast (drop_bit (8 * i) w AND 0xFF) :: u8) [0..<k] @ rest) ! i))) [0..<k] 0 = w"
    (is "?fold = w")
proof -
  define bs where "bs = map (\<lambda>i. ucast (drop_bit (8 * i) w AND 0xFF) :: u8) [0..<k] @ rest"
  have byte: "bit (bs ! i) m \<longleftrightarrow> m < 8 \<and> bit w (8 * i + m)" if "i < k" for i m
    using that by (auto simp: bs_def nth_append bit_simps)
  have "bit (fold (\<lambda>i v. v OR push_bit (8 * i) (ucast (bs ! i))) [0..<k] (0 :: 'a word)) n = bit w n"
    if n: "n < LENGTH('a)" for n
  proof -
    have "n div 8 < k" "8 * (n div 8) \<le> n" "n - 8 * (n div 8) < 8"
      using n assms by auto
    then show ?thesis using n by (auto simp: bit_fold_or byte intro!: bexI [of _ "n div 8"])
  qed
  then have "fold (\<lambda>i v. v OR push_bit (8 * i) (ucast (bs ! i))) [0..<k] 0 = w"
    by (rule bit_word_eqI)
  then show ?thesis by (simp only: bs_def)
qed

lemma read_write_u32 [simp]: "read_u32 (write_u32 w @ rest) = w"
  unfolding read_u32_def write_u32_def by (rule little_endian) simp

lemma read_write_u64 [simp]: "read_u64 (write_u64 w @ rest) = w"
  unfolding read_u64_def write_u64_def by (rule little_endian) simp

lemma read_write_u16 [simp]: "read_u16 (write_u16 w @ rest) = w"
proof -
  have "read_u16 bs = fold (\<lambda>i v. v OR push_bit (8 * i) (ucast (bs ! i))) [0..<2] 0" for bs
    by (simp add: read_u16_def upt_conv_Cons)
  then show ?thesis unfolding write_u16_def by (simp only:) (rule little_endian, simp)
qed

lemma length_digest_of [simp]: "length (digest_of s) = 32"
  by (simp add: digest_of_def)

lemma length_frame_fields [simp]: "length (frame_fields t s p) = 56"
  by (simp add: frame_fields_def)

lemma length_frame_chain [simp]: "length (frame_chain t s p) = 32"
  by (simp add: frame_chain_def chain_of_def)

definition frame_bytes :: "u16 \<Rightarrow> u64 \<Rightarrow> string \<Rightarrow> digest \<Rightarrow> bytes" where
  "frame_bytes t s p link = fst (build_frame t s p link)"

lemma frame_bytes_eq:
  "frame_bytes t s p link =
     frame_fields t s p @ link @ write_u32 (crc32 (frame_fields t s p @ link)) @ bytes_of p"
  by (simp add: frame_bytes_def build_frame_def Let_def)

lemma length_frame_bytes: "length link = 32 \<Longrightarrow> length (frame_bytes t s p link) = 92 + length p"
  by (simp add: frame_bytes_eq)

text \<open>The fields of the header, at their offsets.\<close>

lemma frame_header:
  assumes "length link = 32"
  shows "read_u32 (frame_bytes t s p link @ rest) = kRecordMagic"
    and "read_u16 (drop 4 (frame_bytes t s p link @ rest)) = 1"
    and "read_u16 (drop 6 (frame_bytes t s p link @ rest)) = t"
    and "read_u64 (drop 8 (frame_bytes t s p link @ rest)) = s"
    and "read_u64 (drop 16 (frame_bytes t s p link @ rest)) = of_nat (length p)"
    and "take 32 (drop 24 (frame_bytes t s p link @ rest)) = digest_of p"
    and "take 32 (drop 56 (frame_bytes t s p link @ rest)) = link"
    and "read_u32 (drop 88 (frame_bytes t s p link @ rest)) = crc32 (frame_fields t s p @ link)"
    and "take 88 (frame_bytes t s p link @ rest) = frame_fields t s p @ link"
    and "take 56 (frame_bytes t s p link @ rest) = frame_fields t s p"
    and "drop 92 (frame_bytes t s p link @ rest) = bytes_of p @ rest"
  using assms by (simp_all add: frame_bytes_eq frame_fields_def)

lemma unat_payload_length:
  "length p \<le> kMaxRecordBytes \<Longrightarrow> unat (of_nat (length p) :: u64) = length p"
  by (simp add: kMaxRecordBytes_def kMaxDocumentBytes_def unat_of_nat)

definition frame_record :: "u16 \<Rightarrow> u64 \<Rightarrow> string \<Rightarrow> digest \<Rightarrow> ledger_record" where
  "frame_record t s p link =
     \<lparr>rec_sequence = s, rec_type = t, rec_payload = p, rec_payload_digest = digest_of p,
      rec_previous_chain = zero_digest, rec_chain = link\<rparr>"

lemma parse_frame_build:
  assumes "length link = 32" "length p \<le> kMaxRecordBytes"
  shows "parse_frame (frame_bytes t s p link @ rest) =
    Inr (frame_record t s p link, length (frame_bytes t s p link))"
proof -
  define bs where "bs = frame_bytes t s p link @ rest"
  have "length bs = 92 + length p + length rest"
    using assms(1) by (simp add: length_frame_bytes bs_def)
  then have "parse_frame bs = Inr (frame_record t s p link, 92 + length p)"
    using assms(2) frame_header [OF assms(1), of t s p rest, folded bs_def]
    by (simp add: parse_frame_def Let_def kFrameHeaderBytes_def unat_payload_length frame_record_def)
  then show ?thesis using assms(1) by (simp add: bs_def length_frame_bytes)
qed

lemma parse_frame_torn:
  assumes "length link = 32" "length p \<le> kMaxRecordBytes" "n < length (frame_bytes t s p link)"
  shows "parse_frame (take n (frame_bytes t s p link)) = Inl kLedgerTruncated"
proof (cases "n < 92")
  case True
  then have "length (take n (frame_bytes t s p link)) < kFrameHeaderBytes"
    by (simp add: kFrameHeaderBytes_def)
  then show ?thesis unfolding parse_frame_def by (simp only: if_True)
next
  case False
  let ?header = "frame_fields t s p @ link"
  obtain m where m: "n = 92 + m" using False by (metis le_iff_add not_less)
  define bs where "bs = take n (frame_bytes t s p link)"
  have bs: "bs = ?header @ write_u32 (crc32 ?header) @ take m (bytes_of p)"
    using assms(1) by (simp add: frame_bytes_eq m bs_def)
  have "length bs < 92 + length p" "\<not> length bs < 92"
    using assms False by (simp_all add: length_frame_bytes bs_def)
  moreover have "read_u32 bs = kRecordMagic" "read_u16 (drop 4 bs) = 1"
    "read_u64 (drop 16 bs) = of_nat (length p)" "read_u32 (drop 88 bs) = crc32 (take 88 bs)"
    using assms(1) by (simp_all add: bs) (simp_all add: frame_fields_def)
  ultimately have "parse_frame bs = Inl kLedgerTruncated"
    using assms(2) by (simp add: parse_frame_def Let_def kFrameHeaderBytes_def unat_payload_length)
  then show ?thesis by (simp only: bs_def)
qed

section \<open>Journals\<close>

text \<open>The bytes, the records and the last chain value of entries appended one after the other.\<close>

fun journal_bytes :: "digest \<Rightarrow> u64 \<Rightarrow> (u16 \<times> string) list \<Rightarrow> bytes" where
  "journal_bytes link s [] = []"
| "journal_bytes link s ((t, p) # es) =
     frame_bytes t s p link @ journal_bytes (frame_chain t s p) (s + 1) es"

fun journal_records :: "digest \<Rightarrow> u64 \<Rightarrow> (u16 \<times> string) list \<Rightarrow> ledger_record list" where
  "journal_records link s [] = []"
| "journal_records link s ((t, p) # es) =
     frame_record t s p link # journal_records (frame_chain t s p) (s + 1) es"

fun journal_chain :: "digest \<Rightarrow> u64 \<Rightarrow> (u16 \<times> string) list \<Rightarrow> digest" where
  "journal_chain link s [] = link"
| "journal_chain link s ((t, p) # es) = journal_chain (frame_chain t s p) (s + 1) es"

abbreviation entries_fit :: "(u16 \<times> string) list \<Rightarrow> bool" where
  "entries_fit es \<equiv> list_all (\<lambda>(t, p). length p \<le> kMaxRecordBytes) es"

lemma journal_append:
  "journal_bytes link s (es @ fs) =
     journal_bytes link s es @ journal_bytes (journal_chain link s es) (s + of_nat (length es)) fs"
  "journal_records link s (es @ fs) =
     journal_records link s es @ journal_records (journal_chain link s es) (s + of_nat (length es)) fs"
  "journal_chain link s (es @ fs) = journal_chain (journal_chain link s es) (s + of_nat (length es)) fs"
  by (induction es arbitrary: link s) (auto simp: algebra_simps)

lemma length_journal_chain: "length link = 32 \<Longrightarrow> length (journal_chain link s es) = 32"
  by (induction es arbitrary: link s) auto

lemma length_journal_records [simp]: "length (journal_records link s es) = length es"
  by (induction es arbitrary: link s) auto

lemma journal_records_entries:
  "map (\<lambda>r. (rec_type r, rec_payload r)) (journal_records link s es) = es"
  by (induction es arbitrary: link s) (auto simp: frame_record_def)

lemma journal_records_sequence:
  "map rec_sequence (journal_records link s es) = map (\<lambda>i. s + of_nat i) [0..<length es]"
proof (induction es arbitrary: link s)
  case (Cons e es)
  then show ?case
    by (cases e) (simp add: frame_record_def map_upt_Suc algebra_simps del: upt_Suc)
qed simp

text \<open>What a scan has seen after the frames of a journal.\<close>

fun scan_journal :: "(u16 \<times> string) list \<Rightarrow> nat \<Rightarrow> scan_state \<Rightarrow> scan_state" where
  "scan_journal [] offset st = st"
| "scan_journal ((t, p) # es) offset st =
     scan_journal es (offset + (92 + length p))
       (st\<lparr>scan_previous := frame_chain t (scan_expected st) p,
           scan_expected := scan_expected st + 1,
           scan_report := (scan_report st)\<lparr>rep_last_valid_sequence := scan_expected st,
             rep_valid_bytes := offset + (92 + length p)\<rparr>,
           scan_records := scan_records st @ [frame_record t (scan_expected st) p (scan_previous st)]\<rparr>)"

lemma scan_segment_journal:
  assumes "length (scan_previous st) = 32" "entries_fit es"
  shows "scan_segment (journal_bytes (scan_previous st) (scan_expected st) es @ tail) offset st =
    scan_segment tail (offset + length (journal_bytes (scan_previous st) (scan_expected st) es))
      (scan_journal es offset st)"
  using assms
proof (induction es arbitrary: st offset)
  case (Cons e es)
  obtain t p where e: "e = (t, p)" by (cases e)
  let ?s = "scan_expected st" and ?link = "scan_previous st"
  let ?frame = "frame_bytes t ?s p ?link"
  define rest where "rest = journal_bytes (frame_chain t ?s p) (?s + 1) es @ tail"
  let ?st = "st\<lparr>scan_previous := frame_chain t ?s p, scan_expected := ?s + 1,
      scan_report := (scan_report st)\<lparr>rep_last_valid_sequence := ?s, rep_valid_bytes := offset + (92 + length p)\<rparr>,
      scan_records := scan_records st @ [frame_record t ?s p ?link]\<rparr>"
  have len: "length ?frame = 92 + length p" using Cons.prems by (simp add: length_frame_bytes)
  have parse: "parse_frame (?frame @ rest) = Inr (frame_record t ?s p ?link, length ?frame)"
    using Cons.prems e by (intro parse_frame_build) auto
  have derived: "chain_of (take 56 (?frame @ rest) @ replicate 32 0) p = frame_chain t ?s p"
    using frame_header(10) [OF Cons.prems(1), of t ?s p rest] by (simp only: frame_chain_def)
  define bs where "bs = ?frame @ rest"
  have bs: "bs \<noteq> []" "drop (length ?frame) bs = rest" using len by (auto simp: bs_def)
  have fields: "rec_sequence (frame_record t ?s p ?link) = ?s" "rec_chain (frame_record t ?s p ?link) = ?link"
    "rec_payload (frame_record t ?s p ?link) = p"
    by (simp_all add: frame_record_def)
  have "scan_segment bs offset st = scan_segment rest (offset + length ?frame) ?st"
    using parse [folded bs_def] derived [folded bs_def] bs
    by (subst scan_segment.simps) (simp add: fields Let_def len)
  also have "\<dots> = scan_segment tail (offset + length ?frame +
      length (journal_bytes (frame_chain t ?s p) (?s + 1) es)) (scan_journal es (offset + length ?frame) ?st)"
    using Cons.IH [of ?st "offset + length ?frame"] Cons.prems by (simp add: rest_def)
  finally show ?case by (simp add: e rest_def len bs_def add.assoc)
qed simp

lemma scan_journal_fields:
  "scan_records (scan_journal es offset st) =
     scan_records st @ journal_records (scan_previous st) (scan_expected st) es"
  "scan_previous (scan_journal es offset st) = journal_chain (scan_previous st) (scan_expected st) es"
  "scan_expected (scan_journal es offset st) = scan_expected st + of_nat (length es)"
  "scan_torn (scan_journal es offset st) = scan_torn st"
  "rep_truncated_bytes (scan_report (scan_journal es offset st)) = rep_truncated_bytes (scan_report st)"
  "rep_excess_segments (scan_report (scan_journal es offset st)) = rep_excess_segments (scan_report st)"
  "rep_recovered (scan_report (scan_journal es offset st)) = rep_recovered (scan_report st)"
  by (induction es offset st rule: scan_journal.induct) (auto simp: algebra_simps)

lemma scan_journal_sequence:
  "rep_last_valid_sequence (scan_report st) = scan_expected st - 1 \<Longrightarrow>
   rep_last_valid_sequence (scan_report (scan_journal es offset st)) =
     scan_expected (scan_journal es offset st) - 1"
  by (induction es offset st rule: scan_journal.induct) auto

lemma scan_segment_end: "scan_segment [] offset st = Inr st"
  by (subst scan_segment.simps) simp

lemma scan_segment_torn:
  assumes "length link = 32" "length p \<le> kMaxRecordBytes" "0 < n" "n < length (frame_bytes t s p link)"
  shows "scan_segment (take n (frame_bytes t s p link)) offset st =
    Inr (st\<lparr>scan_report := (scan_report st)\<lparr>rep_recovered := True, rep_truncated_bytes := n,
        rep_valid_bytes := offset\<rparr>, scan_torn := True\<rparr>)"
proof -
  have "take n (frame_bytes t s p link) \<noteq> []" using assms by auto
  with assms show ?thesis
    by (subst scan_segment.simps) (simp add: parse_frame_torn)
qed

lemma scan_segment_bad_link:
  assumes "length link = 32" "length p \<le> kMaxRecordBytes" "link \<noteq> scan_previous st"
  shows "scan_segment (frame_bytes t (scan_expected st) p link @ rest) offset st = Inl kLedgerCorrupt"
proof -
  have "frame_bytes t (scan_expected st) p link @ rest \<noteq> []"
    using length_frame_bytes [OF assms(1), of t "scan_expected st" p] by auto
  with assms show ?thesis
    by (subst scan_segment.simps) (simp add: parse_frame_build Let_def frame_record_def)
qed

end
