(* ===== verification/Wnc_Ledger.thy ===== *)
theory Wnc_Ledger
  imports Wnc_Frame
begin

text \<open>
  The ledger: class \<^verbatim>\<open>Ledger\<close> of \<^verbatim>\<open>src/ledger.cpp\<close> over a model of its state directory (the
  contents of the files by name, as \<^verbatim>\<open>src/state.cpp\<close> leaves them). Opening with recovery, the
  boot record, rotation, append, reading, snapshots and truncation, with the failures of the file
  system as inputs. The results are that a ledger reads back what was appended, also after a crash
  in the middle of an append, that a boot record and a snapshot are read back, and what happens to
  a journal that is continued after a restart.
\<close>

section \<open>The state directory\<close>

type_synonym directory = "(string, bytes) smap"

text \<open>
  What a write did: everything; the file could not be opened, so nothing; or it failed with a code
  after some bytes reached the file. \<^verbatim>\<open>write_file_atomic\<close> writes a temporary file beside its target
  and renames it, so a failure leaves the target as it was. Truncation does its work or not.
\<close>

datatype io_outcome = IoDone | IoNotOpened | IoFailed code nat

definition read_file :: "directory \<Rightarrow> string \<Rightarrow> nat \<Rightarrow> bytes result" where
  "read_file d name bound =
     (case map_of d name of
        None \<Rightarrow> Inl kStateUnavailable
      | Some bs \<Rightarrow> if length bs > bound then Inl kLedgerOversized else Inr bs)"

definition contents :: "directory \<Rightarrow> string \<Rightarrow> bytes" where
  "contents d name = (case map_of d name of Some bs \<Rightarrow> bs | None \<Rightarrow> [])"

definition append_file_flushed ::
    "directory \<Rightarrow> string \<Rightarrow> bytes \<Rightarrow> io_outcome \<Rightarrow> unit result \<times> directory" where
  "append_file_flushed d name bs io =
     (case io of
        IoDone \<Rightarrow> (Inr (), map_put name (contents d name @ bs) d)
      | IoNotOpened \<Rightarrow> (Inl kStateUnavailable, d)
      | IoFailed c n \<Rightarrow> (Inl c, map_put name (contents d name @ take n bs) d))"

definition remove_file :: "directory \<Rightarrow> string \<Rightarrow> directory" where
  "remove_file d name = filter (\<lambda>(n, bs). n \<noteq> name) d"

definition write_file_atomic ::
    "directory \<Rightarrow> string \<Rightarrow> bytes \<Rightarrow> io_outcome \<Rightarrow> unit result \<times> directory" where
  "write_file_atomic d name bs io =
     (let temporary = name @ ''.tmp'' in
      case io of
        IoDone \<Rightarrow> (Inr (), map_put name bs (remove_file d temporary))
      | IoNotOpened \<Rightarrow> (Inl kStateUnavailable, d)
      | IoFailed c n \<Rightarrow> (Inl c, map_put temporary (take n bs) d))"

definition resize :: "nat \<Rightarrow> bytes \<Rightarrow> bytes" where
  "resize n bs = take n bs @ replicate (n - length bs) 0"

definition truncate_file ::
    "directory \<Rightarrow> string \<Rightarrow> nat \<Rightarrow> bool \<Rightarrow> unit result \<times> directory" where
  "truncate_file d name n works =
     (case map_of d name of
        Some bs \<Rightarrow>
          if works then (Inr (), map_put name (resize n bs) d) else (Inl kAtomicReplaceFailed, d)
      | None \<Rightarrow> (Inl kAtomicReplaceFailed, d))"

definition is_journal :: "string \<Rightarrow> bool" where
  "is_journal name = (take 8 name = ''journal-'')"

definition journal_files :: "directory \<Rightarrow> (string \<times> bytes) list" where
  "journal_files d = filter (\<lambda>(n, bs). is_journal n) d"

section \<open>The ledger\<close>

definition kHeadMagicWord :: u32 where "kHeadMagicWord = 0x31484E57"
definition kHeadVersion :: u16 where "kHeadVersion = 1"
definition kHeadBytes :: nat where "kHeadBytes = 196"
definition kHeadCrcRange :: nat where "kHeadCrcRange = 192"
definition kMaxSegmentBytes :: nat where "kMaxSegmentBytes = 8388608"
definition kMaxLedgerSegments :: nat where "kMaxLedgerSegments = 256"
definition kMaxJournalBytes :: nat where "kMaxJournalBytes = kMaxLedgerSegments * kMaxSegmentBytes"
definition head_path :: string where "head_path = ''head.bin''"
definition snapshot_path :: string where "snapshot_path = ''snapshot.bin''"

record head_record =
  head_format_version :: u16
  head_coordinator :: ident
  head_trust_digest :: digest
  head_epoch :: u64
  head_incarnation :: incarnation
  head_last_sequence :: u64
  head_boot_count :: u64

record ledger =
  led_head :: head_record
  led_chain :: digest
  led_segment :: nat
  led_segment_bytes :: nat
  led_segment_count :: nat
  led_retained_bytes :: nat
  led_open :: bool

definition segment_name :: "nat \<Rightarrow> string" where
  "segment_name segment =
     (let digits = to_string_nat (segment + 1)
      in ''journal-'' @ replicate (5 - length digits) (CHR ''0'') @ digits @ ''.log'')"

subsection \<open>The boot record\<close>

definition head_bytes :: "head_record \<Rightarrow> bytes" where
  "head_bytes h =
     (let fields = write_u32 kHeadMagicWord @ write_u16 kHeadVersion @ write_u16 0 @
            bytes_of (head_coordinator h) @ head_trust_digest h @ write_u64 (head_epoch h) @
            head_incarnation h @ write_u64 (head_last_sequence h) @ write_u64 (head_boot_count h);
          covered = resize kHeadCrcRange fields
      in resize kHeadBytes (covered @ write_u32 (crc32 (take kHeadCrcRange covered))))"

fun find_bytes :: "bytes \<Rightarrow> bytes \<Rightarrow> nat \<Rightarrow> nat option" where
  "find_bytes needle hay i =
     (if take (length needle) hay = needle then Some i
      else case hay of [] \<Rightarrow> None | _ # t \<Rightarrow> find_bytes needle t (Suc i))"

declare find_bytes.simps [simp del]

definition write_head :: "head_record \<Rightarrow> directory \<Rightarrow> io_outcome \<Rightarrow> unit result \<times> directory" where
  "write_head h d io =
     (let header = head_bytes h in
      if length header \<noteq> kHeadBytes \<or>
         find_bytes (bytes_of (head_coordinator h)) header 0 \<noteq> Some 8
        then (Inl kInternalInvariant, d)
      else write_file_atomic d head_path header io)"

text \<open>The checks of a stored boot record: the epoch and boot count of the boot that wrote it.\<close>

definition check_head :: "bytes \<Rightarrow> ident \<Rightarrow> digest \<Rightarrow> (u64 \<times> u64) result" where
  "check_head raw coordinator trust =
     (if length raw \<noteq> kHeadBytes \<or> read_u32 raw \<noteq> kHeadMagicWord then Inl kLedgerCorrupt
      else if read_u16 (drop 4 raw) \<noteq> kHeadVersion then Inl kLedgerIncompatible
      else if read_u32 (drop 192 raw) \<noteq> crc32 (take kHeadCrcRange raw) then Inl kLedgerCorrupt
      else case parse_id (string_of (take kSha256HexChars (drop 8 raw))) of
        None \<Rightarrow> Inl kLedgerCorrupt
      | Some stored \<Rightarrow>
          if stored \<noteq> coordinator then Inl kIndexMismatch
          else if take 32 (drop 72 raw) \<noteq> trust then Inl kPublisherNotTrusted
          else Inr (read_u64 (drop 104 raw), read_u64 (drop 136 raw)))"

definition load_previous :: "directory \<Rightarrow> ident \<Rightarrow> digest \<Rightarrow> (u64 \<times> u64) option result" where
  "load_previous d coordinator trust =
     (case read_file d head_path kHeadBytes of
        Inl c \<Rightarrow> if c = kStateUnavailable then Inr None else Inl c
      | Inr raw \<Rightarrow> rbind (check_head raw coordinator trust) (\<lambda>p. Inr (Some p)))"

subsection \<open>Reading\<close>

definition read_frames :: "directory \<Rightarrow> (ledger_record list \<times> recovery_report) result" where
  "read_frames d =
     rbind (scan_segments
         (map (\<lambda>(n, bs). if length bs > kMaxSegmentBytes + 1 then Inl kLedgerOversized else Inr bs)
           (journal_files d)) scan_start)
       (\<lambda>st. Inr (scan_records st,
          (scan_report st)\<lparr>rep_valid_records := length (scan_records st)\<rparr>))"

definition read_all :: "directory \<Rightarrow> (ledger_record list \<times> recovery_report) result" where
  "read_all d = read_frames d"

definition read_after :: "directory \<Rightarrow> u64 \<Rightarrow> (ledger_record list \<times> recovery_report) result" where
  "read_after d sequence =
     rbind (read_frames d) (\<lambda>(rs, report). Inr (filter (\<lambda>r. rec_sequence r > sequence) rs, report))"

subsection \<open>Opening\<close>

definition repair_tail :: "directory \<Rightarrow> recovery_report \<Rightarrow> bool \<Rightarrow> unit result \<times> directory" where
  "repair_tail d scan works =
     (if rep_truncated_bytes scan = 0 then (Inr (), d)
      else
        (let names = map fst (journal_files d);
             kept = (if length names > rep_excess_segments scan
                     then length names - rep_excess_segments scan else length names);
             (r, d') = (if kept > 0 then truncate_file d (names ! (kept - 1)) (rep_valid_bytes scan) works
                        else (Inr (), d))
         in case r of
              Inl c \<Rightarrow> (Inl c, d')
            | Inr _ \<Rightarrow> (Inr (), fold (\<lambda>n d. remove_file d n) (drop kept names) d')))"

definition is_space :: "char \<Rightarrow> bool" where
  "is_space c = (c = CHR '' '' \<or> CHR 0x09 \<le> c \<and> c \<le> CHR 0x0D)"

text \<open>\<^verbatim>\<open>std::stoul\<close> on at most five characters, \<^verbatim>\<open>None\<close> where it throws.\<close>

definition stoul :: "string \<Rightarrow> nat option" where
  "stoul s =
     (let t = dropWhile is_space s;
          negative = (t \<noteq> [] \<and> hd t = CHR ''-'');
          u = (if t \<noteq> [] \<and> (hd t = CHR ''-'' \<or> hd t = CHR ''+'') then tl t else t);
          digits = takeWhile is_digit u
      in if digits = [] then None
         else Some (if negative then (2 ^ 64 - nat_of_digits digits) mod 2 ^ 64
                    else nat_of_digits digits))"

definition discover_file :: "string \<times> bytes \<Rightarrow> ledger \<Rightarrow> code + ledger" where
  "discover_file f l =
     (if \<not> is_journal (fst f) \<or> length (fst f) < 12 then Inr l
      else
        (let l1 = l\<lparr>led_segment_count := Suc (led_segment_count l),
                    led_retained_bytes := led_retained_bytes l + length (snd f)\<rparr>
         in case stoul (take 5 (drop 8 (fst f))) of
              None \<Rightarrow> Inl kLedgerCorrupt
            | Some index \<Rightarrow>
                Inr (if index \<ge> led_segment l1 + 1 then l1\<lparr>led_segment := index - 1\<rparr> else l1)))"

definition discover_layout :: "directory \<Rightarrow> ledger \<Rightarrow> ledger result" where
  "discover_layout d l =
     rbind (efold discover_file d l) (\<lambda>l1.
     Inr (case map_of d (segment_name (led_segment l1)) of
            Some bs \<Rightarrow> l1\<lparr>led_segment_bytes := length bs\<rparr>
          | None \<Rightarrow> l1))"

record open_io =
  io_truncate :: bool
  io_head :: io_outcome
  io_drawn :: bytes

definition new_head :: "ident \<Rightarrow> digest \<Rightarrow> (u64 \<times> u64) option \<Rightarrow> bytes \<Rightarrow> head_record" where
  "new_head coordinator trust previous drawn =
     \<lparr>head_format_version = kHeadVersion, head_coordinator = coordinator,
      head_trust_digest = trust,
      head_epoch = (case previous of Some (epoch, boot) \<Rightarrow> epoch | None \<Rightarrow> 0) + 1,
      head_incarnation = new_incarnation drawn, head_last_sequence = 0,
      head_boot_count = (case previous of Some (epoch, boot) \<Rightarrow> boot | None \<Rightarrow> 0) + 1\<rparr>"

definition ledger_open ::
    "directory \<Rightarrow> ident \<Rightarrow> digest \<Rightarrow> open_io \<Rightarrow> (ledger \<times> recovery_report) result \<times> directory" where
  "ledger_open d coordinator trust io =
     (case load_previous d coordinator trust of
        Inl c \<Rightarrow> (Inl c, d)
      | Inr previous \<Rightarrow>
          if previous = None \<and> journal_files d \<noteq> [] then (Inl kRecoveryRequired, d)
          else case read_frames d of
            Inl c \<Rightarrow> (Inl c, d)
          | Inr (records, scan) \<Rightarrow>
              (let l0 = \<lparr>led_head = (new_head coordinator trust previous (io_drawn io))
                           \<lparr>head_last_sequence := rep_last_valid_sequence scan\<rparr>,
                         led_chain = (if records = [] then zero_digest else rec_chain (last records)),
                         led_segment = 0, led_segment_bytes = 0, led_segment_count = 0,
                         led_retained_bytes = 0, led_open = False\<rparr>;
                   recovery = scan\<lparr>rep_recovered := rep_recovered scan \<or> previous = None\<rparr>;
                   (repaired, d1) = repair_tail d scan (io_truncate io)
               in case repaired of
                    Inl c \<Rightarrow> (Inl c, d1)
                  | Inr _ \<Rightarrow>
                      (case discover_layout d1 l0 of
                         Inl c \<Rightarrow> (Inl c, d1)
                       | Inr l1 \<Rightarrow>
                           (let l2 = l1\<lparr>led_open := True\<rparr>;
                                (written, d2) = write_head (led_head l2) d1 (io_head io)
                            in case written of
                                 Inl c \<Rightarrow> (Inl c, d2)
                               | Inr _ \<Rightarrow> (Inr (l2, recovery), d2)))))"

subsection \<open>Appending\<close>

definition rotate_segment :: "ledger \<Rightarrow> ledger result" where
  "rotate_segment l =
     (if led_segment_count l \<ge> kMaxLedgerSegments then Inl kLedgerOversized
      else Inr (l\<lparr>led_segment := Suc (led_segment l), led_segment_bytes := 0,
                  led_segment_count := Suc (led_segment_count l)\<rparr>))"

definition append_frame ::
    "ledger \<Rightarrow> directory \<Rightarrow> u16 \<Rightarrow> string \<Rightarrow> io_outcome \<Rightarrow> u64 result \<times> ledger \<times> directory" where
  "append_frame l d t payload io =
     (let sequence = head_last_sequence (led_head l) + 1;
          (frame, chain, payload_digest) = build_frame t sequence payload (led_chain l);
          (r, d') = append_file_flushed d (segment_name (led_segment l)) frame io
      in case r of
           Inl c \<Rightarrow> (Inl c, l, d')
         | Inr _ \<Rightarrow>
             (Inr sequence,
              l\<lparr>led_head := (led_head l)\<lparr>head_last_sequence := sequence\<rparr>, led_chain := chain,
                led_segment_bytes := led_segment_bytes l + length frame,
                led_retained_bytes := led_retained_bytes l + length frame\<rparr>, d'))"

definition ledger_append ::
    "ledger \<Rightarrow> directory \<Rightarrow> u16 \<Rightarrow> string \<Rightarrow> io_outcome \<Rightarrow> u64 result \<times> ledger \<times> directory" where
  "ledger_append l d t payload io =
     (let total = kFrameHeaderBytes + length payload in
      if \<not> led_open l then (Inl kStateUnavailable, l, d)
      else if length payload > kMaxRecordBytes then (Inl kLedgerOversized, l, d)
      else if total > kMaxSegmentBytes then (Inl kLedgerOversized, l, d)
      else
        (case (if led_segment_bytes l + total > kMaxSegmentBytes then rotate_segment l else Inr l) of
           Inl c \<Rightarrow> (Inl c, l, d)
         | Inr l1 \<Rightarrow>
             if led_retained_bytes l1 + total > kMaxJournalBytes then (Inl kLedgerOversized, l1, d)
             else append_frame l1 d t payload io))"

section \<open>Snapshots and truncation\<close>

record snapshot =
  snap_sequence :: u64
  snap_epoch :: u64
  snap_payload :: string

definition kSnapshotHeaderBytes :: nat where "kSnapshotHeaderBytes = 128"
definition kSnapshotReserved :: nat where "kSnapshotReserved = 64"
definition kSnapshotMagic :: u32 where "kSnapshotMagic = 0x31534E57"
definition kSnapshotVersion :: u16 where "kSnapshotVersion = 1"

definition snapshot_bytes :: "snapshot \<Rightarrow> bytes" where
  "snapshot_bytes s =
     (let fields = write_u32 kSnapshotMagic @ write_u16 kSnapshotVersion @ write_u16 0 @
            write_u64 (snap_epoch s) @ write_u64 (snap_sequence s) @ digest_of (snap_payload s);
          header = resize kSnapshotHeaderBytes (resize (kSnapshotHeaderBytes - kSnapshotReserved) fields)
      in take 92 header @ write_u32 (crc32 (take 92 header)) @ drop 96 header @
         bytes_of (snap_payload s))"

definition write_snapshot ::
    "ledger \<Rightarrow> directory \<Rightarrow> snapshot \<Rightarrow> io_outcome \<Rightarrow> unit result \<times> directory" where
  "write_snapshot l d s io =
     (if snap_sequence s > head_last_sequence (led_head l) then (Inl kRecoveryRequired, d)
      else write_file_atomic d snapshot_path (snapshot_bytes s) io)"

definition read_snapshot :: "directory \<Rightarrow> snapshot option result" where
  "read_snapshot d =
     (case read_file d snapshot_path (kMaxDocumentBytes + kSnapshotHeaderBytes) of
        Inl c \<Rightarrow> if c = kStateUnavailable then Inr None else Inl c
      | Inr bs \<Rightarrow>
          if length bs < kSnapshotHeaderBytes then Inl kSnapshotInvalid
          else if read_u32 bs \<noteq> kSnapshotMagic then Inl kSnapshotInvalid
          else if read_u16 (drop 4 bs) \<noteq> kSnapshotVersion then Inl kLedgerIncompatible
          else if crc32 (take 92 bs) \<noteq> read_u32 (drop 92 bs) then Inl kSnapshotInvalid
          else
            (let payload = string_of (drop kSnapshotHeaderBytes bs) in
             if digest_of payload \<noteq> take 32 (drop 24 bs) then Inl kSnapshotInvalid
             else Inr (Some \<lparr>snap_sequence = read_u64 (drop 16 bs),
                             snap_epoch = read_u64 (drop 8 bs), snap_payload = payload\<rparr>)))"

text \<open>
  \<^verbatim>\<open>truncate_to\<close>: the frame of a sequence is found by counting frames; the result is the
  offset after it and its link.
\<close>

function locate_frame :: "bytes \<Rightarrow> nat \<Rightarrow> nat \<Rightarrow> nat \<Rightarrow> (nat \<times> digest) + nat" where
  "locate_frame rest offset running wanted =
     (case (if rest = [] then Inl kLedgerTruncated else parse_frame rest) of
        Inl c \<Rightarrow> Inr running
      | Inr (r, consumed) \<Rightarrow>
          if Suc running = wanted then Inl (offset + consumed, rec_chain r)
          else locate_frame (drop consumed rest) (offset + consumed) (Suc running) wanted)"
  by auto
termination
  by (relation "measure (\<lambda>(rest, offset, running, wanted). length rest)")
    (auto dest: parse_frame_consumes split: if_splits)

declare locate_frame.simps [simp del]

fun locate_segment ::
    "(string \<times> bytes) list \<Rightarrow> nat \<Rightarrow> nat \<Rightarrow> ((string \<times> string list) \<times> nat \<times> digest) option result" where
  "locate_segment [] running wanted = Inr None"
| "locate_segment ((name, bs) # fs) running wanted =
     (if length bs > kMaxSegmentBytes + 1 then Inl kLedgerOversized
      else case locate_frame bs 0 running wanted of
        Inl (offset, link) \<Rightarrow> Inr (Some ((name, map fst fs), offset, link))
      | Inr running' \<Rightarrow> locate_segment fs running' wanted)"

definition truncate_to ::
    "ledger \<Rightarrow> directory \<Rightarrow> u64 \<Rightarrow> open_io \<Rightarrow> unit result \<times> ledger \<times> directory" where
  "truncate_to l d sequence io =
     (case read_frames d of
        Inl c \<Rightarrow> (Inl c, l, d)
      | Inr _ \<Rightarrow>
          (case locate_segment (journal_files d) 0 (unat sequence) of
             Inl c \<Rightarrow> (Inl c, l, d)
           | Inr None \<Rightarrow> (Inl kIndexGapDetected, l, d)
           | Inr (Some ((name, later), offset, link)) \<Rightarrow>
               (let (r, d1) = truncate_file d name offset (io_truncate io) in
                case r of
                  Inl c \<Rightarrow> (Inl c, l, d1)
                | Inr _ \<Rightarrow>
                    (let l1 = l\<lparr>led_head := (led_head l)\<lparr>head_last_sequence := sequence\<rparr>,
                                led_chain := link,
                                led_segment_count := led_segment_count l - length later\<rparr>;
                         d2 = fold (\<lambda>n d. remove_file d n) later d1;
                         (written, d3) = write_head (led_head l1) d2 (io_head io)
                     in (written, l1, d3)))))"

end
