(* ===== verification/Wnc_Journal.thy ===== *)
theory Wnc_Journal
  imports Wnc_Ledger
begin

text \<open>
  What a state directory stores and what the ledger makes of it: the names of segments, the
  journal files of a directory, the scan of several segments, the boot record, repair, discovery
  of the layout, opening and appending, each as a lemma on the predicates \<^verbatim>\<open>stored\<close> (the directory)
  and \<^verbatim>\<open>continues\<close> (an open ledger and its directory). The interface of an append-only journal is
  the locale \<^verbatim>\<open>journal\<close>; the ledger interprets it.
\<close>

section \<open>Names of segments\<close>

definition max_segments :: nat where "max_segments = 257"

lemma digit_char_less: "a < 10 \<Longrightarrow> b < 10 \<Longrightarrow> digit_char a < digit_char b \<longleftrightarrow> a < b"
  by (simp add: less_char_def of_char_digit_char)

lemma zero_char: "CHR ''0'' = digit_char 0"
  by (simp add: digit_char_def char_of_eq_iff [of _ "CHR ''0''", symmetric] eq_commute [of "CHR ''0''"] char_of_eq_iff)

lemma digit_char_eq: "a < 10 \<Longrightarrow> b < 10 \<Longrightarrow> digit_char a = digit_char b \<longleftrightarrow> a = b"
  by (metis digit_char_digit)

lemma replicates: "replicate 4 x = [x, x, x, x]" "replicate 3 x = [x, x, x]" "replicate 2 x = [x, x]"
  by (simp_all add: numeral_eq_Suc)

lemma three_digits: "100 * (n div 100) + 10 * (n div 10 mod 10) + n mod 10 = n" for n :: nat
proof -
  have "n div 100 = n div 10 div 10" by (simp add: div_mult2_eq [symmetric])
  moreover have "10 * (n div 10 div 10) + n div 10 mod 10 = n div 10" by simp
  moreover have "10 * (n div 10) + n mod 10 = n" by simp
  ultimately show ?thesis by linarith
qed

text \<open>Up to three digits, which is enough for the segments a ledger can reach.\<close>

lemma segment_name_digits:
  assumes "i < max_segments"
  shows "segment_name i = ''journal-00'' @
    map digit_char [Suc i div 100, Suc i div 10 mod 10, Suc i mod 10] @ ''.log''"
proof -
  define n where "n = Suc i"
  have n: "n < 1000" using assms by (simp add: n_def max_segments_def)
  consider "n < 10" | "10 \<le> n" "n < 100" | "100 \<le> n" by linarith
  then have "replicate (5 - length (to_string_nat n)) (CHR ''0'') @ to_string_nat n =
      ''00'' @ map digit_char [n div 100, n div 10 mod 10, n mod 10]"
  proof cases
    case 1
    then show ?thesis by (simp add: to_string_nat_small replicates zero_char)
  next
    case 2
    then have "n div 10 < 10" by simp
    with 2 show ?thesis by (simp add: to_string_nat_small to_string_nat_step replicates zero_char)
  next
    case 3
    then have "n div 10 \<ge> 10" "n div 10 div 10 < 10" "n div 10 div 10 = n div 100"
      using n by (simp_all add: div_mult2_eq [symmetric])
    with 3 show ?thesis by (simp add: to_string_nat_small to_string_nat_step replicates zero_char)
  qed
  then show ?thesis by (simp add: segment_name_def Let_def n_def)
qed

lemma digits_less:
  fixes a b c a' b' c' :: nat
  assumes "100 * a + 10 * b + c < 100 * a' + 10 * b' + c'" "b < 10" "c < 10" "b' < 10" "c' < 10"
  shows "a < a' \<or> a = a' \<and> (b < b' \<or> b = b' \<and> c < c')"
  using assms by linarith

lemma segment_name_less:
  assumes "i < j" "j < max_segments"
  shows "segment_name i < segment_name j"
proof -
  let ?n = "Suc i" and ?m = "Suc j"
  have bounds: "?n div 100 < 10" "?m div 100 < 10" using assms by (simp_all add: max_segments_def)
  have "?n div 100 < ?m div 100 \<or> ?n div 100 = ?m div 100 \<and>
      (?n div 10 mod 10 < ?m div 10 mod 10 \<or>
       ?n div 10 mod 10 = ?m div 10 mod 10 \<and> ?n mod 10 < ?m mod 10)"
    using assms(1) three_digits [of ?n] three_digits [of ?m] by (intro digits_less) simp_all
  then show ?thesis
    using assms bounds
    by (simp add: segment_name_digits) (auto simp: digit_char_less digit_char_eq)
qed

lemma stoul_digits:
  assumes "list_all (\<lambda>d. d < 10) (d # ds)"
  shows "stoul (map digit_char (d # ds)) = Some (foldl (\<lambda>n d. n * 10 + d) 0 (d # ds))"
proof -
  have digits: "list_all is_digit (map digit_char (d # ds))"
    using assms digit_char_digit by (auto simp: list_all_iff)
  then have "takeWhile is_digit (map digit_char (d # ds)) = map digit_char (d # ds)"
    by (auto simp: list_all_iff)
  moreover have "is_digit (digit_char d)" using digits by simp
  then have "\<not> is_space (digit_char d)" "digit_char d \<noteq> CHR ''-''" "digit_char d \<noteq> CHR ''+''"
    by (auto simp: is_digit_def is_space_def less_eq_char_def)
  moreover
  have "nat_of_digits (map digit_char ds') = foldl (\<lambda>n d. n * 10 + d) 0 ds'"
    if "list_all (\<lambda>d. d < 10) ds'" for ds'
    unfolding nat_of_digits_def foldl_map
    using that by (intro foldl_cong) (auto simp: list_all_iff digit_char_digit)
  from this [of "d # ds"] have "nat_of_digits (map digit_char (d # ds)) = foldl (\<lambda>n d. n * 10 + d) 0 (d # ds)"
    using assms .
  ultimately show ?thesis by (simp add: stoul_def Let_def)
qed

lemma segment_name_stoul:
  assumes "i < max_segments"
  shows "stoul (take 5 (drop 8 (segment_name i))) = Some (Suc i)"
proof -
  let ?ds = "[0, 0, Suc i div 100, Suc i div 10 mod 10, Suc i mod 10]"
  have "take 5 (drop 8 (segment_name i)) = map digit_char ?ds"
    using assms by (simp add: segment_name_digits zero_char)
  moreover have "list_all (\<lambda>d. d < 10) ?ds" using assms by (simp add: max_segments_def)
  moreover have "foldl (\<lambda>n d. n * 10 + d) 0 ?ds = Suc i"
    using three_digits [of "Suc i"] by simp
  ultimately show ?thesis by (simp only: stoul_digits)
qed

lemma length_segment_name: "i < max_segments \<Longrightarrow> length (segment_name i) = 17"
  by (simp add: segment_name_digits)

lemma is_journal_segment [simp]: "is_journal (segment_name i)"
  by (simp add: is_journal_def segment_name_def Let_def)

lemma not_journal [simp]:
  "\<not> is_journal head_path" "\<not> is_journal snapshot_path"
  "\<not> is_journal (head_path @ ''.tmp'')" "\<not> is_journal (snapshot_path @ ''.tmp'')"
  by (simp_all add: is_journal_def head_path_def snapshot_path_def)

section \<open>The journal files of a directory\<close>

lemma journal_files_other [simp]:
  "\<not> is_journal n \<Longrightarrow> journal_files (map_put n bs d) = journal_files d"
  "\<not> is_journal n \<Longrightarrow> journal_files (remove_file d n) = journal_files d"
  by (induction d) (auto simp: journal_files_def remove_file_def)

lemma journal_files_put:
  "is_journal n \<Longrightarrow> ascending d \<Longrightarrow> journal_files (map_put n bs d) = map_put n bs (journal_files d)"
proof (induction d)
  case (Cons f d)
  then show ?case
  proof (cases "n < fst f")
    case True
    then have "\<forall>k\<in>set (map fst (journal_files (f # d))). n < k"
      using Cons.prems by (auto simp: journal_files_def)
    then have "map_put n bs (journal_files (f # d)) = (n, bs) # journal_files (f # d)"
      by (cases "journal_files (f # d)") auto
    with True Cons.prems show ?thesis by (simp add: journal_files_def)
  next
    case False
    then show ?thesis using Cons by (auto simp: journal_files_def)
  qed
qed (simp add: journal_files_def)

lemma map_of_journal_files: "is_journal n \<Longrightarrow> map_of (journal_files d) n = map_of d n"
  by (induction d) (auto simp: journal_files_def)

lemma ascending_remove [simp]: "ascending d \<Longrightarrow> ascending (remove_file d n)"
  unfolding remove_file_def by (induction d) auto

lemma map_of_remove: "map_of (remove_file d n) k = (if k = n then None else map_of d k)"
  by (induction d) (auto simp: remove_file_def)

lemma ascending_journal_files: "ascending d \<Longrightarrow> ascending (journal_files d)"
  unfolding journal_files_def by (induction d) auto

lemma map_put_last:
  "(\<And>k. k \<in> fst ` set m \<Longrightarrow> k < n) \<Longrightarrow> map_put n bs (m @ [(n, old)]) = m @ [(n, bs)]"
  by (induction m) force+

section \<open>Segments of a journal\<close>

type_synonym entry = "u16 \<times> string"

fun segment_files :: "nat \<Rightarrow> digest \<Rightarrow> u64 \<Rightarrow> entry list list \<Rightarrow> (string \<times> bytes) list" where
  "segment_files i link s [] = []"
| "segment_files i link s (es # ess) =
     (segment_name i, journal_bytes link s es) #
     segment_files (Suc i) (journal_chain link s es) (s + of_nat (length es)) ess"

lemma segment_files_append:
  "segment_files i link s (ess @ fss) =
     segment_files i link s ess @
     segment_files (i + length ess) (journal_chain link s (concat ess))
       (s + of_nat (length (concat ess))) fss"
  by (induction ess arbitrary: i link s) (auto simp: journal_append algebra_simps)

lemma segment_files_names: "map fst (segment_files i link s ess) = map segment_name [i..<i + length ess]"
  by (induction ess arbitrary: i link s) (auto simp: upt_conv_Cons simp del: upt_Suc)

lemma segment_files_below:
  assumes "length ess < max_segments" "k \<in> fst ` set (segment_files 0 link s ess)"
  shows "k < segment_name (length ess)"
proof -
  have "k \<in> set (map segment_name [0..<0 + length ess])"
    using assms(2) unfolding segment_files_names [of 0 link s ess, symmetric] by simp
  then show ?thesis using assms(1) by (auto intro: segment_name_less)
qed

definition segment_size :: "entry list \<Rightarrow> nat" where
  "segment_size es = sum_list (map (\<lambda>(t, p). 92 + length p) es)"

lemma length_journal_bytes:
  "length link = 32 \<Longrightarrow> length (journal_bytes link s es) = segment_size es"
  by (induction es arbitrary: link s) (auto simp: segment_size_def length_frame_bytes)

definition segment_ok :: "entry list \<Rightarrow> bool" where
  "segment_ok es \<longleftrightarrow> entries_fit es \<and> segment_size es \<le> kMaxSegmentBytes"

section \<open>Scanning segments\<close>

definition scan_files :: "entry list list \<Rightarrow> scan_state \<Rightarrow> scan_state" where
  "scan_files ess st = fold (\<lambda>es. scan_journal es 0) ess st"

abbreviation loaded :: "string \<times> bytes \<Rightarrow> bytes result" where
  "loaded f \<equiv> (case f of (n, bs) \<Rightarrow>
     if length bs > kMaxSegmentBytes + 1 then Inl kLedgerOversized else Inr bs)"

lemma scan_files_fields:
  "scan_records (scan_files ess st) =
     scan_records st @ journal_records (scan_previous st) (scan_expected st) (concat ess)"
  "scan_previous (scan_files ess st) = journal_chain (scan_previous st) (scan_expected st) (concat ess)"
  "scan_expected (scan_files ess st) = scan_expected st + of_nat (length (concat ess))"
  "scan_torn (scan_files ess st) = scan_torn st"
  "rep_truncated_bytes (scan_report (scan_files ess st)) = rep_truncated_bytes (scan_report st)"
  "rep_excess_segments (scan_report (scan_files ess st)) = rep_excess_segments (scan_report st)"
  "rep_recovered (scan_report (scan_files ess st)) = rep_recovered (scan_report st)"
  by (induction ess arbitrary: st)
    (auto simp: scan_files_def scan_journal_fields journal_append algebra_simps)

lemma scan_files_sequence:
  "rep_last_valid_sequence (scan_report st) = scan_expected st - 1 \<Longrightarrow>
   rep_last_valid_sequence (scan_report (scan_files ess st)) = scan_expected (scan_files ess st) - 1"
  by (induction ess arbitrary: st) (auto simp: scan_files_def scan_journal_sequence)

lemma scan_segments_files:
  assumes "length (scan_previous st) = 32" "list_all segment_ok ess" "\<not> scan_torn st"
  shows "scan_segments (map loaded (segment_files i (scan_previous st) (scan_expected st) ess) @ later) st =
    scan_segments later (scan_files ess st)"
  using assms
proof (induction ess arbitrary: st i)
  case (Cons es ess)
  let ?st = "scan_journal es 0 st"
  have "length (journal_bytes (scan_previous st) (scan_expected st) es) \<le> kMaxSegmentBytes"
    using Cons.prems by (simp add: length_journal_bytes segment_ok_def)
  moreover have "scan_segment (journal_bytes (scan_previous st) (scan_expected st) es) 0 st = Inr ?st"
    using scan_segment_journal [OF Cons.prems(1), of es "[]" 0] Cons.prems(2)
    by (simp add: segment_ok_def scan_segment_end)
  moreover have "length (scan_previous ?st) = 32" "\<not> scan_torn ?st"
    using Cons.prems by (simp_all add: scan_journal_fields length_journal_chain)
  ultimately show ?case
    using Cons.IH [of ?st "Suc i"] Cons.prems
    by (simp add: scan_files_def scan_journal_fields rbind_def)
qed (simp add: scan_files_def)

section \<open>What a directory stores\<close>

text \<open>
  The entries of the full segments and of the last one, and the bytes after the last complete
  frame. The file of a last segment with nothing in it may not exist yet.
\<close>

abbreviation genesis_chain :: "entry list \<Rightarrow> digest" where
  "genesis_chain es \<equiv> journal_chain zero_digest 1 es"

definition retained :: "entry list list \<Rightarrow> nat" where
  "retained ess = sum_list (map segment_size ess)"

definition stored :: "directory \<Rightarrow> entry list list \<Rightarrow> entry list \<Rightarrow> bytes \<Rightarrow> bool" where
  "stored d fs es tail \<longleftrightarrow>
     ascending d \<and> length fs < max_segments \<and> list_all segment_ok (fs @ [es]) \<and>
     segment_size es + length tail \<le> kMaxSegmentBytes \<and>
     retained (fs @ [es]) + length tail \<le> kMaxJournalBytes \<and>
     (journal_files d = segment_files 0 zero_digest 1 fs @
        [(segment_name (length fs),
          journal_bytes (genesis_chain (concat fs)) (1 + of_nat (length (concat fs))) es @ tail)] \<or>
      es = [] \<and> tail = [] \<and> journal_files d = segment_files 0 zero_digest 1 fs)"

lemma length_genesis_chain [simp]: "length (genesis_chain es) = 32"
  by (simp add: length_journal_chain)

lemma scan_start_fields:
  "scan_previous scan_start = zero_digest" "scan_expected scan_start = 1"
  "scan_records scan_start = []" "\<not> scan_torn scan_start" "scan_report scan_start = empty_report"
  by (simp_all add: scan_start_def)

definition finish_scan :: "scan_state \<Rightarrow> (ledger_record list \<times> recovery_report) result" where
  "finish_scan st = Inr (scan_records st, (scan_report st)\<lparr>rep_valid_records := length (scan_records st)\<rparr>)"

abbreviation scanned :: "entry list list \<Rightarrow> scan_state" where
  "scanned ess \<equiv> scan_files ess scan_start"

lemma scan_files_snoc: "scan_files (fs @ [es]) st = scan_journal es 0 (scan_files fs st)"
  by (simp add: scan_files_def)

lemma read_stored:
  assumes "stored d fs es tail"
  shows "read_frames d = rbind (scan_segment tail (segment_size es) (scanned (fs @ [es]))) finish_scan"
proof -
  let ?st = "scanned fs"
  have ok: "list_all segment_ok fs" "entries_fit es" "segment_size es + length tail \<le> kMaxSegmentBytes"
    using assms by (auto simp: stored_def segment_ok_def)
  have st: "scan_previous ?st = genesis_chain (concat fs)" "\<not> scan_torn ?st"
    "scan_expected ?st = 1 + of_nat (length (concat fs))"
    by (simp_all add: scan_files_fields scan_start_fields)
  have files: "scan_segments (map loaded (segment_files 0 zero_digest 1 fs) @ later) scan_start =
      scan_segments later ?st" for later
    using scan_segments_files [of scan_start fs 0 later] ok(1) by (simp add: scan_start_fields)
  have read: "read_frames d = rbind (scan_segments (map loaded (journal_files d)) scan_start) finish_scan"
    unfolding read_frames_def finish_scan_def ..
  let ?bytes = "journal_bytes (scan_previous ?st) (scan_expected ?st) es"
  have len: "length ?bytes = segment_size es" by (rule length_journal_bytes) (simp add: st)
  have seg: "scan_segment (?bytes @ tail) 0 ?st =
      scan_segment tail (segment_size es) (scanned (fs @ [es]))"
    using scan_segment_journal [of ?st es tail 0] ok(2) len by (simp add: st scan_files_snoc)
  consider "journal_files d = segment_files 0 zero_digest 1 fs @ [(segment_name (length fs), ?bytes @ tail)]"
    | "es = []" "tail = []" "journal_files d = segment_files 0 zero_digest 1 fs"
    using assms unfolding stored_def st by blast
  then show ?thesis
  proof cases
    case 1
    have "loaded (segment_name (length fs), ?bytes @ tail) = Inr (?bytes @ tail)"
      using len ok(3) by simp
    then have "scan_segments (map loaded (journal_files d)) scan_start =
        rbind (scan_segment tail (segment_size es) (scanned (fs @ [es]))) Inr"
      unfolding 1 map_append files using st(2) seg by (simp add: rbind_def split: sum.split)
    then show ?thesis unfolding read by (simp add: rbind_def split: sum.split)
  next
    case 2
    then have "scan_segments (map loaded (journal_files d)) scan_start = Inr (scanned (fs @ [es]))"
      using files [of "[]"] by (simp add: scan_files_snoc)
    then show ?thesis unfolding read using 2(2) by (simp add: rbind_def scan_segment_end)
  qed
qed

text \<open>A proper prefix of the frame that would come next.\<close>

definition torn :: "entry list \<Rightarrow> bytes \<Rightarrow> bool" where
  "torn es tail \<longleftrightarrow>
     (\<exists>t p n link. length link = 32 \<and> length p \<le> kMaxRecordBytes \<and>
        tail = take n (frame_bytes t (1 + of_nat (length es)) p link) \<and> n < 92 + length p)"

lemma torn_Nil [simp]: "torn es []"
  by (auto simp: torn_def intro!: exI [of _ "[]"] exI [of _ 0] exI [of _ zero_digest])

definition clean_report :: "entry list list \<Rightarrow> recovery_report" where
  "clean_report ess = (scan_report (scanned ess))\<lparr>rep_valid_records := length (concat ess)\<rparr>"

lemma clean_report_fields:
  "rep_truncated_bytes (clean_report ess) = 0" "rep_excess_segments (clean_report ess) = 0"
  "\<not> rep_recovered (clean_report ess)" "rep_valid_records (clean_report ess) = length (concat ess)"
  "rep_last_valid_sequence (clean_report ess) = of_nat (length (concat ess))"
  using scan_files_sequence [of scan_start ess]
  by (simp_all add: clean_report_def scan_files_fields scan_start_fields empty_report_def)

definition torn_report :: "entry list list \<Rightarrow> bytes \<Rightarrow> recovery_report" where
  "torn_report ess tail =
     (if tail = [] then clean_report ess
      else (clean_report ess)\<lparr>rep_recovered := True, rep_truncated_bytes := length tail,
             rep_valid_bytes := segment_size (last ess)\<rparr>)"

lemma torn_report_fields:
  "rep_truncated_bytes (torn_report ess tail) = length tail"
  "rep_excess_segments (torn_report ess tail) = 0"
  "rep_recovered (torn_report ess tail) \<longleftrightarrow> tail \<noteq> []"
  "rep_valid_records (torn_report ess tail) = length (concat ess)"
  "rep_last_valid_sequence (torn_report ess tail) = of_nat (length (concat ess))"
  "tail \<noteq> [] \<Longrightarrow> rep_valid_bytes (torn_report ess tail) = segment_size (last ess)"
  by (simp_all add: torn_report_def clean_report_fields)

lemma read_stored_torn:
  assumes "stored d fs es tail" "torn (concat (fs @ [es])) tail"
  shows "read_frames d =
    Inr (journal_records zero_digest 1 (concat (fs @ [es])), torn_report (fs @ [es]) tail)"
proof -
  let ?st = "scanned (fs @ [es])"
  have finish: "finish_scan (?st\<lparr>scan_report := r, scan_torn := b\<rparr>) =
      Inr (journal_records zero_digest 1 (concat (fs @ [es])),
        r\<lparr>rep_valid_records := length (concat (fs @ [es]))\<rparr>)" for r b
    by (simp add: finish_scan_def scan_files_fields scan_start_fields)
  show ?thesis
  proof (cases "tail = []")
    case True
    have "finish_scan ?st = Inr (journal_records zero_digest 1 (concat (fs @ [es])), clean_report (fs @ [es]))"
      by (simp add: finish_scan_def scan_files_fields scan_start_fields clean_report_def)
    then show ?thesis using read_stored [OF assms(1)] True
      by (simp add: scan_segment_end rbind_def torn_report_def)
  next
    case False
    obtain t p n link where tail: "length link = 32" "length p \<le> kMaxRecordBytes"
      "tail = take n (frame_bytes t (1 + of_nat (length (concat (fs @ [es])))) p link)" "n < 92 + length p"
      using assms(2) unfolding torn_def by blast
    have n: "0 < n" "n < length (frame_bytes t (1 + of_nat (length (concat (fs @ [es])))) p link)"
      using tail False by (auto simp: length_frame_bytes intro: ccontr)
    then have len: "length tail = n" using tail(3) by simp
    have "scan_segment tail (segment_size es) ?st =
        Inr (?st\<lparr>scan_report := (scan_report ?st)\<lparr>rep_recovered := True, rep_truncated_bytes := n,
          rep_valid_bytes := segment_size es\<rparr>, scan_torn := True\<rparr>)"
      unfolding tail(3) by (rule scan_segment_torn [OF tail(1,2) n])
    then show ?thesis
      using read_stored [OF assms(1)] False finish len
      by (simp add: rbind_def torn_report_def clean_report_def)
  qed
qed

lemma read_stored_bad_link:
  assumes "stored d fs es (frame_bytes t (1 + of_nat (length (concat (fs @ [es])))) p link)"
    "length link = 32" "length p \<le> kMaxRecordBytes" "link \<noteq> genesis_chain (concat (fs @ [es]))"
  shows "read_frames d = Inl kLedgerCorrupt"
proof -
  let ?st = "scanned (fs @ [es])"
  have "scan_expected ?st = 1 + of_nat (length (concat (fs @ [es])))"
    "scan_previous ?st = genesis_chain (concat (fs @ [es]))"
    by (simp_all add: scan_files_fields scan_start_fields)
  then show ?thesis
    using read_stored [OF assms(1)] scan_segment_bad_link [OF assms(2,3), of ?st t "[]"] assms(4)
    by (simp add: rbind_def)
qed

section \<open>Writing to the last segment\<close>

lemma stored_last:
  assumes "stored d fs es tail"
  shows "contents d (segment_name (length fs)) =
    journal_bytes (genesis_chain (concat fs)) (1 + of_nat (length (concat fs))) es @ tail"
proof -
  have below: "segment_name (length fs) \<notin> fst ` set (segment_files 0 zero_digest 1 fs)"
    using segment_files_below [of fs "segment_name (length fs)"] assms by (auto simp: stored_def)
  have "map_of d (segment_name (length fs)) = map_of (journal_files d) (segment_name (length fs))"
    by (simp add: map_of_journal_files)
  moreover have "map_of (segment_files 0 zero_digest 1 fs) (segment_name (length fs)) = None"
    using below by (simp add: map_of_eq_None_iff)
  ultimately show ?thesis
    using assms by (auto simp: stored_def contents_def map_add_def)
qed

text \<open>Replacing what follows the complete frames.\<close>

lemma stored_put:
  assumes "stored d fs es tail" "segment_size es + length tail' \<le> kMaxSegmentBytes"
    "retained (fs @ [es]) + length tail' \<le> kMaxJournalBytes"
  shows "stored (map_put (segment_name (length fs))
      (journal_bytes (genesis_chain (concat fs)) (1 + of_nat (length (concat fs))) es @ tail') d)
      fs es tail'"
proof -
  let ?n = "segment_name (length fs)"
  have below: "k < ?n" if "k \<in> fst ` set (segment_files 0 zero_digest 1 fs)" for k
    using that segment_files_below [of fs k] assms(1) by (auto simp: stored_def)
  then have "map_put ?n bs (journal_files d) = segment_files 0 zero_digest 1 fs @ [(?n, bs)]" for bs
    using assms(1) by (auto simp: stored_def map_put_last map_put_above)
  with assms show ?thesis by (auto simp: stored_def journal_files_put)
qed

lemma stored_other:
  assumes "stored d fs es tail" "\<not> is_journal n"
  shows "stored (map_put n bs d) fs es tail" "stored (remove_file d n) fs es tail"
  using assms by (auto simp: stored_def)

text \<open>A segment may be closed, and entries of the tail become part of the segment.\<close>

lemma stored_rotate:
  assumes "stored d fs es []" "es \<noteq> []" "Suc (length fs) < max_segments"
  shows "stored d (fs @ [es]) [] []"
  using assms
  by (auto simp: stored_def segment_ok_def segment_files_append retained_def segment_size_def)

lemma frame_is_journal: "frame_bytes t s p link = journal_bytes link s [(t, p)]"
  by simp

lemma segment_size_snoc: "segment_size (es @ [(t, p)]) = segment_size es + (92 + length p)"
  by (simp add: segment_size_def)

lemma stored_extend:
  assumes "stored d fs es (frame_bytes t (1 + of_nat (length (concat (fs @ [es])))) p
      (genesis_chain (concat (fs @ [es]))))" "length p \<le> kMaxRecordBytes"
  shows "stored d fs (es @ [(t, p)]) []"
proof -
  have "frame_bytes t (1 + of_nat (length (concat (fs @ [es])))) p (genesis_chain (concat (fs @ [es]))) \<noteq> []"
    using length_frame_bytes [of "genesis_chain (concat (fs @ [es]))"] by (metis length_genesis_chain
      add_is_0 list.size(3) zero_neq_numeral)
  with assms show ?thesis
    by (auto simp: stored_def segment_ok_def segment_size_snoc retained_def length_frame_bytes
        length_journal_chain journal_append algebra_simps)
qed

section \<open>Repair and discovery\<close>

lemma repair_stored:
  assumes "stored d fs es tail"
  obtains d' where "repair_tail d (torn_report (fs @ [es]) tail) True = (Inr (), d')"
    "stored d' fs es []" "\<And>n. \<not> is_journal n \<Longrightarrow> map_of d' n = map_of d n"
proof (cases "tail = []")
  case True
  with assms show ?thesis by (intro that [of d]) (auto simp: repair_tail_def torn_report_fields)
next
  case False
  let ?n = "segment_name (length fs)"
  let ?bytes = "journal_bytes (genesis_chain (concat fs)) (1 + of_nat (length (concat fs))) es"
  define names where "names = map fst (journal_files d)"
  have names: "names = map fst (segment_files 0 zero_digest 1 fs) @ [?n]"
    using assms False by (auto simp: stored_def names_def)
  have len: "length names = Suc (length fs)" "names ! length fs = ?n"
    using arg_cong [OF segment_files_names [of 0 zero_digest 1 fs], of length]
    by (simp_all add: names nth_append)
  have at: "map_of d ?n = Some (?bytes @ tail)"
    using stored_last [OF assms] False by (auto simp: contents_def split: option.splits)
  have size: "resize (segment_size es) (?bytes @ tail) = ?bytes @ []"
    using length_journal_bytes [of "genesis_chain (concat fs)" _ es] by (simp add: resize_def)
  let ?d = "map_put ?n (?bytes @ []) d"
  define report where "report = torn_report (fs @ [es]) tail"
  have report: "rep_truncated_bytes report \<noteq> 0" "rep_excess_segments report = 0"
    "rep_valid_bytes report = segment_size es"
    using False by (simp_all add: report_def torn_report_fields)
  have cut: "truncate_file d ?n (segment_size es) True = (Inr (), ?d)"
    by (simp add: truncate_file_def at size del: append_Nil2)
  have kept: "(if length names > 0 then length names - 0 else length names) = Suc (length fs)"
    using len by simp
  have "repair_tail d report True = (Inr (), ?d)"
    unfolding repair_tail_def names_def [symmetric] report(2,3) Let_def kept
    using report(1) len cut by simp
  moreover have "stored ?d fs es []"
    using assms by (intro stored_put [OF assms]) (auto simp: stored_def)
  ultimately show ?thesis by (intro that [of ?d]) (auto simp: report_def)
qed

lemma efold_filter:
  "(\<And>x s. \<not> P x \<Longrightarrow> f x s = Inr s) \<Longrightarrow> efold f xs s = efold f (filter P xs) s"
  by (induction xs arbitrary: s) (auto split: sum.split)

lemma discover_files:
  assumes "i + length ess \<le> max_segments" "led_segment l + 1 \<ge> i" "length link = 32"
  shows "efold discover_file (segment_files i link s ess) l =
    Inr (l\<lparr>led_segment_count := led_segment_count l + length ess,
           led_retained_bytes := led_retained_bytes l + retained ess,
           led_segment := (if ess = [] then led_segment l else max (led_segment l) (i + length ess - 1))\<rparr>)"
  using assms
proof (induction ess arbitrary: i l link s)
  case (Cons es ess)
  have i: "i < max_segments" using Cons.prems by simp
  let ?l = "l\<lparr>led_segment_count := Suc (led_segment_count l),
      led_retained_bytes := led_retained_bytes l + segment_size es, led_segment := max (led_segment l) i\<rparr>"
  have "discover_file (segment_name i, journal_bytes link s es) l = Inr ?l"
    using i Cons.prems
    by (auto simp: discover_file_def length_segment_name segment_name_stoul length_journal_bytes max_def)
  then show ?case
    using Cons.IH [of "Suc i" ?l "journal_chain link s es" "s + of_nat (length es)"] Cons.prems
    by (auto simp: retained_def length_journal_chain max_def algebra_simps)
qed (simp add: retained_def)

section \<open>The boot record\<close>

definition head_ok :: "head_record \<Rightarrow> bool" where
  "head_ok h \<longleftrightarrow> wf_id (head_coordinator h) \<and> length (head_trust_digest h) = 32 \<and>
     length (head_incarnation h) = 16"

lemma head_bytes_layout:
  assumes "head_ok h"
  defines "content \<equiv> write_u32 kHeadMagicWord @ write_u16 kHeadVersion @ write_u16 0 @
      bytes_of (head_coordinator h) @ head_trust_digest h @ write_u64 (head_epoch h) @
      head_incarnation h @ write_u64 (head_last_sequence h) @ write_u64 (head_boot_count h) @
      replicate 48 0"
  shows "head_bytes h = content @ write_u32 (crc32 content)" "length content = 192"
proof -
  have len: "length (head_coordinator h) = 64" using assms(1) by (simp add: head_ok_def wf_id_def kSha256HexChars_def kSha256Bytes_def)
  show l: "length content = 192" using assms(1) len by (simp add: content_def head_ok_def)
  have "resize kHeadCrcRange (write_u32 kHeadMagicWord @ write_u16 kHeadVersion @ write_u16 0 @
      bytes_of (head_coordinator h) @ head_trust_digest h @ write_u64 (head_epoch h) @
      head_incarnation h @ write_u64 (head_last_sequence h) @ write_u64 (head_boot_count h)) = content"
    using assms(1) len by (simp add: resize_def kHeadCrcRange_def content_def head_ok_def)
  then have "head_bytes h = resize kHeadBytes (content @ write_u32 (crc32 (take kHeadCrcRange content)))"
    unfolding head_bytes_def Let_def by (simp only:)
  then show "head_bytes h = content @ write_u32 (crc32 content)"
    using l by (simp add: resize_def kHeadBytes_def kHeadCrcRange_def)
qed

lemma length_head_bytes: "head_ok h \<Longrightarrow> length (head_bytes h) = kHeadBytes"
  unfolding head_bytes_layout(1) using head_bytes_layout(2) by (simp add: kHeadBytes_def)

lemma check_head_bytes:
  assumes "head_ok h"
  shows "check_head (head_bytes h) coordinator trust =
    (if head_coordinator h \<noteq> coordinator then Inl kIndexMismatch
     else if head_trust_digest h \<noteq> trust then Inl kPublisherNotTrusted
     else Inr (head_epoch h, head_boot_count h))"
proof -
  have wf: "wf_id (head_coordinator h)" "length (head_trust_digest h) = 32" "length (head_incarnation h) = 16"
    using assms by (simp_all add: head_ok_def)
  have len: "length (head_coordinator h) = 64" using wf by (simp add: wf_id_def kSha256HexChars_def kSha256Bytes_def)
  define bs where "bs = head_bytes h"
  note layout = head_bytes_layout [OF assms]
  have "read_u32 (drop 192 bs) = crc32 (take 192 bs)"
    unfolding bs_def layout(1) using layout(2) read_write_u32 [of _ "[]"] by simp
  moreover have "read_u32 bs = kHeadMagicWord" "read_u16 (drop 4 bs) = kHeadVersion"
    "take 64 (drop 8 bs) = bytes_of (head_coordinator h)" "take 32 (drop 72 bs) = head_trust_digest h"
    "read_u64 (drop 104 bs) = head_epoch h" "read_u64 (drop 136 bs) = head_boot_count h"
    unfolding bs_def layout(1) using wf len by simp_all
  ultimately have "check_head bs coordinator trust = (if head_coordinator h \<noteq> coordinator then Inl kIndexMismatch
     else if head_trust_digest h \<noteq> trust then Inl kPublisherNotTrusted
     else Inr (head_epoch h, head_boot_count h))"
    using length_head_bytes [OF assms] parse_id_of_wf [OF wf(1)]
    by (simp add: check_head_def kHeadCrcRange_def kSha256HexChars_def kSha256Bytes_def flip: bs_def)
  then show ?thesis by (simp add: bs_def)
qed

text \<open>The layout check of the writer always passes.\<close>

lemma find_bytes_skip:
  "hd needle \<noteq> b \<Longrightarrow> needle \<noteq> [] \<Longrightarrow> find_bytes needle (b # bs) i = find_bytes needle bs (Suc i)"
  by (subst find_bytes.simps) (auto simp: take_Cons' neq_Nil_conv)

lemma find_bytes_here: "find_bytes needle (needle @ bs) i = Some i"
  by (subst find_bytes.simps) simp

lemma hex_byte: "c \<in> set kLowerHexDigits \<Longrightarrow> of_char c \<notin> {0x57, 0x4E, 0x48, 1, 0::u8}"
  by (auto simp: kLowerHexDigits_def)

lemma find_head:
  assumes "head_ok h"
  shows "find_bytes (bytes_of (head_coordinator h)) (head_bytes h) 0 = Some 8"
proof -
  let ?n = "bytes_of (head_coordinator h)"
  have len: "length ?n = 64" and lower: "list_all (\<lambda>c. c \<in> set kLowerHexDigits) (head_coordinator h)"
    using assms by (auto simp: head_ok_def wf_id_def kSha256HexChars_def kSha256Bytes_def)
  obtain a b m where m: "head_coordinator h = a # b # m"
    using len by (cases "head_coordinator h"; cases "tl (head_coordinator h)") auto
  have hex: "of_char a \<notin> {0x57, 0x4E, 0x48, 1, 0::u8}" "of_char b \<notin> {0x57, 0x4E, 0x48, 1, 0::u8}"
    using lower hex_byte [of a] hex_byte [of b] by (simp_all add: m)
  have n: "?n = of_char a # of_char b # bytes_of m" by (simp add: m bytes_of_def)
  obtain rest where h: "head_bytes h = write_u32 kHeadMagicWord @ write_u16 kHeadVersion @ write_u16 0 @ ?n @ rest"
    using head_bytes_layout(1) [OF assms] by auto
  have prefix: "write_u32 kHeadMagicWord @ write_u16 kHeadVersion @ write_u16 0 = [0x57, 0x4E, 0x48, 0x31, 1, 0, 0, 0]"
    by code_simp
  have "find_bytes ?n (0x31 # 1 # bs) i = find_bytes ?n (1 # bs) (Suc i)" for bs i
    by (subst find_bytes.simps) (use hex in \<open>auto simp: n\<close>)
  moreover have "find_bytes ?n (c # bs) i = find_bytes ?n bs (Suc i)"
    if "c \<in> {0x57, 0x4E, 0x48, 1, 0}" for c bs i
    using that hex by (intro find_bytes_skip) (auto simp: n)
  ultimately show ?thesis
    unfolding h append_assoc [symmetric] prefix [unfolded append_assoc [symmetric]]
    by (simp add: find_bytes_here)
qed

lemma write_head_ok:
  "head_ok h \<Longrightarrow> write_head h d io = write_file_atomic d head_path (head_bytes h) io"
  by (simp add: write_head_def Let_def length_head_bytes find_head)

section \<open>The ledger in memory and its directory\<close>

text \<open>
  What an open ledger knows of its directory, the link for the next frame apart, and that the
  directory carries its boot record.
\<close>

definition continues :: "ledger \<Rightarrow> directory \<Rightarrow> entry list list \<Rightarrow> entry list \<Rightarrow> bool" where
  "continues l d fs es \<longleftrightarrow>
     stored d fs es [] \<and> led_open l \<and> led_segment l = length fs \<and>
     led_segment_bytes l = segment_size es \<and> led_segment l \<le> led_segment_count l \<and>
     led_retained_bytes l = retained (fs @ [es]) \<and>
     head_last_sequence (led_head l) = of_nat (length (concat (fs @ [es]))) \<and>
     length (led_chain l) = 32"

definition booted :: "ledger \<Rightarrow> directory \<Rightarrow> bool" where
  "booted l d \<longleftrightarrow>
     (\<exists>h. head_ok h \<and> map_of d head_path = Some (head_bytes h) \<and>
        head_coordinator h = head_coordinator (led_head l) \<and>
        head_trust_digest h = head_trust_digest (led_head l) \<and>
        head_epoch h = head_epoch (led_head l) \<and> head_boot_count h = head_boot_count (led_head l))"

text \<open>The bytes of a frame that reach the file.\<close>

fun reached :: "io_outcome \<Rightarrow> bytes \<Rightarrow> bytes" where
  "reached IoDone bs = bs"
| "reached IoNotOpened bs = []"
| "reached (IoFailed c n) bs = take n bs"

lemma rotate_continues:
  assumes "continues l d fs es" "es \<noteq> []" "rotate_segment l = Inr l1"
  shows "continues l1 d (fs @ [es]) []" "led_chain l1 = led_chain l" "led_head l1 = led_head l"
proof -
  have "Suc (length fs) < max_segments"
    using assms by (auto simp: continues_def rotate_segment_def kMaxLedgerSegments_def max_segments_def
        split: if_splits)
  then show "continues l1 d (fs @ [es]) []"
    using assms stored_rotate [of d fs es]
    by (auto simp: continues_def rotate_segment_def retained_def segment_size_def split: if_splits)
  show "led_chain l1 = led_chain l" "led_head l1 = led_head l"
    using assms by (auto simp: rotate_segment_def split: if_splits)
qed

text \<open>One append of a frame to the segment that has room for it.\<close>

abbreviation next_frame :: "ledger \<Rightarrow> u16 \<Rightarrow> string \<Rightarrow> bytes" where
  "next_frame l t p \<equiv> frame_bytes t (head_last_sequence (led_head l) + 1) p (led_chain l)"

lemma append_frame_stored:
  assumes "continues l d fs es" "append_frame l d t p io = (r, l', d')"
    "segment_size es + (92 + length p) \<le> kMaxSegmentBytes"
    "retained (fs @ [es]) + (92 + length p) \<le> kMaxJournalBytes"
  shows "stored d' fs es (reached io (next_frame l t p))" "map_of d' n = map_of d n \<or> is_journal n"
    "(\<exists>c. r = Inl c \<and> l' = l \<and> io \<noteq> IoDone) \<or>
     r = Inr (head_last_sequence (led_head l) + 1) \<and> io = IoDone \<and>
     l' = l\<lparr>led_head := (led_head l)\<lparr>head_last_sequence := head_last_sequence (led_head l) + 1\<rparr>,
            led_chain := frame_chain t (head_last_sequence (led_head l) + 1) p,
            led_segment_bytes := led_segment_bytes l + (92 + length p),
            led_retained_bytes := led_retained_bytes l + (92 + length p)\<rparr>"
proof -
  have st: "stored d fs es []" and seg: "led_segment l = length fs" and len: "length (led_chain l) = 32"
    using assms(1) by (auto simp: continues_def)
  let ?n = "segment_name (length fs)" and ?frame = "next_frame l t p"
  have frame: "length ?frame = 92 + length p" using len by (simp add: length_frame_bytes)
  have built: "build_frame t (head_last_sequence (led_head l) + 1) p (led_chain l) =
      (?frame, frame_chain t (head_last_sequence (led_head l) + 1) p, digest_of p)"
    by (simp add: frame_bytes_def build_frame_def Let_def)
  have app: "append_frame l d t p io =
      (case append_file_flushed d ?n ?frame io of
        (Inl c, d') \<Rightarrow> (Inl c, l, d')
      | (Inr _, d') \<Rightarrow> (Inr (head_last_sequence (led_head l) + 1),
          l\<lparr>led_head := (led_head l)\<lparr>head_last_sequence := head_last_sequence (led_head l) + 1\<rparr>,
            led_chain := frame_chain t (head_last_sequence (led_head l) + 1) p,
            led_segment_bytes := led_segment_bytes l + length ?frame,
            led_retained_bytes := led_retained_bytes l + length ?frame\<rparr>, d'))"
    unfolding append_frame_def Let_def built seg by (simp split: prod.split sum.split)
  have "length (reached io ?frame) \<le> 92 + length p" using frame by (cases io) auto
  then have "stored (map_put ?n (contents d ?n @ reached io ?frame) d) fs es (reached io ?frame)"
    using assms(3,4) stored_last [OF st] by (simp add: stored_put [OF st])
  then show "stored d' fs es (reached io (next_frame l t p))"
    using assms(2) st unfolding app append_file_flushed_def by (cases io) auto
  show "map_of d' n = map_of d n \<or> is_journal n"
    using assms(2) unfolding app append_file_flushed_def by (cases io) auto
  show "(\<exists>c. r = Inl c \<and> l' = l \<and> io \<noteq> IoDone) \<or>
     r = Inr (head_last_sequence (led_head l) + 1) \<and> io = IoDone \<and>
     l' = l\<lparr>led_head := (led_head l)\<lparr>head_last_sequence := head_last_sequence (led_head l) + 1\<rparr>,
            led_chain := frame_chain t (head_last_sequence (led_head l) + 1) p,
            led_segment_bytes := led_segment_bytes l + (92 + length p),
            led_retained_bytes := led_retained_bytes l + (92 + length p)\<rparr>"
    using assms(2) frame unfolding app append_file_flushed_def by (cases io) auto
qed

text \<open>An append is refused before it writes, or it writes to a segment with room.\<close>

lemma ledger_append_cases:
  assumes "continues l d fs es" "ledger_append l d t p io = (r, l', d')"
  obtains (refused) c fs' es' where "r = Inl c" "d' = d" "continues l' d fs' es'"
      "concat (fs' @ [es']) = concat (fs @ [es])" "led_chain l' = led_chain l" "led_head l' = led_head l"
  | (wrote) l1 fs' es' where "continues l1 d fs' es'" "concat (fs' @ [es']) = concat (fs @ [es])"
      "led_chain l1 = led_chain l" "led_head l1 = led_head l" "length p \<le> kMaxRecordBytes"
      "segment_size es' + (92 + length p) \<le> kMaxSegmentBytes"
      "retained (fs' @ [es']) + (92 + length p) \<le> kMaxJournalBytes"
      "append_frame l1 d t p io = (r, l', d')"
proof -
  let ?total = "kFrameHeaderBytes + length p"
  have l: "led_open l" "led_segment_bytes l = segment_size es" using assms(1) by (auto simp: continues_def)
  consider (early) c where "(r, l', d') = (Inl c, l, d)"
    | (late) "length p \<le> kMaxRecordBytes" "?total \<le> kMaxSegmentBytes"
    using assms(2) unfolding ledger_append_def by (auto simp: Let_def split: if_splits)
  then show ?thesis
  proof cases
    case early
    then show ?thesis using assms(1) by (intro refused) auto
  next
    case late
    define full where "full \<longleftrightarrow> led_segment_bytes l + ?total > kMaxSegmentBytes"
    have app: "(case (if full then rotate_segment l else Inr l) of
        Inl c \<Rightarrow> (Inl c, l, d)
      | Inr l1 \<Rightarrow>
          if led_retained_bytes l1 + ?total > kMaxJournalBytes then (Inl kLedgerOversized, l1, d)
          else append_frame l1 d t p io) = (r, l', d')"
      using assms(2) late l(1) unfolding ledger_append_def Let_def full_def by simp
    show ?thesis
    proof (cases "if full then rotate_segment l else Inr l")
      case (Inl c)
      then show ?thesis using app assms(1) by (intro refused) auto
    next
      case (Inr l1)
      obtain fs1 es1 where l1: "continues l1 d fs1 es1" "concat (fs1 @ [es1]) = concat (fs @ [es])"
        "led_chain l1 = led_chain l" "led_head l1 = led_head l"
        "segment_size es1 + ?total \<le> kMaxSegmentBytes"
      proof (cases full)
        case True
        with late l have "es \<noteq> []" by (auto simp: full_def segment_size_def)
        with rotate_continues [OF assms(1) _, of l1] Inr True show ?thesis
          using late by (intro that [of "fs @ [es]" "[]"]) (auto simp: segment_size_def)
      next
        case False
        then show ?thesis using Inr assms(1) l by (intro that [of fs es]) (auto simp: full_def)
      qed
      have ret: "led_retained_bytes l1 = retained (fs1 @ [es1])" using l1(1) by (simp add: continues_def)
      show ?thesis
      proof (cases "led_retained_bytes l1 + ?total > kMaxJournalBytes")
        case True
        then show ?thesis using app Inr l1 by (intro refused [of kLedgerOversized fs1 es1]) auto
      next
        case False
        then show ?thesis
          using app Inr l1 ret late by (intro wrote [of l1 fs1 es1]) (auto simp: kFrameHeaderBytes_def)
      qed
    qed
  qed
qed

section \<open>Opening\<close>

definition works :: "open_io \<Rightarrow> bool" where
  "works io \<longleftrightarrow> io_truncate io \<and> io_head io = IoDone \<and> length (io_drawn io) = 16"

lemma stored_unopened:
  assumes "stored d (fs @ [es]) [] []" "journal_files d = segment_files 0 zero_digest 1 (fs @ [es])"
  shows "stored d fs es []"
  using assms by (auto simp: stored_def segment_ok_def segment_files_append retained_def)

lemma discover_stored:
  assumes "stored d fs es []" "led_segment l = 0" "led_segment_count l = 0" "led_retained_bytes l = 0"
    "led_segment_bytes l = 0"
  obtains fs' es' l' where "discover_layout d l = Inr l'" "stored d fs' es' []"
    "concat (fs' @ [es']) = concat (fs @ [es])"
    "l' = l\<lparr>led_segment := length fs', led_segment_bytes := segment_size es',
            led_segment_count := led_segment_count l', led_retained_bytes := retained (fs' @ [es'])\<rparr>"
    "length fs' \<le> led_segment_count l'"
proof -
  obtain ess where ess: "journal_files d = segment_files 0 zero_digest 1 ess"
    "ess = [] \<or> stored d (butlast ess) (last ess) []" "concat ess = concat (fs @ [es])"
    "length ess \<le> max_segments"
  proof (cases "journal_files d = segment_files 0 zero_digest 1 (fs @ [es])")
    case True
    then show ?thesis using assms(1) by (intro that [of "fs @ [es]"]) (auto simp: stored_def)
  next
    case False
    then have none: "es = []" "journal_files d = segment_files 0 zero_digest 1 fs"
      using assms(1) by (auto simp: stored_def segment_files_append)
    have "stored d (butlast fs) (last fs) []" if "fs \<noteq> []"
      by (rule stored_unopened) (use that assms(1) none in simp_all)
    moreover have "length fs < max_segments" using assms(1) by (simp add: stored_def)
    ultimately show ?thesis using none by (intro that [of fs]) auto
  qed
  let ?l = "l\<lparr>led_segment_count := length ess, led_retained_bytes := retained ess,
      led_segment := length ess - 1\<rparr>"
  have "efold discover_file d l = efold discover_file (journal_files d) l"
    unfolding journal_files_def by (rule efold_filter) (auto simp: discover_file_def)
  also have "\<dots> = Inr ?l"
    using discover_files [of 0 ess l zero_digest 1] ess assms by (simp add: retained_def)
  finally have fold: "efold discover_file d l = Inr ?l" .
  show ?thesis
  proof (cases "ess = []")
    case True
    have "map_of d (segment_name 0) = None"
      using ess(1) True map_of_journal_files [of "segment_name 0" d] by simp
    then have "discover_layout d l = Inr ?l"
      using fold True by (simp add: discover_layout_def rbind_def)
    moreover have "stored d [] [] []"
      using assms(1) ess(1) True by (auto simp: stored_def max_segments_def segment_ok_def segment_size_def retained_def)
    ultimately show ?thesis
      using ess True assms by (intro that [of ?l "[]" "[]"]) (auto simp: retained_def segment_size_def)
  next
    case False
    then have st: "stored d (butlast ess) (last ess) []" using ess(2) by simp
    have len: "length (butlast ess) = length ess - 1" by simp
    have "contents d (segment_name (length ess - 1)) =
        journal_bytes (genesis_chain (concat (butlast ess))) (1 + of_nat (length (concat (butlast ess)))) (last ess)"
      using stored_last [OF st] by simp
    then have size: "length (contents d (segment_name (length ess - 1))) = segment_size (last ess)"
      by (simp add: length_journal_bytes)
    let ?l2 = "?l\<lparr>led_segment_bytes := segment_size (last ess)\<rparr>"
    have "discover_layout d l = Inr ?l2"
      using fold size assms(5)
      by (auto simp: discover_layout_def rbind_def contents_def split: option.splits)
    then show ?thesis
      using st ess(3) False by (intro that [of ?l2 "butlast ess" "last ess"]) auto
  qed
qed

lemma write_file_atomic_done:
  "write_file_atomic d n bs IoDone = (Inr (), map_put n bs (remove_file d (n @ ''.tmp'')))"
  by (simp add: write_file_atomic_def)

lemma last_journal_link:
  "es \<noteq> [] \<Longrightarrow> rec_chain (last (journal_records link s es)) = journal_chain link s (butlast es)"
  by (induction es rule: rev_induct) (auto simp: journal_append frame_record_def)

text \<open>What a boot finds: nothing of an earlier boot, or its boot record.\<close>

definition previous_boot :: "directory \<Rightarrow> ident \<Rightarrow> digest \<Rightarrow> (u64 \<times> u64) option \<Rightarrow> bool" where
  "previous_boot d coordinator trust previous \<longleftrightarrow>
     load_previous d coordinator trust = Inr previous \<and> (previous = None \<longrightarrow> journal_files d = [])"

lemma ledger_open_steps:
  assumes "load_previous d coordinator trust = Inr previous" "\<not> (previous = None \<and> journal_files d \<noteq> [])"
    "read_frames d = Inr (records, scan)" "repair_tail d scan (io_truncate io) = (Inr (), d1)"
    "l0 = \<lparr>led_head = (new_head coordinator trust previous (io_drawn io))
             \<lparr>head_last_sequence := rep_last_valid_sequence scan\<rparr>,
           led_chain = (if records = [] then zero_digest else rec_chain (last records)),
           led_segment = 0, led_segment_bytes = 0, led_segment_count = 0,
           led_retained_bytes = 0, led_open = False\<rparr>"
    "discover_layout d1 l0 = Inr l1" "write_head (led_head l1) d1 (io_head io) = (Inr (), d2)"
  shows "ledger_open d coordinator trust io =
    (Inr (l1\<lparr>led_open := True\<rparr>, scan\<lparr>rep_recovered := rep_recovered scan \<or> previous = None\<rparr>), d2)"
proof -
  have guard: "(previous = None \<and> journal_files d \<noteq> []) = False" using assms(2) by blast
  show ?thesis
    unfolding ledger_open_def assms(1) sum.case guard if_False assms(3) prod.case Let_def
      assms(5) [symmetric] assms(4,6)
    using assms(7) by simp
qed

lemma open_stored:
  assumes "stored d fs es tail" "torn (concat (fs @ [es])) tail" "works io"
    "previous_boot d coordinator trust previous" "wf_id coordinator" "length trust = 32"
  obtains l report d' fs' es' where "ledger_open d coordinator trust io = (Inr (l, report), d')"
    "continues l d' fs' es'" "concat (fs' @ [es']) = concat (fs @ [es])" "booted l d'"
    "led_chain l = (if concat (fs @ [es]) = [] then zero_digest else genesis_chain (butlast (concat (fs @ [es]))))"
    "rep_truncated_bytes report = length tail" "rep_valid_records report = length (concat (fs @ [es]))"
    "head_coordinator (led_head l) = coordinator" "head_trust_digest (led_head l) = trust"
    "head_epoch (led_head l) = (case previous of Some (e, b) \<Rightarrow> e | None \<Rightarrow> 0) + 1"
    "head_boot_count (led_head l) = (case previous of Some (e, b) \<Rightarrow> b | None \<Rightarrow> 0) + 1"
proof -
  define xs where "xs = concat (fs @ [es])"
  define report where "report = torn_report (fs @ [es]) tail"
  have read: "read_frames d = Inr (journal_records zero_digest 1 xs, report)"
    unfolding xs_def report_def using assms(1,2) by (rule read_stored_torn)
  have load: "load_previous d coordinator trust = Inr previous"
    "\<not> (previous = None \<and> journal_files d \<noteq> [])"
    using assms(4) by (auto simp: previous_boot_def)
  obtain d1 where d1: "repair_tail d report True = (Inr (), d1)" "stored d1 fs es []"
    using repair_stored [OF assms(1)] unfolding report_def by blast
  define h where "h = (new_head coordinator trust previous (io_drawn io))\<lparr>head_last_sequence := of_nat (length xs)\<rparr>"
  define l0 where "l0 = \<lparr>led_head = h,
      led_chain = (if journal_records zero_digest 1 xs = [] then zero_digest
                   else rec_chain (last (journal_records zero_digest 1 xs))),
      led_segment = 0, led_segment_bytes = 0, led_segment_count = 0, led_retained_bytes = 0, led_open = False\<rparr>"
  obtain fs' es' l1 where l1: "discover_layout d1 l0 = Inr l1" "stored d1 fs' es' []"
    "concat (fs' @ [es']) = concat (fs @ [es])"
    "l1 = l0\<lparr>led_segment := length fs', led_segment_bytes := segment_size es',
            led_segment_count := led_segment_count l1, led_retained_bytes := retained (fs' @ [es'])\<rparr>"
    "length fs' \<le> led_segment_count l1"
    using d1(2) by (rule discover_stored [of _ _ _ l0]) (simp_all add: l0_def)
  have head: "head_ok h"
    using assms(3,5,6) by (simp add: h_def head_ok_def new_head_def works_def length_new_incarnation)
  have no_records: "journal_records zero_digest 1 xs = [] \<longleftrightarrow> xs = []"
    using length_journal_records [of zero_digest 1 xs] by (metis length_0_conv)
  let ?l = "l1\<lparr>led_open := True\<rparr>"
  let ?d = "map_put head_path (head_bytes h) (remove_file d1 (head_path @ ''.tmp''))"
  have lh: "led_head ?l = h" "led_chain ?l = (if xs = [] then zero_digest else genesis_chain (butlast xs))"
    using arg_cong [OF l1(4), of led_head] arg_cong [OF l1(4), of led_chain] last_journal_link [of xs zero_digest 1]
    by (simp_all add: l0_def no_records)
  have seq: "rep_last_valid_sequence report = of_nat (length xs)"
    by (simp add: report_def torn_report_fields xs_def)
  have io: "io_truncate io = True" "io_head io = IoDone" using assms(3) by (auto simp: works_def)
  have opened: "ledger_open d coordinator trust io =
      (Inr (?l, report\<lparr>rep_recovered := rep_recovered report \<or> previous = None\<rparr>), ?d)"
    using load read d1(1) [folded io(1)] _ l1(1)
    by (rule ledger_open_steps)
      (use write_head_ok [OF head] lh(1) io(2) seq in \<open>simp_all add: l0_def h_def write_file_atomic_done\<close>)
  have "stored ?d fs' es' []"
    using l1(2) by (intro stored_other) auto
  then have cont: "continues ?l ?d fs' es'"
    using l1(5) lh(2) arg_cong [OF l1(4), of led_segment] arg_cong [OF l1(4), of led_segment_bytes]
      arg_cong [OF l1(4), of led_retained_bytes] l1(3) lh(1)
    by (simp add: continues_def h_def xs_def)
  have boot: "booted ?l ?d" using head lh(1) by (auto simp: booted_def)
  have report: "rep_truncated_bytes report = length tail" "rep_valid_records report = length xs"
    by (simp_all add: report_def torn_report_fields xs_def)
  show ?thesis
    by (rule that [OF opened cont l1(3) boot])
      (use lh report in \<open>simp_all add: xs_def h_def new_head_def\<close>)
qed

section \<open>A journal as a list of entries\<close>

text \<open>
  The contract of an append-only journal: an acknowledged entry is appended to the abstract list,
  a refused one is not, and reading returns the list. Its clients see acknowledged entries only.
\<close>

locale journal =
  fixes holds :: "'st \<Rightarrow> 'e list \<Rightarrow> bool"
    and push :: "'st \<Rightarrow> 'e \<Rightarrow> 'io \<Rightarrow> 'a result \<times> 'st"
    and entries_of :: "'st \<Rightarrow> 'e list option"
    and clean :: "'io \<Rightarrow> bool"
  assumes push_ok: "holds st es \<Longrightarrow> push st e io = (Inr s, st') \<Longrightarrow> holds st' (es @ [e])"
    and push_refused: "holds st es \<Longrightarrow> clean io \<Longrightarrow> push st e io = (Inl c, st') \<Longrightarrow> holds st' es"
    and entries_of_holds: "holds st es \<Longrightarrow> entries_of st = Some es"
begin

fun pushes :: "'st \<Rightarrow> ('e \<times> 'io) list \<Rightarrow> 'e list \<times> 'st" where
  "pushes st [] = ([], st)"
| "pushes st ((e, io) # xs) =
     (case push st e io of
        (Inl c, st') \<Rightarrow> pushes st' xs
      | (Inr s, st') \<Rightarrow> let (acked, st'') = pushes st' xs in (e # acked, st''))"

lemma holds_pushes:
  "holds st es \<Longrightarrow> list_all (\<lambda>(e, io). clean io) xs \<Longrightarrow> pushes st xs = (acked, st') \<Longrightarrow>
   holds st' (es @ acked)"
proof (induction st xs arbitrary: es acked rule: pushes.induct)
  case (2 st e io xs)
  obtain r st1 where push: "push st e io = (r, st1)" by (cases "push st e io")
  show ?case
  proof (cases r)
    case (Inl c)
    then show ?thesis using 2 push push_refused by fastforce
  next
    case (Inr s)
    obtain acked' where acked: "pushes st1 xs = (acked', st')" "acked = e # acked'"
      using 2(5) push Inr by (auto split: prod.splits)
    have "holds st1 (es @ [e])" using push_ok 2(3) push Inr by blast
    then have "holds st' ((es @ [e]) @ acked')"
      using 2(2) [OF push [symmetric]] Inr acked(1) 2(4) by fastforce
    then show ?thesis using acked(2) by simp
  qed
qed simp

text \<open>What is read is what was acknowledged, in the order of the acknowledgements.\<close>

lemma reads_acknowledged:
  "holds st es \<Longrightarrow> list_all (\<lambda>(e, io). clean io) xs \<Longrightarrow> pushes st xs = (acked, st') \<Longrightarrow>
   entries_of st' = Some (es @ acked)"
  using holds_pushes entries_of_holds by blast

end

section \<open>The ledger is a journal\<close>

definition journaled :: "ledger \<Rightarrow> directory \<Rightarrow> entry list \<Rightarrow> bool" where
  "journaled l d es \<longleftrightarrow>
     (\<exists>fs es'. continues l d fs es' \<and> concat (fs @ [es']) = es) \<and>
     led_chain l = genesis_chain es \<and> booted l d"

definition entry_of :: "ledger_record \<Rightarrow> entry" where
  "entry_of r = (rec_type r, rec_payload r)"

definition ledger_push :: "ledger \<times> directory \<Rightarrow> entry \<Rightarrow> io_outcome \<Rightarrow> u64 result \<times> ledger \<times> directory" where
  "ledger_push st e io = ledger_append (fst st) (snd st) (fst e) (snd e) io"

definition ledger_entries :: "ledger \<times> directory \<Rightarrow> entry list option" where
  "ledger_entries st =
     (case read_all (snd st) of Inl c \<Rightarrow> None | Inr (rs, report) \<Rightarrow> Some (map entry_of rs))"

fun clean_io :: "io_outcome \<Rightarrow> bool" where
  "clean_io (IoFailed c n) = (n = 0)"
| "clean_io _ = True"

lemma entry_of_journal [simp]: "map entry_of (journal_records link s es) = es"
  using journal_records_entries [of link s es] by (simp add: entry_of_def [abs_def])

lemma read_journaled:
  assumes "journaled l d es"
  obtains report where "read_all d = Inr (journal_records zero_digest 1 es, report)"
    "\<not> rep_recovered report" "rep_truncated_bytes report = 0" "rep_valid_records report = length es"
proof -
  obtain fs es' where "stored d fs es' []" "concat (fs @ [es']) = es"
    using assms by (auto simp: journaled_def continues_def)
  then show ?thesis
    using read_stored_torn [of d fs es' "[]"] that [of "torn_report (fs @ [es']) []"]
    by (simp add: read_all_def torn_report_fields)
qed

lemma booted_same:
  assumes "booted l d" "led_head l' = led_head l \<or>
      led_head l' = (led_head l)\<lparr>head_last_sequence := s\<rparr>" "map_of d' head_path = map_of d head_path"
  shows "booted l' d'"
  using assms by (auto simp: booted_def)

lemma append_journaled:
  assumes "journaled l d es" "ledger_append l d t p io = (r, l', d')"
  shows "r = Inr s \<Longrightarrow> journaled l' d' (es @ [(t, p)]) \<and> s = of_nat (length es) + 1"
    and "r = Inl c \<Longrightarrow> clean_io io \<Longrightarrow> journaled l' d' es"
proof -
  obtain fs es1 where l: "continues l d fs es1" "concat (fs @ [es1]) = es" "led_chain l = genesis_chain es"
    "booted l d" using assms(1) by (auto simp: journaled_def)
  have seq: "head_last_sequence (led_head l) = of_nat (length es)"
    using l(1,2) by (auto simp: continues_def)
  show "journaled l' d' (es @ [(t, p)]) \<and> s = of_nat (length es) + 1" if r: "r = Inr s"
    using l(1) assms(2)
  proof (cases rule: ledger_append_cases)
    case (wrote l1 fs' es')
    note app = append_frame_stored [OF wrote(1,8,6,7)]
    have io: "io = IoDone" and l': "s = of_nat (length es) + 1"
      "l' = l1\<lparr>led_head := (led_head l)\<lparr>head_last_sequence := of_nat (length es) + 1\<rparr>,
            led_chain := frame_chain t (of_nat (length es) + 1) p,
            led_segment_bytes := led_segment_bytes l1 + (92 + length p),
            led_retained_bytes := led_retained_bytes l1 + (92 + length p)\<rparr>"
      using app(3) r wrote(4) seq by auto
    have es: "concat (fs' @ [es']) = es" using wrote(2) l(2) by simp
    have "stored d' fs' es' (frame_bytes t (1 + of_nat (length (concat (fs' @ [es'])))) p
        (genesis_chain (concat (fs' @ [es']))))"
      using app(1) io wrote(3,4) l(3) seq unfolding es by (simp add: add.commute)
    then have "stored d' fs' (es' @ [(t, p)]) []" using wrote(5) by (rule stored_extend)
    then have "continues l' d' fs' (es' @ [(t, p)])"
      using wrote(1) l'(2)
      by (simp add: continues_def segment_size_snoc retained_def algebra_simps flip: es)
    moreover have "led_chain l' = genesis_chain (es @ [(t, p)])"
      using l'(2) by (simp add: journal_append add.commute)
    moreover have "booted l' d'"
      using l(4) by (rule booted_same) (use l'(2) app(2) [of head_path] in auto)
    ultimately show ?thesis
      using l'(1) es unfolding journaled_def by (auto intro!: exI [of _ fs'] exI [of _ "es' @ [(t, p)]"])
  qed (use r in simp)
  show "journaled l' d' es" if r: "r = Inl c" and clean: "clean_io io"
    using l(1) assms(2)
  proof (cases rule: ledger_append_cases)
    case (refused c' fs' es')
    then show ?thesis using l booted_same [OF l(4), of l' _ d] unfolding journaled_def by auto
  next
    case (wrote l1 fs' es')
    note app = append_frame_stored [OF wrote(1,8,6,7)]
    have "l' = l1" "io \<noteq> IoDone" using app(3) r by auto
    moreover have "reached io (next_frame l1 t p) = []" using clean \<open>io \<noteq> IoDone\<close> by (cases io) auto
    ultimately have "continues l' d' fs' es'" using app(1) wrote(1) by (simp add: continues_def)
    moreover have "booted l' d'"
      using l(4) by (rule booted_same) (use \<open>l' = l1\<close> wrote(4) app(2) [of head_path] in auto)
    ultimately show ?thesis using wrote(2,3) l \<open>l' = l1\<close> unfolding journaled_def by auto
  qed
qed

interpretation ledger: journal "\<lambda>st. journaled (fst st) (snd st)" ledger_push ledger_entries clean_io
proof
  fix st st' :: "ledger \<times> directory" and es e io s c
  assume st: "journaled (fst st) (snd st) es"
  show "journaled (fst st') (snd st') (es @ [e])" if "ledger_push st e io = (Inr s, st')"
    using append_journaled(1) [OF st, of "fst e" "snd e" io "Inr s" "fst st'" "snd st'" s] that
    by (simp add: ledger_push_def)
  show "journaled (fst st') (snd st') es" if "clean_io io" "ledger_push st e io = (Inl c, st')"
    using append_journaled(2) [OF st, of "fst e" "snd e" io "Inl c" "fst st'" "snd st'"] that
    by (simp add: ledger_push_def)
  show "ledger_entries st = Some es"
    using read_journaled [OF st] by (metis (no_types, lifting) ledger_entries_def entry_of_journal
        sum.case(2) case_prod_conv)
qed

end
