(* ===== verification/Wnc_Durability.thy ===== *)
theory Wnc_Durability
  imports Wnc_Journal
begin

text \<open>
  The properties of the ledger: runs as an inductive relation, that they read back what was
  acknowledged, also after a crash inside an append, that appends succeed while there is room and
  stay within the bounds, that a directory belongs to its coordinator and trust set, that snapshots
  are read back, and what happens to the chain of records after a restart and to the journal after
  a partial write.
\<close>

section \<open>Runs of a ledger\<close>

text \<open>
  From a boot on a directory without a journal: appends, appends that were refused without a byte
  reaching the disk, and snapshots.
\<close>

inductive ledger_run :: "ident \<Rightarrow> digest \<Rightarrow> ledger \<Rightarrow> directory \<Rightarrow> entry list \<Rightarrow> bool"
  for coordinator trust where
  run_boot: "ledger_run coordinator trust l d' []"
    if "ascending d" "journal_files d = []" "works io" "wf_id coordinator" "length trust = 32"
      "ledger_open d coordinator trust io = (Inr (l, report), d')"
| run_append: "ledger_run coordinator trust l' d' (es @ [(t, p)])"
    if "ledger_run coordinator trust l d es" "ledger_append l d t p io = (Inr s, l', d')"
| run_refused: "ledger_run coordinator trust l' d' es"
    if "ledger_run coordinator trust l d es" "ledger_append l d t p io = (Inl c, l', d')" "clean_io io"
| run_snapshot: "ledger_run coordinator trust l d' es"
    if "ledger_run coordinator trust l d es" "write_snapshot l d snap io = (r, d')"

lemma stored_fresh: "ascending d \<Longrightarrow> journal_files d = [] \<Longrightarrow> stored d [] [] []"
  by (auto simp: stored_def max_segments_def segment_ok_def segment_size_def retained_def)

lemma previous_boot_fresh:
  assumes "journal_files d = []" "ledger_open d coordinator trust io = (Inr x, d')"
  obtains previous where "previous_boot d coordinator trust previous"
  using assms by (cases "load_previous d coordinator trust") (auto simp: ledger_open_def previous_boot_def)

lemma continues_other:
  assumes "continues l d fs es" "\<not> is_journal n"
  shows "continues l (map_put n bs d) fs es" "continues l (remove_file d n) fs es"
  using assms by (auto simp: continues_def stored_other)

lemma journaled_other:
  assumes "journaled l d es" "\<not> is_journal n" "n \<noteq> head_path"
  shows "journaled l (map_put n bs d) es" "journaled l (remove_file d n) es"
  using assms continues_other unfolding journaled_def booted_def by (auto simp: map_of_remove) blast+

lemma snapshot_names: "snapshot_path \<noteq> head_path" "snapshot_path @ ''.tmp'' \<noteq> head_path"
  by (simp_all add: snapshot_path_def head_path_def)

lemma journaled_snapshot:
  assumes "journaled l d es" "write_snapshot l d snap io = (r, d')"
  shows "journaled l d' es"
  using assms snapshot_names
  by (cases io) (auto simp: write_snapshot_def write_file_atomic_def Let_def journaled_other
      simp del: append.simps split: if_splits)

lemma run_journaled:
  assumes "ledger_run coordinator trust l d es"
  shows "journaled l d es \<and> wf_id coordinator \<and> length trust = 32 \<and>
    head_coordinator (led_head l) = coordinator \<and> head_trust_digest (led_head l) = trust"
  using assms
proof induction
  case (run_boot d io l report d')
  then obtain previous where "previous_boot d coordinator trust previous"
    using previous_boot_fresh by blast
  then show ?case
  proof (rule open_stored [OF stored_fresh [OF run_boot(1,2)] torn_Nil run_boot(3) _ run_boot(4,5)])
    fix l1 report1 d1 fs es
    assume l1: "ledger_open d coordinator trust io = (Inr (l1, report1), d1)" "continues l1 d1 fs es"
      "concat (fs @ [es]) = concat ([] @ [[]])" "booted l1 d1"
      "led_chain l1 = (if concat ([] @ [[]]) = [] then zero_digest else genesis_chain (butlast (concat ([] @ [[]]))))"
      "head_coordinator (led_head l1) = coordinator" "head_trust_digest (led_head l1) = trust"
    moreover have "l1 = l" "d1 = d'" using l1(1) run_boot(6) by auto
    ultimately show ?case
      using run_boot(4,5) unfolding journaled_def by auto
  qed
next
  case (run_append l d es t p io s l' d')
  moreover have "led_head l' = (led_head l)\<lparr>head_last_sequence := s\<rparr>"
    using run_append(2) by (auto simp: ledger_append_def append_frame_def rotate_segment_def Let_def
        split: if_splits sum.splits prod.splits)
  ultimately show ?case using append_journaled(1) by fastforce
next
  case (run_refused l d es t p io c l' d')
  moreover have "led_head l' = led_head l"
    using run_refused(2) by (auto simp: ledger_append_def append_frame_def rotate_segment_def Let_def
        split: if_splits sum.splits prod.splits)
  ultimately show ?case using append_journaled(2) by fastforce
next
  case (run_snapshot l d es snap io r d')
  then show ?case using journaled_snapshot by blast
qed

lemma append_accepts:
  assumes "led_open l" "length p \<le> kMaxRecordBytes"
    "led_segment_count l < kMaxLedgerSegments \<or>
     led_segment_bytes l + (kFrameHeaderBytes + length p) \<le> kMaxSegmentBytes"
    "led_retained_bytes l + (kFrameHeaderBytes + length p) \<le> kMaxJournalBytes"
  obtains s l' d' where "ledger_append l d t p IoDone = (Inr s, l', d')"
proof -
  have "kFrameHeaderBytes + length p \<le> kMaxSegmentBytes"
    using assms(2) by (simp add: kMaxRecordBytes_def kMaxDocumentBytes_def kMaxSegmentBytes_def kFrameHeaderBytes_def)
  with assms have "\<exists>s l' d'. ledger_append l d t p IoDone = (Inr s, l', d')"
    by (auto simp: ledger_append_def append_frame_def rotate_segment_def append_file_flushed_def Let_def
        split: prod.splits)
  then show ?thesis using that by blast
qed

text \<open>A sample: the entries of a genesis record and of one payload.\<close>

definition sample_coordinator :: ident where "sample_coordinator = from_digest (replicate 32 0xAB)"
definition sample_io :: open_io where
  "sample_io = \<lparr>io_truncate = True, io_head = IoDone, io_drawn = replicate 16 1\<rparr>"

lemma sample_wf: "wf_id sample_coordinator" "works sample_io"
  by (simp_all add: sample_coordinator_def from_digest_wf kSha256Bytes_def works_def sample_io_def)

lemma previous_boot_empty: "previous_boot [] coordinator trust None"
  by (simp add: previous_boot_def load_previous_def read_file_def journal_files_def)

lemma sample_boot:
  obtains l report d where "ledger_open [] sample_coordinator zero_digest sample_io = (Inr (l, report), d)"
    "ledger_run sample_coordinator zero_digest l d []" "led_open l" "led_segment_count l = 0"
    "led_retained_bytes l = 0"
proof -
  have fresh: "stored [] [] [] []" by (intro stored_fresh) (simp_all add: journal_files_def)
  have len: "length zero_digest = 32" by simp
  show ?thesis
  proof (rule open_stored [OF fresh torn_Nil sample_wf(2) previous_boot_empty sample_wf(1) len])
    fix l report d fs es
    assume l: "ledger_open [] sample_coordinator zero_digest sample_io = (Inr (l, report), d)"
      "continues l d fs es" "concat (fs @ [es]) = concat ([] @ [[]])"
    have "ledger_run sample_coordinator zero_digest l d []"
      by (rule run_boot [OF _ _ sample_wf(2,1) len l(1)]) (simp_all add: journal_files_def)
    moreover have "led_segment_count l = 0" "led_open l" "led_retained_bytes l = 0"
      using l(1) by (auto simp: ledger_open_def load_previous_def read_file_def read_frames_def journal_files_def
          scan_start_def rbind_def repair_tail_def empty_report_def discover_layout_def Let_def
          split: prod.splits sum.splits)
    ultimately show ?thesis using l(1) that by blast
  qed
qed

lemma sample_run:
  obtains l d where "ledger_run sample_coordinator zero_digest l d [(1, ''{}'')]"
proof -
  obtain l report d where l: "ledger_run sample_coordinator zero_digest l d []" "led_open l"
    "led_segment_count l = 0" "led_retained_bytes l = 0" by (rule sample_boot)
  obtain s l' d' where "ledger_append l d 1 ''{}'' IoDone = (Inr s, l', d')"
    by (rule append_accepts [of l "''{}''" d 1])
      (use l in \<open>simp_all add: kMaxRecordBytes_def kMaxDocumentBytes_def kMaxLedgerSegments_def
         kFrameHeaderBytes_def kMaxJournalBytes_def kMaxSegmentBytes_def\<close>)
  from run_append [OF l(1) this] show ?thesis using that by simp
qed

section \<open>Properties\<close>

text \<open>
  C10: after any run of a ledger the journal reads back, in order and without a torn tail, as
  exactly the entries whose append was acknowledged, with the sequences 1, 2, and so on; the
  ledger's own last sequence is their number.
\<close>

theorem ledger_reads_back:
  assumes "ledger_run coordinator trust l d es"
  shows "\<exists>rs report. read_all d = Inr (rs, report) \<and> map entry_of rs = es \<and>
    map rec_sequence rs = map (\<lambda>i. 1 + of_nat i) [0..<length es] \<and> \<not> rep_recovered report \<and>
    head_last_sequence (led_head l) = of_nat (length es)"
proof -
  have j: "journaled l d es" using run_journaled [OF assms] by simp
  then have "head_last_sequence (led_head l) = of_nat (length es)"
    by (auto simp: journaled_def continues_def)
  then show ?thesis
    using read_journaled [OF j] journal_records_sequence [of zero_digest 1 es] by fastforce
qed

theorem ledger_reads_back_witness:
  "\<exists>(l :: ledger) d rs report. read_all d = Inr (rs, report) \<and> map entry_of rs = [(1, ''{}'')] \<and>
     map rec_sequence rs = [1] \<and> head_last_sequence (led_head l) = 1"
proof -
  obtain l d where "ledger_run sample_coordinator zero_digest l d [(1, ''{}'')]" by (rule sample_run)
  from ledger_reads_back [OF this] obtain rs report where "read_all d = Inr (rs, report)"
    "map entry_of rs = [(1, ''{}'')]" "map rec_sequence rs = [1]" "head_last_sequence (led_head l) = 1"
    by auto
  then show ?thesis
    by - (rule exI [of _ l], rule exI [of _ d], rule exI [of _ rs], rule exI [of _ report], simp)
qed

text \<open>
  C4: crash consistency. If an append after any run dies in the middle of its write, the next boot
  succeeds: it finds exactly the entries acknowledged before, cuts the torn tail off, and starts a
  new epoch; the repaired journal reads back without a torn tail.
\<close>

theorem crash_recovery:
  assumes "ledger_run coordinator trust l d es"
    and "ledger_append l d t p (IoFailed c n) = (r, l', d')" "n < kFrameHeaderBytes + length p"
    and "works io"
  shows "\<exists>l2 report d2 rs clean. ledger_open d' coordinator trust io = (Inr (l2, report), d2) \<and>
    rep_valid_records report = length es \<and> read_all d2 = Inr (rs, clean) \<and> map entry_of rs = es \<and>
    \<not> rep_recovered clean \<and> head_epoch (led_head l2) = head_epoch (led_head l) + 1 \<and>
    head_last_sequence (led_head l2) = of_nat (length es)"
proof -
  have j: "journaled l d es" "wf_id coordinator" "length trust = 32"
    "head_coordinator (led_head l) = coordinator" "head_trust_digest (led_head l) = trust"
    using run_journaled [OF assms(1)] by auto
  obtain fs es1 where l: "continues l d fs es1" "concat (fs @ [es1]) = es" "booted l d"
    using j(1) by (auto simp: journaled_def)
  obtain fs' es' tail where d': "stored d' fs' es' tail" "torn es tail" "concat (fs' @ [es']) = es"
    "map_of d' head_path = map_of d head_path"
    using l(1) assms(2)
  proof (cases rule: ledger_append_cases)
    case (refused c fs' es')
    then show ?thesis using l(2) that [of fs' es' "[]"] by (auto simp: continues_def)
  next
    case (wrote l1 fs' es')
    note app = append_frame_stored [OF wrote(1,8,6,7)]
    have "head_last_sequence (led_head l1) = of_nat (length es)" "length (led_chain l1) = 32"
      using wrote(1,2) l(2) by (auto simp: continues_def)
    then have "torn es (reached (IoFailed c n) (next_frame l1 t p))"
      unfolding torn_def using wrote(5) assms(3) by (auto simp: kFrameHeaderBytes_def add.commute)
    then show ?thesis using app(1) app(2) [of head_path] wrote(2) l(2) that by auto
  qed
  obtain h where h: "head_ok h" "map_of d head_path = Some (head_bytes h)"
    "head_coordinator h = coordinator" "head_trust_digest h = trust" "head_epoch h = head_epoch (led_head l)"
    using l(3) j(4,5) by (auto simp: booted_def)
  have boot: "previous_boot d' coordinator trust (Some (head_epoch h, head_boot_count h))"
    using h d'(4) check_head_bytes [OF h(1), of coordinator trust] length_head_bytes [OF h(1)]
    by (simp add: previous_boot_def load_previous_def read_file_def rbind_def)
  show ?thesis
    using d'(1) d'(2) [folded d'(3)] assms(4) boot j(2,3)
  proof (rule open_stored)
    fix l2 report d2 fs2 es2
    assume o: "ledger_open d' coordinator trust io = (Inr (l2, report), d2)" "continues l2 d2 fs2 es2"
      "concat (fs2 @ [es2]) = concat (fs' @ [es'])" "rep_valid_records report = length (concat (fs' @ [es']))"
      "head_epoch (led_head l2) = (case Some (head_epoch h, head_boot_count h) of Some (e, b) \<Rightarrow> e | None \<Rightarrow> 0) + 1"
    have st: "stored d2 fs2 es2 []" using o(2) by (simp add: continues_def)
    have es: "concat (fs2 @ [es2]) = es" using o(3) d'(3) by simp
    have "read_all d2 = Inr (journal_records zero_digest 1 es, torn_report (fs2 @ [es2]) [])"
      using read_stored_torn [OF st torn_Nil] unfolding es read_all_def .
    moreover have "head_last_sequence (led_head l2) = of_nat (length es)"
      using o(2) unfolding continues_def es by simp
    moreover have "rep_valid_records report = length es" using o(4) unfolding d'(3) .
    ultimately show ?thesis
      using o(1,5) h(5) by (auto simp: torn_report_fields)
  qed
qed

theorem crash_recovery_witness:
  "\<exists>l d r l' d' l2 report d2. ledger_append l d 2 ''{}'' (IoFailed kIoFailed 50) = (r, l', d') \<and>
     ledger_open d' sample_coordinator zero_digest sample_io = (Inr (l2, report), d2) \<and>
     rep_valid_records report = 1"
proof -
  obtain l d where run: "ledger_run sample_coordinator zero_digest l d [(1, ''{}'')]" by (rule sample_run)
  obtain r l' d' where app: "ledger_append l d 2 ''{}'' (IoFailed kIoFailed 50) = (r, l', d')"
    by (metis prod_cases3)
  from crash_recovery [OF run app _ sample_wf(2)] obtain l2 report d2 where
    "ledger_open d' sample_coordinator zero_digest sample_io = (Inr (l2, report), d2)"
    "rep_valid_records report = 1"
    by (auto simp: kFrameHeaderBytes_def)
  with app show ?thesis by blast
qed

lemma retained_concat: "retained ess = segment_size (concat ess)"
  by (induction ess) (auto simp: retained_def segment_size_def)

text \<open>What a boot with a clean journal gives.\<close>

lemma boot_after_run:
  assumes "ledger_run coordinator trust l d es" "works io"
  obtains h where "head_ok h" "map_of d head_path = Some (head_bytes h)" "length (head_bytes h) \<le> kHeadBytes"
    "head_coordinator h = coordinator" "head_trust_digest h = trust" "head_epoch h = head_epoch (led_head l)"
    "previous_boot d coordinator trust (Some (head_epoch h, head_boot_count h))"
proof -
  have j: "booted l d" "head_coordinator (led_head l) = coordinator" "head_trust_digest (led_head l) = trust"
    using run_journaled [OF assms(1)] by (auto simp: journaled_def)
  then obtain h where h: "head_ok h" "map_of d head_path = Some (head_bytes h)"
    "head_coordinator h = coordinator" "head_trust_digest h = trust" "head_epoch h = head_epoch (led_head l)"
    by (auto simp: booted_def)
  have "previous_boot d coordinator trust (Some (head_epoch h, head_boot_count h))"
    using h check_head_bytes [OF h(1), of coordinator trust] length_head_bytes [OF h(1)]
    by (simp add: previous_boot_def load_previous_def read_file_def rbind_def)
  then show ?thesis using h length_head_bytes [OF h(1)] that by simp
qed




text \<open>
  C11: liveness of append. While the byte bound and the segment bound leave room, an append that
  reaches the disk is acknowledged with the next sequence, and the run goes on with the entry.
\<close>

theorem append_succeeds:
  assumes "ledger_run coordinator trust l d es" "length p \<le> kMaxRecordBytes"
    and "led_segment_count l < kMaxLedgerSegments"
    and "segment_size es + (kFrameHeaderBytes + length p) \<le> kMaxJournalBytes"
  shows "\<exists>l' d'. ledger_append l d t p IoDone = (Inr (of_nat (length es) + 1), l', d') \<and>
    ledger_run coordinator trust l' d' (es @ [(t, p)])"
proof -
  have j: "journaled l d es" using run_journaled [OF assms(1)] by simp
  then have l: "led_open l" "led_retained_bytes l = segment_size es"
    by (auto simp: journaled_def continues_def retained_concat)
  obtain s l' d' where app: "ledger_append l d t p IoDone = (Inr s, l', d')"
    by (rule append_accepts [of l p d t]) (use l assms in auto)
  then show ?thesis
    using append_journaled(1) [OF j app] run_append [OF assms(1) app] by auto
qed

theorem append_succeeds_witness:
  "\<exists>l d l' d'. ledger_append l d 1 ''{}'' IoDone = (Inr 1, l', d') \<and>
     ledger_run sample_coordinator zero_digest l' d' [(1, ''{}'')]"
proof -
  obtain l report d where l: "ledger_run sample_coordinator zero_digest l d []" "led_segment_count l = 0"
    by (rule sample_boot)
  from append_succeeds [OF l(1), of "''{}''" 1] l(2) show ?thesis
    by (auto simp: segment_size_def kMaxRecordBytes_def kMaxDocumentBytes_def kMaxLedgerSegments_def
        kFrameHeaderBytes_def kMaxJournalBytes_def kMaxSegmentBytes_def)
qed

lemma segment_files_sizes:
  "length link = 32 \<Longrightarrow> map (length \<circ> snd) (segment_files i link s ess) = map segment_size ess"
  by (induction ess arbitrary: i link s) (auto simp: length_journal_bytes length_journal_chain)

lemma stored_sizes:
  assumes "stored d fs es []"
  shows "map (length \<circ> snd) (journal_files d) = map segment_size (fs @ [es]) \<or>
    es = [] \<and> map (length \<circ> snd) (journal_files d) = map segment_size fs"
  using assms by (auto simp: stored_def segment_files_sizes length_journal_bytes length_journal_chain)

text \<open>
  C26: the journal stays within its bounds in every run: each segment holds at most
  \<^const>\<open>kMaxSegmentBytes\<close> bytes, all together at most \<^const>\<open>kMaxJournalBytes\<close>, and the byte count
  that the ledger keeps is their sum.
\<close>

theorem journal_bounded:
  assumes "ledger_run coordinator trust l d es"
  shows "list_all (\<lambda>(name, bs). length bs \<le> kMaxSegmentBytes) (journal_files d) \<and>
    sum_list (map (\<lambda>(name, bs). length bs) (journal_files d)) = led_retained_bytes l \<and>
    led_retained_bytes l \<le> kMaxJournalBytes"
proof -
  obtain fs es' where st: "stored d fs es' []" "led_retained_bytes l = retained (fs @ [es'])"
    using run_journaled [OF assms] by (auto simp: journaled_def continues_def)
  have sizes: "map (\<lambda>(name, bs). length bs) (journal_files d) = map (length \<circ> snd) (journal_files d)"
    by (simp add: case_prod_beta' comp_def)
  have all: "list_all (\<lambda>n. n \<le> kMaxSegmentBytes) (map segment_size (fs @ [es']))"
    "retained (fs @ [es']) \<le> kMaxJournalBytes"
    using st(1) by (auto simp: stored_def segment_ok_def list_all_iff)
  have files: "list_all (\<lambda>n. n \<le> kMaxSegmentBytes) (map (length \<circ> snd) (journal_files d))"
    "sum_list (map (length \<circ> snd) (journal_files d)) = retained (fs @ [es'])"
    using stored_sizes [OF st(1)] all(1) by (auto simp: retained_def segment_size_def)
  have "list_all (\<lambda>(name, bs). length bs \<le> kMaxSegmentBytes) (journal_files d)"
    using files(1) by (auto simp: list_all_iff)
  then show ?thesis unfolding sizes using files(2) all(2) st(2) by simp
qed

theorem journal_bounded_witness:
  "\<exists>(l :: ledger) d. sum_list (map (\<lambda>(name, bs). length bs) (journal_files d)) = led_retained_bytes l \<and>
     led_retained_bytes l \<le> kMaxJournalBytes \<and> read_all d \<noteq> Inl kLedgerCorrupt"
proof -
  obtain l d where run: "ledger_run sample_coordinator zero_digest l d [(1, ''{}'')]" by (rule sample_run)
  have "journaled l d [(1, ''{}'')]" using run_journaled [OF run] by simp
  then have "read_all d \<noteq> Inl kLedgerCorrupt" by (rule read_journaled) simp
  with journal_bounded [OF run] show ?thesis by blast
qed

text \<open>
  A state directory belongs to one coordinator under one trust set. After any run, a boot as
  another coordinator, or with another trust set, is refused with its own code and changes nothing.
\<close>

theorem foreign_boot_refused:
  assumes "ledger_run coordinator trust l d es" "(coordinator', trust') \<noteq> (coordinator, trust)"
  shows "ledger_open d coordinator' trust' io =
    (Inl (if coordinator' \<noteq> coordinator then kIndexMismatch else kPublisherNotTrusted), d)"
proof -
  have "works sample_io" by (rule sample_wf)
  from boot_after_run [OF assms(1) this] obtain h where h: "head_ok h"
    "map_of d head_path = Some (head_bytes h)" "length (head_bytes h) \<le> kHeadBytes"
    "head_coordinator h = coordinator" "head_trust_digest h = trust" .
  have "check_head (head_bytes h) coordinator' trust' =
      Inl (if coordinator' \<noteq> coordinator then kIndexMismatch else kPublisherNotTrusted)"
    using assms(2) h(4,5) by (auto simp: check_head_bytes [OF h(1)])
  then show ?thesis
    using h(2,3) by (simp add: ledger_open_def load_previous_def read_file_def rbind_def)
qed

theorem foreign_boot_refused_witness:
  "\<exists>d. ledger_open d sample_coordinator (replicate 32 1) sample_io = (Inl kPublisherNotTrusted, d)"
proof -
  obtain l d where run: "ledger_run sample_coordinator zero_digest l d [(1, ''{}'')]" by (rule sample_run)
  have "replicate 32 (1 :: u8) \<noteq> zero_digest" by (simp add: replicate_eq_replicate)
  with foreign_boot_refused [OF run, of sample_coordinator "replicate 32 1" sample_io] show ?thesis by auto
qed

section \<open>Snapshots\<close>

lemma snapshot_layout:
  defines "content \<equiv> \<lambda>s. write_u32 kSnapshotMagic @ write_u16 kSnapshotVersion @ write_u16 0 @
    write_u64 (snap_epoch s) @ write_u64 (snap_sequence s) @ digest_of (snap_payload s) @ replicate 36 0"
  shows "snapshot_bytes s = content s @ write_u32 (crc32 (content s)) @ replicate 32 0 @ bytes_of (snap_payload s)"
    "length (content s) = 92"
proof -
  show l: "length (content s) = 92" by (simp add: content_def)
  have "resize kSnapshotHeaderBytes (resize (kSnapshotHeaderBytes - kSnapshotReserved)
      (write_u32 kSnapshotMagic @ write_u16 kSnapshotVersion @ write_u16 0 @
        write_u64 (snap_epoch s) @ write_u64 (snap_sequence s) @ digest_of (snap_payload s))) =
      content s @ replicate 36 0"
    by (simp add: resize_def kSnapshotHeaderBytes_def kSnapshotReserved_def content_def
        replicate_add [symmetric])
  then have "snapshot_bytes s = take 92 (content s @ replicate 36 0) @
      write_u32 (crc32 (take 92 (content s @ replicate 36 0))) @
      drop 96 (content s @ replicate 36 0) @ bytes_of (snap_payload s)"
    unfolding snapshot_bytes_def Let_def by (simp only:)
  then show "snapshot_bytes s = content s @ write_u32 (crc32 (content s)) @ replicate 32 0 @ bytes_of (snap_payload s)"
    using l by simp
qed

text \<open>
  A snapshot that was written is read back as it was: sequence, epoch and payload. It is
  refused exactly when it is ahead of the journal.
\<close>

theorem snapshot_roundtrip:
  assumes "length (snap_payload s) \<le> kMaxDocumentBytes"
  shows "write_snapshot l d s IoDone =
      (if snap_sequence s > head_last_sequence (led_head l) then (Inl kRecoveryRequired, d)
       else (Inr (), map_put snapshot_path (snapshot_bytes s) (remove_file d (snapshot_path @ ''.tmp'')))) \<and>
    (snap_sequence s \<le> head_last_sequence (led_head l) \<longrightarrow>
     read_snapshot (snd (write_snapshot l d s IoDone)) = Inr (Some s))"
proof -
  define bs where "bs = snapshot_bytes s"
  note layout = snapshot_layout [of s]
  have "length bs = 128 + length (snap_payload s)"
    "read_u32 bs = kSnapshotMagic" "read_u16 (drop 4 bs) = kSnapshotVersion"
    "read_u64 (drop 8 bs) = snap_epoch s" "read_u64 (drop 16 bs) = snap_sequence s"
    "take 32 (drop 24 bs) = digest_of (snap_payload s)" "drop 128 bs = bytes_of (snap_payload s)"
    unfolding bs_def layout(1) by simp_all
  moreover have "read_u32 (drop 92 bs) = crc32 (take 92 bs)"
    unfolding bs_def layout(1) using layout(2) by simp
  ultimately have "read_snapshot d' = Inr (Some s)" if "map_of d' snapshot_path = Some bs" for d'
    using assms that by (simp add: read_snapshot_def read_file_def kSnapshotHeaderBytes_def)
  then show ?thesis
    by (auto simp: write_snapshot_def write_file_atomic_done bs_def)
qed

theorem snapshot_roundtrip_witness:
  "\<exists>l d. read_snapshot (snd (write_snapshot l d \<lparr>snap_sequence = 0, snap_epoch = 3, snap_payload = ''{}''\<rparr> IoDone)) =
     Inr (Some \<lparr>snap_sequence = 0, snap_epoch = 3, snap_payload = ''{}''\<rparr>)"
proof -
  let ?s = "\<lparr>snap_sequence = 0, snap_epoch = 3, snap_payload = ''{}''\<rparr>"
  have "read_snapshot (snd (write_snapshot l d ?s IoDone)) = Inr (Some ?s)" for l d
    by (rule snapshot_roundtrip [THEN conjunct2, rule_format]) (simp_all add: kMaxDocumentBytes_def)
  then show ?thesis by blast
qed

section \<open>A partial write\<close>

lemma map_put_twice: "map_put k x (map_put k y m) = map_put k x m"
  by (induction m) auto

lemma frame_start: "\<exists>rest. frame_bytes t s p link = 0x57 # 0x4E # 0x4C # 0x31 # rest"
  by (simp add: frame_bytes_def build_frame_def Let_def frame_fields_def write_u32_def kRecordMagic_def upt_conv_Cons)

lemma parse_after_one_byte:
  assumes "length link = 32"
  shows "parse_frame (take 1 (frame_bytes t1 s1 p link1) @ frame_bytes t s q link) = Inl kLedgerCorrupt"
proof -
  obtain r1 r where f: "frame_bytes t1 s1 p link1 = 0x57 # 0x4E # 0x4C # 0x31 # r1"
    "frame_bytes t s q link = 0x57 # 0x4E # 0x4C # 0x31 # r"
    using frame_start by metis
  have "\<not> length (take 1 (frame_bytes t1 s1 p link1) @ frame_bytes t s q link) < kFrameHeaderBytes"
    using assms by (simp add: length_frame_bytes kFrameHeaderBytes_def)
  moreover have "read_u32 (take 1 (frame_bytes t1 s1 p link1) @ frame_bytes t s q link) \<noteq> kRecordMagic"
    unfolding f by (simp add: read_u32_def kRecordMagic_def upt_conv_Cons)
  ultimately show ?thesis by (simp add: parse_frame_def)
qed

lemma append_in_segment:
  assumes "led_open l" "length p \<le> kMaxRecordBytes" "led_segment_bytes l + (92 + length p) \<le> kMaxSegmentBytes"
    "led_retained_bytes l + (92 + length p) \<le> kMaxJournalBytes"
  shows "ledger_append l d t p io = append_frame l d t p io"
  using assms by (simp add: ledger_append_def Let_def kFrameHeaderBytes_def kMaxRecordBytes_def kMaxDocumentBytes_def
      kMaxSegmentBytes_def)

text \<open>
  What a partial write does. After any run, an append that fails with one byte of its frame on the disk
  is refused, and the process goes on; the next append, when the segment and the journal have room for
  both, succeeds and is acknowledged, and from then on the journal is refused as corrupt: what was
  acknowledged cannot be read, before and after a restart.
\<close>

theorem partial_append_corrupts:
  assumes "ledger_run coordinator trust l d es" "length p \<le> kMaxRecordBytes" "length q \<le> kMaxRecordBytes"
    and "led_segment_bytes l + (93 + max (length p) (length q)) \<le> kMaxSegmentBytes"
    and "led_retained_bytes l + (93 + max (length p) (length q)) \<le> kMaxJournalBytes"
  shows "\<exists>d1 l2 d2. ledger_append l d t1 p (IoFailed c 1) = (Inl c, l, d1) \<and>
    ledger_append l d1 t q IoDone = (Inr (of_nat (length es) + 1), l2, d2) \<and>
    read_all d2 = Inl kLedgerCorrupt"
proof -
  obtain fs es1 where cont: "continues l d fs es1" "concat (fs @ [es1]) = es"
    using run_journaled [OF assms(1)] by (auto simp: journaled_def)
  have l: "led_open l" "stored d fs es1 []" "led_segment l = length fs" "length (led_chain l) = 32"
    "head_last_sequence (led_head l) = of_nat (length es)"
    "led_segment_bytes l = segment_size es1" "led_retained_bytes l = retained (fs @ [es1])"
    using cont(1) unfolding continues_def cont(2) by simp_all
  let ?n = "segment_name (length fs)" and ?f1 = "next_frame l t1 p" and ?f = "next_frame l t q"
  let ?old = "journal_bytes (genesis_chain (concat fs)) (1 + of_nat (length (concat fs))) es1"
  let ?tail = "take 1 ?f1 @ ?f"
  define d1 where "d1 = map_put ?n (?old @ take 1 ?f1) d"
  define d2 where "d2 = map_put ?n (?old @ ?tail) d"
  have built: "fst (build_frame t' (head_last_sequence (led_head l) + 1) p' (led_chain l)) = next_frame l t' p'" for t' p'
    by (simp add: frame_bytes_def)
  have old: "contents d ?n = ?old" using stored_last [OF l(2)] by simp
  have first: "ledger_append l d t1 p (IoFailed c 1) = (Inl c, l, d1)"
    using assms(2,4,5) l(1) built [of t1 p]
    by (simp add: append_in_segment append_frame_def append_file_flushed_def Let_def l(3) old d1_def case_prod_beta)
  have "map_put ?n x (map_put ?n y d) = map_put ?n x d" for x y
    by (rule map_put_twice)
  then have twice: "map_put ?n (contents d1 ?n @ ?f) d1 = d2"
    by (simp add: d1_def d2_def contents_def)
  have second: "\<exists>l2. ledger_append l d1 t q IoDone = (Inr (of_nat (length es) + 1), l2, d2)"
    using assms(3,4,5) l(1) built [of t q] twice
    by (simp add: append_in_segment append_frame_def append_file_flushed_def Let_def l(3,5) case_prod_beta)
  have size: "length ?tail \<le> 93 + length q" using l(4) by (simp add: length_frame_bytes)
  have st: "stored d2 fs es1 ?tail"
    unfolding d2_def using stored_put [OF l(2), of ?tail] assms(4,5) size l(6,7) by simp
  have "scan_segment ?tail n st' = Inl kLedgerCorrupt" for n st'
    using parse_after_one_byte [OF l(4)] frame_start [of t "head_last_sequence (led_head l) + 1" q "led_chain l"]
    by (subst scan_segment.simps) auto
  then have "read_all d2 = Inl kLedgerCorrupt" by (simp add: read_all_def read_stored [OF st] rbind_def)
  with first second show ?thesis by blast
qed

theorem partial_append_corrupts_witness:
  "\<exists>l d d1 l2 d2. ledger_append l d 1 ''{}'' (IoFailed kIoFailed 1) = (Inl kIoFailed, l, d1) \<and>
     ledger_append l d1 2 ''{}'' IoDone = (Inr 1, l2, d2) \<and> read_all d2 = Inl kLedgerCorrupt"
proof -
  obtain l report d where l: "ledger_run sample_coordinator zero_digest l d []" "led_retained_bytes l = 0"
    by (rule sample_boot)
  have "led_segment_bytes l = 0"
    using run_journaled [OF l(1)] l(2) by (auto simp: journaled_def continues_def retained_def)
  with partial_append_corrupts [OF l(1), of "''{}''" "''{}''" 1 kIoFailed 2] l(2)
  obtain d1 l2 d2 where "ledger_append l d 1 ''{}'' (IoFailed kIoFailed 1) = (Inl kIoFailed, l, d1)"
    "ledger_append l d1 2 ''{}'' IoDone = (Inr 1, l2, d2)" "read_all d2 = Inl kLedgerCorrupt"
    by (auto simp: kMaxRecordBytes_def kMaxDocumentBytes_def kMaxJournalBytes_def kMaxSegmentBytes_def kMaxLedgerSegments_def)
  then show ?thesis by blast
qed

end
