(* ===== verification/Wnc_Runtime.thy ===== *)
theory Wnc_Runtime
  imports Wnc_Durability
begin

text \<open>
  The coordinator runtime, \<^verbatim>\<open>src/runtime.cpp\<close>: its durable state, recovery by replaying the journal,
  and the operations \<^verbatim>\<open>register_workload\<close>, \<^verbatim>\<open>publish\<close>, \<^verbatim>\<open>attach_evidence\<close>, \<^verbatim>\<open>install_policy\<close>, \<^verbatim>\<open>retire\<close>,
  \<^verbatim>\<open>evaluate\<close> and \<^verbatim>\<open>verify_history\<close>. The state directory is a component of the runtime; the clock
  and the outcomes of the file system are inputs, signature verification is a parameter. A result
  is the sequence of the durable record or the code of the refusal.
\<close>

section \<open>State\<close>

definition kDomainRegistration :: string where
  "kDomainRegistration = ''wnc/v1/submission/registration''"
definition kDomainPublication :: string where
  "kDomainPublication = ''wnc/v1/submission/publication''"
definition kMaxJsonDepth :: nat where "kMaxJsonDepth = 32"
definition kMaxRetainedGenerations :: nat where "kMaxRetainedGenerations = 4096"
definition kDefaultEvidenceMaxAgeMillis :: u64 where "kDefaultEvidenceMaxAgeMillis = 30000"

record generation_record =
  gr_generation :: u64
  gr_digest :: digest
  gr_contract_id :: ident
  gr_body :: contract
  gr_recorded_at_millis :: u64
  gr_superseded :: bool
  gr_retired :: bool

record stored_evaluation =
  sto_evaluation :: contract_evaluation
  sto_valid :: bool
  sto_invalidation_reason :: string

record workload_state =
  ws_id :: ident
  ws_name :: string
  ws_workload_generation :: u64
  ws_contract_generation :: u64
  ws_digest :: digest
  ws_contract :: ident
  ws_policy_generation :: u64
  ws_evidence_generation :: u64
  ws_retired :: bool
  ws_generations :: "generation_record list"
  ws_evidence :: "evidence_set option"
  ws_evaluation :: "stored_evaluation option"

record runtime_state =
  rs_workloads :: "(ident, workload_state) smap"
  rs_policy :: "policy option"
  rs_policy_digest :: digest
  rs_policy_generation :: u64
  rs_evidence_floor :: u64
  rs_contract_floor :: u64

record runtime_info =
  ri_coordinator :: ident
  ri_incarnation :: incarnation
  ri_epoch :: u64
  ri_trust_digest :: digest
  ri_started_at_millis :: u64
  ri_recovered :: bool
  ri_recovered_records :: nat
  ri_truncated_bytes :: nat

record runtime =
  rt_info :: runtime_info
  rt_state :: runtime_state
  rt_trust :: trust_set
  rt_ledger :: ledger
  rt_directory :: directory
  rt_evidence_max_age_millis :: u64

definition new_workload :: workload_state where
  "new_workload =
     \<lparr>ws_id = zero_id, ws_name = '''', ws_workload_generation = 0, ws_contract_generation = 0,
      ws_digest = zero_digest, ws_contract = zero_id, ws_policy_generation = 0,
      ws_evidence_generation = 0, ws_retired = False, ws_generations = [], ws_evidence = None,
      ws_evaluation = None\<rparr>"

definition new_state :: runtime_state where
  "new_state =
     \<lparr>rs_workloads = [], rs_policy = None, rs_policy_digest = zero_digest,
      rs_policy_generation = 0, rs_evidence_floor = 0, rs_contract_floor = 0\<rparr>"

definition empty_evaluation :: contract_evaluation where
  "empty_evaluation =
     \<lparr>ce_workload = zero_id, ce_contract = zero_id, ce_contract_generation = 0,
      ce_contract_digest = zero_digest, ce_policy_generation = 0, ce_evidence_generation = 0,
      ce_evaluated_by = zero_incarnation, ce_epoch = 0, ce_evaluated_at_millis = 0,
      ce_aggregate = Unknown, ce_summary = empty_summary, ce_requirements = []\<rparr>"

definition effective_max_age :: "u64 \<Rightarrow> u64" where
  "effective_max_age configured = (if configured = 0 then kDefaultEvidenceMaxAgeMillis else configured)"

definition key_digest_payload :: "string \<Rightarrow> digest \<Rightarrow> json" where
  "key_digest_payload domain d =
     json_sets [(''domain'', JString domain), (''digest'', JString (hex_encode d))] JNull"

definition submission_bytes :: "contract \<Rightarrow> string" where
  "submission_bytes c = dump (contract_body_to_json (con_body c))"

definition signature_of :: "contract_envelope \<Rightarrow> signature_bytes" where
  "signature_of envelope =
     \<lparr>sig_algorithm = env_algorithm envelope, sig_key_id = env_key_id envelope,
      sig_bytes = env_signature envelope\<rparr>"

definition journal_decode_options :: json_decode_options where
  "journal_decode_options =
     default_decode_options\<lparr>max_bytes := kMaxRecordBytes, max_depth := kMaxJsonDepth,
       max_string_bytes := kMaxRecordBytes\<rparr>"

definition workload_of :: "contract \<Rightarrow> ident" where
  "workload_of c = wl_id (body_workload (con_body c))"

definition current_contract :: "workload_state \<Rightarrow> contract" where
  "current_contract w = gr_body (last (ws_generations w))"

definition new_generation :: "contract \<Rightarrow> u64 \<Rightarrow> generation_record" where
  "new_generation c recorded =
     \<lparr>gr_generation = body_generation (con_body c), gr_digest = con_digest c,
      gr_contract_id = body_contract_id (con_body c), gr_body = c,
      gr_recorded_at_millis = recorded, gr_superseded = False, gr_retired = False\<rparr>"

definition invalidate :: "string \<Rightarrow> workload_state \<Rightarrow> workload_state" where
  "invalidate reason w =
     w\<lparr>ws_evaluation := map_option (\<lambda>e. e\<lparr>sto_valid := False, sto_invalidation_reason := reason\<rparr>)
        (ws_evaluation w)\<rparr>"

section \<open>Recovery\<close>

text \<open>A payload that is a canonical JSON object; the decoder always returns.\<close>

definition decode_payload :: "string \<Rightarrow> (string, json) smap option" where
  "decode_payload t =
     (case json_decode journal_decode_options t of
        Some (Inr (JObject obj)) \<Rightarrow> Some obj
      | _ \<Rightarrow> None)"

definition recorded_at :: "(string, json) smap \<Rightarrow> u64" where
  "recorded_at obj = (case map_of obj ''recorded_at_millis'' of Some (JInt i) \<Rightarrow> of_int i | _ \<Rightarrow> 0)"

definition replay_contract :: "(string, json) smap \<Rightarrow> runtime_state \<Rightarrow> runtime_state result" where
  "replay_contract obj st =
     (case map_of obj ''contract'' of
        None \<Rightarrow> Inl kLedgerCorrupt
      | Some j \<Rightarrow>
          (case contract_from_json j of
             Inl c \<Rightarrow> Inl kLedgerCorrupt
           | Inr c \<Rightarrow>
               (let w = (case map_of (rs_workloads st) (workload_of c) of
                           Some w \<Rightarrow> w | None \<Rightarrow> new_workload);
                    g = new_generation c (recorded_at obj);
                    older = map (\<lambda>e. if gr_generation e < gr_generation g
                                     then e\<lparr>gr_superseded := True\<rparr> else e) (ws_generations w)
                in if older \<noteq> [] \<and> gr_generation (last older) = gr_generation g
                     then Inl kDuplicateWorkload
                   else Inr (st\<lparr>rs_workloads := map_put (workload_of c)
                     (w\<lparr>ws_id := workload_of c, ws_name := wl_name (body_workload (con_body c)),
                        ws_workload_generation := wl_generation (body_workload (con_body c)),
                        ws_contract_generation := gr_generation g, ws_digest := gr_digest g,
                        ws_contract := gr_contract_id g,
                        ws_policy_generation := body_policy_generation (con_body c),
                        ws_generations := older @ [g]\<rparr>) (rs_workloads st)\<rparr>))))"

text \<open>The workload that a record names.\<close>

definition named_workload :: "(string, json) smap \<Rightarrow> runtime_state \<Rightarrow> (ident \<times> workload_state) result" where
  "named_workload obj st =
     (case map_of obj ''workload'' of
        Some (JString s) \<Rightarrow>
          (case parse_id s of
             None \<Rightarrow> Inl kLedgerCorrupt
           | Some i \<Rightarrow>
               (case map_of (rs_workloads st) i of
                  None \<Rightarrow> Inl kLedgerCorrupt | Some w \<Rightarrow> Inr (i, w)))
      | _ \<Rightarrow> Inl kLedgerCorrupt)"

definition replay_retired :: "(string, json) smap \<Rightarrow> runtime_state \<Rightarrow> runtime_state result" where
  "replay_retired obj st =
     rbind (named_workload obj st) (\<lambda>(i, w).
       Inr (st\<lparr>rs_workloads := map_put i (w\<lparr>ws_retired := True\<rparr>) (rs_workloads st)\<rparr>))"

definition declares_scope :: "contract_body \<Rightarrow> evidence_set \<Rightarrow> bool" where
  "declares_scope b es =
     list_ex (\<lambda>e. list_ex (\<lambda>s. scope_name s = ev_scope e) (body_scopes b)) (es_entries es)"

definition revalidate :: "evidence_set \<Rightarrow> evidence_set" where
  "revalidate es = es\<lparr>es_entries := map (\<lambda>e. e\<lparr>ev_freshness := RevalidationRequired\<rparr>) (es_entries es)\<rparr>"

definition replay_evidence :: "(string, json) smap \<Rightarrow> runtime_state \<Rightarrow> runtime_state result" where
  "replay_evidence obj st =
     (case map_of obj ''evidence'' of
        None \<Rightarrow> Inl kLedgerCorrupt
      | Some j \<Rightarrow>
          (case evidence_from_json j of
             Inl c \<Rightarrow> Inl kLedgerCorrupt
           | Inr decoded \<Rightarrow>
               (let es = revalidate decoded;
                    hit = (\<lambda>w. ws_generations w \<noteq> [] \<and> declares_scope (con_body (current_contract w)) es)
                in if \<not> list_ex (\<lambda>(i, w). hit w) (rs_workloads st) then Inr st
                   else Inr (st\<lparr>rs_workloads :=
                       map (\<lambda>(i, w). (i, if hit w
                         then w\<lparr>ws_evidence := Some es, ws_evidence_generation := es_generation es,
                                ws_evaluation := None\<rparr> else w)) (rs_workloads st),
                     rs_evidence_floor := max (rs_evidence_floor st) (es_generation es)\<rparr>))))"

definition replay_policy :: "(string, json) smap \<Rightarrow> runtime_state \<Rightarrow> runtime_state result" where
  "replay_policy obj st =
     (case map_of obj ''policy'' of
        None \<Rightarrow> Inl kLedgerCorrupt
      | Some j \<Rightarrow>
          (case policy_from_json j of
             Inl c \<Rightarrow> Inl kLedgerCorrupt
           | Inr p \<Rightarrow> Inr (st\<lparr>rs_policy := Some p, rs_policy_digest := policy_digest p,
                              rs_policy_generation := pol_generation p\<rparr>)))"

definition restored_reason :: string where
  "restored_reason = ''restored from durable history after a coordinator restart''"

definition replay_evaluation :: "(string, json) smap \<Rightarrow> runtime_state \<Rightarrow> runtime_state result" where
  "replay_evaluation obj st =
     (if map_of obj ''evaluation'' = None then Inl kLedgerCorrupt
      else rbind (named_workload obj st) (\<lambda>(i, w).
        Inr (st\<lparr>rs_workloads := map_put i
          (w\<lparr>ws_evaluation := Some
             \<lparr>sto_evaluation = (case ws_evaluation w of
                 Some e \<Rightarrow> sto_evaluation e | None \<Rightarrow> empty_evaluation),
              sto_valid = False, sto_invalidation_reason = restored_reason\<rparr>\<rparr>) (rs_workloads st)\<rparr>)))"

definition apply_record :: "ledger_record \<Rightarrow> runtime_state \<Rightarrow> runtime_state result" where
  "apply_record r st =
     (case decode_payload (rec_payload r) of
        None \<Rightarrow> Inl kLedgerCorrupt
      | Some obj \<Rightarrow>
          if rec_type r = record_number RecGenesis then Inr st
          else if rec_type r = record_number RecWorkloadRegistered \<or>
                  rec_type r = record_number RecContractPublished then replay_contract obj st
          else if rec_type r = record_number RecWorkloadRetired then replay_retired obj st
          else if rec_type r = record_number RecEvidenceAttached then replay_evidence obj st
          else if rec_type r = record_number RecPolicyInstalled then replay_policy obj st
          else if rec_type r = record_number RecEvaluationRecorded then replay_evaluation obj st
          else Inl kLedgerIncompatible)"

definition replay :: "ledger_record list \<Rightarrow> runtime_state \<Rightarrow> runtime_state result" where
  "replay rs st = efold apply_record rs st"

definition restart_reason :: string where
  "restart_reason = ''the coordinator restarted; the decision must be recomputed''"

definition clear_decisions :: "runtime_state \<Rightarrow> runtime_state" where
  "clear_decisions st =
     st\<lparr>rs_workloads := map (\<lambda>(i, w). (i, w\<lparr>ws_evaluation := map_option (\<lambda>e.
         e\<lparr>sto_valid := False, sto_invalidation_reason :=
            (if sto_invalidation_reason e = [] then restart_reason else sto_invalidation_reason e)\<rparr>)
         (ws_evaluation w)\<rparr>)) (rs_workloads st)\<rparr>"

definition coordinator_identity :: "trust_set \<Rightarrow> ident" where
  "coordinator_identity trust =
     from_digest (sha256_parts [''wnc/v1/coordinator'', tool_identity ''wnc-coordinator'',
       hex_encode (trust_digest trust)])"

text \<open>The sequence that the replay starts after.\<close>

definition snapshot_start :: "directory \<Rightarrow> ledger \<Rightarrow> u64 result" where
  "snapshot_start d l =
     rbind (read_snapshot d) (\<lambda>present.
       case present of
         None \<Rightarrow> Inr 0
       | Some s \<Rightarrow>
           if snap_sequence s > head_last_sequence (led_head l) then Inl kRecoveryRequired
           else Inr (case json_decode default_decode_options (snap_payload s) of
               Some (Inr (JObject obj)) \<Rightarrow> snap_sequence s
             | _ \<Rightarrow> 0))"

record runtime_options =
  opt_directory :: "directory option"
  opt_trust :: trust_set
  opt_evidence_max_age_millis :: u64

definition runtime_open :: "runtime_options \<Rightarrow> open_io \<Rightarrow> u64 \<Rightarrow> runtime result \<times> directory option" where
  "runtime_open options io now =
     (case opt_directory options of
        None \<Rightarrow> (Inl kStateUnavailable, None)
      | Some d0 \<Rightarrow>
          (let trust = opt_trust options; coordinator = coordinator_identity trust;
               (opened, d) = ledger_open d0 coordinator (trust_digest trust) io
           in (rbind opened (\<lambda>(l, recovery).
               rbind (snapshot_start d l) (\<lambda>start.
               rbind (read_after d start) (\<lambda>(records, report).
               rbind (replay records new_state) (\<lambda>st.
               Inr \<lparr>rt_info = \<lparr>ri_coordinator = coordinator,
                      ri_incarnation = head_incarnation (led_head l), ri_epoch = head_epoch (led_head l),
                      ri_trust_digest = trust_digest trust, ri_started_at_millis = now,
                      ri_recovered = rep_recovered recovery,
                      ri_recovered_records = rep_valid_records recovery,
                      ri_truncated_bytes = rep_truncated_bytes recovery\<rparr>,
                    rt_state = clear_decisions st, rt_trust = trust, rt_ledger = l,
                    rt_directory = d,
                    rt_evidence_max_age_millis =
                      effective_max_age (opt_evidence_max_age_millis options)\<rparr>)))), Some d)))"

section \<open>Operations\<close>

definition commit :: "runtime \<Rightarrow> record_type \<Rightarrow> json \<Rightarrow> io_outcome \<Rightarrow> u64 result \<times> runtime" where
  "commit rt t payload io =
     (let bs = dump payload in
      if length bs > kMaxRecordBytes then (Inl kLedgerOversized, rt)
      else
        (let (r, l, d) = ledger_append (rt_ledger rt) (rt_directory rt) (record_number t) bs io
         in (r, rt\<lparr>rt_ledger := l, rt_directory := d\<rparr>)))"

text \<open>A durable change: the state is updated only after the record was acknowledged.\<close>

definition commit_then ::
    "runtime \<Rightarrow> record_type \<Rightarrow> json \<Rightarrow> io_outcome \<Rightarrow> (runtime_state \<Rightarrow> runtime_state) \<Rightarrow>
     u64 result \<times> runtime" where
  "commit_then rt t payload io update =
     (let (r, rt1) = commit rt t payload io in
      case r of
        Inl c \<Rightarrow> (Inl c, rt1)
      | Inr sequence \<Rightarrow> (Inr sequence, rt1\<lparr>rt_state := update (rt_state rt1)\<rparr>))"

text \<open>The check against the installed policy.\<close>

definition policy_gate :: "runtime_state \<Rightarrow> contract \<Rightarrow> unit result" where
  "policy_gate st c =
     (case rs_policy st of
        None \<Rightarrow> Inr ()
      | Some p \<Rightarrow>
          if body_policy_generation (con_body c) \<noteq> rs_policy_generation st then Inl kUnknownPolicy
          else
            (let checked = check_contract_against_policy p (con_body c) in
             if \<not> val_ok checked then Inl (first_error_code (val_diagnostics checked)) else Inr ()))"

definition validated :: "contract \<Rightarrow> unit result" where
  "validated c =
     (let v = validate_contract c in
      if \<not> val_ok v then Inl (first_error_code (val_diagnostics v)) else Inr ())"

subsection \<open>register_workload\<close>

definition check_registration ::
    "(bytes \<Rightarrow> bytes \<Rightarrow> bytes \<Rightarrow> bool) \<Rightarrow> runtime \<Rightarrow> contract \<Rightarrow> unit result" where
  "check_registration ed_verify rt c =
     rbind (validated c) (\<lambda>_.
     rbind (rcheck (body_generation (con_body c) = 1) kGenerationGap) (\<lambda>_.
     rbind (rcheck (\<not> has_supersedes c) kStaleGeneration) (\<lambda>_.
     rbind (verify_signature ed_verify (rt_trust rt) (env_publisher (con_envelope c))
         kDomainRegistration (submission_bytes c) (signature_of (con_envelope c))) (\<lambda>_.
     rbind (policy_gate (rt_state rt) c) (\<lambda>_.
     rcheck (map_of (rs_workloads (rt_state rt)) (workload_of c) = None) kDuplicateWorkload)))))"

definition registration_payload :: "contract \<Rightarrow> u64 \<Rightarrow> json" where
  "registration_payload c now =
     json_sets
       [(''workload'', JString (workload_of c)),
        (''contract_generation'', json_u64 (body_generation (con_body c))),
        (''digest'', JString (hex_encode (con_digest c))),
        (''publisher'', JString (env_publisher (con_envelope c))),
        (''recorded_at_millis'', json_u64 now),
        (''contract'', contract_to_json c),
        (''proof'', key_digest_payload kDomainRegistration (con_digest c))] JNull"

definition registered_workload :: "contract \<Rightarrow> u64 \<Rightarrow> workload_state" where
  "registered_workload c now =
     new_workload\<lparr>ws_id := workload_of c, ws_name := wl_name (body_workload (con_body c)),
       ws_workload_generation := wl_generation (body_workload (con_body c)),
       ws_contract_generation := body_generation (con_body c), ws_digest := con_digest c,
       ws_contract := body_contract_id (con_body c),
       ws_policy_generation := body_policy_generation (con_body c),
       ws_generations := [new_generation c now]\<rparr>"

text \<open>The clock is read for the record and again for the memory.\<close>

definition register_workload ::
    "(bytes \<Rightarrow> bytes \<Rightarrow> bytes \<Rightarrow> bool) \<Rightarrow> runtime \<Rightarrow> contract \<Rightarrow> (nat \<Rightarrow> u64) \<Rightarrow> io_outcome \<Rightarrow>
     u64 result \<times> runtime" where
  "register_workload ed_verify rt c clock io =
     (case check_registration ed_verify rt c of
        Inl e \<Rightarrow> (Inl e, rt)
      | Inr _ \<Rightarrow>
          commit_then rt RecWorkloadRegistered (registration_payload c (clock 0)) io
            (\<lambda>st. st\<lparr>rs_workloads :=
               map_put (workload_of c) (registered_workload c (clock 1)) (rs_workloads st)\<rparr>))"

subsection \<open>publish\<close>

definition check_publication ::
    "(bytes \<Rightarrow> bytes \<Rightarrow> bytes \<Rightarrow> bool) \<Rightarrow> runtime \<Rightarrow> contract \<Rightarrow> (workload_state \<times> ident) result" where
  "check_publication ed_verify rt c =
     rbind (validated c) (\<lambda>_.
     rbind (of_option kUnknownWorkload (map_of (rs_workloads (rt_state rt)) (workload_of c))) (\<lambda>w.
     rbind (rcheck (\<not> ws_retired w) kContractRetired) (\<lambda>_.
     (let expected = ws_contract_generation w + 1; current = current_contract w in
     rbind (rcheck (\<not> body_generation (con_body c) < expected) kReplayRejected) (\<lambda>_.
     rbind (rcheck (\<not> body_generation (con_body c) > expected) kGenerationGap) (\<lambda>_.
     rbind (rcheck (has_supersedes c \<and> con_supersedes c = ws_contract_generation w \<and>
         con_supersedes_digest c = ws_digest w) kStaleGeneration) (\<lambda>_.
     rbind (rcheck (body_major (con_body c) = body_major (con_body current)) kIncompatibleMajor) (\<lambda>_.
     rbind (verify_signature ed_verify (rt_trust rt) (env_publisher (con_envelope c))
         kDomainPublication (submission_bytes c) (signature_of (con_envelope c))) (\<lambda>(publisher, key).
     rbind (rcheck (env_publisher (con_envelope current) = publisher) kNotContractOwner) (\<lambda>_.
     rbind (policy_gate (rt_state rt) c) (\<lambda>_.
     (let compat = check_compatibility (con_body current) (con_body c) in
     rbind (rcheck (compatible compat) (first_error_code (compat_diagnostics compat))) (\<lambda>_.
     rbind (rcheck (\<not> length (ws_generations w) \<ge> kMaxRetainedGenerations) kRetentionExceeded) (\<lambda>_.
     Inr (w, publisher)))))))))))))))"

definition publication_payload :: "contract \<Rightarrow> ident \<Rightarrow> u64 \<Rightarrow> json" where
  "publication_payload c publisher now =
     json_sets
       [(''workload'', JString (workload_of c)),
        (''contract_generation'', json_u64 (body_generation (con_body c))),
        (''digest'', JString (hex_encode (con_digest c))),
        (''publisher'', JString publisher),
        (''supersedes'', json_u64 (con_supersedes c)),
        (''supersedes_digest'', JString (hex_encode (con_supersedes_digest c))),
        (''recorded_at_millis'', json_u64 now),
        (''contract'', contract_to_json c),
        (''proof'', key_digest_payload kDomainPublication (con_digest c))] JNull"

definition published_workload :: "contract \<Rightarrow> u64 \<Rightarrow> workload_state \<Rightarrow> workload_state" where
  "published_workload c now w =
     (invalidate ''the contract generation changed'' w)\<lparr>
       ws_generations := map (\<lambda>g. g\<lparr>gr_superseded := True\<rparr>) (ws_generations w) @ [new_generation c now],
       ws_contract_generation := body_generation (con_body c), ws_digest := con_digest c,
       ws_contract := body_contract_id (con_body c),
       ws_policy_generation := body_policy_generation (con_body c),
       ws_workload_generation := wl_generation (body_workload (con_body c))\<rparr>"

definition publish ::
    "(bytes \<Rightarrow> bytes \<Rightarrow> bytes \<Rightarrow> bool) \<Rightarrow> runtime \<Rightarrow> contract \<Rightarrow> (nat \<Rightarrow> u64) \<Rightarrow> io_outcome \<Rightarrow>
     u64 result \<times> runtime" where
  "publish ed_verify rt c clock io =
     (case check_publication ed_verify rt c of
        Inl e \<Rightarrow> (Inl e, rt)
      | Inr (w, publisher) \<Rightarrow>
          commit_then rt RecContractPublished (publication_payload c publisher (clock 0)) io
            (\<lambda>st. st\<lparr>rs_workloads :=
               map_put (workload_of c) (published_workload c (clock 1) w) (rs_workloads st)\<rparr>))"

subsection \<open>attach_evidence\<close>

text \<open>The clock is read for every entry without a time and then for the record.\<close>

definition stamp_entry :: "runtime \<Rightarrow> ident \<Rightarrow> u64 \<Rightarrow> evidence_entry \<Rightarrow> evidence_entry" where
  "stamp_entry rt publisher now e =
     e\<lparr>ev_captured_by := ri_incarnation (rt_info rt), ev_epoch := ri_epoch (rt_info rt),
       ev_publisher := publisher, ev_freshness := Current,
       ev_produced_at_millis := (if ev_produced_at_millis e = 0 then now else ev_produced_at_millis e)\<rparr>"

definition stamp_evidence :: "runtime \<Rightarrow> evidence_set \<Rightarrow> (nat \<Rightarrow> u64) \<Rightarrow> evidence_set" where
  "stamp_evidence rt submitted clock =
     (let stamped = submitted\<lparr>es_epoch := ri_epoch (rt_info rt), es_entries :=
            map (\<lambda>(i, e). stamp_entry rt (es_publisher submitted) (clock i) e)
              (enumerate 0 (es_entries submitted))\<rparr>
      in stamped\<lparr>es_evidence_id := derive_evidence_id (evidence_digest stamped)\<rparr>)"

definition check_evidence :: "runtime \<Rightarrow> evidence_set \<Rightarrow> unit result" where
  "check_evidence rt submitted =
     rbind (rcheck (es_entries submitted \<noteq> []) kEvaluationNoEvidence) (\<lambda>_.
     rbind (rcheck (\<not> (es_generation submitted \<noteq> 0 \<and>
         es_generation submitted \<le> rs_evidence_floor (rt_state rt))) kEvidenceGenerationBackwards) (\<lambda>_.
     rcheck (trust_find (rt_trust rt) (es_publisher submitted) \<noteq> None) kPublisherNotTrusted))"

text \<open>The sorted list of affected workloads has no repetition: they are the keys of a map.\<close>

definition affected :: "runtime_state \<Rightarrow> evidence_set \<Rightarrow> ident list" where
  "affected st es =
     map fst (filter (\<lambda>(i, w). \<not> ws_retired w \<and> declares_scope (con_body (current_contract w)) es)
       (rs_workloads st))"

definition evidence_payload :: "evidence_set \<Rightarrow> u64 \<Rightarrow> json" where
  "evidence_payload es now =
     json_sets
       [(''evidence'', evidence_to_json es), (''publisher'', JString (es_publisher es)),
        (''recorded_at_millis'', json_u64 now)] JNull"

definition attach_to :: "evidence_set \<Rightarrow> workload_state \<Rightarrow> workload_state" where
  "attach_to es w =
     invalidate ''the evidence generation changed''
       (w\<lparr>ws_evidence := Some es, ws_evidence_generation := es_generation es\<rparr>)"

definition attach_evidence ::
    "runtime \<Rightarrow> evidence_set \<Rightarrow> (nat \<Rightarrow> u64) \<Rightarrow> io_outcome \<Rightarrow> u64 result \<times> runtime" where
  "attach_evidence rt submitted clock io =
     (case check_evidence rt submitted of
        Inl e \<Rightarrow> (Inl e, rt)
      | Inr _ \<Rightarrow>
          (let es = stamp_evidence rt submitted clock; ids = affected (rt_state rt) es in
           commit_then rt RecEvidenceAttached
             (evidence_payload es (clock (length (es_entries submitted)))) io
             (\<lambda>st. st\<lparr>rs_workloads :=
                 map (\<lambda>(i, w). (i, if i \<in> set ids then attach_to es w else w)) (rs_workloads st),
               rs_evidence_floor := es_generation es\<rparr>)))"

subsection \<open>install_policy and retire\<close>

definition check_policy :: "runtime \<Rightarrow> policy \<Rightarrow> unit result" where
  "check_policy rt p =
     (let v = validate_policy p; st = rt_state rt in
      if \<not> val_ok v then Inl (first_error_code (val_diagnostics v))
      else case rs_policy st of
        None \<Rightarrow> Inr ()
      | Some installed \<Rightarrow>
          if pol_generation p < rs_policy_generation st then Inl kStaleGeneration
          else if pol_generation p = rs_policy_generation st \<and> pol_id p \<noteq> pol_id installed
            then Inl kDuplicateWorkload
          else Inr ())"

definition policy_payload :: "policy \<Rightarrow> u64 \<Rightarrow> json" where
  "policy_payload p now =
     json_sets
       [(''policy'', policy_to_json p), (''digest'', JString (hex_encode (policy_digest p))),
        (''recorded_at_millis'', json_u64 now)] JNull"

definition install_policy ::
    "runtime \<Rightarrow> policy \<Rightarrow> (nat \<Rightarrow> u64) \<Rightarrow> io_outcome \<Rightarrow> u64 result \<times> runtime" where
  "install_policy rt p clock io =
     (case check_policy rt p of
        Inl e \<Rightarrow> (Inl e, rt)
      | Inr _ \<Rightarrow>
          commit_then rt RecPolicyInstalled (policy_payload p (clock 0)) io
            (\<lambda>st. st\<lparr>rs_policy := Some p, rs_policy_digest := policy_digest p,
               rs_policy_generation := pol_generation p,
               rs_workloads := map (\<lambda>(i, w). (i, invalidate ''the policy generation changed'' w))
                 (rs_workloads st)\<rparr>))"

definition check_retire :: "runtime \<Rightarrow> ident \<Rightarrow> workload_state result" where
  "check_retire rt i =
     rbind (of_option kUnknownWorkload (map_of (rs_workloads (rt_state rt)) i)) (\<lambda>w.
     rbind (rcheck (\<not> ws_retired w) kContractRetired) (\<lambda>_. Inr w))"

definition retirement_payload :: "ident \<Rightarrow> u64 \<Rightarrow> json" where
  "retirement_payload i now =
     json_sets [(''workload'', JString i), (''recorded_at_millis'', json_u64 now)] JNull"

definition retired_workload :: "workload_state \<Rightarrow> workload_state" where
  "retired_workload w =
     invalidate ''the workload was retired''
       (w\<lparr>ws_retired := True, ws_generations := map (\<lambda>g. g\<lparr>gr_retired := True\<rparr>) (ws_generations w)\<rparr>)"

definition retire :: "runtime \<Rightarrow> ident \<Rightarrow> (nat \<Rightarrow> u64) \<Rightarrow> io_outcome \<Rightarrow> u64 result \<times> runtime" where
  "retire rt i clock io =
     (case check_retire rt i of
        Inl e \<Rightarrow> (Inl e, rt)
      | Inr w \<Rightarrow>
          commit_then rt RecWorkloadRetired (retirement_payload i (clock 0)) io
            (\<lambda>st. st\<lparr>rs_workloads := map_put i (retired_workload w) (rs_workloads st)\<rparr>))"

subsection \<open>evaluate\<close>

text \<open>The verdict when no evidence was ever attached.\<close>

definition unknown_item :: "requirement \<Rightarrow> requirement_evaluation" where
  "unknown_item r =
     \<lparr>re_requirement = req_id r, re_scope = req_scope r, re_kind = req_kind r,
      re_strength = req_strength r,
      re_satisfaction = (if req_strength r = Informational then NotApplicable else Unknown),
      re_reason_code = (if req_strength r = Informational then kOk else kEvaluationNoEvidence),
      re_evidence = zero_id, re_evidence_generation = 0, re_freshness = RevalidationRequired,
      re_observed = None\<rparr>"

definition count_unknown :: "requirement_evaluation \<Rightarrow> evaluation_summary \<Rightarrow> evaluation_summary" where
  "count_unknown e s =
     (case re_strength e of
        Required \<Rightarrow> s\<lparr>required_total := Suc (required_total s), required_unknown := Suc (required_unknown s)\<rparr>
      | Preferred \<Rightarrow> s\<lparr>preferred_unknown := Suc (preferred_unknown s)\<rparr>
      | Informational \<Rightarrow> s\<lparr>informational := Suc (informational s), not_applicable := Suc (not_applicable s)\<rparr>)"

definition unknown_evaluation :: "runtime_info \<Rightarrow> workload_state \<Rightarrow> u64 \<Rightarrow> contract_evaluation" where
  "unknown_evaluation info w now =
     (let c = current_contract w; items = map unknown_item (body_requirements (con_body c)) in
      \<lparr>ce_workload = ws_id w, ce_contract = body_contract_id (con_body c),
       ce_contract_generation = body_generation (con_body c), ce_contract_digest = con_digest c,
       ce_policy_generation = body_policy_generation (con_body c), ce_evidence_generation = 0,
       ce_evaluated_by = ri_incarnation info, ce_epoch = ri_epoch info,
       ce_evaluated_at_millis = now, ce_aggregate = Unknown,
       ce_summary = fold count_unknown items empty_summary, ce_requirements = items\<rparr>)"

definition cached :: "runtime_info \<Rightarrow> workload_state \<Rightarrow> contract_evaluation option" where
  "cached info w =
     (case ws_evaluation w of
        None \<Rightarrow> None
      | Some s \<Rightarrow>
          (let e = sto_evaluation s; c = current_contract w in
           if sto_valid s \<and> ce_evaluated_by e = ri_incarnation info \<and> ce_contract_digest e = con_digest c \<and>
              ce_policy_generation e = body_policy_generation (con_body c) \<and>
              ce_evidence_generation e = ws_evidence_generation w
           then Some e else None))"

definition capture :: "runtime_info \<Rightarrow> evidence_set \<Rightarrow> evidence_set" where
  "capture info es =
     es\<lparr>es_epoch := ri_epoch info, es_entries := map (\<lambda>e. e\<lparr>ev_captured_by := ri_incarnation info,
        ev_epoch := ri_epoch info\<rparr>) (es_entries es)\<rparr>"

text \<open>The clock is read for the validation of supplied evidence and for the evaluation.\<close>

definition evaluate_internal ::
    "runtime \<Rightarrow> workload_state \<Rightarrow> evidence_set option \<Rightarrow> bool \<Rightarrow> (nat \<Rightarrow> u64) \<Rightarrow>
     (code \<times> contract_evaluation) result" where
  "evaluate_internal rt w supplied allow_cached clock =
     (let info = rt_info rt; c = current_contract w; age = rt_evidence_max_age_millis rt;
          run = (\<lambda>es. Inr (kOk, evaluate_contract c es (ri_incarnation info) (clock 1) age)) in
      case (if allow_cached then cached info w else None) of
        Some e \<Rightarrow> Inr (kOk, e)
      | None \<Rightarrow>
          (case supplied of
             Some es \<Rightarrow>
               (let (checked, stamped) =
                  validate_evidence (capture info es) (con_body c) (ri_incarnation info) (clock 0) age
                in if \<not> evr_ok checked then Inl (first_error_code (evr_diagnostics checked))
                   else run stamped)
           | None \<Rightarrow>
               (case ws_evidence w of
                  Some es \<Rightarrow> run es
                | None \<Rightarrow> Inr (kEvaluationNoEvidence, unknown_evaluation info w (clock 0)))))"

definition evaluate :: "runtime \<Rightarrow> ident \<Rightarrow> (nat \<Rightarrow> u64) \<Rightarrow> (code \<times> contract_evaluation) result" where
  "evaluate rt i clock =
     (case map_of (rs_workloads (rt_state rt)) i of
        None \<Rightarrow> Inl kUnknownWorkload
      | Some w \<Rightarrow> evaluate_internal rt w None True clock)"

definition evaluate_with_evidence ::
    "runtime \<Rightarrow> ident \<Rightarrow> evidence_set \<Rightarrow> (nat \<Rightarrow> u64) \<Rightarrow> (code \<times> contract_evaluation) result" where
  "evaluate_with_evidence rt i es clock =
     (case map_of (rs_workloads (rt_state rt)) i of
        None \<Rightarrow> Inl kUnknownWorkload
      | Some w \<Rightarrow> evaluate_internal rt w (Some es) False clock)"

subsection \<open>Inspection\<close>

record workload_snapshot =
  wsn_id :: ident
  wsn_name :: string
  wsn_workload_generation :: u64
  wsn_contract_generation :: u64
  wsn_digest :: digest
  wsn_contract :: ident
  wsn_policy_generation :: u64
  wsn_evidence_generation :: u64
  wsn_retired :: bool
  wsn_history :: "(u64 \<times> digest \<times> ident \<times> u64 \<times> bool \<times> bool) list"

definition workload_snapshot_of :: "runtime \<Rightarrow> ident \<Rightarrow> workload_snapshot option" where
  "workload_snapshot_of rt i =
     map_option (\<lambda>w.
       \<lparr>wsn_id = ws_id w, wsn_name = ws_name w, wsn_workload_generation = ws_workload_generation w,
        wsn_contract_generation = ws_contract_generation w, wsn_digest = ws_digest w,
        wsn_contract = ws_contract w, wsn_policy_generation = ws_policy_generation w,
        wsn_evidence_generation = ws_evidence_generation w, wsn_retired = ws_retired w,
        wsn_history = map (\<lambda>g. (gr_generation g, gr_digest g, gr_contract_id g,
          gr_recorded_at_millis g, gr_superseded g, gr_retired g)) (ws_generations w)\<rparr>)
       (map_of (rs_workloads (rt_state rt)) i)"

definition contract_at :: "runtime \<Rightarrow> ident \<Rightarrow> u64 \<Rightarrow> contract option" where
  "contract_at rt i generation =
     (case map_of (rs_workloads (rt_state rt)) i of
        None \<Rightarrow> None
      | Some w \<Rightarrow> map_option gr_body (find (\<lambda>g. gr_generation g = generation) (ws_generations w)))"

definition runtime_workloads :: "runtime \<Rightarrow> ident list" where
  "runtime_workloads rt = map fst (rs_workloads (rt_state rt))"

text \<open>
  \<^verbatim>\<open>as_int\<close> and \<^verbatim>\<open>as_string\<close> of a value of another kind are the default of the member.
\<close>

fun as_int :: "json \<Rightarrow> int" where
  "as_int (JInt i) = i"
| "as_int _ = 0"

fun as_string :: "json \<Rightarrow> string" where
  "as_string (JString s) = s"
| "as_string _ = []"

definition verify_record :: "runtime_state \<Rightarrow> ledger_record \<Rightarrow> unit result" where
  "verify_record st r =
     (if rec_type r \<noteq> record_number RecContractPublished \<and>
         rec_type r \<noteq> record_number RecWorkloadRegistered then Inr ()
      else case json_decode default_decode_options (rec_payload r) of
        Some (Inr j) \<Rightarrow>
          (case (json_find j ''workload'', json_find j ''contract_generation'', json_find j ''digest'') of
             (Some w, Some g, Some dg) \<Rightarrow>
               (case parse_id (as_string w) of
                  None \<Rightarrow> Inl kLedgerCorrupt
                | Some i \<Rightarrow>
                    (case map_of (rs_workloads st) i of
                       None \<Rightarrow> Inl kIndexMismatch
                     | Some ws \<Rightarrow>
                         rcheck (list_ex (\<lambda>gr. gr_generation gr = of_int (as_int g) \<and>
                           hex_encode (gr_digest gr) = as_string dg) (ws_generations ws)) kIndexMismatch))
           | _ \<Rightarrow> Inl kLedgerCorrupt)
      | _ \<Rightarrow> Inl kLedgerCorrupt)"

definition verify_history :: "runtime \<Rightarrow> unit result" where
  "verify_history rt =
     rbind (read_all (rt_directory rt)) (\<lambda>(records, report).
     rbind (rcheck (\<not> rep_recovered report) kLedgerTruncated) (\<lambda>_.
     efold (\<lambda>r _. verify_record (rt_state rt) r) records ()))"

end
