(* ===== verification/Wnc_Authority.thy ===== *)
theory Wnc_Authority
  imports Wnc_Runtime
begin

text \<open>
  The five operations of the runtime that change durable state, seen uniformly: each is a guard, one
  journal record and an effect on the state in memory (\<open>perform_eq\<close>). Over them the step relation
  \<open>runtime_run\<close>: a runtime opened on an empty directory, any number of acknowledged and of refused
  requests. Two invariants of every run by rule induction: the journal holds exactly the acknowledged
  events (\<open>run_durable\<close>) and the history of every workload is one chain of compatible generations
  (\<open>run_state_ok\<close>).
\<close>

section \<open>Requests and events\<close>

text \<open>The requests that change durable state, and the event that each one records.\<close>

datatype request =
    Register contract | Publish contract | Attach evidence_set | Install policy | Retire ident

datatype event =
    Registered contract u64 | Published contract ident u64 | Attached evidence_set u64
  | Installed policy u64 | Retired ident u64

fun event_type :: "event \<Rightarrow> record_type" where
  "event_type (Registered c t) = RecWorkloadRegistered"
| "event_type (Published c p t) = RecContractPublished"
| "event_type (Attached es t) = RecEvidenceAttached"
| "event_type (Installed p t) = RecPolicyInstalled"
| "event_type (Retired i t) = RecWorkloadRetired"

fun event_payload :: "event \<Rightarrow> json" where
  "event_payload (Registered c t) = registration_payload c t"
| "event_payload (Published c p t) = publication_payload c p t"
| "event_payload (Attached es t) = evidence_payload es t"
| "event_payload (Installed p t) = policy_payload p t"
| "event_payload (Retired i t) = retirement_payload i t"

definition event_entry :: "event \<Rightarrow> entry" where
  "event_entry ev = (record_number (event_type ev), dump (event_payload ev))"

fun perform ::
    "(bytes \<Rightarrow> bytes \<Rightarrow> bytes \<Rightarrow> bool) \<Rightarrow> runtime \<Rightarrow> request \<Rightarrow> (nat \<Rightarrow> u64) \<Rightarrow> io_outcome \<Rightarrow>
     u64 result \<times> runtime" where
  "perform ed rt (Register c) clock io = register_workload ed rt c clock io"
| "perform ed rt (Publish c) clock io = publish ed rt c clock io"
| "perform ed rt (Attach es) clock io = attach_evidence rt es clock io"
| "perform ed rt (Install p) clock io = install_policy rt p clock io"
| "perform ed rt (Retire i) clock io = retire rt i clock io"

text \<open>The guard of a request, the event it records, and its effect on the state in memory.\<close>

fun guard :: "(bytes \<Rightarrow> bytes \<Rightarrow> bytes \<Rightarrow> bool) \<Rightarrow> runtime \<Rightarrow> request \<Rightarrow> unit result" where
  "guard ed rt (Register c) = check_registration ed rt c"
| "guard ed rt (Publish c) = rbind (check_publication ed rt c) (\<lambda>_. Inr ())"
| "guard ed rt (Attach es) = check_evidence rt es"
| "guard ed rt (Install p) = check_policy rt p"
| "guard ed rt (Retire i) = rbind (check_retire rt i) (\<lambda>_. Inr ())"

fun event_of :: "(bytes \<Rightarrow> bytes \<Rightarrow> bytes \<Rightarrow> bool) \<Rightarrow> runtime \<Rightarrow> request \<Rightarrow> (nat \<Rightarrow> u64) \<Rightarrow> event" where
  "event_of ed rt (Register c) clock = Registered c (clock 0)"
| "event_of ed rt (Publish c) clock =
     Published c (case check_publication ed rt c of Inr (w, p) \<Rightarrow> p | Inl _ \<Rightarrow> zero_id) (clock 0)"
| "event_of ed rt (Attach es) clock =
     Attached (stamp_evidence rt es clock) (clock (length (es_entries es)))"
| "event_of ed rt (Install p) clock = Installed p (clock 0)"
| "event_of ed rt (Retire i) clock = Retired i (clock 0)"

definition workload_at :: "runtime_state \<Rightarrow> ident \<Rightarrow> workload_state" where
  "workload_at st i = (case map_of (rs_workloads st) i of Some w \<Rightarrow> w | None \<Rightarrow> new_workload)"

fun effect :: "runtime \<Rightarrow> request \<Rightarrow> (nat \<Rightarrow> u64) \<Rightarrow> runtime_state \<Rightarrow> runtime_state" where
  "effect rt (Register c) clock st =
     st\<lparr>rs_workloads := map_put (workload_of c) (registered_workload c (clock 1)) (rs_workloads st)\<rparr>"
| "effect rt (Publish c) clock st =
     st\<lparr>rs_workloads := map_put (workload_of c)
       (published_workload c (clock 1) (workload_at (rt_state rt) (workload_of c))) (rs_workloads st)\<rparr>"
| "effect rt (Attach es) clock st =
     (let stamped = stamp_evidence rt es clock; ids = affected (rt_state rt) stamped in
      st\<lparr>rs_workloads := map (\<lambda>(i, w). (i, if i \<in> set ids then attach_to stamped w else w)) (rs_workloads st),
         rs_evidence_floor := es_generation stamped\<rparr>)"
| "effect rt (Install p) clock st =
     st\<lparr>rs_policy := Some p, rs_policy_digest := policy_digest p, rs_policy_generation := pol_generation p,
        rs_workloads := map (\<lambda>(i, w). (i, invalidate ''the policy generation changed'' w)) (rs_workloads st)\<rparr>"
| "effect rt (Retire i) clock st =
     st\<lparr>rs_workloads := map_put i (retired_workload (workload_at (rt_state rt) i)) (rs_workloads st)\<rparr>"

lemma check_publication_workload:
  "check_publication ed rt c = Inr (w, p) \<Longrightarrow> map_of (rs_workloads (rt_state rt)) (workload_of c) = Some w"
  by (auto simp: check_publication_def Let_def)

lemma check_retire_workload:
  "check_retire rt i = Inr w \<longleftrightarrow> map_of (rs_workloads (rt_state rt)) i = Some w \<and> \<not> ws_retired w"
  by (auto simp: check_retire_def)

text \<open>Every operation is: its guard, then the durable record, then its effect.\<close>

lemma perform_eq:
  "perform ed rt req clock io =
     (case guard ed rt req of
        Inl e \<Rightarrow> (Inl e, rt)
      | Inr _ \<Rightarrow> commit_then rt (event_type (event_of ed rt req clock))
          (event_payload (event_of ed rt req clock)) io (effect rt req clock))"
proof (cases req)
  case (Register c)
  have "effect rt (Register c) clock = (\<lambda>st. st\<lparr>rs_workloads :=
      map_put (workload_of c) (registered_workload c (clock 1)) (rs_workloads st)\<rparr>)"
    by (rule ext) simp
  with Register show ?thesis by (simp add: register_workload_def del: effect.simps split: sum.split)
next
  case (Publish c)
  show ?thesis
  proof (cases "check_publication ed rt c")
    case (Inr wp)
    obtain w p where wp: "wp = (w, p)" by (cases wp)
    have "effect rt (Publish c) clock = (\<lambda>st. st\<lparr>rs_workloads :=
        map_put (workload_of c) (published_workload c (clock 1) w) (rs_workloads st)\<rparr>)"
      using check_publication_workload [of ed rt c w p] Inr wp by (intro ext) (simp add: workload_at_def)
    with Publish Inr wp show ?thesis by (simp add: publish_def rbind_def del: effect.simps)
  qed (simp add: Publish publish_def rbind_def)
next
  case (Attach es)
  have "effect rt (Attach es) clock = (let stamped = stamp_evidence rt es clock; ids = affected (rt_state rt) stamped in
      (\<lambda>st. st\<lparr>rs_workloads := map (\<lambda>(i, w). (i, if i \<in> set ids then attach_to stamped w else w)) (rs_workloads st),
         rs_evidence_floor := es_generation stamped\<rparr>))"
    by (rule ext) (simp add: Let_def)
  with Attach show ?thesis by (simp add: attach_evidence_def Let_def del: effect.simps split: sum.split)
next
  case (Install p)
  have "effect rt (Install p) clock = (\<lambda>st. st\<lparr>rs_policy := Some p, rs_policy_digest := policy_digest p,
      rs_policy_generation := pol_generation p,
      rs_workloads := map (\<lambda>(i, w). (i, invalidate ''the policy generation changed'' w)) (rs_workloads st)\<rparr>)"
    by (rule ext) simp
  with Install show ?thesis by (simp add: install_policy_def del: effect.simps split: sum.split)
next
  case (Retire i)
  show ?thesis
  proof (cases "check_retire rt i")
    case (Inr w)
    have "effect rt (Retire i) clock = (\<lambda>st. st\<lparr>rs_workloads := map_put i (retired_workload w) (rs_workloads st)\<rparr>)"
      using check_retire_workload [of rt i w] Inr by (intro ext) (simp add: workload_at_def)
    with Retire Inr show ?thesis by (simp add: retire_def rbind_def del: effect.simps)
  qed (simp add: Retire retire_def rbind_def)
qed

section \<open>Durability\<close>

lemma commit_then_eq:
  assumes "ledger_append (rt_ledger rt) (rt_directory rt) (record_number t) (dump payload) io = (r, l, d)"
  shows "commit_then rt t payload io f =
    (if length (dump payload) > kMaxRecordBytes then (Inl kLedgerOversized, rt)
     else (r, case r of
        Inl c \<Rightarrow> rt\<lparr>rt_ledger := l, rt_directory := d\<rparr>
      | Inr s \<Rightarrow> rt\<lparr>rt_ledger := l, rt_directory := d, rt_state := f (rt_state rt)\<rparr>))"
  using assms by (simp add: commit_then_def commit_def Let_def split: sum.split)

lemma commit_then_ok:
  assumes "commit_then rt t payload io f = (Inr s, rt')"
  obtains l d where "ledger_append (rt_ledger rt) (rt_directory rt) (record_number t) (dump payload) io = (Inr s, l, d)"
    "rt' = rt\<lparr>rt_ledger := l, rt_directory := d, rt_state := f (rt_state rt)\<rparr>"
    "length (dump payload) \<le> kMaxRecordBytes"
proof -
  obtain r l d where app: "ledger_append (rt_ledger rt) (rt_directory rt) (record_number t) (dump payload) io = (r, l, d)"
    by (metis prod_cases3)
  from assms show ?thesis
    unfolding commit_then_eq [OF app] using app that by (cases r) (simp_all split: if_splits)
qed

lemma commit_then_refused:
  assumes "commit_then rt t payload io f = (Inl c, rt')"
  obtains "rt' = rt"
  | l d where "ledger_append (rt_ledger rt) (rt_directory rt) (record_number t) (dump payload) io = (Inl c, l, d)"
    "rt' = rt\<lparr>rt_ledger := l, rt_directory := d\<rparr>"
proof -
  obtain r l d where app: "ledger_append (rt_ledger rt) (rt_directory rt) (record_number t) (dump payload) io = (r, l, d)"
    by (metis prod_cases3)
  from assms show ?thesis
    unfolding commit_then_eq [OF app] using app that by (cases r) (simp_all split: if_splits)
qed

text \<open>
  A runtime whose directory holds the entries of its events, without a snapshot, and whose
  identity is that of the ledger it opened.
\<close>

definition durable :: "runtime \<Rightarrow> event list \<Rightarrow> bool" where
  "durable rt evs \<longleftrightarrow>
     journaled (rt_ledger rt) (rt_directory rt) (map event_entry evs) \<and>
     map_of (rt_directory rt) snapshot_path = None \<and>
     head_coordinator (led_head (rt_ledger rt)) = coordinator_identity (rt_trust rt) \<and>
     head_trust_digest (led_head (rt_ledger rt)) = trust_digest (rt_trust rt) \<and>
     head_epoch (led_head (rt_ledger rt)) = ri_epoch (rt_info rt)"

lemma ledger_append_frame:
  assumes "continues l d fs es" "ledger_append l d t p io = (r, l', d')"
  shows "map_of d' snapshot_path = map_of d snapshot_path"
    and "head_coordinator (led_head l') = head_coordinator (led_head l)"
    and "head_trust_digest (led_head l') = head_trust_digest (led_head l)"
    and "head_epoch (led_head l') = head_epoch (led_head l)"
proof -
  show "map_of d' snapshot_path = map_of d snapshot_path"
    using assms
  proof (cases rule: ledger_append_cases)
    case (wrote l1 fs' es')
    then show ?thesis using append_frame_stored(2) [OF wrote(1,8,6,7), of snapshot_path] by simp
  qed simp
  show "head_coordinator (led_head l') = head_coordinator (led_head l)"
    "head_trust_digest (led_head l') = head_trust_digest (led_head l)"
    "head_epoch (led_head l') = head_epoch (led_head l)"
    using assms(2) by (auto simp: ledger_append_def append_frame_def rotate_segment_def Let_def
        split: if_splits sum.splits prod.splits)
qed

lemma perform_durable:
  assumes "durable rt evs" "perform ed rt req clock io = (r, rt')"
  shows "r = Inr s \<Longrightarrow> durable rt' (evs @ [event_of ed rt req clock]) \<and> s = of_nat (length evs) + 1"
    and "r = Inl c \<Longrightarrow> clean_io io \<Longrightarrow> durable rt' evs"
proof -
  let ?ev = "event_of ed rt req clock"
  have j: "journaled (rt_ledger rt) (rt_directory rt) (map event_entry evs)"
    using assms(1) by (simp add: durable_def)
  then obtain fs es where cont: "continues (rt_ledger rt) (rt_directory rt) fs es"
    by (auto simp: journaled_def)
  show "durable rt' (evs @ [?ev]) \<and> s = of_nat (length evs) + 1" if r: "r = Inr s"
  proof -
    have "commit_then rt (event_type ?ev) (event_payload ?ev) io (effect rt req clock) = (Inr s, rt')"
      using assms(2) r by (auto simp: perform_eq split: sum.splits)
    then obtain l d where app: "ledger_append (rt_ledger rt) (rt_directory rt) (record_number (event_type ?ev))
        (dump (event_payload ?ev)) io = (Inr s, l, d)"
      "rt' = rt\<lparr>rt_ledger := l, rt_directory := d, rt_state := effect rt req clock (rt_state rt)\<rparr>"
      by (rule commit_then_ok)
    then show ?thesis
      using append_journaled(1) [OF j app(1)] ledger_append_frame [OF cont app(1)] assms(1)
      by (simp add: durable_def event_entry_def)
  qed
  show "durable rt' evs" if r: "r = Inl c" and clean: "clean_io io"
  proof (cases "guard ed rt req")
    case (Inl e)
    then show ?thesis using assms r by (simp add: perform_eq)
  next
    case (Inr u)
    then have "commit_then rt (event_type ?ev) (event_payload ?ev) io (effect rt req clock) = (Inl c, rt')"
      using assms(2) r by (simp add: perform_eq)
    then show ?thesis
    proof (cases rule: commit_then_refused)
      case (2 l d)
      then show ?thesis
        using append_journaled(2) [OF j 2(1) _ clean] ledger_append_frame [OF cont 2(1)] assms(1)
        by (simp add: durable_def)
    qed (use assms in simp)
  qed
qed

lemma perform_refused_state:
  assumes "perform ed rt req clock io = (Inl c, rt')"
  shows "rt_state rt' = rt_state rt \<and> rt_info rt' = rt_info rt \<and> rt_trust rt' = rt_trust rt"
  using assms unfolding perform_eq by (auto split: sum.splits elim: commit_then_refused)

lemma perform_ok_state:
  assumes "perform ed rt req clock io = (Inr s, rt')"
  shows "guard ed rt req = Inr ()" "rt_state rt' = effect rt req clock (rt_state rt)"
    "rt_info rt' = rt_info rt" "rt_trust rt' = rt_trust rt"
  using assms unfolding perform_eq by (auto split: sum.splits elim: commit_then_ok)

section \<open>What opening leaves alone\<close>

lemma is_journal_files: "n \<in> set (map fst (journal_files d)) \<Longrightarrow> is_journal n"
  by (auto simp: journal_files_def)

lemma map_of_removes:
  "list_all is_journal ns \<Longrightarrow> \<not> is_journal n \<Longrightarrow> map_of (fold (\<lambda>n d. remove_file d n) ns d) n = map_of d n"
  by (induction ns arbitrary: d) (auto simp: map_of_remove)

lemma repair_keeps:
  assumes "repair_tail d scan ok = (r, d')" "\<not> is_journal n"
  shows "map_of d' n = map_of d n"
proof (cases "rep_truncated_bytes scan = 0")
  case False
  define names where "names = map fst (journal_files d)"
  define kept where "kept = (if length names > rep_excess_segments scan
      then length names - rep_excess_segments scan else length names)"
  define cut where "cut = (if kept > 0 then truncate_file d (names ! (kept - 1)) (rep_valid_bytes scan) ok else (Inr (), d))"
  have names: "list_all is_journal names" using is_journal_files by (auto simp: names_def list_all_iff)
  have "kept \<le> length names" by (simp add: kept_def)
  then have "kept > 0 \<Longrightarrow> is_journal (names ! (kept - 1))" using names by (simp add: list_all_length)
  then have same: "map_of (snd cut) n = map_of d n"
    using assms(2) by (auto simp: cut_def truncate_file_def split: option.split if_splits)
  have "(r, d') = (case fst cut of Inl c \<Rightarrow> (Inl c, snd cut)
      | Inr _ \<Rightarrow> (Inr (), fold (\<lambda>n d. remove_file d n) (drop kept names) (snd cut)))"
    using assms(1) False unfolding repair_tail_def names_def [symmetric] Let_def kept_def [symmetric] cut_def [symmetric]
    by (simp add: case_prod_beta)
  moreover have "list_all is_journal (drop kept names)"
    using names by (auto simp: list_all_iff dest: in_set_dropD)
  ultimately show ?thesis
    using same assms(2) by (auto simp: map_of_removes split: sum.splits)
qed (use assms in \<open>simp add: repair_tail_def\<close>)

lemma write_head_keeps:
  assumes "write_head h d io = (r, d')" "n \<noteq> head_path" "n \<noteq> head_path @ ''.tmp''"
  shows "map_of d' n = map_of d n"
  using assms by (cases io)
    (auto simp: write_head_def write_file_atomic_def map_of_remove Let_def simp del: append.simps split: if_splits)

lemma snapshot_not_head: "snapshot_path \<noteq> head_path" "snapshot_path \<noteq> head_path @ ''.tmp''"
  by (simp_all add: snapshot_path_def head_path_def)

lemma open_keeps_snapshot:
  assumes "ledger_open d coordinator trust io = (r, d')"
  shows "map_of d' snapshot_path = map_of d snapshot_path"
proof -
  have step: "map_of d2 snapshot_path = map_of d snapshot_path"
    if "repair_tail d scan ok = (r1, d1)" "write_head h d1 wio = (r2, d2)" for scan ok r1 d1 h wio r2 d2
    using repair_keeps [OF that(1), of snapshot_path] write_head_keeps [OF that(2) snapshot_not_head] by simp
  show ?thesis
    using assms unfolding ledger_open_def Let_def
    by (auto split: sum.splits prod.splits if_splits dest: step repair_keeps [where n = snapshot_path])
qed

section \<open>Runs of the runtime\<close>

text \<open>
  From a boot on a directory without a journal: any sequence of requests with the events of those
  that were acknowledged, and refusals without a partial write.
\<close>

definition fresh_options :: "directory \<Rightarrow> trust_set \<Rightarrow> u64 \<Rightarrow> runtime_options" where
  "fresh_options d trust age =
     \<lparr>opt_directory = Some d, opt_trust = trust, opt_evidence_max_age_millis = age\<rparr>"

inductive runtime_run :: "(bytes \<Rightarrow> bytes \<Rightarrow> bytes \<Rightarrow> bool) \<Rightarrow> runtime \<Rightarrow> event list \<Rightarrow> bool" for ed where
  session_open: "runtime_run ed rt []"
    if "ascending d" "journal_files d = []" "map_of d snapshot_path = None" "works io"
      "runtime_open (fresh_options d trust age) io now = (Inr rt, d')"
| session_done: "runtime_run ed rt' (evs @ [event_of ed rt req clock])"
    if "runtime_run ed rt evs" "perform ed rt req clock io = (Inr s, rt')"
| session_refused: "runtime_run ed rt' evs"
    if "runtime_run ed rt evs" "perform ed rt req clock io = (Inl c, rt')" "clean_io io"

lemma coordinator_wf: "wf_id (coordinator_identity trust)"
  by (simp add: coordinator_identity_def from_digest_wf kSha256Bytes_def sha256_parts_eq)

lemma length_trust_digest: "length (trust_digest trust) = 32"
  by (simp add: trust_digest_def sha256_parts_eq)

lemma runtime_open_ok:
  assumes "runtime_open (fresh_options d trust age) io now = (Inr rt, d')"
  obtains l recovery records report st start where
    "ledger_open d (coordinator_identity trust) (trust_digest trust) io = (Inr (l, recovery), rt_directory rt)"
    "snapshot_start (rt_directory rt) l = Inr start"
    "read_after (rt_directory rt) start = Inr (records, report)"
    "replay records new_state = Inr st" "rt_state rt = clear_decisions st" "rt_trust rt = trust"
    "rt_ledger rt = l" "ri_epoch (rt_info rt) = head_epoch (led_head l)"
    "ri_incarnation (rt_info rt) = head_incarnation (led_head l)" "d' = Some (rt_directory rt)"
  using assms by (auto simp: runtime_open_def fresh_options_def Let_def split: prod.splits)

lemma open_durable:
  assumes "ascending d" "journal_files d = []" "map_of d snapshot_path = None" "works io"
    "runtime_open (fresh_options d trust age) io now = (Inr rt, d')"
  shows "durable rt []" "rt_state rt = new_state"
proof -
  obtain l recovery records report st start where o:
    "ledger_open d (coordinator_identity trust) (trust_digest trust) io = (Inr (l, recovery), rt_directory rt)"
    "snapshot_start (rt_directory rt) l = Inr start"
    "read_after (rt_directory rt) start = Inr (records, report)"
    "replay records new_state = Inr st" "rt_state rt = clear_decisions st" "rt_trust rt = trust"
    "rt_ledger rt = l" "ri_epoch (rt_info rt) = head_epoch (led_head l)"
    using assms(5) by (rule runtime_open_ok)
  have run: "ledger_run (coordinator_identity trust) (trust_digest trust) l (rt_directory rt) []"
    using assms(1,2,4) coordinator_wf length_trust_digest o(1) by (rule run_boot)
  then have j: "journaled l (rt_directory rt) []" using run_journaled by blast
  show "durable rt []"
    using run_journaled [OF run] open_keeps_snapshot [OF o(1)] assms(3) o by (simp add: durable_def)
  have "records = []"
    by (rule read_journaled [OF j]) (use o(3) in \<open>auto simp: read_after_def read_all_def\<close>)
  then show "rt_state rt = new_state"
    using o(4,5) by (auto simp: replay_def clear_decisions_def new_state_def)
qed

lemma run_durable: "runtime_run ed rt evs \<Longrightarrow> durable rt evs"
proof (induction rule: runtime_run.induct)
  case (session_open d io trust age now rt d')
  then show ?case by (intro open_durable(1))
next
  case (session_done rt evs req clock io s rt')
  then show ?case using perform_durable(1) by blast
next
  case (session_refused rt evs req clock io c rt')
  then show ?case using perform_durable(2) by blast
qed

section \<open>The history of a workload\<close>

text \<open>One generation after another: the links, the owner and the compatibility of the bodies.\<close>

definition succeeds :: "generation_record \<Rightarrow> generation_record \<Rightarrow> bool" where
  "succeeds g h \<longleftrightarrow>
     gr_generation h = gr_generation g + 1 \<and>
     con_supersedes (gr_body h) = gr_generation g \<and>
     con_supersedes_digest (gr_body h) = gr_digest g \<and>
     env_publisher (con_envelope (gr_body h)) = env_publisher (con_envelope (gr_body g)) \<and>
     body_major (con_body (gr_body h)) = body_major (con_body (gr_body g)) \<and>
     compatible (check_compatibility (con_body (gr_body g)) (con_body (gr_body h)))"

definition generation_ok :: "ident \<Rightarrow> generation_record \<Rightarrow> bool" where
  "generation_ok i g \<longleftrightarrow>
     workload_of (gr_body g) = i \<and> valid_contract (gr_body g) \<and>
     gr_generation g = body_generation (con_body (gr_body g)) \<and>
     gr_digest g = con_digest (gr_body g) \<and> gr_contract_id g = body_contract_id (con_body (gr_body g))"

definition history_ok :: "ident \<Rightarrow> workload_state \<Rightarrow> bool" where
  "history_ok i w \<longleftrightarrow>
     ws_id w = i \<and> ws_generations w \<noteq> [] \<and> length (ws_generations w) \<le> kMaxRetainedGenerations \<and>
     gr_generation (hd (ws_generations w)) = 1 \<and> successively succeeds (ws_generations w) \<and>
     list_all (generation_ok i) (ws_generations w) \<and>
     ws_contract_generation w = gr_generation (last (ws_generations w)) \<and>
     ws_digest w = gr_digest (last (ws_generations w)) \<and>
     list_all gr_superseded (butlast (ws_generations w)) \<and>
     \<not> gr_superseded (last (ws_generations w))"

definition state_ok :: "runtime_state \<Rightarrow> bool" where
  "state_ok st \<longleftrightarrow> ascending (rs_workloads st) \<and> list_all (\<lambda>(i, w). history_ok i w) (rs_workloads st)"

lemma history_generations:
  assumes "history_ok i w" "k < length (ws_generations w)"
  shows "gr_generation (ws_generations w ! k) = of_nat (Suc k)"
  using assms(2)
proof (induction k)
  case 0
  then show ?case using assms(1) by (simp add: history_ok_def hd_conv_nth)
next
  case (Suc k)
  then have "succeeds (ws_generations w ! k) (ws_generations w ! Suc k)"
    using assms(1) by (auto simp: history_ok_def successively_conv_nth)
  with Suc show ?case by (simp add: succeeds_def)
qed

lemma history_current:
  assumes "history_ok i w"
  shows "ws_contract_generation w = of_nat (length (ws_generations w))"
    and "unat (ws_contract_generation w) = length (ws_generations w)"
proof -
  let ?n = "length (ws_generations w)"
  have n: "ws_generations w \<noteq> []" "?n \<le> 4096"
    using assms by (auto simp: history_ok_def kMaxRetainedGenerations_def)
  then show gen: "ws_contract_generation w = of_nat ?n"
    using history_generations [OF assms, of "?n - 1"] assms
    by (simp add: history_ok_def last_conv_nth flip: of_nat_Suc)
  show "unat (ws_contract_generation w) = ?n"
    using n by (simp add: gen unat_of_nat)
qed

lemma validated_valid: "validated c = Inr u \<Longrightarrow> valid_contract c"
  using has_errors_log_of_errors [of "contract_diags c", OF contract_diags_errors]
  by (auto simp: validated_def Let_def validate_contract_def result_of_diags_def contract_diags_Nil
      split: if_splits)

lemma new_generation_ok: "valid_contract c \<Longrightarrow> generation_ok (workload_of c) (new_generation c now)"
  by (simp add: generation_ok_def new_generation_def)

lemma gr_flag_simps [simp]:
  "generation_ok i (g\<lparr>gr_superseded := b\<rparr>) = generation_ok i g"
  "generation_ok i (g\<lparr>gr_retired := b\<rparr>) = generation_ok i g"
  "succeeds (g\<lparr>gr_superseded := b\<rparr>) h = succeeds g h"
  "succeeds g (h\<lparr>gr_superseded := b\<rparr>) = succeeds g h"
  "succeeds (g\<lparr>gr_retired := b\<rparr>) h = succeeds g h"
  "succeeds g (h\<lparr>gr_retired := b\<rparr>) = succeeds g h"
  by (simp_all add: generation_ok_def succeeds_def)

lemma invalidate_fields [simp]:
  "ws_id (invalidate r w) = ws_id w" "ws_generations (invalidate r w) = ws_generations w"
  "ws_contract_generation (invalidate r w) = ws_contract_generation w"
  "ws_digest (invalidate r w) = ws_digest w" "ws_retired (invalidate r w) = ws_retired w"
  "ws_contract (invalidate r w) = ws_contract w" "ws_evidence (invalidate r w) = ws_evidence w"
  "ws_policy_generation (invalidate r w) = ws_policy_generation w"
  "ws_workload_generation (invalidate r w) = ws_workload_generation w"
  "ws_evidence_generation (invalidate r w) = ws_evidence_generation w"
  by (simp_all add: invalidate_def)

lemma history_same:
  "history_ok i w \<Longrightarrow> ws_id w' = ws_id w \<Longrightarrow> ws_generations w' = ws_generations w \<Longrightarrow>
   ws_contract_generation w' = ws_contract_generation w \<Longrightarrow> ws_digest w' = ws_digest w \<Longrightarrow> history_ok i w'"
  by (simp add: history_ok_def)

lemma history_registered:
  assumes "check_registration ed rt c = Inr u"
  shows "history_ok (workload_of c) (registered_workload c now)"
proof -
  have "valid_contract c" "body_generation (con_body c) = 1"
    using assms validated_valid by (auto simp: check_registration_def)
  then show ?thesis
    using new_generation_ok [of c now]
    by (simp add: history_ok_def registered_workload_def new_workload_def kMaxRetainedGenerations_def)
      (simp add: new_generation_def)
qed

lemma verify_signature_publisher:
  assumes "verify_signature ed trust claimed domain bs sg = Inr (p, k)"
  shows "p = claimed"
  using assms by (auto simp: verify_signature_def Let_def trust_find_key_def find_Some_iff split: if_splits option.splits)

lemma check_publication_facts:
  assumes "check_publication ed rt c = Inr (w, p)"
  shows "map_of (rs_workloads (rt_state rt)) (workload_of c) = Some w" "\<not> ws_retired w" "valid_contract c"
    "body_generation (con_body c) = ws_contract_generation w + 1"
    "has_supersedes c" "con_supersedes c = ws_contract_generation w" "con_supersedes_digest c = ws_digest w"
    "body_major (con_body c) = body_major (con_body (current_contract w))"
    "env_publisher (con_envelope (current_contract w)) = p" "env_publisher (con_envelope c) = p"
    "compatible (check_compatibility (con_body (current_contract w)) (con_body c))"
    "length (ws_generations w) < kMaxRetainedGenerations"
  using assms validated_valid
  by (auto simp: check_publication_def Let_def dest: verify_signature_publisher [symmetric])

lemma history_published:
  assumes "check_publication ed rt c = Inr (w, p)" "history_ok (workload_of c) w"
  shows "history_ok (workload_of c) (published_workload c now w)"
proof -
  note facts = check_publication_facts [OF assms(1)]
  let ?gs = "ws_generations w" and ?g = "new_generation c now"
  let ?old = "map (\<lambda>g. g\<lparr>gr_superseded := True\<rparr>) ?gs"
  have gs: "?gs \<noteq> []" using assms(2) by (simp add: history_ok_def)
  have "succeeds (last ?gs) ?g"
    using facts assms(2) by (simp add: succeeds_def new_generation_def current_contract_def history_ok_def)
  moreover have "successively succeeds ?old"
    using assms(2) by (simp add: history_ok_def successively_map)
  ultimately have "successively succeeds (?old @ [?g])"
    using gs by (simp add: successively_append_iff last_map)
  moreover have "list_all (generation_ok (workload_of c)) (?old @ [?g])"
    using assms(2) new_generation_ok [OF facts(3), of now] by (simp add: history_ok_def list_all_iff)
  moreover have "gr_generation (hd (?old @ [?g])) = 1"
    using assms(2) gs by (simp add: history_ok_def hd_map)
  ultimately show ?thesis
    using assms(2) gs facts(12)
    by (simp add: history_ok_def published_workload_def list_all_iff) (simp add: new_generation_def)
qed

lemma history_retired: "history_ok i w \<Longrightarrow> history_ok i (retired_workload w)"
  by (simp add: history_ok_def retired_workload_def successively_map hd_map last_map list_all_iff map_butlast [symmetric])

lemma history_attached: "history_ok i w \<Longrightarrow> history_ok i (attach_to es w)"
  by (rule history_same) (auto simp: attach_to_def)

section \<open>The invariant of the state\<close>

lemma list_all_map_put:
  "list_all P m \<Longrightarrow> P (k, v) \<Longrightarrow> list_all P (map_put k v m)"
  by (induction m) auto

lemma fst_map_values [simp]: "fst \<circ> (\<lambda>(k, v). (k, f k v)) = fst"
  by auto

lemma state_ok_lookup: "state_ok st \<Longrightarrow> map_of (rs_workloads st) i = Some w \<Longrightarrow> history_ok i w"
  by (auto simp: state_ok_def list_all_iff dest!: map_of_SomeD)

lemma effect_ok:
  assumes "state_ok (rt_state rt)" "guard ed rt req = Inr ()"
  shows "state_ok (effect rt req clock (rt_state rt))"
proof (cases req)
  case (Register c)
  then show ?thesis
    using assms history_registered [of ed rt c] by (simp add: state_ok_def list_all_map_put)
next
  case (Publish c)
  obtain w p where wp: "check_publication ed rt c = Inr (w, p)" using assms(2) Publish by auto
  then have at: "map_of (rs_workloads (rt_state rt)) (workload_of c) = Some w" by (rule check_publication_workload)
  then have "history_ok (workload_of c) (published_workload c (clock 1) w)"
    using history_published [OF wp] state_ok_lookup [OF assms(1)] by blast
  then show ?thesis
    using assms(1) Publish at by (simp add: state_ok_def list_all_map_put workload_at_def)
next
  case (Attach es)
  then show ?thesis
    using assms(1) history_attached
    by (auto simp: state_ok_def Let_def list_all_iff)
next
  case (Install p)
  then show ?thesis
    using assms(1) by (auto simp: state_ok_def list_all_iff intro: history_same)
next
  case (Retire i)
  obtain w where "map_of (rs_workloads (rt_state rt)) i = Some w"
    using assms(2) Retire by (auto simp: check_retire_workload)
  then show ?thesis
    using Retire assms(1) history_retired state_ok_lookup [OF assms(1)]
    by (simp add: state_ok_def list_all_map_put workload_at_def)
qed

lemma state_ok_new: "state_ok new_state"
  by (simp add: state_ok_def new_state_def)

lemma run_state_ok: "runtime_run ed rt evs \<Longrightarrow> state_ok (rt_state rt)"
proof (induction rule: runtime_run.induct)
  case (session_open d io trust age now rt d')
  then show ?case by (simp add: open_durable(2) state_ok_new)
next
  case (session_done rt evs req clock io s rt')
  then show ?case using perform_ok_state effect_ok by metis
next
  case (session_refused rt evs req clock io c rt')
  then show ?case using perform_refused_state by metis
qed

section \<open>Later states\<close>

text \<open>
  What a runtime can become by further requests, with the events of those that were acknowledged on
  the way. With the flag \<open>clean\<close> no refusal may leave part of a frame in the journal; without it the
  disk is free to fail in any way.
\<close>

inductive runtime_steps ::
    "(bytes \<Rightarrow> bytes \<Rightarrow> bytes \<Rightarrow> bool) \<Rightarrow> bool \<Rightarrow> runtime \<Rightarrow> event list \<Rightarrow> runtime \<Rightarrow> bool" for ed clean rt where
  steps_none: "runtime_steps ed clean rt [] rt"
| steps_done: "runtime_steps ed clean rt (evs @ [event_of ed rt1 req clock]) rt2"
    if "runtime_steps ed clean rt evs rt1" "perform ed rt1 req clock io = (Inr s, rt2)"
| steps_refused: "runtime_steps ed clean rt evs rt2"
    if "runtime_steps ed clean rt evs rt1" "perform ed rt1 req clock io = (Inl c, rt2)" "clean \<longrightarrow> clean_io io"

lemma steps_trans:
  assumes "runtime_steps ed clean a evs b" "runtime_steps ed clean b later c"
  shows "runtime_steps ed clean a (evs @ later) c"
  using assms(2,1)
proof induction
  case (steps_done later rt1 req clock io s rt2)
  then show ?case using runtime_steps.steps_done by (metis append_assoc)
next
  case (steps_refused later rt1 req clock io c rt2)
  then show ?case using runtime_steps.steps_refused by metis
qed simp

lemma steps_run:
  assumes "runtime_steps ed True rt later rt'" "runtime_run ed rt evs"
  shows "runtime_run ed rt' (evs @ later)"
  using assms
proof induction
  case (steps_done later rt1 req clock io s rt2)
  then show ?case using session_done by (metis append_assoc)
next
  case (steps_refused later rt1 req clock io c rt2)
  then show ?case using session_refused by metis
qed simp

lemma steps_durable:
  assumes "runtime_steps ed True rt later rt'" "durable rt evs"
  shows "durable rt' (evs @ later)"
  using assms
proof induction
  case (steps_done later rt1 req clock io s rt2)
  then show ?case using perform_durable(1) by (metis append_assoc)
next
  case (steps_refused later rt1 req clock io c rt2)
  then show ?case using perform_durable(2) by metis
qed simp

lemma steps_state_ok:
  assumes "runtime_steps ed clean rt evs rt'" "state_ok (rt_state rt)"
  shows "state_ok (rt_state rt')"
  using assms
proof induction
  case (steps_done evs rt1 req clock io s rt2)
  then show ?case using perform_ok_state effect_ok by metis
next
  case (steps_refused evs rt1 req clock io c rt2)
  then show ?case using perform_refused_state by metis
qed simp

end
