(* ===== verification/Wnc_Recovery.thy ===== *)
theory Wnc_Recovery
  imports Wnc_Authority
begin

text \<open>
  What a restart restores: replaying the journal of a run rebuilds the state the run had, up to the
  evidence and the decisions (\<open>run_replay\<close>), and no decision is current before new evidence arrives.
  A sample run for the witnesses, and the properties of acknowledged, refused and repeated requests.
\<close>

section \<open>Records that survive their own decoder\<close>

definition readable_payload :: "json \<Rightarrow> bool" where
  "readable_payload j \<longleftrightarrow> json_decode journal_decode_options (dump j) = Some (Inr j)"

fun readable_document :: "event \<Rightarrow> bool" where
  "readable_document (Registered c t) = (contract_from_json (contract_to_json c) = Inr c)"
| "readable_document (Published c p t) = (contract_from_json (contract_to_json c) = Inr c)"
| "readable_document (Attached es t) = (evidence_from_json (evidence_to_json es) = Inr es)"
| "readable_document (Installed p t) = (policy_from_json (policy_to_json p) = Inr p)"
| "readable_document (Retired i t) = wf_id i"

definition recoverable :: "event \<Rightarrow> bool" where
  "recoverable ev \<longleftrightarrow> readable_payload (event_payload ev) \<and> readable_document ev"

lemma payload_members:
  "map_of (object_of (registration_payload c t)) ''contract'' = Some (contract_to_json c)"
  "map_of (object_of (publication_payload c p t)) ''contract'' = Some (contract_to_json c)"
  "map_of (object_of (evidence_payload es t)) ''evidence'' = Some (evidence_to_json es)"
  "map_of (object_of (policy_payload q t)) ''policy'' = Some (policy_to_json q)"
  "map_of (object_of (retirement_payload i t)) ''workload'' = Some (JString i)"
  by (simp_all add: registration_payload_def publication_payload_def evidence_payload_def policy_payload_def
      retirement_payload_def map_of_json_sets)

lemma payload_object: "event_payload ev = JObject (object_of (event_payload ev))"
  by (cases ev) (simp_all add: registration_payload_def publication_payload_def evidence_payload_def
      policy_payload_def retirement_payload_def json_set_def)

lemma decode_event:
  "readable_payload (event_payload ev) \<Longrightarrow>
   decode_payload (dump (event_payload ev)) = Some (object_of (event_payload ev))"
  by (subst (asm) payload_object, subst payload_object, subst payload_object)
    (simp add: readable_payload_def decode_payload_def)

section \<open>What recovery restores\<close>

text \<open>
  The part of the state that a replay restores: everything but the evidence and what depends on it,
  the names, the times of the records and the retirement flags of single generations.
\<close>

definition view_generation :: "generation_record \<Rightarrow> u64 \<times> digest \<times> ident \<times> contract \<times> bool" where
  "view_generation g = (gr_generation g, gr_digest g, gr_contract_id g, gr_body g, gr_superseded g)"

definition view_workload ::
    "workload_state \<Rightarrow> (ident \<times> u64 \<times> u64 \<times> digest \<times> ident \<times> u64 \<times> bool) \<times>
       (u64 \<times> digest \<times> ident \<times> contract \<times> bool) list" where
  "view_workload w =
     ((ws_id w, ws_workload_generation w, ws_contract_generation w, ws_digest w, ws_contract w,
       ws_policy_generation w, ws_retired w), map view_generation (ws_generations w))"

definition view_workloads where
  "view_workloads m = map (\<lambda>(i, w). (i, view_workload w)) m"

definition view where
  "view st = (view_workloads (rs_workloads st), rs_policy st, rs_policy_digest st, rs_policy_generation st)"

lemma map_of_view: "map_of (view_workloads m) i = map_option view_workload (map_of m i)"
  unfolding view_workloads_def by (induction m) auto

lemma view_put: "view_workloads (map_put i w m) = map_put i (view_workload w) (view_workloads m)"
  unfolding view_workloads_def by (induction m) auto

lemma view_map_values:
  "(\<And>i w. (i, w) \<in> set m \<Longrightarrow> view_workload (f i w) = view_workload w) \<Longrightarrow>
   view_workloads (map (\<lambda>(i, w). (i, f i w)) m) = view_workloads m"
  unfolding view_workloads_def by (induction m) auto

lemma view_invalidate [simp]: "view_workload (invalidate r w) = view_workload w"
  by (simp add: view_workload_def)

lemma view_attach [simp]: "view_workload (attach_to es w) = view_workload w"
  by (simp add: attach_to_def) (simp add: view_workload_def)

lemma view_clear: "view (clear_decisions st) = view st"
  unfolding view_def clear_decisions_def
  by (simp add: view_map_values [of _ "\<lambda>i w. w\<lparr>ws_evaluation := f w\<rparr>" for f] view_workload_def)

text \<open>The effect of an event on the restored part.\<close>

lemma view_registered_workload:
  "view_workload (registered_workload c t) =
     ((workload_of c, wl_generation (body_workload (con_body c)), body_generation (con_body c), con_digest c,
       body_contract_id (con_body c), body_policy_generation (con_body c), False),
      [view_generation (new_generation c 0)])"
  by (simp add: view_workload_def registered_workload_def new_workload_def view_generation_def new_generation_def)

definition superseded_view where
  "superseded_view v = (case v of (g, dg, i, c, b) \<Rightarrow> (g, dg, i, c, True))"

lemma view_published_workload:
  "view_workload (published_workload c t w) =
     ((ws_id w, wl_generation (body_workload (con_body c)), body_generation (con_body c), con_digest c,
       body_contract_id (con_body c), body_policy_generation (con_body c), ws_retired w),
      map superseded_view (map view_generation (ws_generations w)) @ [view_generation (new_generation c 0)])"
  by (simp add: view_workload_def published_workload_def view_generation_def new_generation_def superseded_view_def)

lemma view_retired_workload:
  "view_workload (retired_workload w) =
     (case view_workload w of ((i, wg, cg, dg, ct, pg, r), gs) \<Rightarrow> ((i, wg, cg, dg, ct, pg, True), gs))"
  by (simp add: retired_workload_def) (simp add: view_workload_def view_generation_def)

lemma view_state_put:
  "view (st\<lparr>rs_workloads := map_put i w (rs_workloads st)\<rparr>) =
     (map_put i (view_workload w) (view_workloads (rs_workloads st)), rs_policy st, rs_policy_digest st,
      rs_policy_generation st)"
  by (simp add: view_def view_put)

lemma replay_contract_new:
  assumes "map_of obj ''contract'' = Some (contract_to_json c)" "contract_from_json (contract_to_json c) = Inr c"
    "map_of (rs_workloads st) (workload_of c) = None"
  obtains st' where "replay_contract obj st = Inr st'"
    "view st' = (map_put (workload_of c) (view_workload (registered_workload c t)) (view_workloads (rs_workloads st)),
       rs_policy st, rs_policy_digest st, rs_policy_generation st)"
proof -
  let ?v = "new_workload\<lparr>ws_id := workload_of c, ws_name := wl_name (body_workload (con_body c)),
         ws_workload_generation := wl_generation (body_workload (con_body c)),
         ws_contract_generation := body_generation (con_body c), ws_digest := con_digest c,
         ws_contract := body_contract_id (con_body c),
         ws_policy_generation := body_policy_generation (con_body c),
         ws_generations := [new_generation c (recorded_at obj)]\<rparr>"
  have v: "view_workload ?v = view_workload (registered_workload c t)"
    unfolding view_registered_workload
    by (simp add: view_workload_def view_generation_def new_generation_def new_workload_def)
  have "replay_contract obj st = Inr (st\<lparr>rs_workloads := map_put (workload_of c) ?v (rs_workloads st)\<rparr>)"
    using assms by (simp add: replay_contract_def Let_def new_workload_def new_generation_def)
  then show ?thesis by (rule that) (simp only: view_state_put v)
qed

lemma view_workload_eq:
  assumes "view_workload v = view_workload w"
  shows "ws_id v = ws_id w" "ws_retired v = ws_retired w"
    "map view_generation (ws_generations v) = map view_generation (ws_generations w)"
  using assms by (auto simp: view_workload_def)

lemma view_generation_eq:
  "map view_generation gs = map view_generation hs \<Longrightarrow>
   length gs = length hs \<and> map gr_generation gs = map gr_generation hs"
proof -
  assume eq: "map view_generation gs = map view_generation hs"
  then have "map fst (map view_generation gs) = map fst (map view_generation hs)" by simp
  then show ?thesis using map_eq_imp_length_eq [OF eq] by (simp add: view_generation_def comp_def)
qed

lemma replay_contract_next:
  assumes "map_of obj ''contract'' = Some (contract_to_json c)" "contract_from_json (contract_to_json c) = Inr c"
    "map_of (rs_workloads st) (workload_of c) = Some v" "view_workload v = view_workload w"
    "history_ok (workload_of c) w" "body_generation (con_body c) = ws_contract_generation w + 1"
    "length (ws_generations w) < kMaxRetainedGenerations"
  obtains st' where "replay_contract obj st = Inr st'"
    "view st' = (map_put (workload_of c) (view_workload (published_workload c t w)) (view_workloads (rs_workloads st)),
       rs_policy st, rs_policy_digest st, rs_policy_generation st)"
proof -
  let ?n = "length (ws_generations w)" and ?b = "body_generation (con_body c)"
  have n: "0 < ?n" "?n < 4096"
    using assms(5,7) by (auto simp: history_ok_def kMaxRetainedGenerations_def)
  have b: "?b = of_nat (Suc ?n)" using history_current(1) [OF assms(5)] assms(6) by simp
  have gens: "map gr_generation (ws_generations v) = map gr_generation (ws_generations w)"
    "length (ws_generations v) = ?n" "ws_generations v \<noteq> []"
    using view_generation_eq [OF view_workload_eq(3) [OF assms(4)]] n(1) by auto
  have less: "gr_generation g < ?b" if "g \<in> set (ws_generations v)" for g
  proof -
    have "gr_generation g \<in> set (map gr_generation (ws_generations w))"
      using that gens(1) by (metis image_eqI image_set)
    then obtain k where "k < ?n" "gr_generation g = of_nat (Suc k)"
      using history_generations [OF assms(5)] by (auto simp: in_set_conv_nth)
    then show ?thesis using n b by (simp only:) (simp add: word_less_nat_alt unat_of_nat del: of_nat_Suc)
  qed
  let ?older = "map (\<lambda>e. if gr_generation e < ?b then e\<lparr>gr_superseded := True\<rparr> else e) (ws_generations v)"
  have older: "?older = map (\<lambda>e. e\<lparr>gr_superseded := True\<rparr>) (ws_generations v)"
    using less by (intro map_cong) auto
  have "gr_generation (last ?older) \<noteq> ?b"
    using less [of "last (ws_generations v)"] gens(3) unfolding older by (simp add: last_map)
  let ?v = "v\<lparr>ws_id := workload_of c, ws_name := wl_name (body_workload (con_body c)),
         ws_workload_generation := wl_generation (body_workload (con_body c)),
         ws_contract_generation := ?b, ws_digest := con_digest c,
         ws_contract := body_contract_id (con_body c),
         ws_policy_generation := body_policy_generation (con_body c),
         ws_generations := ?older @ [new_generation c (recorded_at obj)]\<rparr>"
  have "map view_generation ?older = map superseded_view (map view_generation (ws_generations w))"
    unfolding older view_workload_eq(3) [OF assms(4), symmetric] by (simp add: view_generation_def superseded_view_def)
  moreover have "view_generation (new_generation c t) = view_generation (new_generation c 0)" for t
    by (simp add: view_generation_def new_generation_def)
  moreover have "ws_id w = workload_of c" using assms(5) by (simp add: history_ok_def)
  ultimately have v: "view_workload ?v = view_workload (published_workload c t w)"
    unfolding view_published_workload using view_workload_eq(2) [OF assms(4)]
    by (simp add: view_workload_def)
  have "replay_contract obj st = Inr (st\<lparr>rs_workloads := map_put (workload_of c) ?v (rs_workloads st)\<rparr>)"
    using assms(1-3) \<open>gr_generation (last ?older) \<noteq> ?b\<close> by (simp add: replay_contract_def Let_def new_generation_def)
  then show ?thesis by (rule that) (simp only: view_state_put v)
qed

section \<open>Replaying an event\<close>

lemma record_number_eq [simp]: "record_number a = record_number b \<longleftrightarrow> a = b"
  by (cases a; cases b) simp_all

lemma apply_record_event:
  assumes "readable_payload (event_payload ev)" "rec_type r = record_number (event_type ev)"
    "rec_payload r = dump (event_payload ev)"
  defines "obj \<equiv> object_of (event_payload ev)"
  shows "apply_record r st =
    (case ev of
       Registered c t \<Rightarrow> replay_contract obj st
     | Published c p t \<Rightarrow> replay_contract obj st
     | Attached es t \<Rightarrow> replay_evidence obj st
     | Installed p t \<Rightarrow> replay_policy obj st
     | Retired i t \<Rightarrow> replay_retired obj st)"
  unfolding apply_record_def assms(2,3) decode_event [OF assms(1)] obj_def
  by (cases ev) (simp_all del: record_number.simps)

lemma view_eq:
  assumes "view st = view st'"
  shows "view_workloads (rs_workloads st) = view_workloads (rs_workloads st')" "rs_policy st = rs_policy st'"
    "rs_policy_digest st = rs_policy_digest st'" "rs_policy_generation st = rs_policy_generation st'"
  using assms by (auto simp: view_def)

lemma view_lookup:
  assumes "view st = view st'"
  shows "map_of (rs_workloads st') i = None \<Longrightarrow> map_of (rs_workloads st) i = None"
    and "map_of (rs_workloads st') i = Some w \<Longrightarrow>
      \<exists>v. map_of (rs_workloads st) i = Some v \<and> view_workload v = view_workload w"
  using arg_cong [OF view_eq(1) [OF assms], of "\<lambda>m. map_of m i"] by (auto simp: map_of_view)

lemma replay_evidence_view:
  assumes "map_of obj ''evidence'' = Some (evidence_to_json es)" "evidence_from_json (evidence_to_json es) = Inr es"
  obtains st' where "replay_evidence obj st = Inr st'" "view st' = view st"
proof -
  have same: "view_workload (if b then w\<lparr>ws_evidence := x, ws_evidence_generation := g, ws_evaluation := y\<rparr> else w) =
      view_workload w" for b w x g y
    by (simp add: view_workload_def)
  define hit where "hit w \<longleftrightarrow> ws_generations w \<noteq> [] \<and>
      declares_scope (con_body (current_contract w)) (revalidate es)" for w
  have eq: "replay_evidence obj st =
      (if \<not> list_ex (\<lambda>(i, w). hit w) (rs_workloads st) then Inr st
       else Inr (st\<lparr>rs_workloads := map (\<lambda>(i, w). (i, if hit w then w\<lparr>ws_evidence := Some (revalidate es),
           ws_evidence_generation := es_generation (revalidate es), ws_evaluation := None\<rparr> else w)) (rs_workloads st),
         rs_evidence_floor := max (rs_evidence_floor st) (es_generation (revalidate es))\<rparr>))"
    using assms unfolding replay_evidence_def Let_def hit_def by simp
  have "\<exists>st'. replay_evidence obj st = Inr st' \<and> view st' = view st"
    unfolding eq by (simp add: view_def same view_map_values)
  then show ?thesis using that by blast
qed

lemma view_effect_attach: "view (effect rt (Attach es) clock st) = view st"
  by (simp add: view_def Let_def view_map_values)

lemma view_effect_install:
  "view (effect rt (Install p) clock st) =
     (view_workloads (rs_workloads st), Some p, policy_digest p, pol_generation p)"
  by (simp add: view_def view_map_values)

lemma replay_event:
  assumes ok: "state_ok (rt_state rt)" and guard: "guard ed rt req = Inr ()"
    and rec: "recoverable (event_of ed rt req clock)" and same: "view st = view (rt_state rt)"
    and r: "rec_type r = record_number (event_type (event_of ed rt req clock))"
      "rec_payload r = dump (event_payload (event_of ed rt req clock))"
  obtains st' where "apply_record r st = Inr st'" "view st' = view (effect rt req clock (rt_state rt))"
proof -
  let ?ev = "event_of ed rt req clock"
  have readable: "readable_payload (event_payload ?ev)" "readable_document ?ev"
    using rec by (auto simp: recoverable_def)
  note apply_ev = apply_record_event [OF readable(1) r, of st]
  note same_eq = view_eq [OF same]
  show ?thesis
  proof (cases req)
    case (Register c)
    have none: "map_of (rs_workloads st) (workload_of c) = None"
      using guard Register view_lookup(1) [OF same] by (auto simp: check_registration_def)
    show ?thesis
      by (rule replay_contract_new [OF payload_members(1) _ none, of "clock 0" "clock 1"])
        (use Register readable(2) apply_ev same_eq in \<open>auto simp: view_state_put intro!: that\<close>)
  next
    case (Publish c)
    obtain w p where wp: "check_publication ed rt c = Inr (w, p)" using guard Publish by auto
    note facts = check_publication_facts [OF wp]
    have hist: "history_ok (workload_of c) w" using facts(1) state_ok_lookup [OF ok] by blast
    obtain v where v: "map_of (rs_workloads st) (workload_of c) = Some v" "view_workload v = view_workload w"
      using view_lookup(2) [OF same facts(1)] by blast
    show ?thesis
      by (rule replay_contract_next [OF payload_members(2) _ v hist facts(4,12), of p "clock 0" "clock 1"])
        (use Publish readable(2) apply_ev same_eq wp facts(1)
          in \<open>auto simp: view_state_put workload_at_def intro!: that\<close>)
  next
    case (Attach es)
    let ?es = "stamp_evidence rt es clock"
    show ?thesis
      by (rule replay_evidence_view [OF payload_members(3), of ?es "clock (length (es_entries es))" st])
        (use Attach readable(2) apply_ev same in \<open>auto simp: view_effect_attach simp del: effect.simps intro!: that\<close>)
  next
    case (Install p)
    then show ?thesis
      using readable(2) apply_ev payload_members(4) [of p "clock 0"] same_eq(1)
      by (intro that [of "st\<lparr>rs_policy := Some p, rs_policy_digest := policy_digest p,
          rs_policy_generation := pol_generation p\<rparr>"])
        (auto simp: replay_policy_def view_effect_install simp del: effect.simps, simp add: view_def)
  next
    case (Retire i)
    obtain w where w: "map_of (rs_workloads (rt_state rt)) i = Some w"
      using guard Retire by (auto simp: check_retire_workload)
    obtain v where v: "map_of (rs_workloads st) i = Some v" "view_workload v = view_workload w"
      using view_lookup(2) [OF same w] by blast
    have "view_workload (v\<lparr>ws_retired := True\<rparr>) = view_workload (retired_workload w)"
      unfolding view_retired_workload v(2) [symmetric] by (simp add: view_workload_def)
    moreover have "named_workload (object_of (retirement_payload i (clock 0))) st = Inr (i, v)"
      using payload_members(5) [of i "clock 0"] v(1) readable(2) Retire
      by (simp add: named_workload_def parse_id_of_wf)
    ultimately show ?thesis
      using Retire apply_ev w same_eq
      by (auto simp: replay_retired_def view_state_put workload_at_def intro!: that)
  qed
qed

lemma efold_append:
  "efold f (xs @ ys) s = (case efold f xs s of Inl e \<Rightarrow> Inl e | Inr s' \<Rightarrow> efold f ys s')"
  by (induction xs arbitrary: s) (auto split: sum.split)

lemma run_replay:
  assumes "runtime_run ed rt evs" "list_all recoverable evs"
  shows "\<exists>st. replay (journal_records zero_digest 1 (map event_entry evs)) new_state = Inr st \<and>
    view st = view (rt_state rt)"
  using assms
proof (induction rule: runtime_run.induct)
  case (session_open d io trust age now rt d')
  then show ?case by (simp add: replay_def open_durable(2))
next
  case (session_done rt evs req clock io s rt')
  obtain st where st: "replay (journal_records zero_digest 1 (map event_entry evs)) new_state = Inr st"
    "view st = view (rt_state rt)"
    using session_done by auto
  note facts = perform_ok_state [OF session_done(2)]
  let ?ev = "event_of ed rt req clock"
  define r where "r = frame_record (record_number (event_type ?ev)) (1 + of_nat (length evs))
      (dump (event_payload ?ev)) (genesis_chain (map event_entry evs))"
  have records: "journal_records zero_digest 1 (map event_entry (evs @ [?ev])) =
      journal_records zero_digest 1 (map event_entry evs) @ [r]"
    by (simp add: journal_append event_entry_def r_def)
  have r: "rec_type r = record_number (event_type ?ev)" "rec_payload r = dump (event_payload ?ev)"
    by (simp_all add: r_def frame_record_def)
  have rec: "recoverable ?ev" using session_done by simp
  obtain st' where "apply_record r st = Inr st'" "view st' = view (effect rt req clock (rt_state rt))"
    by (rule replay_event [OF run_state_ok [OF session_done(1)] facts(1) rec st(2) r])
  then show ?case unfolding records replay_def efold_append using st(1) facts(2) by (simp add: replay_def)
next
  case (session_refused rt evs req clock io c rt')
  then show ?case using perform_refused_state by metis
qed

section \<open>Restart\<close>

lemma journaled_boot:
  assumes "journaled l d es"
  shows "\<exists>b. previous_boot d (head_coordinator (led_head l)) (head_trust_digest (led_head l))
    (Some (head_epoch (led_head l), b))"
proof -
  obtain h where h: "head_ok h" "map_of d head_path = Some (head_bytes h)"
    "head_coordinator h = head_coordinator (led_head l)" "head_trust_digest h = head_trust_digest (led_head l)"
    "head_epoch h = head_epoch (led_head l)"
    using assms by (auto simp: journaled_def booted_def)
  have "previous_boot d (head_coordinator h) (head_trust_digest h) (Some (head_epoch h, head_boot_count h))"
    using h check_head_bytes [OF h(1), of "head_coordinator h" "head_trust_digest h"] length_head_bytes [OF h(1)]
    by (simp add: previous_boot_def load_previous_def read_file_def rbind_def)
  then show ?thesis using h by auto
qed

lemma length_le_segment_size: "92 * length es \<le> segment_size es"
  by (induction es) (auto simp: segment_size_def)

lemma journal_records_positive:
  assumes "length es < 2 ^ 63" "r \<in> set (journal_records zero_digest 1 es)"
  shows "rec_sequence r > 0"
proof -
  have "rec_sequence r \<in> set (map (\<lambda>i. 1 + of_nat i) [0..<length es])"
    using assms(2) unfolding journal_records_sequence [of zero_digest 1 es, symmetric] by simp
  then obtain i where i: "i < length es" "rec_sequence r = of_nat (Suc i)" by auto
  then have "unat (rec_sequence r) = Suc i"
    using assms(1) by (simp add: unat_of_nat del: of_nat_Suc)
  then show ?thesis by (simp add: word_less_nat_alt)
qed

lemma read_after_journal:
  assumes "stored d fs es []"
  shows "\<exists>report. read_after d 0 = Inr (journal_records zero_digest 1 (concat (fs @ [es])), report)"
proof -
  have "segment_size (concat (fs @ [es])) \<le> 2147483648"
    unfolding retained_concat [symmetric] using assms
    by (simp add: stored_def kMaxJournalBytes_def kMaxLedgerSegments_def kMaxSegmentBytes_def)
  then have "length (concat (fs @ [es])) < 2 ^ 63" using length_le_segment_size [of "concat (fs @ [es])"] by simp
  from journal_records_positive [OF this]
  have "filter (\<lambda>r. rec_sequence r > 0) (journal_records zero_digest 1 (concat (fs @ [es]))) =
      journal_records zero_digest 1 (concat (fs @ [es]))"
    by (simp only: filter_id_conv) blast
  then show ?thesis
    using read_stored_torn [OF assms torn_Nil] by (simp add: read_after_def)
qed

lemma reopen:
  assumes "durable rt evs" "works io"
  obtains l d report records where
    "ledger_open (rt_directory rt) (coordinator_identity (rt_trust rt)) (trust_digest (rt_trust rt)) io = (Inr (l, report), d)"
    "head_epoch (led_head l) = ri_epoch (rt_info rt) + 1" "snapshot_start d l = Inr 0"
    "read_after d 0 = Inr (journal_records zero_digest 1 (map event_entry evs), records)"
proof -
  let ?d = "rt_directory rt" and ?c = "coordinator_identity (rt_trust rt)" and ?t = "trust_digest (rt_trust rt)"
  have j: "journaled (rt_ledger rt) ?d (map event_entry evs)" using assms(1) by (simp add: durable_def)
  then obtain fs es where st: "stored ?d fs es []" "concat (fs @ [es]) = map event_entry evs"
    by (auto simp: journaled_def continues_def)
  obtain b where boot: "previous_boot ?d ?c ?t (Some (ri_epoch (rt_info rt), b))"
    using journaled_boot [OF j] assms(1) by (auto simp: durable_def)
  show ?thesis
  proof (rule open_stored [OF st(1) torn_Nil assms(2) boot coordinator_wf length_trust_digest])
    fix l report d fs2 es2
    assume o: "ledger_open ?d ?c ?t io = (Inr (l, report), d)" "continues l d fs2 es2"
      "concat (fs2 @ [es2]) = concat (fs @ [es])"
      "head_epoch (led_head l) = (case Some (ri_epoch (rt_info rt), b) of Some (e, b) \<Rightarrow> e | None \<Rightarrow> 0) + 1"
    have "map_of d snapshot_path = None"
      using open_keeps_snapshot [OF o(1)] assms(1) by (simp add: durable_def)
    then have "snapshot_start d l = Inr 0"
      by (simp add: snapshot_start_def read_snapshot_def read_file_def)
    moreover have "stored d fs2 es2 []" using o(2) by (simp add: continues_def)
    from read_after_journal [OF this] obtain records where
      "read_after d 0 = Inr (journal_records zero_digest 1 (map event_entry evs), records)"
      unfolding o(3) st(2) by blast
    ultimately show ?thesis using o that by simp
  qed
qed

text \<open>
  C3: recovery restores the runtime. After any run whose records survive their own decoders, a
  restart on the same directory succeeds, one epoch later, with the same workloads, the same
  histories of generations and contract bodies, the same retirements and the same policy.
\<close>

theorem restart_recovers:
  assumes "runtime_run ed rt evs" "list_all recoverable evs" "works io"
  shows "\<exists>rt2 d2. runtime_open (fresh_options (rt_directory rt) (rt_trust rt) age) io now = (Inr rt2, Some d2) \<and>
    view (rt_state rt2) = view (rt_state rt) \<and> ri_epoch (rt_info rt2) = ri_epoch (rt_info rt) + 1"
proof -
  obtain st where st: "replay (journal_records zero_digest 1 (map event_entry evs)) new_state = Inr st"
    "view st = view (rt_state rt)"
    using run_replay [OF assms(1,2)] by blast
  obtain l d report records where o:
    "ledger_open (rt_directory rt) (coordinator_identity (rt_trust rt)) (trust_digest (rt_trust rt)) io = (Inr (l, report), d)"
    "head_epoch (led_head l) = ri_epoch (rt_info rt) + 1" "snapshot_start d l = Inr 0"
    "read_after d 0 = Inr (journal_records zero_digest 1 (map event_entry evs), records)"
    using run_durable [OF assms(1)] assms(3) by (rule reopen)
  show ?thesis
    using o st by (simp add: runtime_open_def fresh_options_def view_clear Let_def)
qed

section \<open>Evidence after a restart\<close>

definition stale_evidence :: "workload_state \<Rightarrow> bool" where
  "stale_evidence w \<longleftrightarrow>
     (case ws_evidence w of
        None \<Rightarrow> True
      | Some es \<Rightarrow> list_all (\<lambda>e. ev_freshness e = RevalidationRequired) (es_entries es))"

definition all_stale :: "runtime_state \<Rightarrow> bool" where
  "all_stale st \<longleftrightarrow> list_all (\<lambda>(i, w). stale_evidence w) (rs_workloads st)"

lemma all_stale_lookup: "all_stale st \<Longrightarrow> map_of (rs_workloads st) i = Some w \<Longrightarrow> stale_evidence w"
  by (auto simp: all_stale_def list_all_iff dest!: map_of_SomeD)

lemma all_stale_put:
  "all_stale st \<Longrightarrow> stale_evidence w \<Longrightarrow> all_stale (st\<lparr>rs_workloads := map_put i w (rs_workloads st)\<rparr>)"
  by (simp add: all_stale_def list_all_map_put)

lemma stale_revalidate: "list_all (\<lambda>e. ev_freshness e = RevalidationRequired) (es_entries (revalidate es))"
  by (simp add: revalidate_def list_all_iff)

lemma named_workload_at: "named_workload obj st = Inr (i, w) \<Longrightarrow> map_of (rs_workloads st) i = Some w"
  by (auto simp: named_workload_def split: option.splits json.splits)

lemma replay_contract_stale:
  assumes "replay_contract obj st = Inr st'" "all_stale st"
  shows "all_stale st'"
proof -
  obtain i v where st': "st' = st\<lparr>rs_workloads := map_put i v (rs_workloads st)\<rparr>"
    "ws_evidence v = (case map_of (rs_workloads st) i of Some w \<Rightarrow> ws_evidence w | None \<Rightarrow> None)"
    using assms(1)
    by (auto simp: replay_contract_def Let_def new_workload_def split: option.splits sum.splits if_splits)
  then show ?thesis
    using assms(2) all_stale_lookup [OF assms(2), of i]
    by (auto simp: stale_evidence_def intro!: all_stale_put split: option.splits)
qed

lemma replay_evidence_stale:
  assumes "replay_evidence obj st = Inr st'" "all_stale st"
  shows "all_stale st'"
proof -
  consider "st' = st" | es floor f where
    "st' = st\<lparr>rs_workloads := map (\<lambda>(i, w). (i, f w)) (rs_workloads st), rs_evidence_floor := floor\<rparr>"
    "\<And>w. ws_evidence (f w) = ws_evidence w \<or> ws_evidence (f w) = Some (revalidate es)"
    using assms(1) that(1) unfolding replay_evidence_def Let_def
    by (auto split: option.splits sum.splits if_splits intro!: that(2))
  then show ?thesis
  proof cases
    case (2 es floor f)
    have "stale_evidence (f w)" if "stale_evidence w" for w
      using 2(2) [of w] that stale_revalidate [of es] by (auto simp: stale_evidence_def)
    then show ?thesis using assms(2) 2(1) by (auto simp: all_stale_def list_all_iff)
  qed (use assms in simp)
qed

lemma apply_record_stale:
  assumes "apply_record r st = Inr st'" "all_stale st"
  shows "all_stale st'"
proof -
  have "all_stale st'" if "replay_retired obj st = Inr st'" for obj
    using that assms(2) all_stale_lookup [OF assms(2)]
    by (auto simp: replay_retired_def stale_evidence_def dest!: named_workload_at intro!: all_stale_put)
  moreover have "all_stale st'" if "replay_evaluation obj st = Inr st'" for obj
    using that assms(2) all_stale_lookup [OF assms(2)]
    by (auto simp: replay_evaluation_def stale_evidence_def split: if_splits dest!: named_workload_at intro!: all_stale_put)
  moreover have "all_stale st'" if "replay_policy obj st = Inr st'" for obj
    using that assms(2) by (auto simp: replay_policy_def all_stale_def split: option.splits sum.splits)
  ultimately show ?thesis
    using assms replay_contract_stale replay_evidence_stale
    unfolding apply_record_def by (auto split: option.splits if_splits)
qed

lemma replay_stale:
  assumes "replay rs st = Inr st'" "all_stale st"
  shows "all_stale st'"
  using assms unfolding replay_def
  by (rule efold_induct) (rule apply_record_stale)

lemma map_of_map_values: "map_of (map (\<lambda>(k, v). (k, f v)) m) k = map_option f (map_of m k)"
  by (induction m) auto

lemma clear_decisions_workload:
  assumes "map_of (rs_workloads (clear_decisions st)) i = Some w"
  obtains v where "map_of (rs_workloads st) i = Some v" "ws_evidence w = ws_evidence v"
    "\<And>s. ws_evaluation w = Some s \<Longrightarrow> \<not> sto_valid s"
proof -
  obtain v where v: "map_of (rs_workloads st) i = Some v"
    "ws_evidence w = ws_evidence v" "ws_evaluation w = map_option (\<lambda>e. e\<lparr>sto_valid := False, sto_invalidation_reason :=
      (if sto_invalidation_reason e = [] then restart_reason else sto_invalidation_reason e)\<rparr>) (ws_evaluation v)"
    using assms by (auto simp: clear_decisions_def map_of_map_values)
  have "\<not> sto_valid s" if "ws_evaluation w = Some s" for s using that v(3) by auto
  with v show ?thesis by (intro that)
qed

lemma evaluate_stale:
  assumes "list_all (\<lambda>e. ev_freshness e = RevalidationRequired) (es_entries es)"
  shows "re_satisfaction (evaluate_requirement es current now age r) =
    (if req_strength r = Informational then NotApplicable else Unknown)"
proof -
  have "\<not> usable current e" if "evidence_find es s = Some e" for s e
    using assms that by (auto simp: evidence_find_def usable_def list_all_iff find_Some_iff)
  then show ?thesis
    by (auto simp: evaluate_requirement_def Let_def decide_requirement_is_table decision_table_def split: option.split)
qed

definition undecided :: "requirement_evaluation \<Rightarrow> bool" where
  "undecided item \<longleftrightarrow>
     re_satisfaction item = (if re_strength item = Informational then NotApplicable else Unknown)"

lemma aggregate_undecided:
  assumes "list_all undecided items" "list_ex (\<lambda>item. re_strength item = Required) items"
  shows "aggregate_satisfaction items = Unknown"
proof -
  have "aggregate_loop items u q = Unknown"
    if "list_all undecided items" "u \<or> list_ex (\<lambda>item. re_strength item = Required) items" for items u q
    using that by (induction items u q rule: aggregate_loop.induct) (auto simp: undecided_def)
  with assms show ?thesis by (simp add: aggregate_satisfaction_def)
qed

text \<open>
  C12: a restart never resurrects freshness. Whatever the directory holds, right after a boot every
  evaluation of a registered workload calls each of its requirements unknown, or not applicable
  when it is informational: no requirement counts as satisfied before new evidence arrives.
\<close>

theorem restart_is_not_current:
  assumes "runtime_open options io now = (Inr rt, d)"
  shows "case evaluate rt i clock of
      Inl c \<Rightarrow> c = kUnknownWorkload \<and> map_of (rs_workloads (rt_state rt)) i = None
    | Inr (c, e) \<Rightarrow>
        list_all undecided (ce_requirements e) \<and>
        (list_ex (\<lambda>item. re_strength item = Required) (ce_requirements e) \<longrightarrow> ce_aggregate e = Unknown)"
proof (cases "map_of (rs_workloads (rt_state rt)) i")
  case None
  then show ?thesis by (simp add: evaluate_def)
next
  case (Some w)
  obtain d0 trust age where options: "options = fresh_options d0 trust age"
    using assms by (cases options) (auto simp: runtime_open_def fresh_options_def split: option.splits)
  obtain records st where st: "replay records new_state = Inr st" "rt_state rt = clear_decisions st"
    using assms unfolding options by (rule runtime_open_ok)
  have "all_stale st" using replay_stale [OF st(1)] by (simp add: all_stale_def new_state_def)
  then have w: "stale_evidence w" "\<And>s. ws_evaluation w = Some s \<Longrightarrow> \<not> sto_valid s"
    using Some unfolding st(2)
    by (auto elim!: clear_decisions_workload dest: all_stale_lookup simp: stale_evidence_def)
  have "cached (rt_info rt) w = None" using w(2) by (auto simp: cached_def Let_def split: option.split)
  then have eval: "evaluate rt i clock =
      (case ws_evidence w of
         Some es \<Rightarrow> Inr (kOk, evaluate_contract (current_contract w) es (ri_incarnation (rt_info rt)) (clock 1)
           (rt_evidence_max_age_millis rt))
       | None \<Rightarrow> Inr (kEvaluationNoEvidence, unknown_evaluation (rt_info rt) w (clock 0)))"
    using Some by (simp add: evaluate_def evaluate_internal_def Let_def split: option.split)
  show ?thesis
  proof (cases "ws_evidence w")
    case None
    then show ?thesis
      unfolding eval by (simp add: unknown_evaluation_def Let_def list_all_iff unknown_item_def undecided_def)
  next
    case (Some es)
    let ?e = "evaluate_contract (current_contract w) es (ri_incarnation (rt_info rt)) (clock 1) (rt_evidence_max_age_millis rt)"
    have "list_all (\<lambda>e. ev_freshness e = RevalidationRequired) (es_entries es)"
      using w(1) Some by (simp add: stale_evidence_def)
    then have "undecided (evaluate_requirement es current now age r)" for current now age r
      using evaluate_stale [of es current now age r] by (simp add: undecided_def evaluate_requirement_def Let_def)
    then have "list_all undecided (ce_requirements ?e)"
      by (auto simp: evaluate_contract_def Let_def list_all_iff)
    moreover have "ce_aggregate ?e = aggregate_satisfaction (ce_requirements ?e)"
      by (simp add: evaluate_contract_def Let_def)
    ultimately show ?thesis unfolding eval using Some aggregate_undecided by simp
  qed
qed

section \<open>Payloads of plain text\<close>

lemma valid_utf8_ascii: "list_all (\<lambda>c. of_char c < (0x80 :: nat)) s \<Longrightarrow> valid_utf8 s"
proof (induction s)
  case Nil
  then show ?case by (simp add: valid_utf8.simps)
next
  case (Cons c s)
  then show ?case by (subst valid_utf8.simps) (simp add: decode_utf8_ascii)
qed

lemma valid_utf8_id: "wf_id i \<Longrightarrow> valid_utf8 i"
proof (rule valid_utf8_ascii)
  assume "wf_id i"
  moreover have "list_all (\<lambda>c. of_char c < (0x80 :: nat)) kLowerHexDigits" by (simp add: kLowerHexDigits_def)
  ultimately show "list_all (\<lambda>c. of_char c < (0x80 :: nat)) i" by (auto simp: wf_id_def list_all_iff)
qed

lemma length_escaped: "length (write_escaped_string s) \<le> 6 * length s + 2"
proof -
  have "length (escape_char c) \<le> 6" for c by (auto simp: escape_char_def split: option.split)
  then have "length (concat (map escape_char s)) \<le> 6 * length s"
    by (induction s) (auto intro: add_le_mono)
  then show ?thesis by (simp add: write_escaped_string_def)
qed

lemma length_to_string_nat: "n < 10 ^ k \<Longrightarrow> 0 < k \<Longrightarrow> length (to_string_nat n) \<le> k"
proof (induction k arbitrary: n)
  case (Suc k)
  show ?case
  proof (cases "n < 10")
    case True
    then show ?thesis by (simp add: to_string_nat_small)
  next
    case False
    then have "0 < k" "n div 10 < 10 ^ k" using Suc.prems by (auto intro: ccontr)
    with Suc.IH [of "n div 10"] False show ?thesis by (simp add: to_string_nat_step)
  qed
qed simp

text \<open>A bound on the text of a value without reals.\<close>

fun text_bound :: "json \<Rightarrow> nat" where
  "text_bound (JString s) = 6 * length s + 2"
| "text_bound (JInt i) = 21"
| "text_bound (JArray js) = 2 + sum_list (map (\<lambda>j. 1 + text_bound j) js)"
| "text_bound (JObject ms) = 2 + sum_list (map (\<lambda>(k, j). 6 * length k + 4 + text_bound j) ms)"
| "text_bound _ = 5"

lemma length_join_commas: "length (join_commas xs) \<le> sum_list (map (\<lambda>x. 1 + length x) xs)"
proof (cases xs)
  case (Cons y ys)
  have "length (concat (map (\<lambda>y. CHR '','' # y) ys)) = sum_list (map (\<lambda>x. 1 + length x) ys)"
    by (induction ys) auto
  then show ?thesis by (simp add: Cons join_commas_Cons)
qed simp

lemma length_json_text: "json_plain m d j \<Longrightarrow> length (json_text j) \<le> text_bound j"
proof (induction m d j rule: json_plain.induct)
  case (2 m d i)
  have "nat \<bar>i\<bar> < 10 ^ 20" using 2 by auto
  then have "length (to_string_nat (nat i)) \<le> 20" "length (to_string_nat (nat (- i))) \<le> 20"
    by (auto intro!: length_to_string_nat)
  then show ?case by (simp add: to_string_int_def)
next
  case (3 m d s)
  then show ?case using length_escaped by simp
next
  case (4 m d js)
  have "sum_list (map (\<lambda>x. 1 + length x) (map json_text js)) \<le> sum_list (map (\<lambda>j. 1 + text_bound j) js)"
    unfolding map_map comp_def using 4 by (intro sum_list_mono) auto
  then show ?case using length_join_commas [of "map json_text js"] by simp
next
  case (5 m d ms)
  have "sum_list (map (\<lambda>x. 1 + length x) (map member_text ms)) \<le>
      sum_list (map (\<lambda>(k, j). 6 * length k + 4 + text_bound j) ms)"
    unfolding map_map comp_def
  proof (rule sum_list_mono)
    fix p assume p: "p \<in> set ms"
    obtain k j where kj: "p = (k, j)" by (cases p)
    have "length (json_text j) \<le> text_bound j" using 5 p kj by fastforce
    then show "1 + length (member_text p) \<le> (case p of (k, j) \<Rightarrow> 6 * length k + 4 + text_bound j)"
      using length_escaped [of k] by (simp add: kj)
  qed
  then show ?case using length_join_commas [of "map member_text ms"] by simp
qed simp_all

lemma readable_plain:
  assumes "json_plain kMaxRecordBytes 32 j" "text_bound j \<le> kMaxRecordBytes"
  shows "readable_payload j" "length (dump j) \<le> kMaxRecordBytes"
proof -
  have len: "length (json_text j) \<le> kMaxRecordBytes" using length_json_text [OF assms(1)] assms(2) by simp
  then have "dump j = json_text j"
    using dump_impl_text(1) [where out = "[]" and j = j and budget = "kMaxDocumentBytes * 2"] by (simp add: dump_def kMaxRecordBytes_def)
  with len show "length (dump j) \<le> kMaxRecordBytes" by simp
  with assms(1) \<open>dump j = json_text j\<close> show "readable_payload j"
    unfolding readable_payload_def
    by (simp add: json_decode_text journal_decode_options_def default_decode_options_def depth_limit_def kMaxJsonDepth_def)
qed

section \<open>A sample run\<close>

lemma perform_accepts:
  assumes "durable rt evs" "guard ed rt req = Inr ()"
    "length (dump (event_payload (event_of ed rt req clock))) \<le> kMaxRecordBytes"
    "segment_size (map event_entry evs) + (92 + kMaxRecordBytes) \<le> kMaxSegmentBytes"
  obtains s rt' where "perform ed rt req clock IoDone = (Inr s, rt')"
proof -
  let ?ev = "event_of ed rt req clock" and ?l = "rt_ledger rt"
  obtain fs es where cont: "continues ?l (rt_directory rt) fs es" "concat (fs @ [es]) = map event_entry evs"
    using assms(1) by (auto simp: durable_def journaled_def)
  have ret: "retained (fs @ [es]) = segment_size (map event_entry evs)" unfolding retained_concat cont(2) ..
  then have "led_segment_bytes ?l \<le> segment_size (map event_entry evs)" "led_open ?l"
    "led_retained_bytes ?l = segment_size (map event_entry evs)"
    using cont(1) by (auto simp: continues_def retained_def)
  moreover have "kMaxSegmentBytes \<le> kMaxJournalBytes" by (simp add: kMaxJournalBytes_def kMaxLedgerSegments_def)
  ultimately obtain s l d where app: "ledger_append ?l (rt_directory rt) (record_number (event_type ?ev))
      (dump (event_payload ?ev)) IoDone = (Inr s, l, d)"
    using append_accepts [of ?l "dump (event_payload ?ev)" "rt_directory rt" "record_number (event_type ?ev)"] assms(3,4)
    by (auto simp: kFrameHeaderBytes_def)
  have "\<not> length (dump (event_payload ?ev)) > kMaxRecordBytes" using assms(3) by simp
  then show ?thesis
    using commit_then_eq [OF app] assms(2) that by (simp add: perform_eq)
qed

lemma fresh_runtime:
  obtains rt where "runtime_open (fresh_options [] trust 0) sample_io now = (Inr rt, Some (rt_directory rt))"
    "runtime_run ed rt []" "rt_state rt = new_state" "rt_trust rt = trust"
proof -
  have fresh: "stored [] [] [] []" by (intro stored_fresh) (simp_all add: journal_files_def)
  have files: "journal_files [] = []" "map_of [] snapshot_path = None" "ascending ([] :: directory)"
    by (simp_all add: journal_files_def)
  show ?thesis
  proof (rule open_stored [OF fresh torn_Nil sample_wf(2) previous_boot_empty coordinator_wf [of trust] length_trust_digest [of trust]])
    fix l report d fs es
    assume o: "ledger_open [] (coordinator_identity trust) (trust_digest trust) sample_io = (Inr (l, report), d)"
      "continues l d fs es" "concat (fs @ [es]) = concat ([] @ [[]])"
    have st: "stored d fs es []" using o(2) by (simp add: continues_def)
    have "map_of d snapshot_path = None" using open_keeps_snapshot [OF o(1)] by simp
    then have start: "snapshot_start d l = Inr 0"
      by (simp add: snapshot_start_def read_snapshot_def read_file_def)
    obtain report' where read: "read_after d 0 = Inr ([], report')"
      using read_after_journal [OF st] unfolding o(3) by auto
    define rt where "rt = (case fst (runtime_open (fresh_options [] trust 0) sample_io now) of Inr rt \<Rightarrow> rt)"
    have open_rt: "runtime_open (fresh_options [] trust 0) sample_io now = (Inr rt, Some (rt_directory rt))"
      using o(1) start read unfolding rt_def runtime_open_def fresh_options_def by (simp add: replay_def Let_def)
    show ?thesis
    proof (rule that [OF open_rt])
      show "runtime_run ed rt []" by (rule session_open [OF files(3,1,2) sample_wf(2) open_rt])
      show "rt_state rt = new_state" by (rule open_durable(2) [OF files(3,1,2) sample_wf(2) open_rt])
      show "rt_trust rt = trust" using open_rt by (rule runtime_open_ok)
    qed
  qed
qed

definition sample_installed :: policy where
  "sample_installed = seal_policy \<lparr>pol_schema_version = 1, pol_id = zero_id, pol_generation = 1,
     pol_description = [], pol_rules = []\<rparr>"

lemma sample_installed_fields:
  "pol_schema_version sample_installed = 1" "pol_generation sample_installed = 1"
  "pol_description sample_installed = []" "pol_rules sample_installed = []" "wf_id (pol_id sample_installed)"
  unfolding sample_installed_def seal_policy_def derive_policy_id_def
  by simp_all (rule from_digest_wf, simp add: sha256_parts_def kSha256Bytes_def)

lemma wf_id_hex: "length d = 32 \<Longrightarrow> wf_id (hex_encode d)"
  using from_digest_wf [of d] by (simp add: from_digest_def kSha256Bytes_def)

lemma length_wf_id: "wf_id i \<Longrightarrow> length i = 64"
  by (simp add: wf_id_def kSha256HexChars_def kSha256Bytes_def)

lemma sample_payload:
  "json_plain kMaxRecordBytes 32 (policy_payload sample_installed 5)"
  "text_bound (policy_payload sample_installed 5) \<le> 4096"
proof -
  have hex: "wf_id (hex_encode (policy_digest sample_installed))"
    by (rule wf_id_hex) (simp add: policy_digest_def digest_domain_def sha256_parts_def)
  note ids = sample_installed_fields hex valid_utf8_id [OF hex] valid_utf8_id [OF sample_installed_fields(5)]
    length_wf_id [OF hex] length_wf_id [OF sample_installed_fields(5)]
  show "json_plain kMaxRecordBytes 32 (policy_payload sample_installed 5)"
    using ids by (simp add: policy_payload_def policy_to_json_def json_set_def json_u64_def valid_utf8_ascii
        kMaxRecordBytes_def kMaxDocumentBytes_def)
  show "text_bound (policy_payload sample_installed 5) \<le> 4096"
    using ids by (simp add: policy_payload_def policy_to_json_def json_set_def json_u64_def)
qed

lemma sample_recoverable: "recoverable (Installed sample_installed 5)"
proof -
  have "policy_from_json (policy_to_json sample_installed) = Inr sample_installed"
    unfolding sample_installed_def by (rule policy_from_json_seal) (simp add: encodable_policy_def fits_int64_def)
  then show ?thesis
    using readable_plain(1) [OF sample_payload(1)] sample_payload(2)
    by (simp add: recoverable_def kMaxRecordBytes_def kMaxDocumentBytes_def)
qed

lemma sample_guard:
  assumes "rs_policy (rt_state rt) = None"
  shows "guard ed rt (Install sample_installed) = Inr ()"
  using assms by (simp add: check_policy_def Let_def validate_policy_def sample_installed_fields result_of_diags_def
      log_of_def has_errors_def new_log_def report_if_def)

lemma sample_session:
  obtains rt where "runtime_run ed rt [Installed sample_installed 5]"
    "rs_policy (rt_state rt) = Some sample_installed" "rt_trust rt = sample_trust"
proof -
  obtain rt where rt: "runtime_run ed rt []" "rt_state rt = new_state" "rt_trust rt = sample_trust"
    by (rule fresh_runtime)
  have guard: "guard ed rt (Install sample_installed) = Inr ()"
    by (rule sample_guard) (simp add: rt(2) new_state_def)
  have len: "length (dump (event_payload (event_of ed rt (Install sample_installed) (\<lambda>_. 5)))) \<le> kMaxRecordBytes"
    using readable_plain(2) [OF sample_payload(1)] sample_payload(2)
    by (simp add: kMaxRecordBytes_def kMaxDocumentBytes_def)
  obtain s rt' where ack: "perform ed rt (Install sample_installed) (\<lambda>_. 5) IoDone = (Inr s, rt')"
    by (rule perform_accepts [OF run_durable [OF rt(1)] guard len])
      (simp add: segment_size_def kMaxRecordBytes_def kMaxDocumentBytes_def kMaxSegmentBytes_def)
  show ?thesis
    using session_done [OF rt(1) ack] perform_ok_state [OF ack] rt(3) by (intro that) simp_all
qed

section \<open>Properties\<close>

theorem restart_recovers_witness:
  "\<exists>(rt :: runtime) rt2 d2. runtime_open (fresh_options (rt_directory rt) (rt_trust rt) 0) sample_io 9 = (Inr rt2, Some d2) \<and>
     rs_policy (rt_state rt2) = Some sample_installed"
proof -
  obtain rt where rt: "runtime_run sample_ed_verify rt [Installed sample_installed 5]"
    "rs_policy (rt_state rt) = Some sample_installed" by (rule sample_session)
  have "list_all recoverable [Installed sample_installed 5]" using sample_recoverable by simp
  from restart_recovers [OF rt(1) this sample_wf(2), of 0 9] obtain rt2 d2 where
    "runtime_open (fresh_options (rt_directory rt) (rt_trust rt) 0) sample_io 9 = (Inr rt2, Some d2)"
    "view (rt_state rt2) = view (rt_state rt)" by blast
  moreover have "rs_policy (rt_state rt2) = Some sample_installed"
    using view_eq(2) [OF calculation(2)] rt(2) by simp
  ultimately show ?thesis by blast
qed

theorem restart_is_not_current_witness:
  "\<exists>rt d. runtime_open (fresh_options [] sample_trust 0) sample_io 9 = (Inr rt, d) \<and>
     evaluate rt zero_id (\<lambda>_. 10) = Inl kUnknownWorkload"
proof -
  obtain rt where rt: "runtime_open (fresh_options [] sample_trust 0) sample_io 9 = (Inr rt, Some (rt_directory rt))"
    "runtime_run sample_ed_verify rt []" "rt_state rt = new_state" by (rule fresh_runtime)
  have "evaluate rt zero_id (\<lambda>_. 10) = Inl kUnknownWorkload"
    using restart_is_not_current [OF rt(1), of zero_id "\<lambda>_. 10"] rt(3)
    by (simp add: evaluate_def new_state_def)
  with rt(1) show ?thesis by blast
qed

text \<open>
  C1: the acknowledgement follows the durability point. In every run the journal holds exactly the
  records of the acknowledged requests, in the order of the acknowledgements; a request that is
  acknowledged gets the next sequence, and its record is in the journal by then.
\<close>

theorem acknowledged_is_durable:
  assumes "runtime_run ed rt evs" "perform ed rt req clock io = (Inr s, rt')"
  shows "s = of_nat (length evs) + 1 \<and>
    (\<exists>rs report. read_all (rt_directory rt') = Inr (rs, report) \<and> \<not> rep_recovered report \<and>
       map entry_of rs = map event_entry evs @ [event_entry (event_of ed rt req clock)])"
proof -
  have d: "durable rt' (evs @ [event_of ed rt req clock]) \<and> s = of_nat (length evs) + 1"
    using perform_durable(1) [OF run_durable [OF assms(1)] assms(2)] by simp
  then have j: "journaled (rt_ledger rt') (rt_directory rt') (map event_entry evs @ [event_entry (event_of ed rt req clock)])"
    by (simp add: durable_def)
  obtain report where "read_all (rt_directory rt') =
      Inr (journal_records zero_digest 1 (map event_entry evs @ [event_entry (event_of ed rt req clock)]), report)"
    "\<not> rep_recovered report"
    using j by (rule read_journaled)
  with d entry_of_journal show ?thesis by blast
qed

lemma sample_step:
  obtains rt s rt' where "runtime_run ed rt []" "rt_state rt = new_state" "rt_trust rt = sample_trust"
    "perform ed rt (Install sample_installed) (\<lambda>_. 5) IoDone = (Inr s, rt')"
proof -
  obtain rt where rt: "runtime_run ed rt []" "rt_state rt = new_state" "rt_trust rt = sample_trust"
    by (rule fresh_runtime)
  have guard: "guard ed rt (Install sample_installed) = Inr ()"
    by (rule sample_guard) (simp add: rt(2) new_state_def)
  have len: "length (dump (event_payload (event_of ed rt (Install sample_installed) (\<lambda>_. 5)))) \<le> kMaxRecordBytes"
    using readable_plain(2) [OF sample_payload(1)] sample_payload(2)
    by (simp add: kMaxRecordBytes_def kMaxDocumentBytes_def)
  show ?thesis
    by (rule perform_accepts [OF run_durable [OF rt(1)] guard len])
      (simp_all add: segment_size_def kMaxRecordBytes_def kMaxDocumentBytes_def kMaxSegmentBytes_def that [OF rt])
qed

theorem acknowledged_is_durable_witness:
  "\<exists>rt s rt'. perform sample_ed_verify rt (Install sample_installed) (\<lambda>_. 5) IoDone = (Inr s, rt') \<and> s = 1"
proof -
  obtain rt s rt' where step: "runtime_run sample_ed_verify rt []"
    "perform sample_ed_verify rt (Install sample_installed) (\<lambda>_. 5) IoDone = (Inr s, rt')"
    by (rule sample_step)
  from acknowledged_is_durable [OF step] have "s = 1" by simp
  with step(2) show ?thesis by blast
qed

text \<open>
  C5: the history of every workload is one chain. In every run the generations of a workload are
  numbered 1 to n without a gap and at most \<^const>\<open>kMaxRetainedGenerations\<close>; each is a valid
  contract of that workload; each names the number and the digest of the one before, keeps its
  publisher and major version and is compatible with it; exactly the last one is not superseded.
\<close>

theorem histories_are_chains:
  assumes "runtime_run ed rt evs"
  shows "state_ok (rt_state rt) \<and>
    (case map_of (rs_workloads (rt_state rt)) i of
       None \<Rightarrow> True
     | Some w \<Rightarrow> map gr_generation (ws_generations w) = map (\<lambda>k. of_nat (Suc k)) [0..<length (ws_generations w)] \<and>
         unat (ws_contract_generation w) = length (ws_generations w))"
proof -
  have ok: "state_ok (rt_state rt)" using assms by (rule run_state_ok)
  show ?thesis
  proof (cases "map_of (rs_workloads (rt_state rt)) i")
    case (Some w)
    then have h: "history_ok i w" using state_ok_lookup [OF ok] by blast
    have "map gr_generation (ws_generations w) = map (\<lambda>k. of_nat (Suc k)) [0..<length (ws_generations w)]"
      using history_generations [OF h] by (intro nth_equalityI) auto
    then show ?thesis using ok Some history_current(2) [OF h] by simp
  qed (simp add: ok)
qed

theorem histories_are_chains_witness:
  "\<exists>rt :: runtime. rs_policy (rt_state rt) = Some sample_installed \<and> state_ok (rt_state rt)"
proof -
  obtain rt where rt: "runtime_run sample_ed_verify rt [Installed sample_installed 5]"
    "rs_policy (rt_state rt) = Some sample_installed" by (rule sample_session)
  have "state_ok (rt_state rt)" using histories_are_chains [OF rt(1), of zero_id] by simp
  with rt(2) show ?thesis by blast
qed

text \<open>
  C7: a refused request changes nothing: the state in memory stays, and unless part of a frame
  reached the disk the journal still holds exactly the records acknowledged before.
\<close>

theorem refusal_changes_nothing:
  assumes "runtime_run ed rt evs" "perform ed rt req clock io = (Inl c, rt')" "clean_io io"
  shows "rt_state rt' = rt_state rt \<and> rt_info rt' = rt_info rt \<and>
    (\<exists>rs report. read_all (rt_directory rt') = Inr (rs, report) \<and> \<not> rep_recovered report \<and>
       map entry_of rs = map event_entry evs)"
proof -
  have "durable rt' evs" using perform_durable(2) [OF run_durable [OF assms(1)] assms(2) _ assms(3)] by simp
  then have j: "journaled (rt_ledger rt') (rt_directory rt') (map event_entry evs)" by (simp add: durable_def)
  obtain report where "read_all (rt_directory rt') = Inr (journal_records zero_digest 1 (map event_entry evs), report)"
    "\<not> rep_recovered report"
    using j by (rule read_journaled)
  with entry_of_journal perform_refused_state [OF assms(2)] show ?thesis by blast
qed

theorem refusal_changes_nothing_witness:
  "\<exists>(rt :: runtime) rt'. perform sample_ed_verify rt (Retire zero_id) (\<lambda>_. 5) IoDone = (Inl kUnknownWorkload, rt') \<and>
     rt_state rt' = rt_state rt"
proof -
  obtain rt where rt: "runtime_run sample_ed_verify rt []" "rt_state rt = new_state" by (rule fresh_runtime)
  have "perform sample_ed_verify rt (Retire zero_id) (\<lambda>_. 5) IoDone = (Inl kUnknownWorkload, rt)"
    by (simp add: retire_def check_retire_def rt(2) new_state_def of_option_def rbind_def)
  with refusal_changes_nothing [OF rt(1) this] show ?thesis by auto
qed

text \<open>What a request that was acknowledged is answered with when it is sent again.\<close>


fun repeat_refusal :: "request \<Rightarrow> code option" where
  "repeat_refusal (Register c) = Some kDuplicateWorkload"
| "repeat_refusal (Publish c) = Some kReplayRejected"
| "repeat_refusal (Attach es) = (if es_generation es = 0 then None else Some kEvidenceGenerationBackwards)"
| "repeat_refusal (Install p) = None"
| "repeat_refusal (Retire i) = Some kContractRetired"

lemma guard_again:
  assumes ok: "state_ok (rt_state rt)" and guard: "guard ed rt req = Inr ()"
    and rt': "rt_state rt' = effect rt req clock (rt_state rt)" "rt_trust rt' = rt_trust rt"
    and c: "repeat_refusal req = Some code"
  shows "guard ed rt' req = Inl code"
proof (cases req)
  case (Register c)
  have "policy_gate (rt_state rt') c = policy_gate (rt_state rt) c"
    using rt'(1) Register by (simp add: policy_gate_def split: option.split)
  moreover have "map_of (rs_workloads (rt_state rt')) (workload_of c) \<noteq> None" using rt'(1) Register by simp
  ultimately show ?thesis
    using guard rt'(2) Register c by (auto simp: check_registration_def rcheck_def rbind_def split: sum.splits if_splits)
next
  case (Publish c)
  obtain w p where wp: "check_publication ed rt c = Inr (w, p)" using guard Publish by auto
  note facts = check_publication_facts [OF wp]
  have hist: "history_ok (workload_of c) w" using facts(1) state_ok_lookup [OF ok] by blast
  have "unat (ws_contract_generation w) < 4096"
    using history_current(2) [OF hist] facts(12) by (simp add: kMaxRetainedGenerations_def)
  then have less: "body_generation (con_body c) < body_generation (con_body c) + 1"
    unfolding facts(4) word_less_nat_alt by (simp add: unat_word_ariths)
  have w': "map_of (rs_workloads (rt_state rt')) (workload_of c) = Some (published_workload c (clock 1) w)"
    using rt'(1) Publish facts(1) by (simp add: workload_at_def)
  have "validated c = Inr ()" using wp by (auto simp: check_publication_def)
  then show ?thesis
    using Publish w' facts(2) less c
    by (simp add: check_publication_def published_workload_def rcheck_def rbind_def Let_def)
next
  case (Attach es)
  then show ?thesis
    using guard rt' c
    by (auto simp: check_evidence_def rcheck_def rbind_def Let_def stamp_evidence_def split: if_splits)
next
  case (Retire i)
  then show ?thesis
    using rt'(1) c by (simp add: check_retire_def retired_workload_def rcheck_def rbind_def)
qed (use c in simp)

section \<open>Requests that are spent\<close>

text \<open>
  Once a request was acknowledged it is spent: the state alone is enough to refuse it. Evidence
  without a generation is never spent, and accepting some resets the floor of the others.
\<close>

fun spent :: "request \<Rightarrow> runtime_state \<Rightarrow> bool" where
  "spent (Register c) st \<longleftrightarrow> map_of (rs_workloads st) (workload_of c) \<noteq> None"
| "spent (Publish c) st \<longleftrightarrow>
     (\<exists>w. map_of (rs_workloads st) (workload_of c) = Some w \<and> body_generation (con_body c) \<le> ws_contract_generation w)"
| "spent (Attach es) st \<longleftrightarrow> es_generation es \<noteq> 0 \<and> es_generation es \<le> rs_evidence_floor st"
| "spent (Install p) st \<longleftrightarrow> False"
| "spent (Retire i) st \<longleftrightarrow> (\<exists>w. map_of (rs_workloads st) i = Some w \<and> ws_retired w)"

definition resets_floor :: "request \<Rightarrow> event \<Rightarrow> bool" where
  "resets_floor req ev \<longleftrightarrow> (case (req, ev) of (Attach _, Attached es _) \<Rightarrow> es_generation es = 0 | _ \<Rightarrow> False)"

lemma history_less:
  assumes "history_ok i w" "length (ws_generations w) < kMaxRetainedGenerations"
  shows "ws_contract_generation w < ws_contract_generation w + 1"
  using history_current(2) [OF assms(1)] assms(2)
  by (simp add: word_less_nat_alt unat_word_ariths kMaxRetainedGenerations_def)

lemma spent_refused:
  assumes "state_ok (rt_state rt)" "spent req (rt_state rt)"
  shows "\<exists>c. guard ed rt req = Inl c"
proof (cases "guard ed rt req")
  case (Inr u)
  show ?thesis
  proof (cases req)
    case (Publish c)
    obtain w p where wp: "check_publication ed rt c = Inr (w, p)" using Inr Publish by auto
    note facts = check_publication_facts [OF wp]
    have "ws_contract_generation w < ws_contract_generation w + 1"
      using history_less [OF state_ok_lookup [OF assms(1) facts(1)] facts(12)] .
    then show ?thesis using assms(2) facts(1,4) Publish by auto
  qed (use Inr assms(2) in \<open>auto simp: check_registration_def check_evidence_def check_retire_def rcheck_def rbind_def
      split: if_splits sum.splits\<close>)
qed simp

lemma perform_spent:
  assumes "state_ok (rt_state rt)" "spent req (rt_state rt)"
  obtains c where "perform ed rt req clock io = (Inl c, rt)"
  using spent_refused [OF assms, of ed] by (auto simp: perform_eq)

lemma map_of_map_keyed: "map_of (map (\<lambda>(k, v). (k, f k v)) m) k = map_option (f k) (map_of m k)"
  by (induction m) auto

lemma effect_workloads:
  assumes "map_of (rs_workloads st) i = Some w" "guard ed rt req = Inr ()" "st = rt_state rt" "state_ok st"
  shows "\<exists>w'. map_of (rs_workloads (effect rt req clock st)) i = Some w' \<and>
    ws_contract_generation w \<le> ws_contract_generation w' \<and> (ws_retired w \<longrightarrow> ws_retired w')"
proof (cases req)
  case (Register c)
  then have "workload_of c \<noteq> i"
    using assms(1-3) by (auto simp: check_registration_def rcheck_def rbind_def split: if_splits sum.splits)
  then show ?thesis using assms(1) Register by simp
next
  case (Publish c)
  obtain v p where vp: "check_publication ed rt c = Inr (v, p)" using assms(2) Publish by auto
  note facts = check_publication_facts [OF vp]
  show ?thesis
  proof (cases "workload_of c = i")
    case True
    then have "v = w" using facts(1) assms(1,3) by simp
    moreover have "ws_contract_generation v < ws_contract_generation v + 1"
      using history_less [OF state_ok_lookup [OF assms(4)] facts(12)] facts(1) assms(3) by simp
    ultimately show ?thesis
      using Publish True facts(1,2,4) assms(3) by (simp add: workload_at_def published_workload_def)
  qed (use assms(1) Publish in simp)
next
  case (Attach es)
  then show ?thesis using assms(1) by (auto simp: Let_def map_of_map_keyed attach_to_def)
next
  case (Install p)
  then show ?thesis using assms(1) by (auto simp: map_of_map_keyed)
next
  case (Retire j)
  obtain v where v: "map_of (rs_workloads (rt_state rt)) j = Some v"
    using assms(2) Retire by (auto simp: check_retire_workload)
  then show ?thesis
    using assms(1,3) Retire by (cases "i = j") (auto simp: workload_at_def retired_workload_def)
qed

lemma effect_floor:
  assumes "guard ed rt req' = Inr ()" "\<not> resets_floor (Attach es) (event_of ed rt req' clock)"
  shows "rs_evidence_floor (rt_state rt) \<le> rs_evidence_floor (effect rt req' clock (rt_state rt))"
  using assms
  by (cases req') (auto simp: resets_floor_def check_evidence_def rcheck_def rbind_def stamp_evidence_def Let_def
      split: if_splits)

lemma spent_step:
  assumes "spent req (rt_state rt)" "state_ok (rt_state rt)" "perform ed rt req' clock io = (Inr s, rt')"
    "\<not> resets_floor req (event_of ed rt req' clock)"
  shows "spent req (rt_state rt')"
proof -
  note ack = perform_ok_state [OF assms(3)]
  note keeps = effect_workloads [OF _ ack(1) refl assms(2), of _ _ clock]
  show ?thesis
  proof (cases req)
    case (Register c)
    then show ?thesis using assms(1) keeps by (auto simp: ack(2))
  next
    case (Publish c)
    then obtain w where "map_of (rs_workloads (rt_state rt)) (workload_of c) = Some w"
      "body_generation (con_body c) \<le> ws_contract_generation w" using assms(1) by auto
    with keeps [OF this(1)] show ?thesis using Publish by (auto simp: ack(2))
  next
    case (Attach es)
    then show ?thesis using assms(1,4) effect_floor [OF ack(1), of es clock] by (auto simp: ack(2))
  next
    case (Retire i)
    then obtain w where "map_of (rs_workloads (rt_state rt)) i = Some w" "ws_retired w" using assms(1) by auto
    with keeps [OF this(1)] show ?thesis using Retire by (auto simp: ack(2))
  qed (use assms(1) in simp)
qed

lemma acknowledged_is_spent:
  assumes "state_ok (rt_state rt)" "perform ed rt req clock io = (Inr s, rt')" "repeat_refusal req = Some c"
  shows "spent req (rt_state rt')"
proof -
  note ack = perform_ok_state [OF assms(2)]
  show ?thesis
  proof (cases req)
    case (Publish b)
    obtain w p where "check_publication ed rt b = Inr (w, p)" using ack(1) Publish by auto
    from check_publication_facts(1) [OF this] show ?thesis
      using Publish by (simp add: ack(2) workload_at_def published_workload_def)
  qed (use assms(3) in \<open>auto simp: ack(2) Let_def stamp_evidence_def retired_workload_def split: if_splits\<close>)
qed

lemma spent_steps:
  assumes "runtime_steps ed clean rt evs rt'" "spent req (rt_state rt)" "state_ok (rt_state rt)"
    "\<not> list_ex (resets_floor req) evs"
  shows "spent req (rt_state rt')"
  using assms
proof induction
  case (steps_done evs rt1 req' clock io s rt2)
  then show ?case using spent_step [OF _ _ steps_done(2)] steps_state_ok [OF steps_done(1)] by simp
next
  case (steps_refused evs rt1 req' clock io c rt2)
  then show ?case using perform_refused_state by metis
qed simp

text \<open>
  C8: an acknowledged request is not accepted a second time. Sent again at once, with any clock and
  any state of the disk, a registration is refused as a duplicate, a publication as a replay,
  evidence with a generation as a step backwards and a retirement as already ack, and nothing
  changes, in memory or in the journal. It is also refused, without any change, after any number of
  further requests, whatever the disk does meanwhile, with one exception: evidence with a generation
  only as long as no evidence with generation zero was acknowledged in between, since that resets
  the floor. The installation of a policy and evidence with generation zero are not covered.
\<close>

theorem repeated_request_refused:
  assumes "runtime_run ed rt evs" "perform ed rt req clock io = (Inr s, rt')"
    and "repeat_refusal req = Some c"
    and "runtime_steps ed clean rt' later rt2" "\<not> list_ex (resets_floor req) later"
  shows "perform ed rt' req clock' io' = (Inl c, rt') \<and>
    (\<exists>c2. perform ed rt2 req clock' io' = (Inl c2, rt2))"
proof -
  note step = perform_ok_state [OF assms(2)] and ok = run_state_ok [OF assms(1)]
  have "guard ed rt' req = Inl c"
    by (rule guard_again [OF ok step(1,2,4) assms(3)])
  moreover have ok': "state_ok (rt_state rt')" using effect_ok [OF ok step(1)] step(2) by simp
  have "spent req (rt_state rt2)"
    by (rule spent_steps [OF assms(4) acknowledged_is_spent [OF ok assms(2,3)] ok' assms(5)])
  then obtain c2 where "perform ed rt2 req clock' io' = (Inl c2, rt2)"
    using perform_spent steps_state_ok [OF assms(4) ok'] by metis
  ultimately show ?thesis by (simp add: perform_eq)
qed

text \<open>Evidence of one observation for the witnesses.\<close>

definition sample_submission :: evidence_set where
  "sample_submission =
     \<lparr>es_evidence_id = zero_id, es_generation = 7, es_epoch = 0, es_publisher = signer_publisher sample_signer,
      es_produced_at_millis = 1000, es_entries = [
        \<lparr>ev_scope = ''site'', ev_id = zero_id, ev_publisher = zero_id, ev_generation = 1,
         ev_captured_by = zero_incarnation, ev_epoch = 0, ev_produced_at_millis = 1000,
         ev_candidate = empty_candidate\<lparr>collective_supported := Some True\<rparr>, ev_freshness = Stale\<rparr>]\<rparr>"
lemma discover_keeps_head: "efold discover_file fs l = Inr l' \<Longrightarrow> led_head l' = led_head l"
proof (induction fs arbitrary: l)
  case (Cons f fs)
  then obtain l1 where "discover_file f l = Inr l1" "efold discover_file fs l1 = Inr l'"
    by (auto split: sum.splits)
  moreover have "led_head l1 = led_head l"
    using calculation(1) by (auto simp: discover_file_def Let_def split: if_splits option.splits)
  ultimately show ?case using Cons.IH by simp
qed simp

lemma open_incarnation:
  assumes "ledger_open d coordinator trust io = (Inr (l, report), d')"
  shows "head_incarnation (led_head l) = new_incarnation (io_drawn io)"
  using assms
  by (auto simp: ledger_open_def Let_def discover_layout_def new_head_def
      split: sum.splits prod.splits option.splits if_splits dest!: discover_keeps_head)

lemma open_epoch:
  assumes "ledger_open [] coordinator trust io = (Inr (l, report), d')"
  shows "head_epoch (led_head l) = 1"
  using assms
  by (auto simp: ledger_open_def Let_def discover_layout_def new_head_def load_previous_def read_file_def
      journal_files_def split: sum.splits prod.splits option.splits if_splits dest!: discover_keeps_head)

lemma valid_utf8_base64: "valid_utf8 (base64url_encode bs)"
proof (rule valid_utf8_ascii)
  have "list_all (\<lambda>c. of_char c < (0x80 :: nat)) kBase64UrlAlphabet" by (simp add: kBase64UrlAlphabet_def)
  then show "list_all (\<lambda>c. of_char c < (0x80 :: nat)) (base64url_encode bs)"
    using set_base64url_encode [of bs] by (auto simp: list_all_iff)
qed

lemma plain_u64 [simp]: "json_plain m d (json_u64 w)" "text_bound (json_u64 w) = 21"
  using sint_ge [of w] sint_lt [of w] by (simp_all add: json_u64_def)

lemma plain_zero_id: "valid_utf8 zero_id" "length zero_id = 64"
  by (simp_all add: zero_id_def kSha256HexChars_def kSha256Bytes_def valid_utf8_ascii list_all_iff)

lemma submission_plain:
  assumes "wf_id (es_evidence_id es)" "wf_id (es_publisher es)"
    "es_entries es = [stamp_entry rt (es_publisher es) 5 (hd (es_entries sample_submission))]"
    "length (ri_incarnation (rt_info rt)) = 16"
  shows "json_plain kMaxRecordBytes 32 (evidence_payload es 5)" "text_bound (evidence_payload es 5) \<le> 8192"
proof -
  note ids = valid_utf8_id [OF assms(1)] valid_utf8_id [OF assms(2)] length_wf_id [OF assms(1)] length_wf_id [OF assms(2)]
    plain_zero_id valid_utf8_base64 assms(4) length_base64url_encode
  note eqs = evidence_payload_def evidence_to_json_def assms(3) entry_to_json_def stamp_entry_def sample_submission_def
    candidate_to_json_def empty_candidate_def add_optional_def json_sets_def json_set_def incarnation_str_def
    freshness_token_def token_of_def kFreshnessTable_def
  show "json_plain kMaxRecordBytes 32 (evidence_payload es 5)"
    using ids by (simp add: eqs valid_utf8_ascii kMaxRecordBytes_def kMaxDocumentBytes_def kSchemaVersion_def)
  show "text_bound (evidence_payload es 5) \<le> 8192"
    using ids by (simp add: eqs)
qed

lemma sample_submission_accepted:
  obtains rt s rt' where "runtime_run ed rt []"
    "perform ed rt (Attach sample_submission) (\<lambda>_. 5) IoDone = (Inr s, rt')"
    "readable_payload (event_payload (event_of ed rt (Attach sample_submission) (\<lambda>_. 5)))"
    "length (ri_incarnation (rt_info rt)) = 16" "ri_epoch (rt_info rt) = 1"
proof -
  obtain rt where rt: "runtime_open (fresh_options [] sample_trust 0) sample_io 0 = (Inr rt, Some (rt_directory rt))"
    "runtime_run ed rt []" "rt_state rt = new_state" "rt_trust rt = sample_trust"
    by (rule fresh_runtime)
  obtain l report where
    "ledger_open [] (coordinator_identity sample_trust) (trust_digest sample_trust) sample_io = (Inr (l, report), rt_directory rt)"
    "ri_incarnation (rt_info rt) = head_incarnation (led_head l)" "ri_epoch (rt_info rt) = head_epoch (led_head l)"
    using rt(1) by (rule runtime_open_ok)
  then have inc: "length (ri_incarnation (rt_info rt)) = 16" "ri_epoch (rt_info rt) = 1"
    using open_incarnation open_epoch sample_wf(2) by (simp_all add: length_new_incarnation works_def)
  have trusted: "trust_find sample_trust (signer_publisher sample_signer) \<noteq> None"
    by (simp add: sample_trust_def add_ed25519_def sort_records_def trust_find_def)
  have guard: "guard ed rt (Attach sample_submission) = Inr ()"
    using trusted rt(3,4) by (simp add: check_evidence_def sample_submission_def new_state_def)
  define es where "es = stamp_evidence rt sample_submission (\<lambda>_. 5)"
  have wf: "wf_id (es_evidence_id es)"
    unfolding es_def stamp_evidence_def Let_def derive_evidence_id_def
    by simp (rule from_digest_wf, simp add: sha256_parts_def kSha256Bytes_def)
  have es: "es_generation es = 7" "es_publisher es = signer_publisher sample_signer" "es_produced_at_millis es = 1000"
    "es_entries es = [stamp_entry rt (signer_publisher sample_signer) 5 (hd (es_entries sample_submission))]"
    by (simp_all add: es_def stamp_evidence_def Let_def sample_submission_def)
  have wf_publisher: "wf_id (signer_publisher sample_signer)"
    by (simp add: sample_signer_def wf_id_def kSha256HexChars_def kSha256Bytes_def kLowerHexDigits_def list_all_iff)
  have payload: "json_plain kMaxRecordBytes 32 (evidence_payload es 5)" "text_bound (evidence_payload es 5) \<le> 8192"
    using submission_plain [OF wf] es inc by (simp_all add: wf_publisher)
  have len: "length (dump (event_payload (event_of ed rt (Attach sample_submission) (\<lambda>_. 5)))) \<le> kMaxRecordBytes"
    and readable: "readable_payload (event_payload (event_of ed rt (Attach sample_submission) (\<lambda>_. 5)))"
    using readable_plain [OF payload(1)] payload(2)
    by (simp_all add: es_def sample_submission_def kMaxRecordBytes_def kMaxDocumentBytes_def)
  show ?thesis
    by (rule perform_accepts [OF run_durable [OF rt(2)] guard len])
      (simp_all add: segment_size_def kMaxRecordBytes_def kMaxDocumentBytes_def kMaxSegmentBytes_def that [OF rt(2) _ readable inc])
qed


theorem repeated_request_refused_witness:
  "\<exists>(rt :: runtime) s rt'. perform sample_ed_verify rt (Attach sample_submission) (\<lambda>_. 5) IoDone = (Inr s, rt') \<and>
     perform sample_ed_verify rt' (Attach sample_submission) (\<lambda>_. 9) IoDone = (Inl kEvidenceGenerationBackwards, rt')"
proof -
  obtain rt s rt' where step: "runtime_run sample_ed_verify rt []"
    "perform sample_ed_verify rt (Attach sample_submission) (\<lambda>_. 5) IoDone = (Inr s, rt')"
    using sample_submission_accepted by metis
  have refusal: "repeat_refusal (Attach sample_submission) = Some kEvidenceGenerationBackwards"
    by (simp add: sample_submission_def)
  have "perform sample_ed_verify rt' (Attach sample_submission) (\<lambda>_. 9) IoDone = (Inl kEvidenceGenerationBackwards, rt')"
    using repeated_request_refused [OF step refusal steps_none, where clock' = "\<lambda>_. 9" and io' = IoDone]
    by simp
  with step(2) show ?thesis by blast
qed

end
