(* ===== verification/Wnc_Wire.thy ===== *)
theory Wnc_Wire
  imports Wnc_Recovery
begin

text \<open>
  The framed transport, \<^verbatim>\<open>src/wire.cpp\<close>: message types, \<^verbatim>\<open>encode_frame\<close>, \<^verbatim>\<open>decode_frame\<close>, and the
  blocking readers and writers over a socket whose calls return what the network did, an input. The
  little endian integers are those of the journal frames. The results are that reading from a socket
  agrees with decoding from memory for every way the network cuts the bytes, and that exactly the
  frames that were sent completely are received.
\<close>

section \<open>Frames\<close>

definition kHeaderBytes :: nat where "kHeaderBytes = 28"
definition kMaxFrameBytes :: nat where "kMaxFrameBytes = 1048576"
definition kWireMagic :: u32 where "kWireMagic = 0x574E4331"
definition kWireVersion :: u16 where "kWireVersion = 1"

datatype message_type =
    MsgUnknown | MsgHello | MsgHelloReply | MsgRegisterWorkload | MsgPublishContract
  | MsgAttachEvidence | MsgEvaluate | MsgStatus | MsgDescribeContract | MsgInstallPolicy
  | MsgRetireWorkload | MsgListWorkloads | MsgRetireReplyGeneric | MsgError

fun message_number :: "message_type \<Rightarrow> u16" where
  "message_number MsgUnknown = 0"
| "message_number MsgHello = 1"
| "message_number MsgHelloReply = 2"
| "message_number MsgRegisterWorkload = 3"
| "message_number MsgPublishContract = 4"
| "message_number MsgAttachEvidence = 5"
| "message_number MsgEvaluate = 6"
| "message_number MsgStatus = 7"
| "message_number MsgDescribeContract = 8"
| "message_number MsgInstallPolicy = 9"
| "message_number MsgRetireWorkload = 10"
| "message_number MsgListWorkloads = 11"
| "message_number MsgRetireReplyGeneric = 12"
| "message_number MsgError = 255"

definition kMessageTokens :: "(message_type \<times> string) list" where
  "kMessageTokens =
     [(MsgUnknown, ''unknown''), (MsgHello, ''hello''), (MsgHelloReply, ''hello_reply''),
      (MsgRegisterWorkload, ''register_workload''), (MsgPublishContract, ''publish_contract''),
      (MsgAttachEvidence, ''attach_evidence''), (MsgEvaluate, ''evaluate''), (MsgStatus, ''status''),
      (MsgDescribeContract, ''describe_contract''), (MsgInstallPolicy, ''install_policy''),
      (MsgRetireWorkload, ''retire_workload''), (MsgListWorkloads, ''list_workloads''),
      (MsgError, ''error'')]"

text \<open>The type in a header is whatever number it carries.\<close>

definition message_type_token :: "u16 \<Rightarrow> string" where
  "message_type_token t =
     (case find (\<lambda>e. message_number (fst e) = t) kMessageTokens of
        Some e \<Rightarrow> snd e | None \<Rightarrow> snd (hd kMessageTokens))"

definition parse_message_type :: "string \<Rightarrow> message_type option" where
  "parse_message_type t = value_of kMessageTokens t"

record wire_header =
  hdr_version :: u16
  hdr_type :: u16
  hdr_flags :: u32
  hdr_body_length :: u32
  hdr_request_id :: u64

record wire_frame =
  wfr_header :: wire_header
  wfr_body :: string

definition header_bytes :: "u16 \<Rightarrow> u64 \<Rightarrow> nat \<Rightarrow> bytes" where
  "header_bytes t request_id n =
     (let fields = write_u32 kWireMagic @ write_u16 kWireVersion @ write_u16 t @ write_u32 0 @
            write_u32 (of_nat n) @ write_u64 request_id
      in fields @ write_u32 (crc32 fields))"

definition encode_frame :: "u16 \<Rightarrow> u64 \<Rightarrow> string \<Rightarrow> bytes result" where
  "encode_frame t request_id body =
     (if length body > kMaxFrameBytes - kHeaderBytes then Inl kBodyTooLarge
      else Inr (header_bytes t request_id (length body) @ bytes_of body))"

text \<open>The checks of a complete header, in the order of \<^verbatim>\<open>decode_frame\<close> and of \<^verbatim>\<open>read_frame\<close>.\<close>

definition read_header :: "bytes \<Rightarrow> wire_header result" where
  "read_header bs =
     (if read_u32 bs \<noteq> kWireMagic then Inl kBadMagic
      else if read_u16 (drop 4 bs) \<noteq> kWireVersion then Inl kBadVersion
      else if read_u32 (drop 24 bs) \<noteq> crc32 (take 24 bs) then Inl kFrameCrcMismatch
      else if unat (read_u32 (drop 12 bs)) > kMaxFrameBytes - kHeaderBytes then Inl kFrameTooLarge
      else Inr \<lparr>hdr_version = read_u16 (drop 4 bs), hdr_type = read_u16 (drop 6 bs),
                hdr_flags = read_u32 (drop 8 bs), hdr_body_length = read_u32 (drop 12 bs),
                hdr_request_id = read_u64 (drop 16 bs)\<rparr>)"

definition decode_frame :: "bytes \<Rightarrow> (wire_frame \<times> nat) result" where
  "decode_frame bs =
     (if length bs < kHeaderBytes then Inl kTruncatedFrame
      else
        rbind (read_header bs) (\<lambda>h.
          let n = unat (hdr_body_length h); total = kHeaderBytes + n in
          if length bs < total then Inl kTruncatedFrame
          else Inr (\<lparr>wfr_header = h, wfr_body = string_of (take n (drop kHeaderBytes bs))\<rparr>, total)))"

section \<open>Sockets\<close>

text \<open>
  What the network does is an input: the results of the successive \<^verbatim>\<open>recv\<close> calls, as far as they
  are known. Bytes that arrived and were not asked for stay for the next call. A call beyond the
  known results waits, which the result \<^const>\<open>None\<close> stands for.
\<close>

datatype arrival = Arrived bytes | PeerClosed | ReceiveFailed

fun recv :: "nat \<Rightarrow> arrival list \<Rightarrow> (arrival \<times> arrival list) option" where
  "recv n [] = None"
| "recv n (Arrived bs # rest) =
     (if length bs > n then Some (Arrived (take n bs), Arrived (drop n bs) # rest)
      else Some (Arrived bs, rest))"
| "recv n (a # rest) = Some (a, rest)"

text \<open>\<^verbatim>\<open>read_exact\<close>: the buffer filled so far and the number of bytes still to come.\<close>

lemma recv_progress:
  "recv n as = Some (Arrived bs, as') \<Longrightarrow> bs \<noteq> [] \<Longrightarrow> 0 < n \<Longrightarrow> length bs \<le> n \<and> n - length bs < n"
  by (induction n "as" rule: recv.induct) (auto split: if_splits)

function read_exact :: "nat \<Rightarrow> bytes \<Rightarrow> arrival list \<Rightarrow> (bytes result \<times> arrival list) option" where
  "read_exact missing buffer arrivals =
     (if missing = 0 then Some (Inr buffer, arrivals)
      else case recv missing arrivals of
        None \<Rightarrow> None
      | Some (Arrived bs, rest) \<Rightarrow>
          if bs = [] then Some (Inl kSessionClosed, rest)
          else read_exact (missing - length bs) (buffer @ bs) rest
      | Some (PeerClosed, rest) \<Rightarrow> Some (Inl kSessionClosed, rest)
      | Some (ReceiveFailed, rest) \<Rightarrow> Some (Inl kIoFailed, rest))"
  by auto
termination
  by (relation "measure (\<lambda>(missing, buffer, arrivals). missing)") (auto dest: recv_progress)

declare read_exact.simps [simp del]

definition read_frame :: "arrival list \<Rightarrow> (wire_frame result \<times> arrival list) option" where
  "read_frame arrivals =
     (case read_exact kHeaderBytes [] arrivals of
        None \<Rightarrow> None
      | Some (Inl c, rest) \<Rightarrow> Some (Inl c, rest)
      | Some (Inr raw, rest) \<Rightarrow>
          (case read_header raw of
             Inl c \<Rightarrow> Some (Inl c, rest)
           | Inr h \<Rightarrow>
               if hdr_body_length h = 0 then Some (Inr \<lparr>wfr_header = h, wfr_body = []\<rparr>, rest)
               else (case read_exact (unat (hdr_body_length h)) [] rest of
                   None \<Rightarrow> None
                 | Some (Inl c, rest') \<Rightarrow> Some (Inl c, rest')
                 | Some (Inr body, rest') \<Rightarrow>
                     Some (Inr \<lparr>wfr_header = h, wfr_body = string_of body\<rparr>, rest'))))"

text \<open>
  The results of successive \<^verbatim>\<open>send\<close> calls: a positive number of bytes was taken (\<^verbatim>\<open>Sent n\<close> is
  \<open>n + 1\<close> of them, as far as there are so many), the socket would block, or the call failed. On a
  blocking socket only the outcomes \<^verbatim>\<open>Sent\<close> and \<^verbatim>\<open>SendFailed\<close> occur.
\<close>

datatype departure = Sent nat | SendBlocked | SendFailed

text \<open>\<^verbatim>\<open>write_all\<close>: what reached the peer, and the result.\<close>

fun write_all :: "bytes \<Rightarrow> departure list \<Rightarrow> bytes \<times> (unit result \<times> departure list) option" where
  "write_all [] departures = ([], Some (Inr (), departures))"
| "write_all (b # bs) [] = ([], None)"
| "write_all (b # bs) (Sent n # rest) =
     (let (sent, r) = write_all (drop n bs) rest in (b # take n bs @ sent, r))"
| "write_all (b # bs) (d # rest) = ([], Some (Inl kIoFailed, rest))"

definition send_frame ::
    "u16 \<Rightarrow> u64 \<Rightarrow> string \<Rightarrow> departure list \<Rightarrow> bytes \<times> (unit result \<times> departure list) option" where
  "send_frame t request_id body departures =
     (case encode_frame t request_id body of
        Inl c \<Rightarrow> ([], Some (Inl c, departures))
      | Inr bs \<Rightarrow> write_all bs departures)"

text \<open>The outcome of a bounded wait.\<close>

datatype readiness = Ready | Expired | WaitFailed

definition wait_readable :: "readiness \<Rightarrow> unit result" where
  "wait_readable r =
     (case r of Ready \<Rightarrow> Inr () | Expired \<Rightarrow> Inl kDeadlineExceeded | WaitFailed \<Rightarrow> Inl kIoFailed)"

definition accept_one :: "readiness \<Rightarrow> bool \<Rightarrow> unit result" where
  "accept_one r accepted = rbind (wait_readable r) (\<lambda>_. rcheck accepted kIoFailed)"

section \<open>Reading back frames\<close>

definition frame_of :: "u16 \<Rightarrow> u64 \<Rightarrow> string \<Rightarrow> wire_frame" where
  "frame_of t request_id body =
     \<lparr>wfr_header = \<lparr>hdr_version = kWireVersion, hdr_type = t, hdr_flags = 0,
        hdr_body_length = of_nat (length body), hdr_request_id = request_id\<rparr>, wfr_body = body\<rparr>"

lemma length_header_bytes [simp]: "length (header_bytes t i n) = 28"
  by (simp add: header_bytes_def)

lemma read_header_bytes:
  assumes "n \<le> kMaxFrameBytes - kHeaderBytes"
  shows "read_header (header_bytes t i n @ rest) =
    Inr \<lparr>hdr_version = kWireVersion, hdr_type = t, hdr_flags = 0, hdr_body_length = of_nat n,
        hdr_request_id = i\<rparr>"
  using assms
  by (simp add: read_header_def header_bytes_def Let_def kMaxFrameBytes_def kHeaderBytes_def unat_of_nat)

lemma encode_frame_ok:
  "encode_frame t i body = Inr bs \<longleftrightarrow>
     length body \<le> kMaxFrameBytes - kHeaderBytes \<and> bs = header_bytes t i (length body) @ bytes_of body"
  by (auto simp: encode_frame_def)

lemma unat_body_length:
  "n \<le> kMaxFrameBytes - kHeaderBytes \<Longrightarrow> unat (of_nat n :: u32) = n"
  by (simp add: kMaxFrameBytes_def kHeaderBytes_def unat_of_nat)

lemma decode_encode:
  assumes "encode_frame t i body = Inr bs"
  shows "decode_frame (bs @ rest) = Inr (frame_of t i body, length bs)"
proof -
  have bs: "bs = header_bytes t i (length body) @ bytes_of body" and n: "length body \<le> kMaxFrameBytes - kHeaderBytes"
    using assms by (simp_all add: encode_frame_ok)
  show ?thesis
    using unat_body_length [OF n] read_header_bytes [OF n]
    by (simp add: decode_frame_def bs frame_of_def Let_def kHeaderBytes_def)
qed

lemma decode_torn:
  assumes "encode_frame t i body = Inr bs" "k < length bs"
  shows "decode_frame (take k bs) = Inl kTruncatedFrame"
proof (cases "k < 28")
  case True
  then show ?thesis using assms(2) by (simp add: decode_frame_def kHeaderBytes_def)
next
  case False
  have bs: "bs = header_bytes t i (length body) @ bytes_of body" and n: "length body \<le> kMaxFrameBytes - kHeaderBytes"
    using assms by (simp_all add: encode_frame_ok)
  have "take k bs = header_bytes t i (length body) @ take (k - 28) (bytes_of body)" using False by (simp add: bs)
  then show ?thesis
    using False assms(2) unat_body_length [OF n] read_header_bytes [OF n]
    by (simp add: decode_frame_def bs Let_def kHeaderBytes_def)
qed

text \<open>The header is a function of its twenty eight bytes.\<close>

lemma read_header_take: "28 \<le> length bs \<Longrightarrow> read_header (take 28 bs) = read_header bs"
proof -
  assume "28 \<le> length bs"
  then have "read_u32 (take 28 bs) = read_u32 bs" "read_u16 (drop 4 (take 28 bs)) = read_u16 (drop 4 bs)"
    "read_u32 (drop 24 (take 28 bs)) = read_u32 (drop 24 bs)" "read_u32 (drop 12 (take 28 bs)) = read_u32 (drop 12 bs)"
    "read_u16 (drop 6 (take 28 bs)) = read_u16 (drop 6 bs)" "read_u32 (drop 8 (take 28 bs)) = read_u32 (drop 8 bs)"
    "read_u64 (drop 16 (take 28 bs)) = read_u64 (drop 16 bs)" "take 24 (take 28 bs) = take 24 bs"
    by (simp_all add: read_u32_def read_u16_def read_u64_def upt_conv_Cons)
  then show ?thesis unfolding read_header_def by (simp only:)
qed

lemma read_header_bound: "read_header bs = Inr h \<Longrightarrow> unat (hdr_body_length h) \<le> kMaxFrameBytes - kHeaderBytes"
  by (auto simp: read_header_def split: if_splits)

lemma decode_frame_bound:
  "decode_frame bs = Inr (f, n) \<Longrightarrow> kHeaderBytes \<le> n \<and> n \<le> kMaxFrameBytes \<and> n \<le> length bs"
  by (auto simp: decode_frame_def Let_def kHeaderBytes_def kMaxFrameBytes_def dest!: read_header_bound split: if_splits)

section \<open>Arrivals\<close>

lemma recv_chunks:
  assumes "[] \<notin> set cs" "0 < n"
  shows "recv n (map Arrived cs) =
    (case cs of [] \<Rightarrow> None
     | c # cs' \<Rightarrow> if length c > n then Some (Arrived (take n c), map Arrived (drop n c # cs'))
                  else Some (Arrived c, map Arrived cs'))"
  by (cases cs) simp_all

lemma read_exact_chunks:
  "[] \<notin> set cs \<Longrightarrow>
   (if length (concat cs) < m then read_exact m buf (map Arrived cs) = None
    else \<exists>rem. read_exact m buf (map Arrived cs) = Some (Inr (buf @ take m (concat cs)), map Arrived rem) \<and>
           concat rem = drop m (concat cs) \<and> [] \<notin> set rem)"
proof (induction cs arbitrary: m buf)
  case Nil
  show ?case by (cases "m = 0") (auto simp: read_exact.simps [of m] read_exact.simps [of 0] intro!: exI [of _ "[]"])
next
  case (Cons c cs)
  consider "m = 0" | "0 < m" "length c > m" | "0 < m" "length c \<le> m" by linarith
  then show ?case
  proof cases
    case 1
    then show ?thesis using Cons.prems
      by (auto simp: read_exact.simps [of 0] intro!: exI [of _ "c # cs"])
  next
    case 2
    then show ?thesis using Cons.prems
      by (auto simp: read_exact.simps [of m] read_exact.simps [of 0] intro!: exI [of _ "drop m c # cs"])
  next
    case 3
    then have "read_exact m buf (map Arrived (c # cs)) = read_exact (m - length c) (buf @ c) (map Arrived cs)"
      using Cons.prems by (auto simp: read_exact.simps [of m])
    then show ?thesis using Cons.IH [of "m - length c" "buf @ c"] Cons.prems 3 by (auto split: if_splits)
  qed
qed

lemma read_chunks:
  assumes "[] \<notin> set cs"
  shows "case decode_frame (concat cs) of
      Inl c \<Rightarrow> if c = kTruncatedFrame then read_frame (map Arrived cs) = None
               else (\<exists>rem. read_frame (map Arrived cs) = Some (Inl c, rem))
    | Inr (f, n) \<Rightarrow> \<exists>rem. read_frame (map Arrived cs) = Some (Inr f, map Arrived rem) \<and>
                     concat rem = drop n (concat cs)"
proof (cases "length (concat cs) < 28")
  case True
  then show ?thesis
    using read_exact_chunks [OF assms, of 28 "[]"] by (simp add: decode_frame_def read_frame_def kHeaderBytes_def)
next
  case False
  let ?bs = "concat cs"
  obtain rem where rem: "read_exact 28 [] (map Arrived cs) = Some (Inr (take 28 ?bs), map Arrived rem)"
    "concat rem = drop 28 ?bs" "[] \<notin> set rem"
    using read_exact_chunks [OF assms, of 28 "[]"] False by auto
  show ?thesis
  proof (cases "read_header ?bs")
    case (Inl c)
    then have "c \<noteq> kTruncatedFrame" by (auto simp: read_header_def split: if_splits)
    with Inl show ?thesis
      using False rem read_header_take [of ?bs] by (simp add: decode_frame_def read_frame_def kHeaderBytes_def rbind_def)
  next
    case (Inr h)
    let ?n = "unat (hdr_body_length h)"
    have read: "read_frame (map Arrived cs) =
        (if hdr_body_length h = 0 then Some (Inr \<lparr>wfr_header = h, wfr_body = []\<rparr>, map Arrived rem)
         else case read_exact ?n [] (map Arrived rem) of
            None \<Rightarrow> None
          | Some (Inl c, rest') \<Rightarrow> Some (Inl c, rest')
          | Some (Inr body, rest') \<Rightarrow> Some (Inr \<lparr>wfr_header = h, wfr_body = string_of body\<rparr>, rest'))"
      using False rem Inr read_header_take [of ?bs] by (simp add: read_frame_def kHeaderBytes_def)
    have dec: "decode_frame ?bs = (if length (concat rem) < ?n then Inl kTruncatedFrame
        else Inr (\<lparr>wfr_header = h, wfr_body = string_of (take ?n (concat rem))\<rparr>, 28 + ?n))"
      using False Inr rem(2) by (simp add: decode_frame_def Let_def kHeaderBytes_def) linarith
    show ?thesis
    proof (cases "hdr_body_length h = 0")
      case True
      then show ?thesis using read dec rem(2) by (auto simp: string_of_def)
    next
      case False
      with read_exact_chunks [OF rem(3), of ?n "[]"] show ?thesis
        unfolding read dec rem(2) [symmetric]
        by (auto simp: rem(2) add.commute split: if_splits)
    qed
  qed
qed


text \<open>
  C29: reading frames from a socket agrees with decoding them from memory, however the network cuts
  the bytes into pieces: the same frames are accepted with the rest left unread, the same headers are
  refused with the same code, and the reader waits exactly where the decoder reports a truncated frame.
\<close>

theorem read_frame_is_decode:
  assumes "[] \<notin> set cs"
  shows "case decode_frame (concat cs) of
      Inl c \<Rightarrow> if c = kTruncatedFrame then read_frame (map Arrived cs) = None
               else (\<exists>rem. read_frame (map Arrived cs) = Some (Inl c, rem))
    | Inr (f, n) \<Rightarrow> \<exists>rem. read_frame (map Arrived cs) = Some (Inr f, map Arrived rem) \<and>
                     concat rem = drop n (concat cs)"
  by (rule read_chunks) (rule assms)

theorem read_frame_is_decode_witness:
  "\<exists>rem. read_frame (map Arrived [take 5 (header_bytes 7 3 2), drop 5 (header_bytes 7 3 2) @ bytes_of ''{'', bytes_of ''}[''])
     = Some (Inr (frame_of 7 3 ''{}''), map Arrived rem) \<and> concat rem = bytes_of ''[''"
proof -
  let ?h = "header_bytes 7 3 2"
  let ?cs = "[take 5 ?h, drop 5 ?h @ bytes_of ''{'', bytes_of ''}['']"
  have "take 5 ?h \<noteq> []" by (metis length_header_bytes length_take list.size(3) min_def numeral_le_iff numeral_neq_zero semiring_norm(69))
  then have ne: "[] \<notin> set ?cs" by (auto simp: bytes_of_def)
  have bs: "concat ?cs = (?h @ bytes_of ''{}'') @ bytes_of ''[''"
    by (simp only: concat.simps append_assoc append_take_drop_id bytes_of_append [symmetric] append.simps append_Nil2)
      (simp flip: append_assoc bytes_of_append)
  have "encode_frame 7 3 ''{}'' = Inr (?h @ bytes_of ''{}'')"
    by (simp add: encode_frame_ok kMaxFrameBytes_def kHeaderBytes_def numeral_2_eq_2)
  from decode_encode [OF this, of "bytes_of ''[''"] read_frame_is_decode [OF ne]
  show ?thesis unfolding bs by simp
qed

section \<open>Sending\<close>

lemma write_all_sent:
  "write_all bs ds = (sent, r) \<Longrightarrow>
   case r of Some (Inr _, _) \<Rightarrow> sent = bs | _ \<Rightarrow> \<exists>k<length bs. sent = take k bs"
proof (induction bs ds arbitrary: sent rule: write_all.induct)
  case (3 b bs n rest)
  obtain s r' where w: "write_all (drop n bs) rest = (s, r')" by (cases "write_all (drop n bs) rest")
  then have sent: "sent = b # take n bs @ s" and r: "r = r'" using 3(2) by simp_all
  have IH: "case r' of Some (Inr _, _) \<Rightarrow> s = drop n bs | _ \<Rightarrow> \<exists>k<length (drop n bs). s = take k (drop n bs)"
    using 3(1) w r by simp
  have "\<exists>k<length (b # bs). sent = take k (b # bs)" if "\<exists>k<length (drop n bs). s = take k (drop n bs)"
  proof -
    obtain k where k: "k < length bs - n" "s = take k (drop n bs)" using \<open>\<exists>k<_. _\<close> by auto
    then have "sent = take (Suc (n + k)) (b # bs)" by (simp add: sent take_add)
    with k(1) show ?thesis by (intro exI [of _ "Suc (n + k)"]) simp
  qed
  with IH sent show ?case by (auto simp: r split: option.splits sum.splits)
qed auto

text \<open>
  C30: a frame that was sent completely is received as it was sent, however the network cuts it into
  pieces, with every byte that follows it left for the next read; a frame that was not sent completely,
  because the connection failed or its body is above the bound, is never received: the reader waits.
\<close>

theorem frame_transport:
  assumes "send_frame t i body ds = (sent, outcome)" "[] \<notin> set cs" "concat cs = sent @ rest"
  shows "case outcome of
      Some (Inr _, _) \<Rightarrow>
        \<exists>rem. read_frame (map Arrived cs) = Some (Inr (frame_of t i body), map Arrived rem) \<and> concat rem = rest
    | _ \<Rightarrow> rest = [] \<longrightarrow> read_frame (map Arrived cs) = None"
proof (cases "encode_frame t i body")
  case (Inl c)
  then have "sent = []" "outcome = Some (Inl c, ds)" using assms(1) by (simp_all add: send_frame_def)
  then show ?thesis
    using assms(2,3) read_exact_chunks [OF assms(2), of 28 "[]"] by (auto simp: read_frame_def kHeaderBytes_def)
next
  case (Inr bs)
  then have w: "case outcome of Some (Inr _, _) \<Rightarrow> sent = bs | _ \<Rightarrow> \<exists>k<length bs. sent = take k bs"
    using assms(1) by (intro write_all_sent) (simp add: send_frame_def)
  have whole: "\<exists>rem. read_frame (map Arrived cs) = Some (Inr (frame_of t i body), map Arrived rem) \<and> concat rem = rest"
    if "sent = bs"
    using read_chunks [OF assms(2)] decode_encode [OF Inr, of rest] that by (simp add: assms(3))
  have part: "read_frame (map Arrived cs) = None" if "\<exists>k<length bs. sent = take k bs" "rest = []"
    using read_chunks [OF assms(2)] decode_torn [OF Inr] that by (auto simp: assms(3))
  show ?thesis using w whole part by (auto split: option.splits sum.splits)
qed

theorem frame_transport_witness:
  "\<exists>rem. read_frame (map Arrived [header_bytes 7 3 2, bytes_of ''{}'']) = Some (Inr (frame_of 7 3 ''{}''), map Arrived rem) \<and>
     concat rem = []"
proof -
  have enc: "encode_frame 7 3 ''{}'' = Inr (header_bytes 7 3 2 @ bytes_of ''{}'')"
    by (simp add: encode_frame_ok kMaxFrameBytes_def kHeaderBytes_def numeral_2_eq_2)
  obtain b bs where h: "header_bytes 7 3 2 @ bytes_of ''{}'' = b # bs"
    by (cases "header_bytes 7 3 2") (auto dest: arg_cong [where f = length])
  have "length bs = 29" using arg_cong [OF h, of length] by simp
  then have send: "send_frame 7 3 ''{}'' [Sent 40] = (header_bytes 7 3 2 @ bytes_of ''{}'', Some (Inr (), []))"
    unfolding send_frame_def enc h by simp
  have ne: "[] \<notin> set [header_bytes 7 3 2, bytes_of ''{}'']"
    using length_header_bytes [of 7 3 2] by (auto simp: bytes_of_def simp del: length_header_bytes dest: arg_cong [where f = length])
  from frame_transport [OF send ne, of "[]"] show ?thesis by simp
qed

end
