(* ===== verification/Wnc_Coordinator.thy ===== *)
theory Wnc_Coordinator
  imports Wnc_Wire
begin

text \<open>
  The coordinator service, \<^verbatim>\<open>src/coordinator.cpp\<close>: request schemas, the normalisation of evidence
  documents, rendering of replies, one handler per request over the runtime, sessions with their
  buffers, the pump that decodes and serves buffered frames, accepting, reaping idle sessions, the
  pass, start and shutdown. What sockets, the clock and the disk do are inputs.
\<close>

section \<open>Requests\<close>

definition kSchemaPrefix :: string where "kSchemaPrefix = ''wnc/v1/''"

definition schema_handler :: "string \<Rightarrow> message_type option" where
  "schema_handler schema =
     (let n = length kSchemaPrefix;
          tag = (if take n schema = kSchemaPrefix then drop n schema else schema)
      in case parse_message_type tag of
           None \<Rightarrow> None
         | Some t \<Rightarrow>
             if t \<in> {MsgHello, MsgRegisterWorkload, MsgPublishContract, MsgAttachEvidence, MsgEvaluate, MsgStatus,
                     MsgDescribeContract, MsgInstallPolicy, MsgRetireWorkload, MsgListWorkloads}
             then Some t else None)"

definition defined_message_type :: "u16 \<Rightarrow> bool" where
  "defined_message_type t = (t = message_number MsgUnknown \<or> message_type_token t \<noteq> ''unknown'')"

fun clean_entry :: "json \<Rightarrow> json" where
  "clean_entry (JObject fs) = JObject (filter (\<lambda>(k, v). k \<noteq> ''captured_by'' \<and> k \<noteq> ''epoch'') fs)"
| "clean_entry j = j"

text \<open>A declared zero identity is left out; the entries lose their capture incarnation and epoch.\<close>

fun clean_field :: "string \<times> json \<Rightarrow> (string \<times> json) list" where
  "clean_field (k, JString t) =
     (if k = ''evidence_id'' \<and> (case parse_id t of Some i \<Rightarrow> is_zero_id i | None \<Rightarrow> False) then []
      else [(k, JString t)])"
| "clean_field (k, JArray items) =
     (if k = ''entries'' then [(k, JArray (map clean_entry items))] else [(k, JArray items)])"
| "clean_field (k, v) = [(k, v)]"

fun normalize_evidence_document :: "json \<Rightarrow> json" where
  "normalize_evidence_document (JObject fs) = JObject (concat (map clean_field fs))"
| "normalize_evidence_document j = j"

section \<open>Rendering\<close>

definition json_count :: "nat \<Rightarrow> json" where
  "json_count n = json_u64 (of_nat n)"

definition summary_to_json :: "evaluation_summary \<Rightarrow> json" where
  "summary_to_json s =
     json_sets
       [(''required_total'', json_count (required_total s)),
        (''required_satisfied'', json_count (required_satisfied s)),
        (''required_unsatisfied'', json_count (required_unsatisfied s)),
        (''required_unknown'', json_count (required_unknown s)),
        (''preferred_satisfied'', json_count (preferred_satisfied s)),
        (''preferred_unsatisfied'', json_count (preferred_unsatisfied s)),
        (''preferred_unknown'', json_count (preferred_unknown s)),
        (''informational'', json_count (informational s)),
        (''not_applicable'', json_count (not_applicable s))] JNull"

text \<open>The wording of a reason is an argument: the model has the codes only.\<close>

definition requirement_evaluation_to_json :: "string \<Rightarrow> requirement_evaluation \<Rightarrow> json" where
  "requirement_evaluation_to_json reason e =
     json_sets
       ([(''requirement'', JString (re_requirement e)), (''scope'', JString (re_scope e)),
         (''kind'', JString (requirement_kind_token (re_kind e))),
         (''strength'', JString (requirement_strength_token (re_strength e))),
         (''satisfaction'', JString (satisfaction_token (re_satisfaction e))),
         (''reason_code'', JString (code_token (re_reason_code e))), (''reason'', JString reason),
         (''evidence'', JString (re_evidence e)),
         (''evidence_generation'', json_u64 (re_evidence_generation e)),
         (''freshness'', JString (freshness_token (re_freshness e)))] @
        (case re_observed e of Some x \<Rightarrow> [(''observed'', JReal x)] | None \<Rightarrow> [])) JNull"

definition evaluation_to_json :: "(nat \<Rightarrow> string) \<Rightarrow> contract_evaluation \<Rightarrow> json" where
  "evaluation_to_json reasons e =
     json_sets
       [(''workload'', JString (ce_workload e)), (''contract'', JString (ce_contract e)),
        (''contract_generation'', json_u64 (ce_contract_generation e)),
        (''contract_digest'', JString (hex_encode (ce_contract_digest e))),
        (''policy_generation'', json_u64 (ce_policy_generation e)),
        (''evidence_generation'', json_u64 (ce_evidence_generation e)),
        (''evaluated_by'', JString (incarnation_str (ce_evaluated_by e))),
        (''epoch'', json_u64 (ce_epoch e)),
        (''evaluated_at_millis'', json_u64 (ce_evaluated_at_millis e)),
        (''aggregate'', JString (satisfaction_token (ce_aggregate e))),
        (''summary'', summary_to_json (ce_summary e)),
        (''requirements'', JArray (map (\<lambda>(i, x). requirement_evaluation_to_json (reasons i) x)
           (enumerate 0 (ce_requirements e))))] JNull"

definition history_to_json :: "u64 \<times> digest \<times> ident \<times> u64 \<times> bool \<times> bool \<Rightarrow> json" where
  "history_to_json h =
     (case h of (generation, dg, contract_id, recorded, superseded, retired) \<Rightarrow>
        json_sets
          [(''generation'', json_u64 generation), (''digest'', JString (hex_encode dg)),
           (''contract'', JString contract_id), (''recorded_at_millis'', json_u64 recorded),
           (''superseded'', JBool superseded), (''retired'', JBool retired)] JNull)"

definition snapshot_to_json :: "workload_snapshot \<Rightarrow> json" where
  "snapshot_to_json s =
     json_sets
       [(''id'', JString (wsn_id s)), (''name'', JString (wsn_name s)),
        (''workload_generation'', json_u64 (wsn_workload_generation s)),
        (''contract_generation'', json_u64 (wsn_contract_generation s)),
        (''digest'', JString (hex_encode (wsn_digest s))), (''contract'', JString (wsn_contract s)),
        (''policy_generation'', json_u64 (wsn_policy_generation s)),
        (''evidence_generation'', json_u64 (wsn_evidence_generation s)),
        (''retired'', JBool (wsn_retired s)),
        (''history'', JArray (map history_to_json (wsn_history s)))] JNull"

section \<open>Handlers\<close>

text \<open>
  A handler returns the body of its reply or the code of its refusal, and the runtime after it.
  The clock, the outcome of the append and the wording of reasons are inputs of a request.
\<close>

record frame_io =
  fio_clock :: "nat \<Rightarrow> u64"
  fio_append :: io_outcome
  fio_message :: string
  fio_reasons :: "nat \<Rightarrow> string"

definition read_workload_id :: "json \<Rightarrow> ident result" where
  "read_workload_id body =
     (case json_find body ''workload'' of
        None \<Rightarrow> Inl kJsonMissingField
      | Some (JString t) \<Rightarrow> of_option kJsonWrongType (parse_id t)
      | Some _ \<Rightarrow> Inl kJsonWrongType)"

definition acknowledge :: "u64 result \<times> runtime \<Rightarrow> (u64 \<Rightarrow> json) \<Rightarrow> json result \<times> runtime" where
  "acknowledge outcome reply =
     (case outcome of (Inl c, rt) \<Rightarrow> (Inl c, rt) | (Inr sequence, rt) \<Rightarrow> (Inr (reply sequence), rt))"

definition contract_reply :: "contract \<Rightarrow> u64 \<Rightarrow> json" where
  "contract_reply c sequence =
     json_sets
       [(''ok'', JBool True), (''workload'', JString (workload_of c)),
        (''contract'', JString (body_contract_id (con_body c))),
        (''digest'', JString (hex_encode (con_digest c))),
        (''contract_generation'', json_u64 (body_generation (con_body c))),
        (''sequence'', json_u64 sequence)] JNull"

definition handle_contract_submission ::
    "(bytes \<Rightarrow> bytes \<Rightarrow> bytes \<Rightarrow> bool) \<Rightarrow> runtime \<Rightarrow> json \<Rightarrow> bool \<Rightarrow> frame_io \<Rightarrow> json result \<times> runtime" where
  "handle_contract_submission ed rt body publishing fio =
     (case json_find body ''contract'' of
        None \<Rightarrow> (Inl kJsonMissingField, rt)
      | Some document \<Rightarrow>
          (case contract_from_json document of
             Inl c \<Rightarrow> (Inl c, rt)
           | Inr submitted \<Rightarrow>
               acknowledge
                 (if publishing then publish ed rt submitted (fio_clock fio) (fio_append fio)
                  else register_workload ed rt submitted (fio_clock fio) (fio_append fio))
                 (contract_reply submitted)))"

text \<open>The decisions that the attached evidence invalidates.\<close>

definition invalidated_evaluations :: "runtime \<Rightarrow> evidence_set \<Rightarrow> nat" where
  "invalidated_evaluations rt es =
     length (filter (\<lambda>(i, w). i \<in> set (affected (rt_state rt) es) \<and> ws_evaluation w \<noteq> None)
       (rs_workloads (rt_state rt)))"

definition evidence_reply :: "runtime \<Rightarrow> evidence_set \<Rightarrow> u64 \<Rightarrow> json" where
  "evidence_reply rt stamped sequence =
     json_sets
       [(''ok'', JBool True), (''evidence'', JString (es_evidence_id stamped)),
        (''evidence_generation'', json_u64 (es_generation stamped)),
        (''sequence'', json_u64 sequence),
        (''invalidated_evaluations'', json_count (invalidated_evaluations rt stamped))] JNull"

definition handle_attach_evidence :: "runtime \<Rightarrow> json \<Rightarrow> frame_io \<Rightarrow> json result \<times> runtime" where
  "handle_attach_evidence rt body fio =
     (case json_find body ''evidence'' of
        None \<Rightarrow> (Inl kJsonMissingField, rt)
      | Some document \<Rightarrow>
          (case evidence_from_json (normalize_evidence_document document) of
             Inl c \<Rightarrow> (Inl c, rt)
           | Inr es \<Rightarrow>
               acknowledge (attach_evidence rt es (fio_clock fio) (fio_append fio))
                 (evidence_reply rt (stamp_evidence rt es (fio_clock fio)))))"

definition policy_reply :: "policy \<Rightarrow> u64 \<Rightarrow> json" where
  "policy_reply p sequence =
     json_sets
       [(''ok'', JBool True), (''policy'', JString (pol_id p)),
        (''policy_generation'', json_u64 (pol_generation p)), (''sequence'', json_u64 sequence)] JNull"

definition handle_install_policy :: "runtime \<Rightarrow> json \<Rightarrow> frame_io \<Rightarrow> json result \<times> runtime" where
  "handle_install_policy rt body fio =
     (case json_find body ''policy'' of
        None \<Rightarrow> (Inl kJsonMissingField, rt)
      | Some document \<Rightarrow>
          (case policy_from_json document of
             Inl c \<Rightarrow> (Inl c, rt)
           | Inr p \<Rightarrow> acknowledge (install_policy rt p (fio_clock fio) (fio_append fio)) (policy_reply p)))"

definition handle_evaluate :: "runtime \<Rightarrow> json \<Rightarrow> frame_io \<Rightarrow> json result" where
  "handle_evaluate rt body fio =
     rbind (read_workload_id body) (\<lambda>i.
     rbind (evaluate rt i (fio_clock fio)) (\<lambda>(c, e).
     Inr (json_sets [(''ok'', JBool True), (''evaluation'', evaluation_to_json (fio_reasons fio) e)] JNull)))"

definition handle_list_workloads :: "runtime \<Rightarrow> json" where
  "handle_list_workloads rt =
     (let items = map snapshot_to_json (List.map_filter (workload_snapshot_of rt) (runtime_workloads rt)) in
      json_sets [(''ok'', JBool True), (''count'', json_count (length items)), (''workloads'', JArray items)] JNull)"

definition requested_generation :: "json \<Rightarrow> u64 \<Rightarrow> u64 result" where
  "requested_generation body current =
     (case json_find body ''generation'' of
        None \<Rightarrow> Inr current
      | Some (JInt n) \<Rightarrow>
          if n < 0 then Inl kValueOutOfRange else Inr (if n \<noteq> 0 then of_int n else current)
      | Some _ \<Rightarrow> Inl kJsonWrongType)"

definition handle_describe_contract :: "runtime \<Rightarrow> json \<Rightarrow> json result" where
  "handle_describe_contract rt body =
     rbind (read_workload_id body) (\<lambda>i.
     rbind (of_option kUnknownWorkload (workload_snapshot_of rt i)) (\<lambda>s.
     rbind (requested_generation body (wsn_contract_generation s)) (\<lambda>generation.
     rbind (of_option kUnknownContract (contract_at rt i generation)) (\<lambda>c.
     Inr (json_sets
       [(''ok'', JBool True), (''workload'', JString i), (''contract'', contract_to_json c),
        (''contract_generation'', json_u64 generation), (''retired'', JBool (wsn_retired s))] JNull)))))"

definition retire_reply :: "ident \<Rightarrow> u64 \<Rightarrow> json" where
  "retire_reply i sequence =
     json_sets
       [(''ok'', JBool True), (''workload'', JString i), (''retired'', JBool True),
        (''sequence'', json_u64 sequence)] JNull"

definition handle_retire_workload :: "runtime \<Rightarrow> json \<Rightarrow> frame_io \<Rightarrow> json result \<times> runtime" where
  "handle_retire_workload rt body fio =
     (case read_workload_id body of
        Inl c \<Rightarrow> (Inl c, rt)
      | Inr i \<Rightarrow> acknowledge (retire rt i (fio_clock fio) (fio_append fio)) (retire_reply i))"

section \<open>Sessions\<close>

definition kReceiveChunkBytes :: nat where "kReceiveChunkBytes = 16384"
definition kFramesPerPass :: nat where "kFramesPerPass = 8"
definition kMaxSessions :: nat where "kMaxSessions = 64"

text \<open>The socket of a session is open exactly while the session is used.\<close>

record session =
  ses_inbound :: bytes
  ses_outbound :: bytes
  ses_out_offset :: nat
  ses_last_activity_millis :: u64
  ses_used :: bool
  ses_ready :: bool

definition new_session :: session where
  "new_session =
     \<lparr>ses_inbound = [], ses_outbound = [], ses_out_offset = 0, ses_last_activity_millis = 0,
      ses_used = False, ses_ready = False\<rparr>"

definition pending_output :: "session \<Rightarrow> bool" where
  "pending_output s = (ses_out_offset s < length (ses_outbound s))"

definition drop_session :: "session \<Rightarrow> session" where
  "drop_session s =
     s\<lparr>ses_inbound := [], ses_outbound := [], ses_out_offset := 0, ses_last_activity_millis := 0,
       ses_ready := False, ses_used := False\<rparr>"

text \<open>
  Time and the inputs of requests: the clock is read again and again, and every request that is
  handled has its own inputs. \<^verbatim>\<open>now\<close> counts the readings, \<^verbatim>\<open>frame\<close> the requests.
\<close>

record world =
  w_clock :: "nat \<Rightarrow> u64"
  w_inputs :: "nat \<Rightarrow> frame_io"
  w_now :: nat
  w_frame :: nat

definition tick :: "world \<Rightarrow> u64 \<times> world" where
  "tick w = (w_clock w (w_now w), w\<lparr>w_now := Suc (w_now w)\<rparr>)"

definition next_input :: "world \<Rightarrow> frame_io \<times> world" where
  "next_input w = (w_inputs w (w_frame w), w\<lparr>w_frame := Suc (w_frame w)\<rparr>)"

text \<open>
  \<^verbatim>\<open>flush\<close>: every call writes at most a chunk; without a further result the socket would block.
\<close>

definition send_slice :: "session \<Rightarrow> nat \<Rightarrow> nat" where
  "send_slice s n = min (Suc n) (min (length (ses_outbound s) - ses_out_offset s) kReceiveChunkBytes)"

fun flush :: "departure list \<Rightarrow> session \<Rightarrow> world \<Rightarrow> session \<times> departure list \<times> world" where
  "flush ds s w =
     (if \<not> pending_output s then (s\<lparr>ses_outbound := [], ses_out_offset := 0\<rparr>, ds, w)
      else case ds of
        [] \<Rightarrow> (s\<lparr>ses_ready := True\<rparr>, [], w)
      | Sent n # rest \<Rightarrow>
          (let (now, w1) = tick w in
           flush rest (s\<lparr>ses_out_offset := ses_out_offset s + send_slice s n,
                         ses_last_activity_millis := now\<rparr>) w1)
      | SendBlocked # rest \<Rightarrow> (s\<lparr>ses_ready := True\<rparr>, rest, w)
      | SendFailed # rest \<Rightarrow> (drop_session s, rest, w))"

declare flush.simps [simp del]

section \<open>The coordinator\<close>

record coordinator_options =
  copt_max_sessions :: nat
  copt_idle_timeout_millis :: u64
  copt_evidence_max_age_millis :: u64

record coordinator =
  co_options :: coordinator_options
  co_runtime :: runtime
  co_listener :: bool
  co_sessions :: "session list"
  co_stop_requested :: bool
  co_stopped :: bool
  co_served :: u64
  co_rejected :: u64

definition active_sessions :: "coordinator \<Rightarrow> nat" where
  "active_sessions c = length (filter ses_used (co_sessions c))"

subsection \<open>Replies\<close>

definition queue_frame :: "session \<Rightarrow> message_type \<Rightarrow> u64 \<Rightarrow> json \<Rightarrow> session" where
  "queue_frame s t request_id body =
     (case encode_frame (message_number t) request_id (dump body) of
        Inl c \<Rightarrow> drop_session s
      | Inr bs \<Rightarrow> s\<lparr>ses_outbound := ses_outbound s @ bs\<rparr>)"

definition queue_success :: "coordinator \<Rightarrow> session \<Rightarrow> u64 \<Rightarrow> json \<Rightarrow> coordinator \<times> session" where
  "queue_success c s request_id body =
     (c\<lparr>co_served := co_served c + 1\<rparr>, queue_frame s MsgRetireReplyGeneric request_id body)"

definition error_body :: "code \<Rightarrow> string \<Rightarrow> json" where
  "error_body code message =
     json_sets
       [(''ok'', JBool False), (''code'', JString (code_token code)),
        (''message'', JString (if message = [] then code_description code else message))] JNull"

definition queue_error :: "coordinator \<Rightarrow> session \<Rightarrow> u64 \<Rightarrow> code \<Rightarrow> string \<Rightarrow> coordinator \<times> session" where
  "queue_error c s request_id code message =
     (c\<lparr>co_rejected := co_rejected c + 1\<rparr>, queue_frame s MsgError request_id (error_body code message))"

subsection \<open>Requests\<close>

definition info_fields :: "runtime_info \<Rightarrow> (string \<times> json) list" where
  "info_fields info =
     [(''coordinator'', JString (ri_coordinator info)),
      (''incarnation'', JString (incarnation_str (ri_incarnation info))),
      (''epoch'', json_u64 (ri_epoch info)),
      (''trust_digest'', JString (hex_encode (ri_trust_digest info))),
      (''started_at_millis'', json_u64 (ri_started_at_millis info)),
      (''recovered'', JBool (ri_recovered info)),
      (''recovered_records'', json_count (ri_recovered_records info)),
      (''truncated_bytes'', json_count (ri_truncated_bytes info))]"

definition handle_hello :: "coordinator \<Rightarrow> session \<Rightarrow> u64 \<Rightarrow> coordinator \<times> session" where
  "handle_hello c s request_id =
     (c\<lparr>co_served := co_served c + 1\<rparr>,
      queue_frame s MsgHelloReply request_id (json_sets (info_fields (rt_info (co_runtime c))) JNull))"

definition handle_status :: "coordinator \<Rightarrow> json" where
  "handle_status c =
     (let st = rt_state (co_runtime c) in
      json_sets
        ([(''ok'', JBool True)] @ info_fields (rt_info (co_runtime c)) @
         [(''policy_generation'', json_u64 (rs_policy_generation st)),
          (''contract_floor'', json_u64 (rs_contract_floor st)),
          (''evidence_floor'', json_u64 (rs_evidence_floor st)),
          (''workload_count'', json_count (length (rs_workloads st))),
          (''active_sessions'', json_count (active_sessions c)),
          (''served_requests'', json_u64 (co_served c)),
          (''rejected_requests'', json_u64 (co_rejected c)),
          (''healthy'', JBool (\<not> co_stop_requested c \<and> \<not> co_stopped c))]) JNull)"

text \<open>What the request handlers do to the runtime; the greeting has its own reply.\<close>

definition handle_request ::
    "(bytes \<Rightarrow> bytes \<Rightarrow> bytes \<Rightarrow> bool) \<Rightarrow> coordinator \<Rightarrow> message_type \<Rightarrow> json \<Rightarrow> frame_io \<Rightarrow> json result \<times> runtime" where
  "handle_request ed c handler body fio =
     (let rt = co_runtime c in
      case handler of
        MsgRegisterWorkload \<Rightarrow> handle_contract_submission ed rt body False fio
      | MsgPublishContract \<Rightarrow> handle_contract_submission ed rt body True fio
      | MsgAttachEvidence \<Rightarrow> handle_attach_evidence rt body fio
      | MsgInstallPolicy \<Rightarrow> handle_install_policy rt body fio
      | MsgEvaluate \<Rightarrow> (handle_evaluate rt body fio, rt)
      | MsgStatus \<Rightarrow> (Inr (handle_status c), rt)
      | MsgListWorkloads \<Rightarrow> (Inr (handle_list_workloads rt), rt)
      | MsgDescribeContract \<Rightarrow> (handle_describe_contract rt body, rt)
      | MsgRetireWorkload \<Rightarrow> handle_retire_workload rt body fio
      | _ \<Rightarrow> (Inl kUnknownPayloadSchema, rt))"

definition serve_request ::
    "(bytes \<Rightarrow> bytes \<Rightarrow> bytes \<Rightarrow> bool) \<Rightarrow> coordinator \<Rightarrow> session \<Rightarrow> u64 \<Rightarrow> message_type \<Rightarrow> json \<Rightarrow> frame_io \<Rightarrow>
     coordinator \<times> session" where
  "serve_request ed c s request_id handler body fio =
     (if handler = MsgHello then handle_hello c s request_id
      else
        (let (r, rt) = handle_request ed c handler body fio; c1 = c\<lparr>co_runtime := rt\<rparr> in
         case r of
           Inl code \<Rightarrow> queue_error c1 s request_id code (fio_message fio)
         | Inr reply \<Rightarrow> queue_success c1 s request_id reply))"

text \<open>The request of a frame: its handler and its body, or the code of the refusal.\<close>

definition parse_request :: "wire_frame \<Rightarrow> (message_type \<times> json) result" where
  "parse_request f =
     (let t = hdr_type (wfr_header f) in
      if \<not> defined_message_type t then Inl kUnknownFrameType
      else case json_decode default_decode_options (wfr_body f) of
          Some (Inr (JObject obj)) \<Rightarrow>
            rbind (require_string (JObject obj) ''schema'') (\<lambda>schema.
            rbind (of_option kUnknownPayloadSchema (schema_handler schema)) (\<lambda>handler.
            rbind (rcheck (t = message_number MsgUnknown \<or> t = message_number handler) kUnknownPayloadSchema) (\<lambda>_.
            Inr (handler, JObject obj))))
        | Some (Inr _) \<Rightarrow> Inl kJsonNotAnObject
        | Some (Inl (code, offset)) \<Rightarrow> Inl code
        | None \<Rightarrow> Inl kJsonSyntax)"

definition handle_frame ::
    "(bytes \<Rightarrow> bytes \<Rightarrow> bytes \<Rightarrow> bool) \<Rightarrow> coordinator \<Rightarrow> session \<Rightarrow> wire_frame \<Rightarrow> frame_io \<Rightarrow> coordinator \<times> session" where
  "handle_frame ed c s f fio =
     (let request_id = hdr_request_id (wfr_header f) in
      case parse_request f of
        Inl code \<Rightarrow> queue_error c s request_id code (fio_message fio)
      | Inr (handler, body) \<Rightarrow> serve_request ed c s request_id handler body fio)"

subsection \<open>Pumping a session\<close>

text \<open>
  The frames that are already buffered, at most \<^verbatim>\<open>left\<close> of them: the number that may still be
  served in this pass is returned.
\<close>

fun serve_buffered ::
    "(bytes \<Rightarrow> bytes \<Rightarrow> bytes \<Rightarrow> bool) \<Rightarrow> nat \<Rightarrow> departure list \<Rightarrow> coordinator \<Rightarrow> session \<Rightarrow> world \<Rightarrow>
     nat \<times> departure list \<times> coordinator \<times> session \<times> world" where
  "serve_buffered ed 0 ds c s w = (0, ds, c, s, w)"
| "serve_buffered ed (Suc left) ds c s w =
     (if pending_output s \<or> length (ses_inbound s) < kHeaderBytes then (Suc left, ds, c, s, w)
      else case decode_frame (ses_inbound s) of
        Inl code \<Rightarrow>
          if code = kTruncatedFrame then (Suc left, ds, c, s, w)
          else (Suc left, ds, c\<lparr>co_rejected := co_rejected c + 1\<rparr>, drop_session s, w)
      | Inr (f, consumed) \<Rightarrow>
          (let (now, w1) = tick w; (fio, w2) = next_input w1;
               (c1, s1) = handle_frame ed c
                  (s\<lparr>ses_inbound := drop consumed (ses_inbound s), ses_last_activity_millis := now\<rparr>) f fio
           in if \<not> ses_used s1 then (Suc left, ds, c1, s1, w2)
              else
                (let (s2, ds2, w3) = flush ds s1 w2 in
                 if \<not> ses_used s2 then (Suc left, ds2, c1, s2, w3)
                 else serve_buffered ed left ds2 c1 s2 w3)))"

declare serve_buffered.simps(2) [simp del]

text \<open>
  The results of waiting for a session and receiving from it: the wait expired or failed, the
  socket would block, or the call returned. No further result is a wait that expires.
\<close>

datatype poll = PollExpired | PollFailed | PollBlocked | Polled arrival

fun poll_size :: "poll \<Rightarrow> nat" where
  "poll_size (Polled (Arrived bs)) = Suc (length bs)"
| "poll_size p = 1"

function pump_loop ::
    "(bytes \<Rightarrow> bytes \<Rightarrow> bytes \<Rightarrow> bool) \<Rightarrow> nat \<Rightarrow> poll list \<Rightarrow> departure list \<Rightarrow> coordinator \<Rightarrow> session \<Rightarrow> world \<Rightarrow>
     coordinator \<times> session \<times> world" where
  "pump_loop ed left polls ds c s w =
     (let (left1, ds1, c1, s1, w1) = serve_buffered ed left ds c s w in
      if \<not> ses_used s1 then (c1, s1, w1)
      else if pending_output s1 \<or> left1 = 0 then (c1, s1\<lparr>ses_ready := True\<rparr>, w1)
      else if length (ses_inbound s1) > kMaxFrameBytes then (c1, drop_session s1, w1)
      else case polls of
        [] \<Rightarrow> (c1, s1, w1)
      | PollExpired # rest \<Rightarrow> (c1, s1, w1)
      | PollFailed # rest \<Rightarrow> (c1, drop_session s1, w1)
      | PollBlocked # rest \<Rightarrow> (c1, s1, w1)
      | Polled (Arrived bs) # rest \<Rightarrow>
          if bs = [] then (c1, drop_session s1, w1)
          else
            (let (now, w2) = tick w1;
                 later = (if length bs > kReceiveChunkBytes
                          then Polled (Arrived (drop kReceiveChunkBytes bs)) # rest else rest)
             in pump_loop ed left1 later ds1 c1
                  (s1\<lparr>ses_inbound := ses_inbound s1 @ take kReceiveChunkBytes bs,
                      ses_last_activity_millis := now\<rparr>) w2)
      | Polled _ # rest \<Rightarrow> (c1, drop_session s1, w1))"
  by pat_completeness auto
termination
  by (relation "measure (\<lambda>(ed, left, polls, ds, c, s, w). sum_list (map poll_size polls))")
    (auto simp: kReceiveChunkBytes_def split: if_splits)

declare pump_loop.simps [simp del]

record network =
  net_polls :: "poll list"
  net_departures :: "departure list"

definition pump ::
    "(bytes \<Rightarrow> bytes \<Rightarrow> bytes \<Rightarrow> bool) \<Rightarrow> network \<Rightarrow> coordinator \<Rightarrow> session \<Rightarrow> world \<Rightarrow> coordinator \<times> session \<times> world" where
  "pump ed net c s w =
     (let (s1, ds, w1) = flush (net_departures net) (s\<lparr>ses_ready := False\<rparr>) w in
      if \<not> ses_used s1 then (c, s1, w1)
      else if pending_output s1 then (c, s1\<lparr>ses_ready := True\<rparr>, w1)
      else pump_loop ed kFramesPerPass (net_polls net) ds c s1 w1)"

definition pump_at ::
    "(bytes \<Rightarrow> bytes \<Rightarrow> bytes \<Rightarrow> bool) \<Rightarrow> (nat \<Rightarrow> network) \<Rightarrow> nat \<Rightarrow> coordinator \<times> world \<Rightarrow> coordinator \<times> world" where
  "pump_at ed nets k cw =
     (let (c, w) = cw in
      if \<not> ses_used (co_sessions c ! k) then (c, w)
      else
        (let (c1, s, w1) = pump ed (nets k) c (co_sessions c ! k) w
         in (c1\<lparr>co_sessions := (co_sessions c1)[k := s]\<rparr>, w1)))"

definition serve_sessions ::
    "(bytes \<Rightarrow> bytes \<Rightarrow> bytes \<Rightarrow> bool) \<Rightarrow> (nat \<Rightarrow> network) \<Rightarrow> coordinator \<times> world \<Rightarrow> coordinator \<times> world" where
  "serve_sessions ed nets cw = fold (pump_at ed nets) [0..<length (co_sessions (fst cw))] cw"

subsection \<open>Passes\<close>

fun first_unused :: "session list \<Rightarrow> nat \<Rightarrow> nat option" where
  "first_unused [] k = None"
| "first_unused (s # ss) k = (if \<not> ses_used s then Some k else first_unused ss (Suc k))"

definition free_slot :: "coordinator \<Rightarrow> (nat \<times> session list) option" where
  "free_slot c =
     (case first_unused (co_sessions c) 0 of
        Some k \<Rightarrow> Some (k, co_sessions c)
      | None \<Rightarrow>
          if length (co_sessions c) \<ge> copt_max_sessions (co_options c) then None
          else Some (length (co_sessions c), co_sessions c @ [new_session]))"

definition accepted_session :: "u64 \<Rightarrow> session" where
  "accepted_session now = new_session\<lparr>ses_used := True, ses_last_activity_millis := now\<rparr>"

record accept_io =
  acc_ready :: readiness
  acc_accepted :: bool
  acc_non_blocking :: bool

definition accept_pending :: "accept_io \<Rightarrow> coordinator \<times> world \<Rightarrow> coordinator \<times> world" where
  "accept_pending aio cw =
     (let (c, w) = cw; refuse = c\<lparr>co_rejected := co_rejected c + 1\<rparr> in
      if \<not> co_listener c \<or> co_stop_requested c then (c, w)
      else case accept_one (acc_ready aio) (acc_accepted aio) of
        Inl _ \<Rightarrow> (c, w)
      | Inr _ \<Rightarrow>
          if active_sessions c \<ge> copt_max_sessions (co_options c) then (refuse, w)
          else if \<not> acc_non_blocking aio then (refuse, w)
          else (case free_slot c of
              None \<Rightarrow> (refuse, w)
            | Some (k, ss) \<Rightarrow>
                (let (now, w1) = tick w in (c\<lparr>co_sessions := ss[k := accepted_session now]\<rparr>, w1))))"

definition reap_idle :: "u64 \<Rightarrow> coordinator \<Rightarrow> coordinator" where
  "reap_idle now c =
     (let idle = copt_idle_timeout_millis (co_options c) in
      if idle = 0 then c
      else c\<lparr>co_sessions := map (\<lambda>s.
          if ses_used s \<and> now - ses_last_activity_millis s > idle then drop_session s else s) (co_sessions c)\<rparr>)"

text \<open>The waits of a pass bound its duration and change nothing.\<close>

definition run_pass ::
    "(bytes \<Rightarrow> bytes \<Rightarrow> bytes \<Rightarrow> bool) \<Rightarrow> accept_io \<Rightarrow> (nat \<Rightarrow> network) \<Rightarrow> coordinator \<times> world \<Rightarrow> coordinator \<times> world" where
  "run_pass ed aio nets cw =
     (if co_stop_requested (fst cw) \<or> co_stopped (fst cw) then cw
      else
        (let (c, w) = serve_sessions ed nets (accept_pending aio cw); (now, w1) = tick w
         in (reap_idle now c, w1)))"

subsection \<open>Start and shutdown\<close>

definition coordinator_start ::
    "coordinator_options \<Rightarrow> runtime_options \<Rightarrow> open_io \<Rightarrow> u64 \<Rightarrow> unit result \<Rightarrow> coordinator result \<times> directory option" where
  "coordinator_start options ropts io now listening =
     (let max_s = (if copt_max_sessions options = 0 then kMaxSessions else copt_max_sessions options);
          ropts1 = (if copt_evidence_max_age_millis options \<noteq> 0
            then ropts\<lparr>opt_evidence_max_age_millis := copt_evidence_max_age_millis options\<rparr> else ropts);
          (opened, d) = runtime_open ropts1 io now
      in (rbind opened (\<lambda>rt.
          rbind listening (\<lambda>_.
          Inr \<lparr>co_options = options\<lparr>copt_max_sessions := max_s\<rparr>, co_runtime = rt, co_listener = True,
               co_sessions = replicate (min max_s kMaxSessions) new_session,
               co_stop_requested = False, co_stopped = False, co_served = 0, co_rejected = 0\<rparr>)), d))"

definition request_stop :: "coordinator \<Rightarrow> coordinator" where
  "request_stop c = c\<lparr>co_stop_requested := True\<rparr>"

text \<open>
  Draining a session at shutdown: while it has output and the drain window is open, each step
  waits for writability and flushes. The steps are those before the deadline. What the drained
  sessions hold when they are closed is returned with the stopped coordinator.
\<close>

fun drain :: "departure list option list \<Rightarrow> session \<Rightarrow> world \<Rightarrow> session \<times> world" where
  "drain [] s w = (s, w)"
| "drain (writable # steps) s w =
     (if ses_used s \<and> pending_output s then
        (case writable of
           None \<Rightarrow> drain steps s w
         | Some ds \<Rightarrow> (let (s1, rest, w1) = flush ds s w in drain steps s1 w1))
      else (s, w))"

definition shutdown ::
    "(nat \<Rightarrow> departure list option list) \<Rightarrow> coordinator \<times> world \<Rightarrow> coordinator \<times> session list" where
  "shutdown drains cw =
     (let (c, w) = cw in
      (c\<lparr>co_stop_requested := True, co_listener := False, co_sessions := [], co_stopped := True\<rparr>,
       map (\<lambda>(k, s). fst (drain (drains k) s w)) (enumerate 0 (co_sessions c))))"

end
