(* ===== verification/Wnc_Service.thy ===== *)
theory Wnc_Service
  imports Wnc_Coordinator
begin

text \<open>
  What the service promises: every request has one reply, no success is sent before its record is
  durable, pipelined requests are served in order, buffers and sessions are bounded and the histories
  stay chains in every state that a coordinator can reach (\<open>coordinator_run\<close>), and a pass loses no
  acknowledgement while no append leaves part of a frame. At the end, what the next boot makes of
  the record of attached evidence.
\<close>

section \<open>Requests reach the runtime\<close>

text \<open>The request to the runtime that a body stands for; reading requests have none.\<close>

definition document_of :: "json \<Rightarrow> string \<Rightarrow> (json \<Rightarrow> 'a result) \<Rightarrow> 'a option" where
  "document_of body field from_json =
     (case json_find body field of
        None \<Rightarrow> None
      | Some document \<Rightarrow> (case from_json document of Inl _ \<Rightarrow> None | Inr x \<Rightarrow> Some x))"

definition request_of :: "message_type \<Rightarrow> json \<Rightarrow> request option" where
  "request_of handler body =
     (case handler of
        MsgRegisterWorkload \<Rightarrow> map_option Register (document_of body ''contract'' contract_from_json)
      | MsgPublishContract \<Rightarrow> map_option Publish (document_of body ''contract'' contract_from_json)
      | MsgAttachEvidence \<Rightarrow>
          map_option Attach (document_of body ''evidence'' (evidence_from_json \<circ> normalize_evidence_document))
      | MsgInstallPolicy \<Rightarrow> map_option Install (document_of body ''policy'' policy_from_json)
      | MsgRetireWorkload \<Rightarrow> (case read_workload_id body of Inl _ \<Rightarrow> None | Inr i \<Rightarrow> Some (Retire i))
      | _ \<Rightarrow> None)"

lemma reply_members:
  "json_find (contract_reply c n) ''sequence'' = Some (json_u64 n)"
  "json_find (evidence_reply rt es n) ''sequence'' = Some (json_u64 n)"
  "json_find (policy_reply p n) ''sequence'' = Some (json_u64 n)"
  "json_find (retire_reply i n) ''sequence'' = Some (json_u64 n)"
  by (simp_all add: json_find_def contract_reply_def evidence_reply_def policy_reply_def retire_reply_def
      map_of_json_sets)

lemma handle_request_acknowledges:
  assumes "request_of handler body = Some req"
  obtains reply where
    "handle_request ed c handler body fio =
       acknowledge (perform ed (co_runtime c) req (fio_clock fio) (fio_append fio)) reply"
    "\<And>n. json_find (reply n) ''sequence'' = Some (json_u64 n)"
proof -
  have "\<exists>reply. handle_request ed c handler body fio =
       acknowledge (perform ed (co_runtime c) req (fio_clock fio) (fio_append fio)) reply \<and>
      (\<forall>n. json_find (reply n) ''sequence'' = Some (json_u64 n))"
    using assms reply_members
    by (cases handler)
      (auto simp: request_of_def document_of_def handle_request_def handle_contract_submission_def
        handle_attach_evidence_def handle_install_policy_def handle_retire_workload_def Let_def
        split: option.splits sum.splits)
  with that show ?thesis by blast
qed

lemma acknowledge_simps [simp]:
  "acknowledge (Inl e, rt) reply = (Inl e, rt)" "acknowledge (Inr n, rt) reply = (Inr (reply n), rt)"
  by (simp_all add: acknowledge_def)

lemma snd_acknowledge [simp]: "snd (acknowledge p reply) = snd p"
  by (simp add: acknowledge_def split: prod.split sum.split)

lemma handle_request_reads:
  assumes "request_of handler body = None"
  shows "snd (handle_request ed c handler body fio) = co_runtime c"
  using assms
  by (cases handler)
    (auto simp: request_of_def document_of_def handle_request_def handle_contract_submission_def
      handle_attach_evidence_def handle_install_policy_def handle_retire_workload_def Let_def
      split: option.splits sum.splits)

section \<open>Every request has one reply\<close>

definition answered :: "session \<Rightarrow> u64 \<Rightarrow> coordinator \<Rightarrow> coordinator \<times> session \<Rightarrow> bool" where
  "answered s request_id c cs' \<longleftrightarrow>
     (\<exists>t body. snd cs' = queue_frame s t request_id body \<and>
        (t = MsgError \<and> co_rejected (fst cs') = co_rejected c + 1 \<and> co_served (fst cs') = co_served c \<or>
         t \<in> {MsgHelloReply, MsgRetireReplyGeneric} \<and> co_served (fst cs') = co_served c + 1 \<and>
         co_rejected (fst cs') = co_rejected c))"

lemma queue_answered:
  "answered s i c (queue_error (c\<lparr>co_runtime := rt\<rparr>) s i code message)"
  "answered s i c (queue_error c s i code message)"
  "answered s i c (queue_success (c\<lparr>co_runtime := rt\<rparr>) s i body)"
  "answered s i c (handle_hello c s i)"
  unfolding answered_def by (auto simp: queue_error_def queue_success_def handle_hello_def)

lemma handle_frame_answered: "answered s (hdr_request_id (wfr_header f)) c (handle_frame ed c s f fio)"
  unfolding handle_frame_def serve_request_def
  by (auto simp: Let_def queue_answered split: sum.split prod.split)

lemma handle_frame_same:
  "co_sessions (fst (handle_frame ed c s f fio)) = co_sessions c"
  "co_options (fst (handle_frame ed c s f fio)) = co_options c"
  "co_stopped (fst (handle_frame ed c s f fio)) = co_stopped c"
  "co_stop_requested (fst (handle_frame ed c s f fio)) = co_stop_requested c"
  "co_listener (fst (handle_frame ed c s f fio)) = co_listener c"
  by (auto simp: handle_frame_def serve_request_def Let_def queue_error_def queue_success_def handle_hello_def
      split: sum.split prod.split)

lemma handle_frame_runtime:
  "co_runtime (fst (handle_frame ed c s f fio)) =
     (case parse_request f of
        Inr (handler, body) \<Rightarrow>
          (case request_of handler body of
             Some req \<Rightarrow> snd (perform ed (co_runtime c) req (fio_clock fio) (fio_append fio))
           | None \<Rightarrow> co_runtime c)
      | Inl _ \<Rightarrow> co_runtime c)"
proof (cases "parse_request f")
  case (Inr hb)
  obtain handler body where hb: "hb = (handler, body)" by (cases hb)
  have rt: "co_runtime (fst (serve_request ed c s i handler body fio)) =
      (if handler = MsgHello then co_runtime c else snd (handle_request ed c handler body fio))" for i
    by (auto simp: serve_request_def queue_error_def queue_success_def handle_hello_def Let_def
        split: sum.split prod.split)
  show ?thesis
  proof (cases "request_of handler body")
    case None
    then show ?thesis
      using handle_request_reads [OF None, of ed c fio] by (simp add: handle_frame_def Let_def Inr hb rt)
  next
    case (Some req)
    then have "handler \<noteq> MsgHello" by (auto simp: request_of_def)
    moreover obtain reply where "handle_request ed c handler body fio =
        acknowledge (perform ed (co_runtime c) req (fio_clock fio) (fio_append fio)) reply"
      using Some by (rule handle_request_acknowledges)
    ultimately show ?thesis using Some by (simp add: handle_frame_def Let_def Inr hb rt)
  qed
qed (simp add: handle_frame_def queue_error_def Let_def)

section \<open>What serving keeps\<close>

text \<open>
  A later runtime. With the flag \<open>clean\<close> no append that failed on the way left a part of a frame.
\<close>

definition continues_run :: "(bytes \<Rightarrow> bytes \<Rightarrow> bytes \<Rightarrow> bool) \<Rightarrow> bool \<Rightarrow> runtime \<Rightarrow> runtime \<Rightarrow> bool" where
  "continues_run ed clean rt rt' \<longleftrightarrow> (\<exists>later. runtime_steps ed clean rt later rt')"

lemma continues_refl [simp, intro]: "continues_run ed clean rt rt"
  by (auto simp: continues_run_def intro: steps_none)

lemma continues_trans [trans]:
  "continues_run ed clean a b \<Longrightarrow> continues_run ed clean b c \<Longrightarrow> continues_run ed clean a c"
  unfolding continues_run_def by (metis steps_trans)

lemma perform_continues:
  assumes "clean \<longrightarrow> clean_io io"
  shows "continues_run ed clean rt (snd (perform ed rt req clock io))"
proof -
  obtain r rt' where p: "perform ed rt req clock io = (r, rt')" by (cases "perform ed rt req clock io")
  have "continues_run ed clean rt rt'"
    using steps_done [OF steps_none, of ed rt req clock io] steps_refused [OF steps_none, of ed rt req clock io] p assms
    unfolding continues_run_def by (cases r) blast+
  with p show ?thesis by simp
qed

definition keeps :: "(bytes \<Rightarrow> bytes \<Rightarrow> bytes \<Rightarrow> bool) \<Rightarrow> bool \<Rightarrow> coordinator \<Rightarrow> coordinator \<Rightarrow> bool" where
  "keeps ed clean c c' \<longleftrightarrow>
     co_options c' = co_options c \<and> co_sessions c' = co_sessions c \<and> co_listener c' = co_listener c \<and>
     co_stop_requested c' = co_stop_requested c \<and> co_stopped c' = co_stopped c \<and>
     continues_run ed clean (co_runtime c) (co_runtime c')"

lemma keeps_refl [simp, intro]: "keeps ed clean c c"
  by (simp add: keeps_def)

lemma keeps_trans [trans]: "keeps ed clean a b \<Longrightarrow> keeps ed clean b c \<Longrightarrow> keeps ed clean a c"
  unfolding keeps_def by (metis continues_trans)

lemma keeps_rejected [simp]: "keeps ed clean c (c\<lparr>co_rejected := n\<rparr>)"
  by (simp add: keeps_def)

lemma handle_frame_keeps:
  "clean \<longrightarrow> clean_io (fio_append fio) \<Longrightarrow> handle_frame ed c s f fio = (c', s') \<Longrightarrow> keeps ed clean c c'"
  using handle_frame_same [of ed c s f fio] handle_frame_runtime [of ed c s f fio]
  by (auto simp: keeps_def perform_continues split: sum.splits option.splits)

section \<open>Session bounds\<close>

definition idle_output :: "session \<Rightarrow> bool" where
  "idle_output s \<longleftrightarrow> ses_outbound s = [] \<and> ses_out_offset s = 0"

definition output_ok :: "session \<Rightarrow> bool" where
  "output_ok s \<longleftrightarrow> (pending_output s \<or> idle_output s) \<and> length (ses_outbound s) \<le> kMaxFrameBytes"

definition session_ok :: "session \<Rightarrow> bool" where
  "session_ok s \<longleftrightarrow>
     output_ok s \<and> length (ses_inbound s) \<le> kMaxFrameBytes + kReceiveChunkBytes \<and>
     (\<not> ses_used s \<longrightarrow> ses_inbound s = [] \<and> idle_output s)"

lemma session_ok_simps [simp]:
  "session_ok (drop_session s)" "session_ok new_session" "session_ok (accepted_session now)"
  "\<not> ses_used (drop_session s)"
  by (simp_all add: session_ok_def output_ok_def idle_output_def drop_session_def new_session_def accepted_session_def)

lemma output_ok_fields [simp]:
  "output_ok (s\<lparr>ses_ready := r\<rparr>) = output_ok s" "output_ok (s\<lparr>ses_last_activity_millis := t\<rparr>) = output_ok s"
  "output_ok (s\<lparr>ses_inbound := i\<rparr>) = output_ok s" "session_ok (s\<lparr>ses_ready := r\<rparr>) = session_ok s"
  "pending_output (s\<lparr>ses_ready := r\<rparr>) = pending_output s"
  "pending_output (s\<lparr>ses_last_activity_millis := t\<rparr>) = pending_output s"
  "pending_output (s\<lparr>ses_inbound := i\<rparr>) = pending_output s"
  by (simp_all add: output_ok_def pending_output_def idle_output_def session_ok_def)

lemma send_slice_bound: "pending_output s \<Longrightarrow> ses_out_offset s + send_slice s n \<le> length (ses_outbound s)"
  by (simp add: send_slice_def pending_output_def)

text \<open>Flushing keeps the inbound bytes of a session that it does not drop.\<close>

lemma flush_ok:
  assumes "flush ds s w = (s', ds', w')"
    "ses_out_offset s \<le> length (ses_outbound s)" "length (ses_outbound s) \<le> kMaxFrameBytes"
  shows "w_inputs w' = w_inputs w \<and>
    (s' = drop_session s' \<or> ses_inbound s' = ses_inbound s \<and> ses_used s' = ses_used s \<and> output_ok s')"
  using assms
proof (induction ds s w rule: flush.induct)
  case (1 ds s w)
  show ?case
  proof (cases "pending_output s")
    case False
    then have "s' = s\<lparr>ses_outbound := [], ses_out_offset := 0\<rparr>" "w' = w"
      using "1.prems"(1) by (simp_all add: flush.simps)
    then show ?thesis by (simp add: output_ok_def idle_output_def)
  next
    case True
    show ?thesis
    proof (cases ds)
      case Nil
      then show ?thesis using True "1.prems" by (auto simp: flush.simps output_ok_def pending_output_def)
    next
      case (Cons d rest)
      show ?thesis
      proof (cases d)
        case (Sent n)
        obtain now w1 where t: "tick w = (now, w1)" by (cases "tick w")
        let ?s = "s\<lparr>ses_out_offset := ses_out_offset s + send_slice s n, ses_last_activity_millis := now\<rparr>"
        have "flush rest ?s w1 = (s', ds', w')"
          using "1.prems"(1) True Cons Sent t by (simp add: flush.simps [of "Sent n # rest"])
        moreover have "w_inputs w1 = w_inputs w" using t by (auto simp: tick_def)
        ultimately show ?thesis
          using "1.IH" [of d rest n "(now, w1)" now w1] True Cons Sent t send_slice_bound [OF True, of n] "1.prems"(3)
          by auto
      next
        case SendBlocked
        then show ?thesis using True Cons "1.prems" by (auto simp: flush.simps [of "SendBlocked # rest"] output_ok_def pending_output_def)
      next
        case SendFailed
        then show ?thesis using True Cons "1.prems" by (auto simp: flush.simps [of "SendFailed # rest"] drop_session_def)
      qed
    qed
  qed
qed

lemma output_ok_bounds:
  "output_ok s \<Longrightarrow> ses_out_offset s \<le> length (ses_outbound s) \<and> length (ses_outbound s) \<le> kMaxFrameBytes"
  by (auto simp: output_ok_def pending_output_def idle_output_def)

lemma flush_session_ok:
  assumes "flush ds s w = (s', ds', w')" "session_ok s" "ses_used s"
  shows "session_ok s' \<and> w_inputs w' = w_inputs w \<and> (ses_used s' \<longrightarrow> ses_inbound s' = ses_inbound s)"
proof -
  have "w_inputs w' = w_inputs w \<and>
      (s' = drop_session s' \<or> ses_inbound s' = ses_inbound s \<and> ses_used s' = ses_used s \<and> output_ok s')"
    using flush_ok [OF assms(1)] output_ok_bounds assms(2) by (auto simp: session_ok_def)
  then show ?thesis using assms(2,3) session_ok_simps(1,4) by (metis session_ok_def)
qed

lemma queue_frame_ok:
  assumes "session_ok s" "\<not> pending_output s" "ses_used s"
  shows "session_ok (queue_frame s t i body)"
    and "ses_used (queue_frame s t i body) \<Longrightarrow> ses_used s \<and> ses_inbound (queue_frame s t i body) = ses_inbound s"
proof -
  have idle: "idle_output s" using assms by (simp add: session_ok_def output_ok_def)
  show "session_ok (queue_frame s t i body)"
  proof (cases "encode_frame (message_number t) i (dump body)")
    case (Inr bs)
    then have "0 < length bs" "length bs \<le> kMaxFrameBytes"
      by (auto simp: encode_frame_ok kMaxFrameBytes_def kHeaderBytes_def)
    then show ?thesis
      using assms(1,3) idle Inr
      by (auto simp: queue_frame_def session_ok_def output_ok_def pending_output_def idle_output_def)
  qed (simp add: queue_frame_def)
  show "ses_used (queue_frame s t i body) \<Longrightarrow> ses_used s \<and> ses_inbound (queue_frame s t i body) = ses_inbound s"
    by (auto simp: queue_frame_def split: sum.splits)
qed


lemma handle_frame_ok:
  assumes "session_ok s" "\<not> pending_output s" "ses_used s" "handle_frame ed c s f fio = (c', s')"
  shows "session_ok s'" "ses_used s' \<Longrightarrow> ses_inbound s' = ses_inbound s"
proof -
  obtain t body where "s' = queue_frame s t (hdr_request_id (wfr_header f)) body"
    using handle_frame_answered [of s f c ed fio] assms(4) by (auto simp: answered_def)
  then show "session_ok s'" "ses_used s' \<Longrightarrow> ses_inbound s' = ses_inbound s"
    using queue_frame_ok [OF assms(1-3)] by auto
qed

definition clean_world :: "world \<Rightarrow> bool" where
  "clean_world w \<longleftrightarrow> (\<forall>n. clean_io (fio_append (w_inputs w n)))"

lemma world_simps:
  "tick w = (now, w') \<Longrightarrow> w_inputs w' = w_inputs w"
  "next_input w = (fio, w') \<Longrightarrow> w_inputs w' = w_inputs w"
  by (auto simp: tick_def next_input_def)

lemma next_input_clean:
  "next_input w = (fio, w') \<Longrightarrow> clean \<longrightarrow> clean_world w \<Longrightarrow> clean \<longrightarrow> clean_io (fio_append fio)"
  by (auto simp: next_input_def clean_world_def)

lemma clean_world_cong: "w_inputs w' = w_inputs w \<Longrightarrow> clean_world w' = clean_world w"
  by (simp add: clean_world_def)

text \<open>Serving stops before the bytes of a frame that is not complete, which are fewer than a frame.\<close>

lemma truncated_bound:
  "length bs < kHeaderBytes \<or> decode_frame bs = Inl kTruncatedFrame \<Longrightarrow> length bs < kMaxFrameBytes"
proof -
  assume "length bs < kHeaderBytes \<or> decode_frame bs = Inl kTruncatedFrame"
  moreover have "read_header bs \<noteq> Inl kTruncatedFrame" by (auto simp: read_header_def)
  ultimately show ?thesis
    by (auto simp: decode_frame_def Let_def kHeaderBytes_def kMaxFrameBytes_def rbind_def
      dest: read_header_bound split: if_splits sum.splits)
qed

lemma serve_buffered_stop:
  assumes "serve_buffered ed (Suc left) ds c s w = (left', ds', c', s', w')"
    "pending_output s \<or> length (ses_inbound s) < kHeaderBytes \<or> decode_frame (ses_inbound s) = Inl kTruncatedFrame"
  shows "s' = s \<and> c' = c \<and> w' = w"
  using assms by (simp add: serve_buffered.simps(2) split: if_splits)

lemma serve_buffered_bad:
  assumes "serve_buffered ed (Suc left) ds c s w = (left', ds', c', s', w')"
    "\<not> pending_output s" "\<not> length (ses_inbound s) < kHeaderBytes" "decode_frame (ses_inbound s) = Inl code"
    "code \<noteq> kTruncatedFrame"
  shows "s' = drop_session s \<and> c' = c\<lparr>co_rejected := co_rejected c + 1\<rparr> \<and> w' = w"
  using assms by (simp add: serve_buffered.simps(2))

lemma serve_buffered_frame:
  assumes "\<not> pending_output s" "\<not> length (ses_inbound s) < kHeaderBytes"
    "decode_frame (ses_inbound s) = Inr (f, consumed)" "tick w = (now, w1)" "next_input w1 = (fio, w2)"
    "handle_frame ed c (s\<lparr>ses_inbound := drop consumed (ses_inbound s), ses_last_activity_millis := now\<rparr>) f fio = (c1, s1)"
    "flush ds s1 w2 = (s2, ds2, w3)"
  shows "serve_buffered ed (Suc left) ds c s w =
     (if \<not> ses_used s1 then (Suc left, ds, c1, s1, w2)
      else if \<not> ses_used s2 then (Suc left, ds2, c1, s2, w3)
      else serve_buffered ed left ds2 c1 s2 w3)"
  using assms by (simp add: serve_buffered.simps(2))

lemma serve_buffered_ok:
  assumes "serve_buffered ed left ds c s w = (left', ds', c', s', w')"
    "clean \<longrightarrow> clean_world w" "session_ok s" "ses_used s"
  shows "keeps ed clean c c' \<and> w_inputs w' = w_inputs w \<and> session_ok s' \<and>
    (ses_used s' \<and> \<not> pending_output s' \<and> left' \<noteq> 0 \<longrightarrow> length (ses_inbound s') < kMaxFrameBytes)"
  using assms
proof (induction left arbitrary: ds c s w)
  case (Suc left)
  show ?case
  proof (cases "pending_output s \<or> length (ses_inbound s) < kHeaderBytes \<or> decode_frame (ses_inbound s) = Inl kTruncatedFrame")
    case True
    then show ?thesis
      using serve_buffered_stop [OF Suc.prems(1) True] Suc.prems(3) truncated_bound [of "ses_inbound s"] by auto
  next
    case False
    then have go: "\<not> pending_output s" "\<not> length (ses_inbound s) < kHeaderBytes" by auto
    show ?thesis
    proof (cases "decode_frame (ses_inbound s)")
      case (Inl code)
      with False have "code \<noteq> kTruncatedFrame" by auto
      from serve_buffered_bad [OF Suc.prems(1) go Inl this] show ?thesis by simp
    next
      case (Inr fn)
      obtain f consumed where fn: "fn = (f, consumed)" by (cases fn)
      obtain now w1 where t: "tick w = (now, w1)" by (cases "tick w")
      obtain fio w2 where i: "next_input w1 = (fio, w2)" by (cases "next_input w1")
      let ?s = "s\<lparr>ses_inbound := drop consumed (ses_inbound s), ses_last_activity_millis := now\<rparr>"
      obtain c1 s1 where h: "handle_frame ed c ?s f fio = (c1, s1)" by (cases "handle_frame ed c ?s f fio")
      obtain s2 ds2 w3 where fl: "flush ds s1 w2 = (s2, ds2, w3)" by (cases "flush ds s1 w2") 
      note eq = serve_buffered_frame [OF go Inr [unfolded fn] t i h fl, of left]
      have w: "clean \<longrightarrow> clean_world w1" "w_inputs w2 = w_inputs w"
        using Suc.prems(2) world_simps(1) [OF t] world_simps(2) [OF i] clean_world_cong by metis+
      have "session_ok ?s" using Suc.prems(3,4) by (auto simp: session_ok_def)
      then have s1: "session_ok s1" using handle_frame_ok(1) [OF _ _ _ h] go Suc.prems(4) by simp
      have k: "keeps ed clean c c1" by (rule handle_frame_keeps [OF next_input_clean [OF i w(1)] h])
      note res = Suc.prems(1) [unfolded eq]
      show ?thesis
      proof (cases "ses_used s1")
        case False
        then have "c' = c1" "s' = s1" "w' = w2" using res by simp_all
        then show ?thesis using k w(2) s1 False by simp
      next
        case True
        note f = flush_session_ok [OF fl s1 True]
        show ?thesis
        proof (cases "ses_used s2")
          case False
          then have "c' = c1" "s' = s2" "w' = w3" using res True by simp_all
          then show ?thesis using k w(2) f False by simp
        next
          case used: True
          then have rec: "serve_buffered ed left ds2 c1 s2 w3 = (left', ds', c', s', w')"
            using res True by simp
          have "clean \<longrightarrow> clean_world w3" using f w(2) Suc.prems(2) clean_world_cong by metis
          from Suc.IH [OF rec this _ used] show ?thesis using f w(2) keeps_trans [OF k] by simp
        qed
      qed
    qed
  qed
qed simp

section \<open>Every state of the service\<close>

lemma pump_loop_ok:
  assumes "pump_loop ed left polls ds c s w = (c', s', w')" "clean \<longrightarrow> clean_world w" "session_ok s" "ses_used s"
  shows "keeps ed clean c c' \<and> w_inputs w' = w_inputs w \<and> session_ok s'"
  using assms
proof (induction "sum_list (map poll_size polls)" arbitrary: left polls ds c s w rule: less_induct)
  case less
  obtain left1 ds1 c1 s1 w1 where b: "serve_buffered ed left ds c s w = (left1, ds1, c1, s1, w1)"
    by (metis prod_cases5)
  note ok = serve_buffered_ok [OF b less.prems(2-4)]
  note step = less.prems(1) [unfolded pump_loop.simps [of ed left polls], unfolded b Let_def prod.case]
  show ?case
  proof (cases "\<not> ses_used s1 \<or> pending_output s1 \<or> left1 = 0 \<or> length (ses_inbound s1) > kMaxFrameBytes \<or>
      (\<forall>bs rest. polls \<noteq> Polled (Arrived bs) # rest \<or> bs = [])")
    case True
    then have "c' = c1 \<and> w' = w1 \<and> (s' = s1 \<or> s' = s1\<lparr>ses_ready := True\<rparr> \<or> s' = drop_session s1)"
      using step by (auto split: if_splits list.splits poll.splits arrival.splits)
    then show ?thesis using ok by auto
  next
    case False
    then obtain bs rest where go: "ses_used s1" "\<not> pending_output s1" "left1 \<noteq> 0" "\<not> length (ses_inbound s1) > kMaxFrameBytes"
      "polls = Polled (Arrived bs) # rest" "bs \<noteq> []" by auto
    obtain now w2 where t: "tick w1 = (now, w2)" by (cases "tick w1")
    define later where "later = (if length bs > kReceiveChunkBytes
      then Polled (Arrived (drop kReceiveChunkBytes bs)) # rest else rest)"
    let ?s = "s1\<lparr>ses_inbound := ses_inbound s1 @ take kReceiveChunkBytes bs, ses_last_activity_millis := now\<rparr>"
    have rec: "pump_loop ed left1 later ds1 c1 ?s w2 = (c', s', w')"
      using step go t by (simp add: later_def)
    have w: "w_inputs w2 = w_inputs w" using ok world_simps(1) [OF t] by simp
    then have "clean \<longrightarrow> clean_world w2" using less.prems(2) clean_world_cong by metis
    moreover have shorter: "sum_list (map poll_size later) < sum_list (map poll_size polls)"
      using go(5,6) by (auto simp: later_def kReceiveChunkBytes_def)
    moreover have "session_ok ?s" using ok go by (auto simp: session_ok_def)
    ultimately have "keeps ed clean c1 c' \<and> w_inputs w' = w_inputs w2 \<and> session_ok s'"
      using less.hyps [OF shorter rec] go(1) by simp
    then show ?thesis using ok w keeps_trans by metis
  qed
qed

lemma pump_ok:
  assumes "pump ed net c s w = (c', s', w')" "clean \<longrightarrow> clean_world w" "session_ok s" "ses_used s"
  shows "keeps ed clean c c' \<and> w_inputs w' = w_inputs w \<and> session_ok s'"
proof -
  obtain s1 ds w1 where fl: "flush (net_departures net) (s\<lparr>ses_ready := False\<rparr>) w = (s1, ds, w1)"
    using prod_cases3 by blast
  note f = flush_session_ok [OF fl]
  have ok: "session_ok s1" "w_inputs w1 = w_inputs w" using f assms(3,4) by simp_all
  note step = assms(1) [unfolded pump_def fl Let_def prod.case]
  show ?thesis
  proof (cases "ses_used s1 \<and> \<not> pending_output s1")
    case True
    then have "pump_loop ed kFramesPerPass (net_polls net) ds c s1 w1 = (c', s', w')" using step by simp
    from pump_loop_ok [OF this _ ok(1)] show ?thesis using True ok(2) assms(2) clean_world_cong by metis
  next
    case False
    then have "c' = c \<and> w' = w1 \<and> (s' = s1 \<or> s' = s1\<lparr>ses_ready := True\<rparr>)" using step by (auto split: if_splits)
    then show ?thesis using ok by auto
  qed
qed

definition coordinator_ok :: "coordinator \<Rightarrow> bool" where
  "coordinator_ok c \<longleftrightarrow>
     list_all session_ok (co_sessions c) \<and> length (co_sessions c) \<le> copt_max_sessions (co_options c)"

text \<open>A step of the service: it keeps the bounds, the options and the run of the runtime.\<close>

definition service_step :: "(bytes \<Rightarrow> bytes \<Rightarrow> bytes \<Rightarrow> bool) \<Rightarrow> bool \<Rightarrow> coordinator \<times> world \<Rightarrow> coordinator \<times> world \<Rightarrow> bool" where
  "service_step ed clean cw cw' \<longleftrightarrow>
     ((clean \<longrightarrow> clean_world (snd cw)) \<longrightarrow> coordinator_ok (fst cw) \<longrightarrow>
        (clean \<longrightarrow> clean_world (snd cw')) \<and> coordinator_ok (fst cw') \<and> co_options (fst cw') = co_options (fst cw) \<and>
        continues_run ed clean (co_runtime (fst cw)) (co_runtime (fst cw')))"

lemma service_step_refl [simp, intro]: "service_step ed clean cw cw"
  by (simp add: service_step_def)

lemma service_step_trans [trans]:
  assumes "service_step ed clean a b" "service_step ed clean b c"
  shows "service_step ed clean a c"
  unfolding service_step_def
proof (intro impI)
  assume start: "clean \<longrightarrow> clean_world (snd a)" "coordinator_ok (fst a)"
  note b = assms(1) [unfolded service_step_def, THEN mp, THEN mp, OF start]
  have "(clean \<longrightarrow> clean_world (snd b))" "coordinator_ok (fst b)" using b by simp_all
  note c = assms(2) [unfolded service_step_def, THEN mp, THEN mp, OF this]
  show "(clean \<longrightarrow> clean_world (snd c)) \<and> coordinator_ok (fst c) \<and> co_options (fst c) = co_options (fst a) \<and>
      continues_run ed clean (co_runtime (fst a)) (co_runtime (fst c))"
    using b c continues_trans [of ed clean "co_runtime (fst a)" "co_runtime (fst b)"] by simp
qed

lemma pump_at_step:
  assumes "k < length (co_sessions (fst cw))"
  shows "service_step ed clean cw (pump_at ed nets k cw)"
    and "(clean \<longrightarrow> clean_world (snd cw)) \<Longrightarrow> coordinator_ok (fst cw) \<Longrightarrow>
      length (co_sessions (fst (pump_at ed nets k cw))) = length (co_sessions (fst cw))"
proof -
  obtain c w where cw: "cw = (c, w)" by (cases cw)
  let ?s = "co_sessions c ! k"
  obtain c1 s1 w1 where p: "pump ed (nets k) c ?s w = (c1, s1, w1)" using prod_cases3 by blast
  have at: "pump_at ed nets k cw = (if ses_used ?s then (c1\<lparr>co_sessions := (co_sessions c1)[k := s1]\<rparr>, w1) else cw)"
    by (simp add: pump_at_def cw p)
  have keep: "keeps ed clean c c1 \<and> w_inputs w1 = w_inputs w \<and> session_ok s1"
    if "clean \<longrightarrow> clean_world w" "coordinator_ok c" "ses_used ?s"
    using pump_ok [OF p that(1) _ that(3)] that(2) assms by (simp add: cw coordinator_ok_def list_all_length)
  show "service_step ed clean cw (pump_at ed nets k cw)"
  proof (cases "ses_used ?s")
    case True
    then have "(clean \<longrightarrow> clean_world w) \<Longrightarrow> coordinator_ok c \<Longrightarrow> clean \<longrightarrow> clean_world w1" using keep clean_world_cong by metis
    then show ?thesis
      using keep True unfolding at unfolding cw
      by (auto simp: service_step_def keeps_def coordinator_ok_def list_all_iff dest: set_update_subset_insert [THEN subsetD])
  qed (simp add: at)
  show "length (co_sessions (fst (pump_at ed nets k cw))) = length (co_sessions (fst cw))"
    if "clean \<longrightarrow> clean_world (snd cw)" "coordinator_ok (fst cw)"
    using keep that unfolding at unfolding cw by (auto simp: keeps_def)
qed

lemma serve_sessions_step: "service_step ed clean cw (serve_sessions ed nets cw)"
proof -
  have "service_step ed clean cw (fold (pump_at ed nets) ks cw)"
    if "\<forall>k\<in>set ks. k < length (co_sessions (fst cw))" for ks
    using that
  proof (induction ks arbitrary: cw)
    case (Cons k ks)
    let ?cw = "pump_at ed nets k cw"
    have first: "service_step ed clean cw ?cw" using Cons.prems pump_at_step(1) by simp
    have "service_step ed clean cw (fold (pump_at ed nets) ks ?cw)" if "clean \<longrightarrow> clean_world (snd cw)" "coordinator_ok (fst cw)"
    proof -
      have "\<forall>j\<in>set ks. j < length (co_sessions (fst ?cw))"
        using Cons.prems pump_at_step(2) [of k cw clean ed nets] that by simp
      from service_step_trans [OF first Cons.IH [OF this]] show ?thesis .
    qed
    then show ?case by (auto simp: service_step_def)
  qed simp
  then show ?thesis by (simp add: serve_sessions_def)
qed

lemma first_unused_less: "first_unused ss k = Some i \<Longrightarrow> i < k + length ss"
  by (induction ss arbitrary: k) (auto split: if_splits, fastforce)

lemma accept_pending_step: "service_step ed clean cw (accept_pending aio cw)"
proof -
  obtain c w where cw: "cw = (c, w)" by (cases cw)
  have refused: "service_step ed clean (c, w) (c\<lparr>co_rejected := n\<rparr>, w)" for n
    by (simp add: service_step_def coordinator_ok_def)
  have "service_step ed clean (c, w) (c\<lparr>co_sessions := ss[k := accepted_session now]\<rparr>, w1)"
    if "free_slot c = Some (k, ss)" "tick w = (now, w1)" for k ss now w1
    using that(1) clean_world_cong [OF world_simps(1) [OF that(2)]]
    by (auto simp: service_step_def coordinator_ok_def free_slot_def list_all_iff split: option.splits if_splits
        dest!: set_update_subset_insert [THEN subsetD])
  with refused show ?thesis
    by (auto simp: accept_pending_def cw Let_def split: sum.split option.split prod.split)
qed

lemma reap_idle_step: "service_step ed clean (c, w) (reap_idle now c, w)"
  by (auto simp: service_step_def reap_idle_def coordinator_ok_def Let_def list_all_iff)

lemma run_pass_step: "service_step ed clean cw (run_pass ed aio nets cw)"
proof (cases "co_stop_requested (fst cw) \<or> co_stopped (fst cw)")
  case False
  obtain c w where sv: "serve_sessions ed nets (accept_pending aio cw) = (c, w)"
    by (cases "serve_sessions ed nets (accept_pending aio cw)")
  obtain now w1 where t: "tick w = (now, w1)" by (cases "tick w")
  have "service_step ed clean cw (c, w)"
    using service_step_trans [OF accept_pending_step serve_sessions_step] sv by metis
  also have "service_step ed clean (c, w) (c, w1)"
    using clean_world_cong [OF world_simps(1) [OF t]] by (simp add: service_step_def)
  also have "service_step ed clean (c, w1) (reap_idle now c, w1)" by (rule reap_idle_step)
  finally show ?thesis using False by (simp add: run_pass_def sv t)
qed (simp add: run_pass_def)

text \<open>
  The coordinator as a transition system, from the state \<open>c0\<close>: any number of passes with any network,
  clock and disk, requests to stop and a shutdown. With the flag \<open>clean\<close> no append that fails leaves
  part of a frame in the journal.
\<close>

inductive coordinator_run ::
    "(bytes \<Rightarrow> bytes \<Rightarrow> bytes \<Rightarrow> bool) \<Rightarrow> bool \<Rightarrow> coordinator \<Rightarrow> coordinator \<Rightarrow> bool" for ed clean c0 where
  run_start: "coordinator_run ed clean c0 c0"
| run_pass: "coordinator_run ed clean c0 c'"
    if "coordinator_run ed clean c0 c" "clean \<longrightarrow> clean_world w" "run_pass ed aio nets (c, w) = (c', w')"
| run_stop: "coordinator_run ed clean c0 (request_stop c)" if "coordinator_run ed clean c0 c"
| run_shutdown: "coordinator_run ed clean c0 (fst (shutdown drains (c, w)))" if "coordinator_run ed clean c0 c"

text \<open>A first start: the state directory has no journal and no snapshot, and the disk works.\<close>

definition fresh_start :: "coordinator \<Rightarrow> bool" where
  "fresh_start c \<longleftrightarrow>
     (\<exists>d options trust age io now d'. ascending d \<and> journal_files d = [] \<and> map_of d snapshot_path = None \<and>
        works io \<and> coordinator_start options (fresh_options d trust age) io now (Inr ()) = (Inr c, d'))"

lemma start_ok:
  assumes "coordinator_start options rt_options io now listening = (Inr c, d')"
  shows "coordinator_ok c"
  using assms unfolding coordinator_start_def Let_def
  by (auto simp: coordinator_ok_def rbind_def list_all_iff split: prod.splits sum.splits)

lemma fresh_start_run:
  assumes "fresh_start c"
  shows "coordinator_ok c" "runtime_run ed (co_runtime c) []"
proof -
  obtain d options trust age io now d' where
    fresh: "ascending d" "journal_files d = []" "map_of d snapshot_path = None" "works io"
    and start: "coordinator_start options (fresh_options d trust age) io now (Inr ()) = (Inr c, d')"
    using assms by (auto simp: fresh_start_def)
  show "coordinator_ok c" using start by (rule start_ok)
  have opts: "(if copt_evidence_max_age_millis options \<noteq> 0
      then (fresh_options d trust age)\<lparr>opt_evidence_max_age_millis := copt_evidence_max_age_millis options\<rparr>
      else fresh_options d trust age) =
    fresh_options d trust (if copt_evidence_max_age_millis options \<noteq> 0 then copt_evidence_max_age_millis options else age)"
    by (simp add: fresh_options_def)
  have "\<exists>age'. runtime_open (fresh_options d trust age') io now = (Inr (co_runtime c), d')"
    using start [unfolded coordinator_start_def Let_def opts]
    by (auto simp: rbind_def split: prod.splits sum.splits)
  then show "runtime_run ed (co_runtime c) []" using session_open [OF fresh] by blast
qed

lemma coordinator_run_ok:
  assumes "coordinator_run ed clean c0 c" "coordinator_ok c0"
  shows "coordinator_ok c \<and> continues_run ed clean (co_runtime c0) (co_runtime c)"
  using assms
proof (induction rule: coordinator_run.induct)
  case (run_pass c w aio nets c' w')
  have "service_step ed clean (c, w) (c', w')" using run_pass_step run_pass.hyps(3) by metis
  then show ?case using run_pass.IH [OF run_pass.prems] run_pass.hyps(2) continues_trans
    by (fastforce simp: service_step_def)
next
  case (run_stop c)
  then show ?case by (simp add: request_stop_def coordinator_ok_def)
next
  case (run_shutdown c drains w)
  then show ?case by (simp add: shutdown_def coordinator_ok_def)
qed simp

text \<open>What the journal of a runtime that came out of a fresh one holds.\<close>

lemma steps_journal:
  assumes "runtime_run ed rt evs" "runtime_steps ed True rt later rt'"
  obtains rs report where "read_all (rt_directory rt') = Inr (rs, report)"
    "map entry_of rs = map event_entry (evs @ later)"
proof -
  obtain report where
    "read_all (rt_directory rt') = Inr (journal_records zero_digest 1 (map event_entry (evs @ later)), report)"
    using run_durable [OF steps_run [OF assms(2,1)]] unfolding durable_def by (metis read_journaled)
  with entry_of_journal that show ?thesis by metis
qed

section \<open>Requests in order\<close>

text \<open>What serving a list of frames one after the other does to the coordinator.\<close>

primrec serve_in_order ::
    "(bytes \<Rightarrow> bytes \<Rightarrow> bytes \<Rightarrow> bool) \<Rightarrow> (nat \<Rightarrow> frame_io) \<Rightarrow> nat \<Rightarrow> coordinator \<Rightarrow> wire_frame list \<Rightarrow> coordinator" where
  "serve_in_order ed inputs n c [] = c"
| "serve_in_order ed inputs n c (f # fs) =
     serve_in_order ed inputs (Suc n) (fst (handle_frame ed c new_session f (inputs n))) fs"

lemma handle_frame_any_session: "fst (handle_frame ed c s f fio) = fst (handle_frame ed c s' f fio)"
  by (simp add: handle_frame_def serve_request_def Let_def queue_error_def queue_success_def handle_hello_def
      split: sum.split prod.split)

lemma flush_frame: "flush ds s w = (s', ds', w') \<Longrightarrow> w_frame w' = w_frame w \<and> w_inputs w' = w_inputs w"
proof (induction ds s w rule: flush.induct)
  case (1 ds s w)
  show ?case
  proof (cases "pending_output s \<and> ds \<noteq> [] \<and> (\<exists>n. hd ds = Sent n)")
    case True
    then obtain n rest where ds: "ds = Sent n # rest" by (metis list.collapse)
    obtain now w1 where t: "tick w = (now, w1)" by (cases "tick w")
    have "flush rest (s\<lparr>ses_out_offset := ses_out_offset s + send_slice s n, ses_last_activity_millis := now\<rparr>) w1
        = (s', ds', w')"
      using "1.prems" True t by (simp add: ds flush.simps [of "Sent n # rest"])
    moreover have "w_frame w1 = w_frame w" "w_inputs w1 = w_inputs w" using t by (auto simp: tick_def)
    ultimately show ?thesis using "1.IH" [of "Sent n" rest n "(now, w1)" now w1] True ds t by auto
  next
    case False
    then show ?thesis using "1.prems" by (auto simp: flush.simps [of ds] split: if_splits list.splits departure.splits)
  qed
qed

lemma serve_buffered_idle:
  assumes "serve_buffered ed left ds c s w = (left', ds', c', s', w')" "pending_output s"
  shows "s' = s"
  using assms by (cases left) (auto dest: serve_buffered_stop)

lemma serve_buffered_in_order:
  assumes "serve_buffered ed left ds c s w = (left', ds', c', s', w')" "session_ok s" "ses_used s"
    "list_all2 (\<lambda>f bs. \<exists>t i body. encode_frame t i body = Inr bs \<and> f = frame_of t i body) fs bss"
    "ses_inbound s = concat bss @ rest" "length rest < kHeaderBytes \<or> decode_frame rest = Inl kTruncatedFrame"
    "ses_used s'" "\<not> pending_output s'"
  shows "c' = serve_in_order ed (w_inputs w) (w_frame w) c (take left fs) \<and> ses_inbound s' = concat (drop left bss) @ rest"
  using assms
proof (induction fs arbitrary: left ds c s w bss)
  case Nil
  then have idle: "\<not> pending_output s" using serve_buffered_idle [OF Nil.prems(1)] by auto
  show ?case
  proof (cases left)
    case 0
    then show ?thesis using Nil by auto
  next
    case (Suc k)
    then show ?thesis using Nil serve_buffered_stop [of ed k ds c s w] by (auto dest: list_all2_lengthD)
  qed
next
  case (Cons f fs)
  show ?case
  proof (cases left)
    case 0
    then show ?thesis using Cons.prems(1,5) by simp
  next
    case left: (Suc k)
  obtain bs bss' t i body where b: "bss = bs # bss'" "encode_frame t i body = Inr bs" "f = frame_of t i body"
    and rest: "list_all2 (\<lambda>f bs. \<exists>t i body. encode_frame t i body = Inr bs \<and> f = frame_of t i body) fs bss'"
    using Cons.prems(4) by (auto simp: list_all2_Cons1)
  have inb: "ses_inbound s = bs @ concat bss' @ rest" using Cons.prems(5) b(1) by simp
  have dec: "decode_frame (ses_inbound s) = Inr (f, length bs)" unfolding inb b(3) by (rule decode_encode [OF b(2)])
  have idle: "\<not> pending_output s"
    using serve_buffered_idle [OF Cons.prems(1)] Cons.prems(8) by auto
  have long: "\<not> length (ses_inbound s) < kHeaderBytes"
    using decode_frame_bound [OF dec] by simp
  obtain now w1 where tk: "tick w = (now, w1)" by (cases "tick w")
  obtain fio w2 where nx: "next_input w1 = (fio, w2)" by (cases "next_input w1")
  let ?s = "s\<lparr>ses_inbound := drop (length bs) (ses_inbound s), ses_last_activity_millis := now\<rparr>"
  obtain c1 s1 where h: "handle_frame ed c ?s f fio = (c1, s1)" by (cases "handle_frame ed c ?s f fio")
  obtain s2 ds2 w3 where fl: "flush ds s1 w2 = (s2, ds2, w3)" by (cases "flush ds s1 w2")
  note eq = Cons.prems(1) [unfolded left serve_buffered_frame [OF idle long dec tk nx h fl]]
  have used: "ses_used s1" "ses_used s2" using eq Cons.prems(7) by (auto split: if_splits)
  have "session_ok ?s" using Cons.prems(2,3) by (auto simp: session_ok_def)
  note s1 = handle_frame_ok [OF this _ _ h]
  have s1': "session_ok s1" "ses_inbound s1 = concat bss' @ rest"
    using s1 idle Cons.prems(3) used(1) inb by simp_all
  have s2: "session_ok s2" "ses_inbound s2 = concat bss' @ rest"
    using flush_session_ok [OF fl s1'(1) used(1)] used(2) s1'(2) by simp_all
  have w: "fio = w_inputs w (w_frame w)" "w_inputs w3 = w_inputs w" "w_frame w3 = Suc (w_frame w)"
    using tk nx flush_frame [OF fl] by (auto simp: tick_def next_input_def)
  have c1: "c1 = fst (handle_frame ed c new_session f (w_inputs w (w_frame w)))"
    using h handle_frame_any_session [of ed c ?s f fio new_session] w(1) by simp
  have "serve_buffered ed k ds2 c1 s2 w3 = (left', ds', c', s', w')" using eq used by simp
  from Cons.IH [OF this s2(1) used(2) rest s2(2) Cons.prems(6-8)]
  show ?thesis using w c1 b(1) left by simp
  qed
qed

section \<open>A sample service\<close>

definition sample_options :: coordinator_options where
  "sample_options = \<lparr>copt_max_sessions = 4, copt_idle_timeout_millis = 30000, copt_evidence_max_age_millis = 0\<rparr>"

lemma sample_service:
  obtains c where "fresh_start c" "runtime_run ed (co_runtime c) []" "rt_state (co_runtime c) = new_state"
    "co_served c = 0" "co_rejected c = 0"
proof -
  obtain rt where rt: "runtime_open (fresh_options [] sample_trust 0) sample_io 9 = (Inr rt, Some (rt_directory rt))"
    "runtime_run ed rt []" "rt_state rt = new_state" by (rule fresh_runtime)
  define c where "c = \<lparr>co_options = sample_options, co_runtime = rt, co_listener = True,
      co_sessions = replicate 4 new_session, co_stop_requested = False, co_stopped = False,
      co_served = 0, co_rejected = 0\<rparr>"
  have "coordinator_start sample_options (fresh_options [] sample_trust 0) sample_io 9 (Inr ()) = (Inr c, Some (rt_directory rt))"
    using rt(1) by (simp add: coordinator_start_def sample_options_def kMaxSessions_def c_def)
  then have "fresh_start c"
    unfolding fresh_start_def
    by (intro exI [of _ "[]"] exI conjI) (simp_all add: journal_files_def sample_wf(2))
  then show ?thesis using rt by (intro that [of c]) (simp_all add: c_def)
qed

text \<open>
  Every frame that reaches a handler is answered exactly once. The session gets one reply frame,
  with the identifier of the request, a success counted as served or an error counted as rejected, or,
  when the reply does not fit a frame, the session is closed; nothing is ever answered in part.
\<close>

theorem request_answered_once:
  "case handle_frame ed c s f fio of (c', s') \<Rightarrow>
     \<exists>t body. t \<in> {MsgHelloReply, MsgRetireReplyGeneric, MsgError} \<and>
       (case encode_frame (message_number t) (hdr_request_id (wfr_header f)) (dump body) of
          Inr bs \<Rightarrow> s' = s\<lparr>ses_outbound := ses_outbound s @ bs\<rparr>
        | Inl _ \<Rightarrow> s' = drop_session s) \<and>
       co_served c' = co_served c + (if t = MsgError then 0 else 1) \<and>
       co_rejected c' = co_rejected c + (if t = MsgError then 1 else 0)"
proof -
  obtain c' s' where h: "handle_frame ed c s f fio = (c', s')" by (cases "handle_frame ed c s f fio")
  obtain t body where "s' = queue_frame s t (hdr_request_id (wfr_header f)) body"
    "t = MsgError \<and> co_rejected c' = co_rejected c + 1 \<and> co_served c' = co_served c \<or>
     t \<in> {MsgHelloReply, MsgRetireReplyGeneric} \<and> co_served c' = co_served c + 1 \<and> co_rejected c' = co_rejected c"
    using handle_frame_answered [of s f c ed fio] unfolding h answered_def by auto
  then show ?thesis
    unfolding h prod.case by (intro exI [of _ t] exI [of _ body]) (auto simp: queue_frame_def split: sum.split)
qed

text \<open>
  C2: no reply before durability. When the reply to a request that changes state is a success, the
  record of that request is in the journal, after everything that was acknowledged before, and the
  reply carries its sequence; when it is an error, the journal and the state are as they were, unless
  part of a frame reached the disk.
\<close>

theorem reply_after_durability:
  assumes "runtime_run ed (co_runtime c) evs" "parse_request f = Inr (handler, body)"
    "request_of handler body = Some req" "handle_frame ed c s f fio = (c', s')" "clean_io (fio_append fio)"
  shows "if co_served c' = co_served c + 1 then
      (\<exists>reply rs report. s' = queue_frame s MsgRetireReplyGeneric (hdr_request_id (wfr_header f)) reply \<and>
         json_find reply ''sequence'' = Some (json_u64 (of_nat (length evs) + 1)) \<and>
         read_all (rt_directory (co_runtime c')) = Inr (rs, report) \<and>
         map entry_of rs = map event_entry evs @ [event_entry (event_of ed (co_runtime c) req (fio_clock fio))])
    else
      rt_state (co_runtime c') = rt_state (co_runtime c) \<and>
      (\<exists>rs report. read_all (rt_directory (co_runtime c')) = Inr (rs, report) \<and> map entry_of rs = map event_entry evs)"
proof -
  let ?rt = "co_runtime c"
  obtain r rt' where p: "perform ed ?rt req (fio_clock fio) (fio_append fio) = (r, rt')"
    by (cases "perform ed ?rt req (fio_clock fio) (fio_append fio)")
  have rt': "co_runtime c' = rt'"
    using handle_frame_runtime [of ed c s f fio] assms(2-4) p by simp
  obtain reply where reply: "handle_request ed c handler body fio = acknowledge (r, rt') reply"
    "\<And>n. json_find (reply n) ''sequence'' = Some (json_u64 n)"
    using handle_request_acknowledges [OF assms(3)] p by metis
  have "handler \<noteq> MsgHello" using assms(3) by (auto simp: request_of_def)
  then have h: "(c', s') = (case acknowledge (r, rt') reply of
      (Inl code, rt) \<Rightarrow> queue_error (c\<lparr>co_runtime := rt\<rparr>) s (hdr_request_id (wfr_header f)) code (fio_message fio)
    | (Inr b, rt) \<Rightarrow> queue_success (c\<lparr>co_runtime := rt\<rparr>) s (hdr_request_id (wfr_header f)) b)"
    using assms(2,4) reply(1) by (simp add: handle_frame_def serve_request_def Let_def split: prod.splits sum.splits)
  show ?thesis
  proof (cases r)
    case (Inl e)
    then have "co_served c' = co_served c" using h by (simp add: queue_error_def)
    moreover have "durable rt' evs"
      using perform_durable(2) [OF run_durable [OF assms(1)] p Inl assms(5)] .
    then obtain report where "read_all (rt_directory rt') = Inr (journal_records zero_digest 1 (map event_entry evs), report)"
      unfolding durable_def using read_journaled by blast
    ultimately show ?thesis
      using perform_refused_state p Inl entry_of_journal unfolding rt' by (auto 0 3)
  next
    case (Inr n)
    then have h': "co_served c' = co_served c + 1" "s' = queue_frame s MsgRetireReplyGeneric (hdr_request_id (wfr_header f)) (reply n)"
      using h by (simp_all add: queue_success_def)
    have d: "durable rt' (evs @ [event_of ed ?rt req (fio_clock fio)]) \<and> n = of_nat (length evs) + 1"
      using perform_durable(1) [OF run_durable [OF assms(1)] p Inr] by simp
    then obtain report where "read_all (rt_directory rt') =
        Inr (journal_records zero_digest 1 (map event_entry (evs @ [event_of ed ?rt req (fio_clock fio)])), report)"
      unfolding durable_def using read_journaled by blast
    then show ?thesis using h' reply(2) d entry_of_journal unfolding rt' by (auto 0 3)
  qed
qed

text \<open>
  C6: the service is bounded and consistent. In every state that a started coordinator can reach,
  whatever directory it was started on and whatever the network, the clock and the disk do: there
  are never more sessions than the bound, a session buffers at most a frame and a chunk and at most
  one reply frame, and a closed session holds nothing; the runtime behind it was reached from the
  started one by requests, of which those with the events \<open>evs\<close> were acknowledged, and if the history
  of every workload was one chain at the start, it still is. After a first start, on a directory without a journal, the histories are
  chains; and if, beyond that, no append that failed left part of a frame behind, then the journal
  holds exactly the records of the requests that were acknowledged, in their order.
\<close>

theorem service_invariant:
  assumes "coordinator_start options rt_options io now listening = (Inr c0, d)" "coordinator_run ed clean c0 c"
  shows "length (co_sessions c) \<le> copt_max_sessions (co_options c) \<and>
    (\<forall>s\<in>set (co_sessions c).
       length (ses_inbound s) \<le> kMaxFrameBytes + kReceiveChunkBytes \<and>
       length (ses_outbound s) \<le> kMaxFrameBytes \<and>
       (\<not> ses_used s \<longrightarrow> ses_inbound s = [] \<and> ses_outbound s = [])) \<and>
    (state_ok (rt_state (co_runtime c0)) \<or> fresh_start c0 \<longrightarrow> state_ok (rt_state (co_runtime c))) \<and>
    (\<exists>evs. runtime_steps ed clean (co_runtime c0) evs (co_runtime c) \<and>
       (fresh_start c0 \<and> clean \<longrightarrow>
          (\<exists>rs report. read_all (rt_directory (co_runtime c)) = Inr (rs, report) \<and>
             map entry_of rs = map event_entry evs)))"
proof -
  have run: "coordinator_ok c" "continues_run ed clean (co_runtime c0) (co_runtime c)"
    using coordinator_run_ok [OF assms(2) start_ok [OF assms(1)]] by simp_all
  then obtain evs where steps: "runtime_steps ed clean (co_runtime c0) evs (co_runtime c)"
    by (auto simp: continues_run_def)
  have "state_ok (rt_state (co_runtime c0)) \<or> fresh_start c0 \<longrightarrow> state_ok (rt_state (co_runtime c))"
    using steps_state_ok [OF steps] run_state_ok [OF fresh_start_run(2)] by blast
  moreover have "\<exists>rs report. read_all (rt_directory (co_runtime c)) = Inr (rs, report) \<and>
      map entry_of rs = map event_entry evs" if "fresh_start c0" clean
    using steps_journal [OF fresh_start_run(2) [OF that(1)]] steps that(2) by (metis append_Nil)
  ultimately show ?thesis
    using run(1) steps by (auto simp: coordinator_ok_def list_all_iff session_ok_def output_ok_def idle_output_def)
qed

theorem service_invariant_witness:
  "\<exists>c c' :: coordinator. fresh_start c \<and> c' = request_stop c \<and> co_served c' = 0 \<and> state_ok (rt_state (co_runtime c')) \<and>
     (\<exists>rs report. read_all (rt_directory (co_runtime c')) = Inr (rs, report))"
proof -
  obtain c where c: "fresh_start c" "co_served c = 0" by (rule sample_service)
  then obtain options rt_options io now listening d where
    "coordinator_start options rt_options io now listening = (Inr c, d)" unfolding fresh_start_def by blast
  from service_invariant [OF this run_stop [OF run_start], of sample_ed_verify True] c
  show ?thesis by (intro exI [of _ c] exI [of _ "request_stop c"]) (auto simp: request_stop_def)
qed

text \<open>
  C27: a pass of the service never loses an acknowledgement, as long as no append that fails leaves
  part of a frame in the journal, in this pass or before (\<open>clean\<close>). After a first start and any such
  passes: what the journal held before a pass is still there after it, in the same order, followed by
  the records of the requests that the pass acknowledged.
\<close>

theorem pass_extends_journal:
  assumes "fresh_start c0" "coordinator_run ed True c0 c" "clean_world w"
    "run_pass ed aio nets (c, w) = (c', w')"
  shows "\<exists>rs rs' report report' evs. runtime_steps ed True (co_runtime c) evs (co_runtime c') \<and>
    read_all (rt_directory (co_runtime c)) = Inr (rs, report) \<and>
    read_all (rt_directory (co_runtime c')) = Inr (rs', report') \<and>
    map entry_of rs' = map entry_of rs @ map event_entry evs"
proof -
  note fresh = fresh_start_run [OF assms(1)]
  have run: "coordinator_ok c" "continues_run ed True (co_runtime c0) (co_runtime c)"
    using coordinator_run_ok [OF assms(2) fresh(1)] by simp_all
  then obtain before where before: "runtime_steps ed True (co_runtime c0) before (co_runtime c)"
    by (auto simp: continues_run_def)
  have "service_step ed True (c, w) (c', w')" using run_pass_step assms(4) by metis
  then obtain evs where evs: "runtime_steps ed True (co_runtime c) evs (co_runtime c')"
    using run(1) assms(3) by (auto simp: service_step_def continues_run_def)
  obtain rs report where rs: "read_all (rt_directory (co_runtime c)) = Inr (rs, report)"
    "map entry_of rs = map event_entry ([] @ before)" using fresh(2) before by (rule steps_journal)
  obtain rs' report' where rs': "read_all (rt_directory (co_runtime c')) = Inr (rs', report')"
    "map entry_of rs' = map event_entry ([] @ before @ evs)"
    using fresh(2) steps_trans [OF before evs] by (rule steps_journal)
  have "map entry_of rs' = map entry_of rs @ map event_entry evs" using rs(2) rs'(2) by simp
  with evs rs(1) rs'(1) show ?thesis by blast
qed

definition sample_request :: json where
  "sample_request = json_sets [(''schema'', JString ''wnc/v1/install_policy''), (''policy'', policy_to_json sample_installed)] JNull"

definition sample_frame :: wire_frame where
  "sample_frame = frame_of (message_number MsgInstallPolicy) 7 (json_text sample_request)"

definition sample_input :: frame_io where
  "sample_input = \<lparr>fio_clock = (\<lambda>_. 5), fio_append = IoDone, fio_message = [], fio_reasons = (\<lambda>_. [])\<rparr>"

lemma sample_request_plain:
  "json_plain 4096 32 sample_request" "text_bound sample_request \<le> 4096"
proof -
  note ids = sample_installed_fields valid_utf8_id [OF sample_installed_fields(5)] length_wf_id [OF sample_installed_fields(5)]
  note eqs = sample_request_def policy_to_json_def json_set_def
  show "json_plain 4096 32 sample_request" using ids by (simp add: eqs valid_utf8_ascii)
  show "text_bound sample_request \<le> 4096" using ids by (simp add: eqs)
qed

lemma parse_request_object:
  assumes "defined_message_type t" "json_decode default_decode_options body = Some (Inr (JObject obj))"
    "json_find (JObject obj) ''schema'' = Some (JString schema)" "schema_handler schema = Some handler"
    "t = message_number MsgUnknown \<or> t = message_number handler"
  shows "parse_request (frame_of t i body) = Inr (handler, JObject obj)"
  using assms by (simp add: parse_request_def frame_of_def require_string_def of_option_def rbind_def rcheck_def)

lemma sample_request_parsed:
  "parse_request sample_frame = Inr (MsgInstallPolicy, sample_request)"
  "request_of MsgInstallPolicy sample_request = Some (Install sample_installed)"
proof -
  have len: "length (json_text sample_request) \<le> 4096"
    using length_json_text [OF sample_request_plain(1)] sample_request_plain(2) by simp
  have dec: "json_decode default_decode_options (json_text sample_request) = Some (Inr sample_request)"
    using sample_request_plain(1) len
    by (intro json_decode_text) (simp_all add: default_decode_options_def depth_limit_def kMaxDocumentBytes_def)
  obtain obj where obj: "sample_request = JObject obj" by (simp add: sample_request_def json_set_def)
  have find: "json_find sample_request ''schema'' = Some (JString ''wnc/v1/install_policy'')"
    by (simp add: json_find_def sample_request_def map_of_json_sets)
  show "parse_request sample_frame = Inr (MsgInstallPolicy, sample_request)"
    unfolding sample_frame_def obj
    by (rule parse_request_object [OF _ dec [unfolded obj] find [unfolded obj]])
      (simp_all add: schema_handler_def kSchemaPrefix_def parse_message_type_def value_of_def kMessageTokens_def
        defined_message_type_def message_type_token_def)
  have "policy_from_json (policy_to_json sample_installed) = Inr sample_installed"
    using sample_recoverable by (simp add: recoverable_def)
  then show "request_of MsgInstallPolicy sample_request = Some (Install sample_installed)"
    by (simp add: request_of_def document_of_def json_find_def sample_request_def map_of_json_sets)
qed

lemma sample_append:
  assumes "runtime_run ed rt []" "rt_state rt = new_state"
  obtains s rt' where "perform ed rt (Install sample_installed) (\<lambda>_. 5) IoDone = (Inr s, rt')"
proof -
  have guard: "guard ed rt (Install sample_installed) = Inr ()"
    by (rule sample_guard) (simp add: assms(2) new_state_def)
  have len: "length (dump (event_payload (event_of ed rt (Install sample_installed) (\<lambda>_. 5)))) \<le> kMaxRecordBytes"
    using readable_plain(2) [OF sample_payload(1)] sample_payload(2)
    by (simp add: kMaxRecordBytes_def kMaxDocumentBytes_def)
  show ?thesis
    by (rule perform_accepts [OF run_durable [OF assms(1)] guard len])
      (simp_all add: segment_size_def kMaxRecordBytes_def kMaxDocumentBytes_def kMaxSegmentBytes_def that)
qed

theorem reply_after_durability_witness:
  "\<exists>(c :: coordinator) c' s'. handle_frame sample_ed_verify c new_session sample_frame sample_input = (c', s') \<and>
     co_served c' = co_served c + 1 \<and>
     (\<exists>rs report. read_all (rt_directory (co_runtime c')) = Inr (rs, report) \<and>
        map entry_of rs = [event_entry (Installed sample_installed 5)])"
proof -
  obtain c :: coordinator where c: "runtime_run sample_ed_verify (co_runtime c) []" "rt_state (co_runtime c) = new_state" "co_served c = 0"
    by (rule sample_service [of sample_ed_verify])
  obtain s rt' where p: "perform sample_ed_verify (co_runtime c) (Install sample_installed) (\<lambda>_. 5) IoDone = (Inr s, rt')"
    using c(1,2) by (rule sample_append)
  obtain c' s' where h: "handle_frame sample_ed_verify c new_session sample_frame sample_input = (c', s')"
    by (cases "handle_frame sample_ed_verify c new_session sample_frame sample_input")
  obtain reply where "handle_request sample_ed_verify c MsgInstallPolicy sample_request sample_input =
      acknowledge (perform sample_ed_verify (co_runtime c) (Install sample_installed) (fio_clock sample_input)
        (fio_append sample_input)) reply"
    using handle_request_acknowledges [OF sample_request_parsed(2)] by metis
  then have "handle_request sample_ed_verify c MsgInstallPolicy sample_request sample_input = (Inr (reply s), rt')"
    using p by (simp add: sample_input_def)
  then have served: "co_served c' = co_served c + 1"
    using h by (auto simp: handle_frame_def sample_request_parsed(1) serve_request_def queue_success_def)
  have "clean_io (fio_append sample_input)" by (simp add: sample_input_def)
  from reply_after_durability [OF c(1) sample_request_parsed h this] served obtain rs report where
    "read_all (rt_directory (co_runtime c')) = Inr (rs, report)"
    "map entry_of rs = [event_entry (Installed sample_installed 5)]"
    by (auto simp: sample_input_def)
  with served h show ?thesis
    by (intro exI [of _ c] exI [of _ c'] exI [of _ s'] conjI exI [of _ rs] exI [of _ report])
qed

definition sample_world :: world where
  "sample_world = \<lparr>w_clock = (\<lambda>_. 9), w_inputs = (\<lambda>_. sample_input), w_now = 0, w_frame = 0\<rparr>"

definition sample_accept :: accept_io where
  "sample_accept = \<lparr>acc_ready = Ready, acc_accepted = True, acc_non_blocking = True\<rparr>"

theorem pass_extends_journal_witness:
  "\<exists>(c :: coordinator) c' w' rs report.
     run_pass sample_ed_verify sample_accept (\<lambda>_. \<lparr>net_polls = [], net_departures = []\<rparr>) (c, sample_world) = (c', w') \<and>
     read_all (rt_directory (co_runtime c')) = Inr (rs, report)"
proof -
  obtain c where c: "fresh_start c" by (rule sample_service)
  have w: "clean_world sample_world" by (simp add: clean_world_def sample_world_def sample_input_def)
  obtain c' w' where r: "run_pass sample_ed_verify sample_accept (\<lambda>_. \<lparr>net_polls = [], net_departures = []\<rparr>) (c, sample_world) = (c', w')"
    by fastforce
  from pass_extends_journal [OF c run_start w r] r show ?thesis by blast
qed

text \<open>
  C28: pipelined requests are served in the order in which they arrived. A session that is in use and
  within its bounds holds complete frames and then an incomplete one (fewer bytes than a header, or a
  header whose body is still to come); it is served with a budget of \<open>left\<close> frames, which is
  \<^const>\<open>kFramesPerPass\<close> in a pass. When it is then not closed and has no output left, the
  coordinator is as if the first \<open>left\<close> frames, or all of them if there are fewer, had been handled one
  after the other, and exactly the frames after these and the incomplete one are left in the buffer.
\<close>

theorem requests_in_order:
  assumes "serve_buffered ed left ds c s w = (left', ds', c', s', w')" "session_ok s" "ses_used s"
    "list_all2 (\<lambda>f bs. \<exists>t i body. encode_frame t i body = Inr bs \<and> f = frame_of t i body) fs bss"
    "ses_inbound s = concat bss @ rest" "length rest < kHeaderBytes \<or> decode_frame rest = Inl kTruncatedFrame"
    "ses_used s'" "\<not> pending_output s'"
  shows "c' = serve_in_order ed (w_inputs w) (w_frame w) c (take left fs) \<and>
    ses_inbound s' = concat (drop left bss) @ rest"
  using assms by (rule serve_buffered_in_order)

lemma undefined_frame_refused:
  "handle_frame ed c s (frame_of 99 i []) fio = queue_error c s i kUnknownFrameType (fio_message fio)"
  by (simp add: handle_frame_def parse_request_def frame_of_def defined_message_type_def message_type_token_def
      kMessageTokens_def)

lemma sample_error:
  obtains bs where "encode_frame (message_number MsgError) i (dump (error_body kUnknownFrameType [])) = Inr bs"
    "0 < length bs" "length bs \<le> 8192"
proof -
  let ?j = "error_body kUnknownFrameType []"
  have plain: "json_plain kMaxRecordBytes 32 ?j" "text_bound ?j \<le> 4096"
    by (simp_all add: error_body_def json_set_def code_token_def code_description_def lookup_code_def
        kCodeTable_def kMaxRecordBytes_def kMaxDocumentBytes_def valid_utf8_ascii)
  have "length (json_text ?j) \<le> 4096" using length_json_text [OF plain(1)] plain(2) by simp
  moreover have "dump ?j = json_text ?j"
    using calculation dump_impl_text(1) [where out = "[]" and j = ?j and budget = "kMaxDocumentBytes * 2"]
    by (simp add: dump_def kMaxDocumentBytes_def)
  ultimately have len: "length (dump ?j) \<le> 4096" by simp
  then have enc: "encode_frame (message_number MsgError) i (dump ?j) =
      Inr (header_bytes (message_number MsgError) i (length (dump ?j)) @ bytes_of (dump ?j))"
    by (simp only: encode_frame_ok) (simp add: kMaxFrameBytes_def kHeaderBytes_def)
  show ?thesis by (rule that [OF enc]) (use len in simp_all)
qed

theorem requests_in_order_witness:
  "\<exists>(c :: coordinator) left' ds' s' w' bs. encode_frame 99 3 [] = Inr bs \<and>
     serve_buffered sample_ed_verify 8 [Sent 9000] c ((accepted_session 0)\<lparr>ses_inbound := bs\<rparr>) sample_world =
       (left', ds', serve_in_order sample_ed_verify (\<lambda>_. sample_input) 0 c [frame_of 99 3 []], s', w') \<and>
     ses_inbound s' = []"
proof -
  obtain c where c: "fresh_start c" by (rule sample_service)
  define bs where "bs = header_bytes 99 3 0"
  have enc: "encode_frame 99 3 [] = Inr bs"
    by (simp add: encode_frame_ok bs_def bytes_of_def kMaxFrameBytes_def kHeaderBytes_def)
  have dec: "decode_frame bs = Inr (frame_of 99 3 [], length bs)" using decode_encode [OF enc, of "[]"] by simp
  obtain es where es: "encode_frame (message_number MsgError) 3 (dump (error_body kUnknownFrameType [])) = Inr es"
    "0 < length es" "length es \<le> 8192" by (rule sample_error)
  let ?s = "(accepted_session 0)\<lparr>ses_inbound := bs\<rparr>"
  let ?s1 = "(accepted_session 9)\<lparr>ses_outbound := es\<rparr>"
  have len: "length bs = 28" by (simp add: bs_def)
  have go: "\<not> pending_output ?s" "\<not> length (ses_inbound ?s) < kHeaderBytes" "decode_frame (ses_inbound ?s) = Inr (frame_of 99 3 [], length bs)"
    using dec len by (simp_all add: pending_output_def accepted_session_def new_session_def kHeaderBytes_def)
  obtain w1 where t: "tick sample_world = (9, w1)" "w_inputs w1 = (\<lambda>_. sample_input)" "w_clock w1 = (\<lambda>_. 9)" by (simp add: tick_def sample_world_def)
  obtain w2 where n: "next_input w1 = (sample_input, w2)" "w_clock w2 = (\<lambda>_. 9)" using t(2,3) by (simp add: next_input_def)
  have h: "handle_frame sample_ed_verify c (?s\<lparr>ses_inbound := drop (length bs) (ses_inbound ?s), ses_last_activity_millis := 9\<rparr>)
      (frame_of 99 3 []) sample_input = (c\<lparr>co_rejected := co_rejected c + 1\<rparr>, ?s1)"
    unfolding undefined_frame_refused queue_error_def queue_frame_def
    by (simp add: sample_input_def es(1) [simplified] accepted_session_def new_session_def)
  have pend: "pending_output ?s1" using es(2) by (simp add: pending_output_def accepted_session_def new_session_def)
  have slice: "send_slice ?s1 9000 = length es"
    using es(2,3) by (simp add: send_slice_def accepted_session_def new_session_def kReceiveChunkBytes_def)
  obtain w3 where t2: "tick w2 = (9, w3)" using n(2) by (simp add: tick_def)
  have fl: "flush [Sent 9000] ?s1 w2 = ((accepted_session 9), [], w3)"
    using pend slice t2
    by (simp add: flush.simps [of "[Sent 9000]"] flush.simps [of "[]"] pending_output_def accepted_session_def new_session_def)
  have step: "serve_buffered sample_ed_verify 8 [Sent 9000] c ?s sample_world =
      (7, [], c\<lparr>co_rejected := co_rejected c + 1\<rparr>, accepted_session 9, w3)"
    using serve_buffered_frame [OF go t(1) n(1) h fl, of 7]
    by (simp add: accepted_session_def new_session_def serve_buffered.simps(2) [of _ 6, simplified] kHeaderBytes_def)
  have "c\<lparr>co_rejected := co_rejected c + 1\<rparr> = serve_in_order sample_ed_verify (w_inputs sample_world) (w_frame sample_world) c
        (take 8 [frame_of 99 3 []]) \<and>
      ses_inbound (accepted_session 9) = concat (drop 8 [bs]) @ []"
    by (rule requests_in_order [OF step])
      (use enc len in \<open>auto simp: session_ok_def output_ok_def idle_output_def pending_output_def accepted_session_def new_session_def
        kMaxFrameBytes_def kHeaderBytes_def\<close>)
  moreover have "w_inputs sample_world = (\<lambda>_. sample_input)" "w_frame sample_world = 0"
    by (simp_all add: sample_world_def)
  ultimately show ?thesis
    using step enc
    by (intro exI [of _ c] exI [of _ 7] exI [of _ "[]"] exI [of _ "accepted_session 9"] exI [of _ w3] exI [of _ bs]) simp
qed

text \<open>
  Bytes that are not a frame end the session: when the buffered bytes start with a complete header
  that is refused, the session is closed without a reply and counted as rejected, and nothing else of
  the coordinator changes.
\<close>

theorem framing_failure_closes:
  assumes "ses_used s" "\<not> pending_output s" "kHeaderBytes \<le> length (ses_inbound s)"
    "read_header (ses_inbound s) = Inl code"
  shows "pump_loop ed (Suc left) polls ds c s w = (c\<lparr>co_rejected := co_rejected c + 1\<rparr>, drop_session s, w)"
proof -
  have code: "code \<noteq> kTruncatedFrame" using assms(4) by (auto simp: read_header_def split: if_splits)
  have dec: "decode_frame (ses_inbound s) = Inl code" using assms(3,4) by (simp add: decode_frame_def rbind_def)
  obtain l d c1 s1 w1 where b: "serve_buffered ed (Suc left) ds c s w = (l, d, c1, s1, w1)" by (metis prod_cases5)
  have "s1 = drop_session s \<and> c1 = c\<lparr>co_rejected := co_rejected c + 1\<rparr> \<and> w1 = w"
    using serve_buffered_bad [OF b assms(2) _ dec code] assms(3) by simp
  then show ?thesis by (simp add: pump_loop.simps [of ed "Suc left"] b)
qed

theorem framing_failure_closes_witness:
  "\<exists>c :: coordinator. pump_loop sample_ed_verify 8 [] [] c ((accepted_session 0)\<lparr>ses_inbound := replicate 28 0\<rparr>) sample_world =
     (c\<lparr>co_rejected := co_rejected c + 1\<rparr>, drop_session ((accepted_session 0)\<lparr>ses_inbound := replicate 28 0\<rparr>), sample_world)"
proof -
  let ?s = "(accepted_session 0)\<lparr>ses_inbound := replicate 28 0\<rparr>"
  obtain c where "fresh_start c" by (rule sample_service)
  have "read_u32 (replicate 28 0) = 0" by (simp add: read_u32_def upt_conv_Cons)
  then have "read_header (ses_inbound ?s) = Inl kBadMagic" by (simp add: read_header_def kWireMagic_def)
  moreover have "ses_used ?s" "\<not> pending_output ?s" "kHeaderBytes \<le> length (ses_inbound ?s)"
    by (simp_all add: accepted_session_def new_session_def pending_output_def kHeaderBytes_def)
  ultimately show ?thesis using framing_failure_closes [of ?s kBadMagic sample_ed_verify 7 "[]" "[]" c sample_world]
    by (intro exI [of _ c]) simp
qed

section \<open>Evidence that was attached and its recovery\<close>

lemma evidence_from_json_with_id:
  assumes "encodable_evidence es" "wf_id i"
  shows "evidence_from_json (evidence_to_json (es\<lparr>es_evidence_id := i\<rparr>)) =
    (if i = zero_id \<or> i = es_evidence_id (seal_evidence es) then Inr (seal_evidence es)
     else Inl kContractDigestMismatch)"
proof -
  let ?es = "es\<lparr>es_evidence_id := i\<rparr>"
  let ?obj = "object_of (evidence_to_json ?es)"
  note enc = assms(1) [unfolded encodable_evidence_def]
  have j: "evidence_to_json ?es = JObject ?obj"
    unfolding evidence_to_json_def by (rule json_sets_object) simp
  have generation: "read_evidence_generation ?obj = Inr (es_generation es)"
    using enc uint_positive [of "es_generation es"]
    by (simp add: read_evidence_generation_def evidence_members json_u64_def fits_int64_sint)
  have "rmap decode_entry (map entry_to_json (es_entries es)) = Inr (es_entries es)"
    using enc by (intro rmap_map) (simp add: list_all_iff decode_entry_to_json)
  then have items: "read_entries ?obj = Inr (es_entries es)"
    using enc by (simp add: read_entries_def evidence_members kMaxEvidenceEntries_def)
  have stated: "declared_id_ok (map_of ?obj ''evidence_id'') k =
      (if i = zero_id \<or> i = k then Inr () else Inl kContractDigestMismatch)" for k
    using parse_id_of_wf [OF assms(2)] by (auto simp: declared_id_ok_def evidence_members zero_id_def rcheck_def)
  have publisher: "read_parsed ?obj ''publisher'' parse_id zero_id = Inr (es_publisher es)"
    using enc by (simp add: read_parsed_def evidence_members parse_id_of_wf)
  have same: "\<lparr>es_evidence_id = zero_id, es_generation = es_generation es, es_epoch = es_epoch es,
      es_publisher = es_publisher es, es_produced_at_millis = es_produced_at_millis es,
      es_entries = es_entries es\<rparr> = es"
    using enc by simp
  from enc have "evidence_from_json (JObject ?obj) =
      (if i = zero_id \<or> i = es_evidence_id (seal_evidence es) then Inr (seal_evidence es) else Inl kContractDigestMismatch)"
    by (simp add: generation items Let_def read_natural_u64 [OF evidence_members(3)]
        read_natural_millis [OF evidence_members(5)] publisher same stated rbind_def)
  then show ?thesis by (simp only: j [symmetric])
qed

text \<open>
  The stamped set without its identity, which the derived identity should describe, and the identity
  that is stamped: the digest over the set with the identity that was submitted.
\<close>

definition unsealed :: "runtime \<Rightarrow> evidence_set \<Rightarrow> (nat \<Rightarrow> u64) \<Rightarrow> evidence_set" where
  "unsealed rt es clock = (stamp_evidence rt es clock)\<lparr>es_evidence_id := zero_id\<rparr>"

definition submitted_id :: "runtime \<Rightarrow> evidence_set \<Rightarrow> (nat \<Rightarrow> u64) \<Rightarrow> ident" where
  "submitted_id rt es clock =
     derive_evidence_id (evidence_digest ((unsealed rt es clock)\<lparr>es_evidence_id := es_evidence_id es\<rparr>))"

lemma replay_stamped:
  assumes "encodable_evidence (unsealed rt es clock)"
  shows "case replay_evidence (object_of (evidence_payload (stamp_evidence rt es clock) t)) st of
      Inr st' \<Rightarrow> submitted_id rt es clock \<in> {zero_id, derive_evidence_id (evidence_digest (unsealed rt es clock))}
    | Inl c \<Rightarrow> c = kLedgerCorrupt \<and>
        submitted_id rt es clock \<notin> {zero_id, derive_evidence_id (evidence_digest (unsealed rt es clock))}"
proof -
  let ?x = "unsealed rt es clock"
  define i where "i = submitted_id rt es clock"
  have stamped: "stamp_evidence rt es clock = ?x\<lparr>es_evidence_id := i\<rparr>"
    by (simp add: i_def submitted_id_def unsealed_def stamp_evidence_def Let_def)
  have wf: "wf_id i"
    unfolding i_def submitted_id_def derive_evidence_id_def
    by (rule from_digest_wf) (simp add: sha256_parts_def kSha256Bytes_def)
  note dec = evidence_from_json_with_id [OF assms wf]
  have sealed: "es_evidence_id (seal_evidence ?x) = derive_evidence_id (evidence_digest ?x)"
    by (simp add: seal_evidence_def)
  show ?thesis
    unfolding stamped replay_evidence_def payload_members(3) option.case dec i_def [symmetric]
    by (auto simp: sealed Let_def)
qed

text \<open>A boot after one more acknowledged request: the replay of its record decides.\<close>

lemma open_after:
  assumes "runtime_run ed rt evs" "list_all recoverable evs" "perform ed rt req clock io = (Inr s, rt')" "works io'"
  obtains st r where "rec_type r = record_number (event_type (event_of ed rt req clock))"
    "rec_payload r = dump (event_payload (event_of ed rt req clock))"
    "case apply_record r st of
       Inl c \<Rightarrow> fst (runtime_open (fresh_options (rt_directory rt') (rt_trust rt') age) io' now) = Inl c
     | Inr st' \<Rightarrow> \<exists>rt2. fst (runtime_open (fresh_options (rt_directory rt') (rt_trust rt') age) io' now) = Inr rt2"
proof -
  let ?ev = "event_of ed rt req clock"
  obtain st where st: "replay (journal_records zero_digest 1 (map event_entry evs)) new_state = Inr st"
    using run_replay [OF assms(1,2)] by blast
  define r where "r = frame_record (record_number (event_type ?ev)) (1 + of_nat (length evs))
      (dump (event_payload ?ev)) (genesis_chain (map event_entry evs))"
  have records: "journal_records zero_digest 1 (map event_entry (evs @ [?ev])) =
      journal_records zero_digest 1 (map event_entry evs) @ [r]"
    by (simp add: journal_append event_entry_def r_def)
  obtain l d report records where o:
    "ledger_open (rt_directory rt') (coordinator_identity (rt_trust rt')) (trust_digest (rt_trust rt')) io' = (Inr (l, report), d)"
    "head_epoch (led_head l) = ri_epoch (rt_info rt') + 1" "snapshot_start d l = Inr 0"
    "read_after d 0 = Inr (journal_records zero_digest 1 (map event_entry (evs @ [?ev])), records)"
    using run_durable [OF session_done [OF assms(1,3)]] assms(4) by (rule reopen)
  have replay: "replay (journal_records zero_digest 1 (map event_entry (evs @ [?ev]))) new_state = apply_record r st"
    unfolding records replay_def efold_append using st by (simp add: replay_def split: sum.split)
  show ?thesis
  proof (rule that [of r st])
    show "case apply_record r st of
       Inl c \<Rightarrow> fst (runtime_open (fresh_options (rt_directory rt') (rt_trust rt') age) io' now) = Inl c
     | Inr st' \<Rightarrow> \<exists>rt2. fst (runtime_open (fresh_options (rt_directory rt') (rt_trust rt') age) io' now) = Inr rt2"
      using o replay by (cases "apply_record r st") (simp_all add: runtime_open_def fresh_options_def Let_def rbind_def)
  qed (simp_all add: r_def frame_record_def)
qed

text \<open>
  C24: attached evidence can make a state directory unusable. The identity that
  \<^const>\<open>attach_evidence\<close> stamps is a digest over the set with the submitted identity in it
  (\<^const>\<open>submitted_id\<close>), while recovery recomputes it over the set with the zero identity. Take a
  run whose records all survive their own decoders (\<^const>\<open>recoverable\<close>), one more acknowledged
  attachment whose record is read back as JSON, and whose stamped set is within the bounds of the
  evidence decoder (\<^const>\<open>encodable_evidence\<close>: a non zero generation and an epoch below
  \<^verbatim>\<open>2 ^ 63\<close>, times within the decoder's range, a well formed publisher, at most 4096 entries, each
  encodable). Then the next boot on the directory, with a disk that works and the same trust set, is
  refused as corrupt exactly when the stamped identity is neither the recomputed nor the zero
  identity, and succeeds otherwise. That the two identities differ for a given submission is not
  proved here, since it needs the values of the digests.
\<close>

theorem attached_evidence_replay:
  assumes "runtime_run ed rt evs" "list_all recoverable evs"
    "perform ed rt (Attach es) clock io = (Inr s, rt')" "works io'"
    "readable_payload (event_payload (event_of ed rt (Attach es) clock))"
    "encodable_evidence (unsealed rt es clock)"
  shows "case fst (runtime_open (fresh_options (rt_directory rt') (rt_trust rt') age) io' now) of
      Inr rt2 \<Rightarrow> submitted_id rt es clock \<in> {zero_id, derive_evidence_id (evidence_digest (unsealed rt es clock))}
    | Inl c \<Rightarrow> c = kLedgerCorrupt \<and>
        submitted_id rt es clock \<notin> {zero_id, derive_evidence_id (evidence_digest (unsealed rt es clock))}"
proof -
  obtain st r where r: "rec_type r = record_number (event_type (event_of ed rt (Attach es) clock))"
    "rec_payload r = dump (event_payload (event_of ed rt (Attach es) clock))"
    and opened: "case apply_record r st of
       Inl c \<Rightarrow> fst (runtime_open (fresh_options (rt_directory rt') (rt_trust rt') age) io' now) = Inl c
     | Inr st' \<Rightarrow> \<exists>rt2. fst (runtime_open (fresh_options (rt_directory rt') (rt_trust rt') age) io' now) = Inr rt2"
    by (rule open_after [OF assms(1-4)])
  have "apply_record r st = replay_evidence (object_of (evidence_payload (stamp_evidence rt es clock)
      (clock (length (es_entries es))))) st"
    using apply_record_event [OF assms(5) r, of st] by simp
  with opened replay_stamped [OF assms(6), of "clock (length (es_entries es))" st] show ?thesis
    by (auto split: sum.splits)
qed

theorem attached_evidence_replay_witness:
  "\<exists>(rt :: runtime) s rt' rt2. perform sample_ed_verify rt (Attach sample_submission) (\<lambda>_. 5) IoDone = (Inr s, rt') \<and>
     fst (runtime_open (fresh_options (rt_directory rt') (rt_trust rt') 0) sample_io 9) = Inr rt2"
proof -
  obtain rt s rt' where run: "runtime_run sample_ed_verify rt []"
    "perform sample_ed_verify rt (Attach sample_submission) (\<lambda>_. 5) IoDone = (Inr s, rt')"
    "readable_payload (event_payload (event_of sample_ed_verify rt (Attach sample_submission) (\<lambda>_. 5)))"
    and rt: "length (ri_incarnation (rt_info rt)) = 16" "ri_epoch (rt_info rt) = 1"
    by (rule sample_submission_accepted)
  have enc: "encodable_evidence (unsealed rt sample_submission (\<lambda>_. 5))"
    by (simp add: rt unsealed_def stamp_evidence_def stamp_entry_def Let_def sample_submission_def encodable_evidence_def
        encodable_entry_def encodable_candidate_def empty_candidate_def has_any_dimension_def fits_int64_def millis_ok_def
        zero_id_wf sample_signer_def wf_id_def kSha256HexChars_def kSha256Bytes_def kLowerHexDigits_def list_all_iff
        kIncarnationBytes_def)
  have "(unsealed rt sample_submission (\<lambda>_. 5))\<lparr>es_evidence_id := es_evidence_id sample_submission\<rparr> =
      unsealed rt sample_submission (\<lambda>_. 5)"
    by (simp add: unsealed_def sample_submission_def)
  then have "submitted_id rt sample_submission (\<lambda>_. 5) =
      derive_evidence_id (evidence_digest (unsealed rt sample_submission (\<lambda>_. 5)))"
    by (simp add: submitted_id_def)
  with attached_evidence_replay [OF run(1) _ run(2) sample_wf(2) run(3) enc, of 0 9]
  obtain rt2 where "fst (runtime_open (fresh_options (rt_directory rt') (rt_trust rt') 0) sample_io 9) = Inr rt2"
    by (auto split: sum.splits)
  with run(2) show ?thesis by blast
qed

end
