(* ===== verification/Wnc_Sha512.thy ===== *)
theory Wnc_Sha512
  imports Wnc_Hash
begin

text \<open>
  SHA-512, \<^verbatim>\<open>src/hash512.cpp\<close>: the streaming \<^verbatim>\<open>Sha512\<close> class with its buffer and
  counters, the one shot functions, and the helpers of \<^verbatim>\<open>src/ed25519.cpp\<close> that stream a
  concatenation into one hasher. The theory interprets the interface of block hashing of
  \<^verbatim>\<open>Wnc_Hash\<close> and shows that the class computes the standard's padded, blockwise digest,
  in however many pieces a message is fed.
\<close>

section \<open>The compression function\<close>

text \<open>The eighty constants of the source, in decimal.\<close>

definition kSha512RoundConstants :: "u64 list" where
  "kSha512RoundConstants =
    [4794697086780616226, 8158064640168781261, 13096744586834688815, 16840607885511220156,
     4131703408338449720, 6480981068601479193, 10538285296894168987, 12329834152419229976,
     15566598209576043074, 1334009975649890238, 2608012711638119052, 6128411473006802146,
     8268148722764581231, 9286055187155687089, 11230858885718282805, 13951009754708518548,
     16472876342353939154, 17275323862435702243, 1135362057144423861, 2597628984639134821,
     3308224258029322869, 5365058923640841347, 6679025012923562964, 8573033837759648693,
     10970295158949994411, 12119686244451234320, 12683024718118986047, 13788192230050041572,
     14330467153632333762, 15395433587784984357, 489312712824947311, 1452737877330783856,
     2861767655752347644, 3322285676063803686, 5560940570517711597, 5996557281743188959,
     7280758554555802590, 8532644243296465576, 9350256976987008742, 10552545826968843579,
     11727347734174303076, 12113106623233404929, 14000437183269869457, 14369950271660146224,
     15101387698204529176, 15463397548674623760, 17586052441742319658, 1182934255886127544,
     1847814050463011016, 2177327727835720531, 2830643537854262169, 3796741975233480872,
     4115178125766777443, 5681478168544905931, 6601373596472566643, 7507060721942968483,
     8399075790359081724, 8693463985226723168, 9568029438360202098, 10144078919501101548,
     10430055236837252648, 11840083180663258601, 13761210420658862357, 14299343276471374635,
     14566680578165727644, 15097957966210449927, 16922976911328602910, 17689382322260857208,
     500013540394364858, 748580250866718886, 1242879168328830382, 1977374033974150939,
     2944078676154940804, 3659926193048069267, 4368137639120453308, 4836135668995329356,
     5532061633213252278, 6448918945643986474, 6902733635092675308, 7801388544844847127]"

definition rotate_right64 :: "u64 \<Rightarrow> nat \<Rightarrow> u64" where
  "rotate_right64 value shift = drop_bit shift value OR push_bit (64 - shift) value"

definition read_be64 :: "bytes \<Rightarrow> u64" where
  "read_be64 p = fold (\<lambda>b value. push_bit 8 value OR ucast b) (take 8 p) 0"

definition write_be64_bytes :: "u64 \<Rightarrow> bytes" where
  "write_be64_bytes value = map (\<lambda>i. ucast (drop_bit (8 * (7 - i)) value AND 0xFF)) [0..<8]"

text \<open>The message schedule \<^verbatim>\<open>w[80]\<close>: sixteen words of the block, then 64 derived ones.\<close>

definition block_words512 :: "bytes \<Rightarrow> u64 list" where
  "block_words512 block = map (\<lambda>i. read_be64 (drop (i * 8) block)) [0..<16]"

definition schedule_word512 :: "u64 list \<Rightarrow> nat \<Rightarrow> u64" where
  "schedule_word512 w i =
     (let x0 = w ! (i - 15); x1 = w ! (i - 2);
          s0 = rotate_right64 x0 1 XOR rotate_right64 x0 8 XOR drop_bit 7 x0;
          s1 = rotate_right64 x1 19 XOR rotate_right64 x1 61 XOR drop_bit 6 x1
      in w ! (i - 16) + s0 + w ! (i - 7) + s1)"

fun extend_schedule512 :: "nat \<Rightarrow> u64 list \<Rightarrow> u64 list" where
  "extend_schedule512 0 w = w"
| "extend_schedule512 (Suc n) w = extend_schedule512 n (w @ [schedule_word512 w (length w)])"

type_synonym sha512_regs = "u64 \<times> u64 \<times> u64 \<times> u64 \<times> u64 \<times> u64 \<times> u64 \<times> u64"

fun sha512_round :: "u64 \<Rightarrow> u64 \<Rightarrow> sha512_regs \<Rightarrow> sha512_regs" where
  "sha512_round k w (a, b, c, d, e, f, g, h) =
     (let s1 = rotate_right64 e 14 XOR rotate_right64 e 18 XOR rotate_right64 e 41;
          ch = (e AND f) XOR (NOT e AND g);
          temp1 = h + s1 + ch + k + w;
          s0 = rotate_right64 a 28 XOR rotate_right64 a 34 XOR rotate_right64 a 39;
          maj = (a AND b) XOR (a AND c) XOR (b AND c);
          temp2 = s0 + maj
      in (temp1 + temp2, a, b, c, d + temp1, e, f, g))"

fun sha512_rounds :: "u64 list \<Rightarrow> u64 list \<Rightarrow> sha512_regs \<Rightarrow> sha512_regs" where
  "sha512_rounds (k # ks) (w # ws) r = sha512_rounds ks ws (sha512_round k w r)"
| "sha512_rounds _ _ r = r"

fun add_regs512 :: "sha512_regs \<Rightarrow> sha512_regs \<Rightarrow> sha512_regs" where
  "add_regs512 (a, b, c, d, e, f, g, h) (a', b', c', d', e', f', g', h') =
     (a + a', b + b', c + c', d + d', e + e', f + f', g + g', h + h')"

definition compress512 :: "sha512_regs \<Rightarrow> bytes \<Rightarrow> sha512_regs" where
  "compress512 st block =
     add_regs512 st
       (sha512_rounds kSha512RoundConstants (extend_schedule512 64 (block_words512 block)) st)"

definition sha512_init :: sha512_regs where
  "sha512_init =
    (0x6a09e667f3bcc908, 0xbb67ae8584caa73b, 0x3c6ef372fe94f82b, 0xa54ff53a5f1d36f1,
     0x510e527fade682d1, 0x9b05688c2b3e6c1f, 0x1f83d9abfb41bd6b, 0x5be0cd19137e2179)"

section \<open>The streaming class\<close>

record sha512_hasher =
  s5_state :: sha512_regs
  s5_buffer :: bytes
  s5_total :: u64
  s5_finished :: bool

definition sha512_new :: sha512_hasher where
  "sha512_new = \<lparr>s5_state = sha512_init, s5_buffer = [], s5_total = 0, s5_finished = False\<rparr>"

function compress_blocks512 :: "sha512_regs \<Rightarrow> bytes \<Rightarrow> sha512_regs \<times> bytes" where
  "compress_blocks512 st bs =
     (if 128 \<le> length bs then compress_blocks512 (compress512 st (take 128 bs)) (drop 128 bs)
      else (st, bs))"
  by pat_completeness auto
termination by (relation "measure (length \<circ> snd)") auto

declare compress_blocks512.simps [simp del]

definition sha512_update :: "sha512_hasher \<Rightarrow> bytes \<Rightarrow> sha512_hasher" where
  "sha512_update h bs =
     (if s5_finished h then h
      else
        let total = s5_total h + of_nat (length bs);
            (st, buf, rest) =
              (if s5_buffer h \<noteq> [] then
                 let want = 128 - length (s5_buffer h);
                     n = min (length bs) want;
                     buf = s5_buffer h @ take n bs
                 in if length buf = 128 then (compress512 (s5_state h) buf, [], drop n bs)
                    else (s5_state h, buf, drop n bs)
               else (s5_state h, [], bs));
            (st, rest) = compress_blocks512 st rest
        in h\<lparr>s5_state := st, s5_buffer := (if rest \<noteq> [] then rest else buf),
             s5_total := total\<rparr>)"

fun regs_bytes512 :: "sha512_regs \<Rightarrow> bytes" where
  "regs_bytes512 (a, b, c, d, e, f, g, h) = concat (map write_be64_bytes [a, b, c, d, e, f, g, h])"

definition sha512_finish :: "sha512_hasher \<Rightarrow> sha512_hasher" where
  "sha512_finish h =
     (if s5_finished h then h
      else
        let bit_length = s5_total h * 8;
            buffered = length (s5_buffer h);
            pad_len = (if buffered < 112 then 112 - buffered else 240 - buffered);
            h1 = sha512_update h (take pad_len (0x80 # replicate 255 0));
            h2 = sha512_update h1 (replicate 8 0 @ write_be64_bytes bit_length)
        in h2\<lparr>s5_finished := True\<rparr>)"

definition sha512_digest :: "sha512_hasher \<Rightarrow> bytes" where
  "sha512_digest h = regs_bytes512 (s5_state (sha512_finish h))"

definition sha512 :: "bytes \<Rightarrow> bytes" where
  "sha512 bs = sha512_digest (sha512_update sha512_new bs)"

text \<open>
  \<^verbatim>\<open>sha512_parts\<close> prefixes each part with the low 32 bits of its length.
\<close>

definition sha512_part :: "string \<Rightarrow> sha512_hasher \<Rightarrow> sha512_hasher" where
  "sha512_part part h =
     sha512_update (sha512_update h (write_be32 (of_nat (length part)))) (bytes_of part)"

definition sha512_parts :: "string list \<Rightarrow> bytes" where
  "sha512_parts parts = sha512_digest (fold sha512_part parts sha512_new)"

text \<open>The concatenations of \<^verbatim>\<open>ed25519.cpp\<close>; empty ranges are skipped.\<close>

definition sha512_update_span :: "sha512_hasher \<Rightarrow> bytes \<Rightarrow> sha512_hasher" where
  "sha512_update_span h bs = (if length bs \<noteq> 0 then sha512_update h bs else h)"

definition sha512_of_two :: "bytes \<Rightarrow> bytes \<Rightarrow> bytes" where
  "sha512_of_two first second =
     sha512_digest (sha512_update_span (sha512_update_span sha512_new first) second)"

definition sha512_of_three :: "bytes \<Rightarrow> bytes \<Rightarrow> bytes \<Rightarrow> bytes" where
  "sha512_of_three first second third =
     sha512_digest (sha512_update_span (sha512_update_span (sha512_update_span sha512_new first) second) third)"

section \<open>The class computes the standard digest\<close>

interpretation s512: block_hash compress512 128 compress_blocks512
  by unfold_locales (simp, rule compress_blocks512.simps)

definition hasher512_ok :: "sha512_hasher \<Rightarrow> bool" where
  "hasher512_ok h = (length (s5_buffer h) < 128 \<and> \<not> s5_finished h)"

lemma hasher512_ok_new [simp]: "hasher512_ok sha512_new"
  by (simp add: hasher512_ok_def sha512_new_def)

lemma sha512_update_eq:
  assumes "hasher512_ok h"
  shows "sha512_update h bs =
    (case compress_blocks512 (s5_state h) (s5_buffer h @ bs) of
       (st, rest) \<Rightarrow> h\<lparr>s5_state := st, s5_buffer := rest, s5_total := s5_total h + of_nat (length bs)\<rparr>)"
  unfolding sha512_update_def Let_def
  using assms s512.absorb_eq [of "s5_buffer h"
      "\<lambda>st b. h\<lparr>s5_state := st, s5_buffer := b, s5_total := s5_total h + of_nat (length bs)\<rparr>"
      bs "s5_state h"]
  by (simp only: hasher512_ok_def if_False)

lemma hasher512_ok_update: "hasher512_ok h \<Longrightarrow> hasher512_ok (sha512_update h bs)"
  using s512.blocks_rest [of "s5_state h" "s5_buffer h @ bs"]
  by (cases "compress_blocks512 (s5_state h) (s5_buffer h @ bs)") (simp add: sha512_update_eq, simp add: hasher512_ok_def)

lemma sha512_update_append:
  assumes "hasher512_ok h"
  shows "sha512_update (sha512_update h as) bs = sha512_update h (as @ bs)"
proof -
  obtain st rest where 1: "compress_blocks512 (s5_state h) (s5_buffer h @ as) = (st, rest)"
    by fastforce
  show ?thesis
    using hasher512_ok_update [OF assms, of as] 1 s512.blocks_append [of "s5_state h" "s5_buffer h @ as" bs]
    by (simp add: sha512_update_eq assms ac_simps)
qed

lemma sha512_update_Nil: "hasher512_ok h \<Longrightarrow> sha512_update h [] = h"
  by (simp add: sha512_update_eq hasher512_ok_def s512.blocks_short)

lemma sha512_update_span_eq: "hasher512_ok h \<Longrightarrow> sha512_update_span h bs = sha512_update h bs"
  by (simp add: sha512_update_span_def sha512_update_Nil)

lemma length_regs_bytes512 [simp]: "length (regs_bytes512 r) = 64"
  by (cases r rule: regs_bytes512.cases) (simp add: write_be64_bytes_def)

lemma length_sha512 [simp]: "length (sha512 bs) = 64" "length (sha512_digest h) = 64"
  by (simp_all add: sha512_def sha512_digest_def)

text \<open>
  The padded message of FIPS 180-4, with a bit length below \<^verbatim>\<open>2^64\<close>; the digest of the
  standard is the fold of the compression function over its 128 byte blocks.
\<close>

definition sha512_padding :: "nat \<Rightarrow> bytes" where
  "sha512_padding n =
     0x80 # replicate ((239 - n mod 128) mod 128) 0 @ replicate 8 0 @ write_be64_bytes (of_nat n * 8)"

definition sha512_reference :: "bytes \<Rightarrow> bytes" where
  "sha512_reference bs = regs_bytes512 (fst (compress_blocks512 sha512_init (bs @ sha512_padding (length bs))))"

lemma pad_len_padding512:
  assumes "b < 128"
  shows "take (if b < 112 then 112 - b else 240 - b) (0x80 # replicate 255 0) = (0x80 :: u8) # replicate ((239 - b) mod 128) 0"
proof -
  have pt: "take m (0x80 # replicate 255 0) = (0x80 :: u8) # replicate (m - 1) 0" if "m \<noteq> 0" "m \<le> 256" for m
    using that by (cases m) (auto simp: min_def)
  show ?thesis
  proof (cases "b < 112")
    case True
    then have "(239 - b) mod 128 = (111 - b)" by (simp add: mod_if)
    with True show ?thesis by (simp add: pt)
  next
    case False
    with assms have "(239 - b) mod 128 = 239 - b" by simp
    with False assms show ?thesis by (simp add: pt)
  qed
qed

lemma sha512_digest_update:
  "sha512_digest (sha512_update sha512_new bs) = sha512_reference bs"
proof -
  let ?h = "sha512_update sha512_new bs"
  have ok: "hasher512_ok ?h" by (simp add: hasher512_ok_update)
  then have fin: "\<not> s5_finished ?h" by (simp add: hasher512_ok_def)
  have len: "length (s5_buffer ?h) = length bs mod 128" and total: "s5_total ?h = of_nat (length bs)"
    using s512.blocks_length [of sha512_init bs]
    by (cases "compress_blocks512 sha512_init bs"; simp add: sha512_update_eq, simp add: sha512_new_def)+
  have "sha512_finish ?h = (sha512_update sha512_new (bs @ sha512_padding (length bs)))\<lparr>s5_finished := True\<rparr>"
    using fin pad_len_padding512 [of "length bs mod 128"]
    by (simp add: sha512_finish_def Let_def len total sha512_padding_def
        sha512_update_append hasher512_ok_update del: take_Cons_numeral if_split)
  moreover have "s5_state (sha512_update sha512_new cs) = fst (compress_blocks512 sha512_init cs)" for cs
    by (cases "compress_blocks512 sha512_init cs") (simp add: sha512_update_eq, simp add: sha512_new_def)
  ultimately show ?thesis by (simp add: sha512_digest_def sha512_reference_def)
qed

text \<open>
  SHA-512 fed in any number of pieces is the digest of the standard over their concatenation:
  the padding, the blocks and the length of the whole message. In particular the two concatenations
  that Ed25519 hashes are the digests of the joined bytes, without length prefixes.
\<close>

theorem sha512_is_reference:
  "sha512_digest (fold (\<lambda>c h. sha512_update h c) cs sha512_new) = sha512_reference (concat cs) \<and>
   sha512 a = sha512_reference a \<and>
   sha512_of_two a b = sha512_reference (a @ b) \<and>
   sha512_of_three a b c = sha512_reference (a @ b @ c)"
proof -
  have "fold (\<lambda>c h. sha512_update h c) cs h = sha512_update h (concat cs)" if "hasher512_ok h" for h
    using that
    by (induction cs arbitrary: h) (simp_all add: sha512_update_Nil sha512_update_append hasher512_ok_update)
  then show ?thesis
    by (simp add: sha512_digest_update sha512_def sha512_of_two_def sha512_of_three_def
        sha512_update_span_eq hasher512_ok_update sha512_update_append)
qed

end
