(* ===== verification/Wnc_Field.thy ===== *)
theory Wnc_Field
  imports Wnc_Hash
begin

text \<open>
  Arithmetic modulo \<^verbatim>\<open>p = 2^255 - 19\<close> on eight 32 bit limbs: the first part of
  \<^verbatim>\<open>src/ed25519.cpp\<close>. The carry loops of the source are recursions over the limbs with the
  64 bit accumulators kept at their width. The lemmas read limbs as numbers (\<open>limbs\<close>), show that
  no accumulator overflows and that every operation returns the canonical representative of its
  result, and carry the operations over to the ring \<open>gf\<close> of the integers modulo \<open>p\<close>.
\<close>

section \<open>Limbs\<close>

type_synonym fe = "u32 list"

fun limbs :: "'a::len word list \<Rightarrow> nat" where
  "limbs [] = 0"
| "limbs (x # xs) = unat x + 2 ^ 32 * limbs xs"

definition kP :: fe where
  "kP = [0xFFFFFFED, 0xFFFFFFFF, 0xFFFFFFFF, 0xFFFFFFFF, 0xFFFFFFFF, 0xFFFFFFFF, 0xFFFFFFFF, 0x7FFFFFFF]"

definition kOne :: fe where "kOne = [1, 0, 0, 0, 0, 0, 0, 0]"

definition kZero :: fe where "kZero = [0, 0, 0, 0, 0, 0, 0, 0]"

definition kD :: fe where
  "kD = [0x135978A3, 0x75EB4DCA, 0x4141D8AB, 0x00700A4D, 0x7779E898, 0x8CC74079, 0x2B6FFE73, 0x52036CEE]"

definition kD2 :: fe where
  "kD2 = [0x26B2F159, 0xEBD69B94, 0x8283B156, 0x00E0149A, 0xEEF3D130, 0x198E80F2, 0x56DFFCE7, 0x2406D9DC]"

definition kSqrtM1 :: fe where
  "kSqrtM1 = [0x4A0EA0B0, 0xC4EE1B27, 0xAD2FE478, 0x2F431806, 0x3DFBD7A7, 0x2B4D0099, 0x4FC1DF0B, 0x2B832480]"

text \<open>The carry and borrow loops over the limbs; the last component is the carry or borrow out.\<close>

fun sub_limbs :: "u32 list \<Rightarrow> u32 list \<Rightarrow> u64 \<Rightarrow> u32 list \<times> u64" where
  "sub_limbs (a # as) (b # bs) borrow =
     (let difference = ucast a - ucast b - borrow :: u64;
          (out, borrow') = sub_limbs as bs (drop_bit 32 difference AND 1)
      in (ucast difference # out, borrow'))"
| "sub_limbs _ _ borrow = ([], borrow)"

fun add_limbs :: "u32 list \<Rightarrow> u32 list \<Rightarrow> u64 \<Rightarrow> u32 list \<times> u64" where
  "add_limbs (a # as) (b # bs) carry =
     (let total = ucast a + ucast b + carry :: u64;
          (out, carry') = add_limbs as bs (drop_bit 32 total)
      in (ucast total # out, carry'))"
| "add_limbs _ _ carry = ([], carry)"

definition fe_conditional_subtract_p :: "fe \<Rightarrow> fe" where
  "fe_conditional_subtract_p a =
     (let (reduced, borrow) = sub_limbs a kP 0;
          take_mask = 0 - (1 - ucast borrow) :: u32;
          keep_mask = NOT take_mask
      in map2 (\<lambda>x r. (x AND keep_mask) OR (r AND take_mask)) a reduced)"

definition fe_below_p :: "fe \<Rightarrow> bool" where
  "fe_below_p a = (snd (sub_limbs a kP 0) \<noteq> 0)"

definition fe_add :: "fe \<Rightarrow> fe \<Rightarrow> fe" where
  "fe_add a b = fe_conditional_subtract_p (fst (add_limbs a b 0))"

definition fe_sub :: "fe \<Rightarrow> fe \<Rightarrow> fe" where
  "fe_sub a b =
     (let (out, borrow) = sub_limbs a b 0
      in if borrow \<noteq> 0 then fst (add_limbs out kP 0) else out)"

definition fe_neg :: "fe \<Rightarrow> fe" where "fe_neg a = fe_sub kZero a"

text \<open>
  The schoolbook product. \<^verbatim>\<open>mul_row\<close> is the inner loop on the limbs from \<^verbatim>\<open>t[i]\<close> on,
  with the store of the carry in \<^verbatim>\<open>t[i + 8]\<close>; after row \<^verbatim>\<open>i\<close> the limb \<^verbatim>\<open>t[i]\<close> is
  final, and the next row works on the limbs after it.
\<close>

fun mul_row :: "u32 \<Rightarrow> u32 list \<Rightarrow> u64 list \<Rightarrow> u64 \<Rightarrow> u64 list" where
  "mul_row a (b # bs) (t # ts) carry =
     (let current = t + ucast a * ucast b + carry
      in (current AND 0xFFFFFFFF) # mul_row a bs ts (drop_bit 32 current))"
| "mul_row a [] (t # ts) carry = carry # ts"
| "mul_row a _ [] carry = []"

fun mul_rows :: "u32 list \<Rightarrow> u32 list \<Rightarrow> u64 list \<Rightarrow> u64 list" where
  "mul_rows (a # as) b t = (case mul_row a b t 0 of [] \<Rightarrow> [] | t0 # ts \<Rightarrow> t0 # mul_rows as b ts)"
| "mul_rows [] b t = t"

fun carry_pass :: "u64 list \<Rightarrow> u64 \<Rightarrow> u64 list \<times> u64" where
  "carry_pass (w # ws) carry =
     (let total = w + carry; (out, carry') = carry_pass ws (drop_bit 32 total)
      in ((total AND 0xFFFFFFFF) # out, carry'))"
| "carry_pass [] carry = ([], carry)"

fun add_low :: "u64 \<Rightarrow> u64 list \<Rightarrow> u64 list" where
  "add_low x (w # ws) = (w + x) # ws"
| "add_low x [] = []"

definition fe_mul :: "fe \<Rightarrow> fe \<Rightarrow> fe" where
  "fe_mul a b =
     (let t = mul_rows a b (replicate 16 0);
          w = map2 (\<lambda>x y. x + 38 * y) (take 8 t) (drop 8 t);
          (w, carry) = carry_pass w 0;
          w = add_low (38 * carry) w;
          (w, carry) = carry_pass w 0;
          w = add_low (38 * carry) w;
          out = map (\<lambda>x. ucast (x AND 0xFFFFFFFF)) w
      in fe_conditional_subtract_p (fe_conditional_subtract_p out))"

definition fe_sqr :: "fe \<Rightarrow> fe" where "fe_sqr a = fe_mul a a"

fun fe_square_times :: "fe \<Rightarrow> nat \<Rightarrow> fe" where
  "fe_square_times value 0 = value"
| "fe_square_times value (Suc n) = fe_square_times (fe_sqr value) n"

definition fe_pow_p58 :: "fe \<Rightarrow> fe" where
  "fe_pow_p58 a =
     (let q2 = fe_mul (fe_square_times a 1) a;
          q4 = fe_mul (fe_square_times q2 2) q2;
          q8 = fe_mul (fe_square_times q4 4) q4;
          q16 = fe_mul (fe_square_times q8 8) q8;
          q32 = fe_mul (fe_square_times q16 16) q16;
          q18 = fe_mul (fe_square_times q16 2) q2;
          q50 = fe_mul (fe_square_times q32 18) q18;
          q100 = fe_mul (fe_square_times q50 50) q50;
          q200 = fe_mul (fe_square_times q100 100) q100;
          q250 = fe_mul (fe_square_times q200 50) q50
      in fe_mul (fe_square_times q250 2) a)"

definition fe_invert :: "fe \<Rightarrow> fe" where
  "fe_invert a =
     (let z = fe_pow_p58 a; z8 = fe_square_times z 3; a3 = fe_mul (fe_sqr a) a
      in fe_mul z8 a3)"

definition fe_is_zero :: "fe \<Rightarrow> bool" where
  "fe_is_zero a = (fold (\<lambda>x acc. acc OR x) a 0 = 0)"

definition fe_equal :: "fe \<Rightarrow> fe \<Rightarrow> bool" where
  "fe_equal a b = (fold (\<lambda>(x, y) acc. acc OR (x XOR y)) (zip a b) 0 = 0)"

text \<open>Four bytes per limb, little-endian.\<close>

fun fe_from_bytes :: "bytes \<Rightarrow> u32 list" where
  "fe_from_bytes (b0 # b1 # b2 # b3 # bs) =
     (ucast b0 OR push_bit 8 (ucast b1) OR push_bit 16 (ucast b2) OR push_bit 24 (ucast b3)) # fe_from_bytes bs"
| "fe_from_bytes _ = []"

definition limb_bytes :: "u32 \<Rightarrow> bytes" where
  "limb_bytes x = [ucast (x AND 0xFF), ucast (drop_bit 8 x AND 0xFF),
     ucast (drop_bit 16 x AND 0xFF), ucast (drop_bit 24 x AND 0xFF)]"

definition fe_to_bytes :: "fe \<Rightarrow> bytes" where
  "fe_to_bytes a = concat (map limb_bytes a)"

section \<open>Reading limbs as numbers\<close>

lemma unat_u32_less: "unat (a :: u32) < 2 ^ 32"
  using unsigned_less [where 'a = nat, of a] by simp

lemma unat_u64_less: "unat (a :: u64) < 2 ^ 64"
  using unsigned_less [where 'a = nat, of a] by simp

lemma unat_widen: "unat (ucast (a :: u32) :: u64) = unat a"
  by (simp add: unsigned_ucast_eq take_bit_nat_eq_self unat_u32_less less_trans [OF unat_u32_less])

lemma unat_narrow: "unat (ucast (x :: u64) :: u32) = unat x mod 2 ^ 32"
  by (simp add: unsigned_ucast_eq take_bit_eq_mod)

lemma unat_low: "unat ((x :: u64) AND 0xFFFFFFFF) = unat x mod 2 ^ 32"
proof -
  have "(0xFFFFFFFF :: u64) = mask 32" by (simp add: mask_eq_decr_exp)
  then have "x AND 0xFFFFFFFF = take_bit 32 x" by (simp only: take_bit_eq_mask)
  then show ?thesis by (simp add: take_bit_eq_mod unat_mod)
qed

lemma unat_high: "unat (drop_bit 32 (x :: u64)) = unat x div 2 ^ 32"
  by (simp add: drop_bit_eq_div unat_div)

lemma unat_split: "unat (ucast x :: u32) + 2 ^ 32 * unat (drop_bit 32 x) = unat (x :: u64)"
  "unat (x AND 0xFFFFFFFF) + 2 ^ 32 * unat (drop_bit 32 x) = unat (x :: u64)"
  by (simp_all only: unat_narrow unat_low unat_high mod_mult_div_eq)

lemma unat_add3:
  assumes "unat (x :: u64) + unat y + unat z < 2 ^ 64"
  shows "unat (x + y + z) = unat x + unat y + unat z"
  using assms unat_add_lem [of x y] unat_add_lem [of "x + y" z] by simp

lemma low_high:
  assumes "n = x + 2 ^ 32 * k" "x < (2 ^ 32 :: nat)"
  shows "n mod 2 ^ 32 = x" "n div 2 ^ 32 = k"
  using assms by simp_all

lemma sub_step:
  fixes a b :: u32 and borrow :: u64
  assumes "unat borrow \<le> 1" and d: "d = ucast a - ucast b - borrow"
  shows "unat (ucast d :: u32) + (unat b + unat borrow) = unat a + 2 ^ 32 * unat (drop_bit 32 d AND 1)"
    "unat (drop_bit 32 d AND 1) \<le> 1"
proof -
  have ab: "unat a < 2 ^ 32" "unat b < 2 ^ 32" by (rule unat_u32_less)+
  have sum: "unat (ucast b + borrow) = unat b + unat borrow"
    using ab assms unat_add_lem [of "ucast b" borrow] by (simp add: unat_widen)
  have d': "d = ucast a - (ucast b + borrow)" using d by simp
  have one: "unat (x AND 1 :: u64) = unat x mod 2" for x
    by (simp add: and_one_eq unat_mod)
  show "unat (drop_bit 32 d AND 1) \<le> 1" by (simp add: one)
  show "unat (ucast d :: u32) + (unat b + unat borrow) = unat a + 2 ^ 32 * unat (drop_bit 32 d AND 1)"
  proof (cases "unat b + unat borrow \<le> unat a")
    case True
    then have "unat d = unat a - (unat b + unat borrow)"
      unfolding d' using sum by (simp add: unat_sub_if' unat_widen word_le_nat_alt)
    then show ?thesis using True ab by (simp add: unat_narrow one unat_high)
  next
    case False
    then have "unat d = 2 ^ 64 + unat a - (unat b + unat borrow)"
      unfolding d' using sum by (simp add: unat_sub_if' unat_widen word_le_nat_alt)
    then have "unat d = (2 ^ 32 + unat a - (unat b + unat borrow)) + 2 ^ 32 * (2 ^ 32 - 1)"
      using False ab assms(1) by simp
    moreover have "2 ^ 32 + unat a - (unat b + unat borrow) < 2 ^ 32" using False by simp
    ultimately have "unat d mod 2 ^ 32 = 2 ^ 32 + unat a - (unat b + unat borrow)" "unat d div 2 ^ 32 = 2 ^ 32 - 1"
      using low_high by blast+
    then show ?thesis using False ab assms(1) by (simp add: unat_narrow one unat_high)
  qed
qed


lemma add_step:
  fixes a b :: u32 and carry :: u64
  assumes "unat carry \<le> 1" and t: "t = ucast a + ucast b + carry"
  shows "unat (ucast t :: u32) + 2 ^ 32 * unat (drop_bit 32 t) = unat a + unat b + unat carry"
    "unat (drop_bit 32 t) \<le> 1"
proof -
  have ab: "unat a < 2 ^ 32" "unat b < 2 ^ 32" by (rule unat_u32_less)+
  have sum: "unat t = unat a + unat b + unat carry"
    unfolding t using ab assms(1) by (subst unat_add3) (simp_all add: unat_widen)
  then show "unat (ucast t :: u32) + 2 ^ 32 * unat (drop_bit 32 t) = unat a + unat b + unat carry"
    using unat_split(1) [of t] by simp
  show "unat (drop_bit 32 t) \<le> 1" 
    using less_mult_imp_div_less [of "unat t" 2 "2 ^ 32"] sum ab assms(1) unfolding unat_high by simp
qed

lemma sub_limbs_value:
  assumes "length a = length b" "unat borrow \<le> 1" "sub_limbs a b borrow = (out, borrow')"
  shows "limbs out + (limbs b + unat borrow) = limbs a + 2 ^ (32 * length a) * unat borrow'"
    "unat borrow' \<le> 1" "length out = length a"
proof -
  have "limbs out + (limbs b + unat borrow) = limbs a + 2 ^ (32 * length a) * unat borrow' \<and>
    unat borrow' \<le> 1 \<and> length out = length a"
    using assms
  proof (induction a b borrow arbitrary: out borrow' rule: sub_limbs.induct)
    case (1 a as b bs borrow)
    let ?d = "ucast a - ucast b - borrow :: u64"
    obtain out1 where rec: "sub_limbs as bs (drop_bit 32 ?d AND 1) = (out1, borrow')" "out = ucast ?d # out1"
      using 1(4) by (auto simp: Let_def split: prod.splits)
    note step = sub_step [OF 1(3) refl, of a b]
    have ih: "limbs out1 + (limbs bs + unat (drop_bit 32 ?d AND 1)) = limbs as + 2 ^ (32 * length as) * unat borrow' \<and>
        unat borrow' \<le> 1 \<and> length out1 = length as"
      using 1(1) [OF refl _ step(2) rec(1)] 1(2) by simp
    have "limbs out + (limbs (b # bs) + unat borrow) =
        (unat (ucast ?d :: u32) + (unat b + unat borrow)) + 2 ^ 32 * (limbs out1 + limbs bs)"
      by (simp add: rec(2))
    also have "\<dots> = unat a + 2 ^ 32 * (limbs out1 + (limbs bs + unat (drop_bit 32 ?d AND 1)))"
      unfolding step(1) by (simp add: distrib_left)
    also have "\<dots> = limbs (a # as) + 2 ^ (32 * length (a # as)) * unat borrow'"
      using ih by (simp add: distrib_left power_add)
    finally show ?case using ih rec(2) by simp
  qed auto
  then show "limbs out + (limbs b + unat borrow) = limbs a + 2 ^ (32 * length a) * unat borrow'"
    "unat borrow' \<le> 1" "length out = length a" by auto
qed

lemma add_limbs_value:
  assumes "length a = length b" "unat carry \<le> 1" "add_limbs a b carry = (out, carry')"
  shows "limbs out + 2 ^ (32 * length a) * unat carry' = limbs a + limbs b + unat carry"
    "length out = length a"
proof -
  have "limbs out + 2 ^ (32 * length a) * unat carry' = limbs a + limbs b + unat carry \<and> length out = length a"
    using assms
  proof (induction a b carry arbitrary: out carry' rule: add_limbs.induct)
    case (1 a as b bs carry)
    let ?t = "ucast a + ucast b + carry :: u64"
    obtain out1 where rec: "add_limbs as bs (drop_bit 32 ?t) = (out1, carry')" "out = ucast ?t # out1"
      using 1(4) by (auto simp: Let_def split: prod.splits)
    note step = add_step [OF 1(3) refl, of a b]
    have ih: "limbs out1 + 2 ^ (32 * length as) * unat carry' = limbs as + limbs bs + unat (drop_bit 32 ?t) \<and>
        length out1 = length as"
      using 1(1) [OF refl _ step(2) rec(1)] 1(2) by simp
    have "limbs out + 2 ^ (32 * length (a # as)) * unat carry' =
        unat (ucast ?t :: u32) + 2 ^ 32 * (limbs out1 + 2 ^ (32 * length as) * unat carry')"
      by (simp add: rec(2) distrib_left power_add)
    also have "\<dots> = (unat (ucast ?t :: u32) + 2 ^ 32 * unat (drop_bit 32 ?t)) + 2 ^ 32 * (limbs as + limbs bs)"
      using ih by (simp add: distrib_left)
    also have "\<dots> = limbs (a # as) + limbs (b # bs) + unat carry"
      unfolding step(1) by (simp add: distrib_left)
    finally show ?case using ih rec(2) by simp
  qed auto
  then show "limbs out + 2 ^ (32 * length a) * unat carry' = limbs a + limbs b + unat carry"
    "length out = length a" by auto
qed

lemma limbs_less: "limbs (a :: u32 list) < 2 ^ (32 * length a)"
proof (induction a)
  case (Cons x xs)
  have "unat x + 2 ^ 32 * limbs xs < 2 ^ 32 * (limbs xs + 1)" using unat_u32_less [of x] by simp
  also have "\<dots> \<le> 2 ^ 32 * 2 ^ (32 * length xs)" using Cons by (intro mult_left_mono) simp_all
  finally show ?case by (simp add: power_add)
qed simp

lemma limbs_inject: "length a = length b \<Longrightarrow> limbs a = limbs b \<longleftrightarrow> a = (b :: u32 list)"
proof (induction a b rule: list_induct2)
  case (Cons x xs y ys)
  have "unat x + 2 ^ 32 * limbs xs = unat y + 2 ^ 32 * limbs ys \<longleftrightarrow> unat x = unat y \<and> limbs xs = limbs ys"
  proof
    assume e: "unat x + 2 ^ 32 * limbs xs = unat y + 2 ^ 32 * limbs ys"
    have "(unat x + 2 ^ 32 * limbs xs) mod 2 ^ 32 = unat x" "(unat y + 2 ^ 32 * limbs ys) mod 2 ^ 32 = unat y"
      using unat_u32_less [of x] unat_u32_less [of y] by simp_all
    with e show "unat x = unat y \<and> limbs xs = limbs ys" by simp
  qed simp
  with Cons show ?case by (simp add: word_unat_eq_iff)
qed simp

section \<open>Addition and subtraction\<close>

definition prime_p :: nat where "prime_p = 2 ^ 255 - 19"

definition canonical :: "fe \<Rightarrow> bool" where
  "canonical a \<longleftrightarrow> length a = 8 \<and> limbs a < prime_p"

lemma limbs_kP: "limbs kP = prime_p" "length kP = 8"
  by (simp_all add: kP_def prime_p_def)

lemma prime_p_bounds: "0 < prime_p" "2 * prime_p < 2 ^ 256" "2 ^ 256 < 3 * prime_p"
  by (simp_all add: prime_p_def)

lemma borrow_cases: "unat (borrow :: u64) \<le> 1 \<Longrightarrow> borrow = 0 \<or> borrow = 1"
  by (metis le_numeral_extra(4) le_less less_one unat_0 unat_1 word_unat_eq_iff)

lemma sub_p:
  assumes "length a = 8" "sub_limbs a kP 0 = (reduced, borrow)"
  shows "length reduced = 8" "borrow = 0 \<Longrightarrow> prime_p \<le> limbs a \<and> limbs reduced = limbs a - prime_p"
    "borrow = 1 \<Longrightarrow> limbs a < prime_p" "borrow = 0 \<or> borrow = 1"
proof -
  note v = sub_limbs_value [OF _ _ assms(2)]
  show "length reduced = 8" using v(3) assms(1) by (simp add: limbs_kP)
  then have "limbs reduced < 2 ^ 256" using limbs_less [of reduced] by simp
  moreover have "limbs reduced + prime_p = limbs a + 2 ^ 256 * unat borrow"
    using v(1) assms(1) by (simp add: limbs_kP)
  ultimately show "borrow = 0 \<Longrightarrow> prime_p \<le> limbs a \<and> limbs reduced = limbs a - prime_p"
    "borrow = 1 \<Longrightarrow> limbs a < prime_p" by auto
  show "borrow = 0 \<or> borrow = 1" using v(2) assms(1) by (intro borrow_cases) (simp add: limbs_kP)
qed

lemma fe_below_p_exact:
  assumes "length a = 8"
  shows "fe_below_p a \<longleftrightarrow> limbs a < prime_p"
proof -
  obtain reduced borrow where s: "sub_limbs a kP 0 = (reduced, borrow)" by fastforce
  show ?thesis using sub_p [OF assms s] by (auto simp: fe_below_p_def s)
qed

lemma map2_select:
  "length as = length bs \<Longrightarrow> map2 (\<lambda>x r. (x AND 0) OR (r AND (-1))) as bs = (bs :: u32 list)"
  "length as = length bs \<Longrightarrow> map2 (\<lambda>x r. (x AND (-1)) OR (r AND 0)) as bs = (as :: u32 list)"
  by (simp_all add: map2_map_map) (induction as bs rule: list_induct2; simp)+

lemma conditional_subtract_value:
  assumes "length a = 8"
  shows "length (fe_conditional_subtract_p a) = 8"
    "limbs (fe_conditional_subtract_p a) = (if prime_p \<le> limbs a then limbs a - prime_p else limbs a)"
proof -
  obtain reduced borrow where s: "sub_limbs a kP 0 = (reduced, borrow)" by fastforce
  note r = sub_p [OF assms s]
  have "fe_conditional_subtract_p a = (if borrow = 0 then reduced else a)"
    using r(4) map2_select [of a reduced] assms r(1) by (auto simp: fe_conditional_subtract_p_def s)
  with r assms show "length (fe_conditional_subtract_p a) = 8"
    "limbs (fe_conditional_subtract_p a) = (if prime_p \<le> limbs a then limbs a - prime_p else limbs a)"
    by auto
qed

lemma conditional_subtract_mod:
  assumes "length a = 8" "limbs a < 2 * prime_p"
  shows "canonical (fe_conditional_subtract_p a)" "limbs (fe_conditional_subtract_p a) = limbs a mod prime_p"
  using conditional_subtract_value [OF assms(1)] assms(2) by (auto simp: canonical_def mod_if)

lemma fe_add_value:
  assumes "canonical a" "canonical b"
  shows "canonical (fe_add a b)" "limbs (fe_add a b) = (limbs a + limbs b) mod prime_p"
proof -
  obtain out carry where s: "add_limbs a b 0 = (out, carry)" by fastforce
  have len: "length a = 8" "length b = 8" and sum: "limbs a + limbs b < 2 * prime_p"
    using assms by (auto simp: canonical_def)
  have v: "limbs out + 2 ^ 256 * unat carry = limbs a + limbs b" "length out = 8"
    using add_limbs_value [OF _ _ s] len by simp_all
  then have "unat carry = 0" using sum prime_p_bounds by (cases "unat carry") simp_all
  with v sum conditional_subtract_mod [of out]
  show "canonical (fe_add a b)" "limbs (fe_add a b) = (limbs a + limbs b) mod prime_p"
    by (simp_all add: fe_add_def s)
qed

lemma fe_sub_value:
  assumes "canonical a" "canonical b"
  shows "canonical (fe_sub a b)" "limbs (fe_sub a b) = (limbs a + (prime_p - limbs b)) mod prime_p"
proof -
  obtain out borrow where s: "sub_limbs a b 0 = (out, borrow)" by fastforce
  have len: "length a = 8" "length b = 8" and ab: "limbs a < prime_p" "limbs b < prime_p"
    using assms by (auto simp: canonical_def)
  note v = sub_limbs_value [OF _ _ s]
  have v1: "limbs out + limbs b = limbs a + 2 ^ 256 * unat borrow" "length out = 8" "borrow = 0 \<or> borrow = 1"
    using v len borrow_cases by simp_all
  have "canonical (fe_sub a b) \<and> limbs (fe_sub a b) = (limbs a + (prime_p - limbs b)) mod prime_p"
  proof (cases "borrow = 0")
    case True
    then have "limbs a + (prime_p - limbs b) = limbs out + prime_p" using v1 ab by simp
    then show ?thesis using True v1 ab by (simp add: fe_sub_def s canonical_def)
  next
    case False
    obtain out2 carry where t: "add_limbs out kP 0 = (out2, carry)" by fastforce
    have w: "limbs out2 + 2 ^ 256 * unat carry = limbs out + prime_p" "length out2 = 8"
      using add_limbs_value [OF _ _ t] v1 limbs_kP by simp_all
    have e: "limbs out2 + 2 ^ 256 * unat carry + limbs b = limbs a + 2 ^ 256 + prime_p"
      using w v1 False by simp
    moreover have "limbs out < 2 ^ 256" "limbs out2 < 2 ^ 256"
      using limbs_less [of out] limbs_less [of out2] v1 w by simp_all
    ultimately have "unat carry = 1"
      using ab w prime_p_bounds v1 False by (cases "unat carry"; cases "unat carry - 1") simp_all
    with e have x: "limbs out2 + limbs b = limbs a + prime_p" by simp
    moreover have "limbs a < limbs b" using v1 False \<open>limbs out < 2 ^ 256\<close> by simp
    ultimately have "limbs out2 < prime_p" "limbs out2 = limbs a + (prime_p - limbs b)" using ab by simp_all
    then show ?thesis using w False by (simp add: fe_sub_def s t canonical_def)
  qed
  then show "canonical (fe_sub a b)" "limbs (fe_sub a b) = (limbs a + (prime_p - limbs b)) mod prime_p" by auto
qed

section \<open>The schoolbook product\<close>

definition small :: "u64 list \<Rightarrow> bool" where
  "small ts = list_all (\<lambda>x. unat x < 2 ^ 32) ts"

lemma small_simps [simp]: "small []" "small (x # xs) \<longleftrightarrow> unat x < 2 ^ 32 \<and> small xs"
  by (simp_all add: small_def)

lemma mul_step:
  fixes a b :: u32 and t carry cur :: u64
  assumes "unat t < 2 ^ 32" "unat carry < 2 ^ 32" and c: "cur = t + ucast a * ucast b + carry"
  shows "unat cur = unat t + unat a * unat b + unat carry" "unat (drop_bit 32 cur) < 2 ^ 32"
proof -
  have "unat a \<le> 2 ^ 32 - 1" "unat b \<le> 2 ^ 32 - 1" using unat_u32_less [of a] unat_u32_less [of b] by simp_all
  then have ab: "unat a * unat b \<le> (2 ^ 32 - 1) * (2 ^ 32 - 1)" by (rule mult_le_mono)
  then have p: "unat (ucast a * ucast b :: u64) = unat a * unat b"
    using unat_mult_lem [of "ucast a :: u64" "ucast b"] by (simp add: unat_widen)
  show "unat cur = unat t + unat a * unat b + unat carry"
    unfolding c by (subst unat_add3) (use assms ab p in simp_all)
  show "unat (drop_bit 32 cur) < 2 ^ 32"
    unfolding unat_high using unat_u64_less [of cur] by (intro less_mult_imp_div_less) simp
qed

lemma mul_row_value:
  assumes "length bs < length ts" "small ts" "unat carry < 2 ^ 32"
  shows "limbs (mul_row a bs ts carry) + 2 ^ (32 * length bs) * unat (ts ! length bs) =
      limbs ts + unat a * limbs bs + unat carry \<and>
    small (mul_row a bs ts carry) \<and> length (mul_row a bs ts carry) = length ts \<and>
    drop (Suc (length bs)) (mul_row a bs ts carry) = drop (Suc (length bs)) ts"
  using assms
proof (induction a bs ts carry rule: mul_row.induct)
  case (1 a b bs t ts carry)
  let ?c = "t + ucast a * ucast b + carry"
  have t: "unat t < 2 ^ 32" using 1 by simp
  note step = mul_step [OF t 1(4) refl, of a b]
  let ?rest = "mul_row a bs ts (drop_bit 32 ?c)"
  have ih: "limbs ?rest + 2 ^ (32 * length bs) * unat (ts ! length bs) =
      limbs ts + unat a * limbs bs + unat (drop_bit 32 ?c)" "small ?rest" "length ?rest = length ts"
    "drop (Suc (length bs)) ?rest = drop (Suc (length bs)) ts"
    using 1(1) [OF refl] 1(2,3) step(2) by simp_all
  have row: "mul_row a (b # bs) (t # ts) carry = (?c AND 0xFFFFFFFF) # ?rest" by (simp add: Let_def)
  have "limbs (mul_row a (b # bs) (t # ts) carry) + 2 ^ (32 * length (b # bs)) * unat ((t # ts) ! length (b # bs)) =
      unat (?c AND 0xFFFFFFFF) + 2 ^ 32 * (limbs ?rest + 2 ^ (32 * length bs) * unat (ts ! length bs))"
    unfolding row by (simp add: power_add distrib_left)
  also have "\<dots> = (unat (?c AND 0xFFFFFFFF) + 2 ^ 32 * unat (drop_bit 32 ?c)) + 2 ^ 32 * (limbs ts + unat a * limbs bs)"
    unfolding ih by (simp add: distrib_left)
  also have "\<dots> = limbs (t # ts) + unat a * limbs (b # bs) + unat carry"
    unfolding unat_split(2) step(1) by (simp add: distrib_left)
  finally show ?case using ih unat_low [of ?c] by (simp add: Let_def)
qed auto

lemma limbs_zero: "set ts \<subseteq> {0} \<Longrightarrow> limbs ts = 0"
  by (induction ts) auto

lemma mul_rows_value:
  assumes "length t = length as + length bs" "small t" "set (drop (length bs) t) \<subseteq> {0}"
  shows "limbs (mul_rows as bs t) = limbs t + limbs as * limbs bs \<and> small (mul_rows as bs t) \<and>
    length (mul_rows as bs t) = length t"
  using assms
proof (induction as bs t rule: mul_rows.induct)
  case (1 a as b t)
  have zero: "t ! length b = 0"
    using 1(2,4) by (metis add_Suc length_Cons less_add_Suc2 singletonD subsetD Cons_nth_drop_Suc list.set_intros(1))
  have row: "limbs (mul_row a b t 0) = limbs t + unat a * limbs b" "small (mul_row a b t 0)"
    "length (mul_row a b t 0) = length t" "drop (Suc (length b)) (mul_row a b t 0) = drop (Suc (length b)) t"
    using mul_row_value [of b t 0 a] 1(2,3) zero by simp_all
  obtain t0 ts where ts: "mul_row a b t 0 = t0 # ts" using row(3) 1(2) by (cases "mul_row a b t 0") auto
  have "set (drop (length b) ts) \<subseteq> set (drop (length b) t)"
    using row(4) ts by (simp add: set_drop_subset_set_drop)
  then have ih: "limbs (mul_rows as b ts) = limbs ts + limbs as * limbs b" "small (mul_rows as b ts)"
    "length (mul_rows as b ts) = length ts"
    using 1(1) [OF ts] 1(2,4) row ts by auto
  have "limbs (mul_rows (a # as) b t) = unat t0 + 2 ^ 32 * (limbs ts + limbs as * limbs b)"
    using ih(1) by (simp add: ts)
  also have "\<dots> = limbs t + limbs (a # as) * limbs b"
    using row(1) by (simp add: ts algebra_simps)
  finally show ?case using ih row ts by simp
qed simp

section \<open>Folding and multiplication\<close>

lemma carry_pass_value:
  assumes "list_all (\<lambda>w. unat w < 2 ^ 63) ws" "unat carry < 2 ^ 63" "carry_pass ws carry = (out, carry')"
  shows "limbs out + 2 ^ (32 * length ws) * unat carry' = limbs ws + unat carry \<and> small out \<and>
    length out = length ws"
  using assms
proof (induction ws carry arbitrary: out carry' rule: carry_pass.induct)
  case (1 w ws carry)
  let ?t = "w + carry"
  obtain out1 where rec: "carry_pass ws (drop_bit 32 ?t) = (out1, carry')" "out = (?t AND 0xFFFFFFFF) # out1"
    using 1(4) by (auto simp: Let_def split: prod.splits)
  have sum: "unat ?t = unat w + unat carry" using 1(2,3) unat_add_lem [of w carry] by simp
  have "unat (drop_bit 32 ?t) < 2 ^ 63"
    unfolding unat_high using unat_u64_less [of ?t] by (intro less_mult_imp_div_less) simp
  then have ih: "limbs out1 + 2 ^ (32 * length ws) * unat carry' = limbs ws + unat (drop_bit 32 ?t)" "small out1"
    "length out1 = length ws"
    using 1(1) [OF refl _ _ rec(1)] 1(2) by simp_all
  have "limbs out + 2 ^ (32 * length (w # ws)) * unat carry' =
      unat (?t AND 0xFFFFFFFF) + 2 ^ 32 * (limbs out1 + 2 ^ (32 * length ws) * unat carry')"
    by (simp add: rec(2) distrib_left power_add)
  also have "\<dots> = (unat (?t AND 0xFFFFFFFF) + 2 ^ 32 * unat (drop_bit 32 ?t)) + 2 ^ 32 * limbs ws"
    unfolding ih by (simp add: distrib_left)
  also have "\<dots> = limbs (w # ws) + unat carry" unfolding unat_split(2) sum by simp
  finally show ?case using ih rec(2) unat_low [of ?t] by simp
qed simp

lemma small_less: "small ts \<Longrightarrow> limbs ts < 2 ^ (32 * length ts)"
proof (induction ts)
  case (Cons x xs)
  then have "unat x + 2 ^ 32 * limbs xs < 2 ^ 32 * (limbs xs + 1)" by simp
  also have "\<dots> \<le> 2 ^ 32 * 2 ^ (32 * length xs)" using Cons by (intro mult_left_mono) simp_all
  finally show ?case by (simp add: power_add)
qed simp

lemma small_narrow: "small ts \<Longrightarrow> limbs (map (\<lambda>x. ucast (x AND 0xFFFFFFFF) :: u32) ts) = limbs ts"
  by (induction ts) (simp_all add: unat_narrow unat_low)

lemma fold_38:
  assumes "length lo = length hi" "small lo" "small hi"
  shows "limbs (map2 (\<lambda>x y. x + 38 * y) lo hi) = limbs lo + 38 * limbs hi"
    "list_all (\<lambda>w. unat w < 2 ^ 63) (map2 (\<lambda>x y. x + 38 * y) lo hi)"
proof -
  have one: "unat (x + 38 * y) = unat x + 38 * unat y" if "unat x < 2 ^ 32" "unat y < 2 ^ 32" for x y :: u64
  proof -
    have "unat (38 * y) = 38 * unat y" using that unat_mult_lem [of 38 y] by simp
    with that show ?thesis using unat_add_lem [of x "38 * y"] by simp
  qed
  have "limbs (map2 (\<lambda>x y. x + 38 * y) lo hi) = limbs lo + 38 * limbs hi \<and>
    list_all (\<lambda>w. unat w < 2 ^ 63) (map2 (\<lambda>x y. x + 38 * y) lo hi)"
    using assms
  proof (induction lo hi rule: list_induct2)
    case (Cons x xs y ys)
    then show ?case using one [of x y] by (simp add: distrib_left)
  qed simp
  then show "limbs (map2 (\<lambda>x y. x + 38 * y) lo hi) = limbs lo + 38 * limbs hi"
    "list_all (\<lambda>w. unat w < 2 ^ 63) (map2 (\<lambda>x y. x + 38 * y) lo hi)" by auto
qed

lemma add_low_value:
  assumes "small ws" "ws \<noteq> []" "unat x < 2 ^ 32"
  shows "limbs (add_low x ws) = limbs ws + unat x" "list_all (\<lambda>w. unat w < 2 ^ 63) (add_low x ws)"
    "length (add_low x ws) = length ws"
  using assms unat_add_lem [of "hd ws" x]
  by (cases ws; auto simp: small_def list_all_iff)+

lemma limbs_append: "limbs (xs @ ys) = limbs xs + 2 ^ (32 * length xs) * limbs ys"
  by (induction xs) (simp_all add: power_add distrib_left)

lemma mod_p_256: "(x + 2 ^ 256 * y) mod prime_p = (x + 38 * y) mod prime_p"
proof -
  have e: "x + 2 ^ 256 * y = (x + 38 * y) + prime_p * (2 * y)" by (simp add: prime_p_def)
  show ?thesis unfolding e by (rule mod_mult_self2)
qed

lemma fold_once:
  assumes "small ws" "length ws = 8" "unat carry \<le> 38" "carry_pass (add_low (38 * carry) ws) 0 = (out, carry')"
  shows "limbs out + 2 ^ 256 * unat carry' = limbs ws + 38 * unat carry" "small out" "length out = 8"
proof -
  have ne: "ws \<noteq> []" using assms(2) by auto
  have c: "unat (38 * carry) = 38 * unat carry" using assms(3) unat_mult_lem [of 38 carry] by simp
  have low: "limbs (add_low (38 * carry) ws) = limbs ws + 38 * unat carry"
    "list_all (\<lambda>w. unat w < 2 ^ 63) (add_low (38 * carry) ws)" "length (add_low (38 * carry) ws) = 8"
    using add_low_value [of ws "38 * carry"] assms ne c by auto
  show "limbs out + 2 ^ 256 * unat carry' = limbs ws + 38 * unat carry" "small out" "length out = 8"
    using carry_pass_value [OF low(2) _ assms(4)] low by simp_all
qed

lemma last_fold:
  assumes "small ws" "length ws = 8" "limbs ws + 2 ^ 256 * unat carry < 2 ^ 256 + 2 ^ 31" "unat carry \<le> 1"
  shows "limbs (map (\<lambda>x. ucast (x AND 0xFFFFFFFF) :: u32) (add_low (38 * carry) ws)) = limbs ws + 38 * unat carry"
proof (cases "unat carry = 0")
  case True
  then have "add_low (38 * carry) ws = ws" using assms(2) by (cases ws) (simp_all add: unat_eq_zero)
  with True show ?thesis using small_narrow [OF assms(1)] by simp
next
  case False
  with assms(4) have c: "unat carry = 1" "carry = 1" using borrow_cases [of carry] by auto
  with assms(3) have w: "limbs ws < 2 ^ 31" by simp
  obtain x xs where ws: "ws = x # xs" using assms(2) by (cases ws) auto
  with w have x: "unat x < 2 ^ 31" by simp
  then have s: "unat (x + 38) = unat x + 38" using unat_add_lem [of x 38] by simp
  with x assms(1) ws have "small ((x + 38) # xs)" by simp
  from small_narrow [OF this] show ?thesis using s by (simp add: ws c)
qed

lemma fe_mul_value:
  assumes "canonical a" "canonical b"
  shows "canonical (fe_mul a b)" "limbs (fe_mul a b) = (limbs a * limbs b) mod prime_p"
proof -
  have len: "length a = 8" "length b = 8" using assms by (auto simp: canonical_def)
  let ?t = "mul_rows a b (replicate 16 0)"
  have rep: "small (replicate 16 0)" "limbs (replicate 16 (0 :: u64)) = 0"
    by (simp_all add: small_def limbs_zero list_all_iff)
  have t: "limbs ?t = limbs a * limbs b" "small ?t" "length ?t = 16"
    using mul_rows_value [of "replicate 16 0" a b] len rep by simp_all
  let ?lo = "take 8 ?t" and ?hi = "drop 8 ?t"
  have parts: "length ?lo = 8" "length ?hi = 8" "small ?lo" "small ?hi"
    using t by (auto simp: small_def list_all_iff dest: in_set_takeD in_set_dropD)
  have ab: "limbs a * limbs b = limbs ?lo + 2 ^ 256 * limbs ?hi"
    using t(1) limbs_append [of ?lo ?hi] parts by simp
  let ?w = "map2 (\<lambda>x y. x + 38 * y) ?lo ?hi"
  note w = fold_38 [OF _ parts(3,4)]
  obtain w1 c1 where p1: "carry_pass ?w 0 = (w1, c1)" by fastforce
  have v1: "limbs w1 + 2 ^ 256 * unat c1 = limbs ?lo + 38 * limbs ?hi" "small w1" "length w1 = 8"
    using carry_pass_value [OF w(2) _ p1] w(1) parts by simp_all
  have "limbs ?lo < 2 ^ 256" "limbs ?hi < 2 ^ 256" using small_less parts by fastforce+
  then have c1: "unat c1 \<le> 38" using v1(1) by simp
  obtain w2 c2 where p2: "carry_pass (add_low (38 * c1) w1) 0 = (w2, c2)" by fastforce
  note v2 = fold_once [OF v1(2,3) c1 p2]
  have "limbs w1 < 2 ^ 256" "limbs w2 < 2 ^ 256" using small_less v1 v2 by fastforce+
  then have bound: "limbs w2 + 2 ^ 256 * unat c2 < 2 ^ 256 + 1445" using v2(1) c1 by simp
  then have c2: "unat c2 \<le> 1" by simp
  let ?out = "map (\<lambda>x. ucast (x AND 0xFFFFFFFF) :: u32) (add_low (38 * c2) w2)"
  have out: "limbs ?out = limbs w2 + 38 * unat c2" using last_fold [OF v2(2,3) _ c2] bound by simp
  have len8: "length ?out = 8" using v2(3) by (cases w2) simp_all
  have "limbs ?out < 2 ^ 256" using limbs_less [of ?out] len8 by simp
  then have less: "limbs ?out < 3 * prime_p" using prime_p_bounds by linarith
  have "limbs ?out mod prime_p = (limbs w2 + 2 ^ 256 * unat c2) mod prime_p"
    unfolding mod_p_256 out ..
  also have "\<dots> = (limbs w1 + 2 ^ 256 * unat c1) mod prime_p" unfolding v2(1) mod_p_256 ..
  also have "\<dots> = (limbs a * limbs b) mod prime_p" unfolding v1(1) ab mod_p_256 ..
  finally have val: "limbs ?out mod prime_p = (limbs a * limbs b) mod prime_p" .
  let ?r = "fe_conditional_subtract_p ?out"
  have r: "length ?r = 8" "limbs ?r < 2 * prime_p" "limbs ?r mod prime_p = limbs ?out mod prime_p"
    using conditional_subtract_value [OF len8] less by (auto simp: le_mod_geq)
  have "fe_mul a b = fe_conditional_subtract_p ?r"
    by (simp add: fe_mul_def Let_def p1 p2)
  then show "canonical (fe_mul a b)" "limbs (fe_mul a b) = (limbs a * limbs b) mod prime_p"
    using conditional_subtract_mod [OF r(1,2)] r(3) val by simp_all
qed

section \<open>Powers, zero and equality\<close>

lemma fe_square_times_value:
  assumes "canonical a"
  shows "canonical (fe_square_times a n) \<and> limbs (fe_square_times a n) = limbs a ^ (2 ^ n) mod prime_p"
  using assms
proof (induction n arbitrary: a)
  case 0
  then show ?case by (simp add: canonical_def)
next
  case (Suc n)
  have s: "canonical (fe_sqr a)" "limbs (fe_sqr a) = (limbs a * limbs a) mod prime_p"
    using fe_mul_value [of a a] Suc(2) by (simp_all add: fe_sqr_def)
  have "(limbs a * limbs a) ^ 2 ^ n = limbs a ^ 2 ^ Suc n"
    by (simp add: power_mult power2_eq_square flip: power_add power_mult_distrib)
  then show ?case using Suc(1) [OF s(1)] s(2) by (simp add: power_mod)
qed

text \<open>A power of \<open>a\<close>: canonical, with the value of the power.\<close>

definition fe_is_power :: "fe \<Rightarrow> nat \<Rightarrow> fe \<Rightarrow> bool" where
  "fe_is_power x k a \<longleftrightarrow> canonical x \<and> limbs x = limbs a ^ k mod prime_p"

lemma fe_is_power_self: "canonical a \<Longrightarrow> fe_is_power a 1 a"
  by (simp add: fe_is_power_def canonical_def)

lemma fe_is_power_chain:
  assumes "fe_is_power x k a" "fe_is_power y m a"
  shows "fe_is_power (fe_mul (fe_square_times x n) y) (k * 2 ^ n + m) a"
proof -
  let ?s = "fe_square_times x n"
  have s: "canonical ?s" "limbs ?s = limbs a ^ (k * 2 ^ n) mod prime_p"
    using fe_square_times_value [of x n] assms(1) by (simp_all add: fe_is_power_def power_mod power_mult)
  have y: "canonical y" "limbs y = limbs a ^ m mod prime_p" using assms(2) by (simp_all add: fe_is_power_def)
  have "limbs (fe_mul ?s y) = limbs a ^ (k * 2 ^ n + m) mod prime_p"
    unfolding fe_mul_value(2) [OF s(1) y(1)] s(2) y(2) mod_mult_eq power_add ..
  then show ?thesis using fe_mul_value(1) [OF s(1) y(1)] by (simp add: fe_is_power_def)
qed

lemma fe_pow_p58_power:
  assumes "canonical a"
  shows "fe_is_power (fe_pow_p58 a) (2 ^ 252 - 3) a"
proof -
  note chain = fe_is_power_chain
  note q1 = fe_is_power_self [OF assms]
  note q2 = chain [OF q1 q1, of 1]
  note q4 = chain [OF q2 q2, of 2]
  note q8 = chain [OF q4 q4, of 4]
  note q16 = chain [OF q8 q8, of 8]
  note q32 = chain [OF q16 q16, of 16]
  note q18 = chain [OF q16 q2, of 2]
  note q50 = chain [OF q32 q18, of 18]
  note q100 = chain [OF q50 q50, of 50]
  note q200 = chain [OF q100 q100, of 100]
  note q250 = chain [OF q200 q50, of 50]
  note q252 = chain [OF q250 q1, of 2]
  show ?thesis using q252 by (simp add: fe_pow_p58_def Let_def del: fe_square_times.simps)
qed

lemma fe_invert_power:
  assumes "canonical a"
  shows "fe_is_power (fe_invert a) (prime_p - 2) a"
proof -
  have c: "fe_mul (fe_sqr a) a = fe_mul (fe_square_times a 1) a" by (simp add: fe_sqr_def)
  note a3 = fe_is_power_chain [OF fe_is_power_self [OF assms] fe_is_power_self [OF assms], of 1, folded c]
  show ?thesis
    using fe_is_power_chain [OF fe_pow_p58_power [OF assms] a3, of 3]
    by (simp add: fe_invert_def Let_def prime_p_def del: fe_square_times.simps)
qed

lemma fe_is_zero_exact: "length a = 8 \<Longrightarrow> fe_is_zero a \<longleftrightarrow> limbs a = 0"
proof -
  have "fold (\<lambda>x acc. acc OR x) xs (acc :: u32) = 0 \<longleftrightarrow> acc = 0 \<and> limbs xs = 0" for acc and xs :: "u32 list"
    by (induction xs arbitrary: acc) (auto simp: or_eq_0_iff unat_eq_zero)
  then show ?thesis by (simp add: fe_is_zero_def)
qed

lemma fe_equal_exact: "length a = length b \<Longrightarrow> fe_equal a b \<longleftrightarrow> a = b"
proof -
  assume len: "length a = length b"
  have x: "(x XOR y = 0) \<longleftrightarrow> x = y" for x y :: u32 by (metis xor.left_neutral xor_self_eq xor.assoc)
  have "fold (\<lambda>(x, y) acc. acc OR (x XOR y)) (zip a b) (acc :: u32) = 0 \<longleftrightarrow> acc = 0 \<and> a = b" for acc
    using len by (induction a b arbitrary: acc rule: list_induct2) (auto simp: or_eq_0_iff x)
  then show ?thesis by (simp add: fe_equal_def)
qed

section \<open>The ring of integers modulo \<^verbatim>\<open>p\<close>\<close>

typedef gf = "{x :: int. 0 \<le> x \<and> x < int prime_p}"
proof
  show "0 \<in> {x :: int. 0 \<le> x \<and> x < int prime_p}" using prime_p_bounds by simp
qed

setup_lifting type_definition_gf

instantiation gf :: comm_ring_1
begin

lift_definition zero_gf :: gf is 0 using prime_p_bounds by simp

lift_definition one_gf :: gf is 1 by (simp add: prime_p_def)

lift_definition plus_gf :: "gf \<Rightarrow> gf \<Rightarrow> gf" is "\<lambda>x y. (x + y) mod int prime_p"
  using prime_p_bounds by simp

lift_definition minus_gf :: "gf \<Rightarrow> gf \<Rightarrow> gf" is "\<lambda>x y. (x - y) mod int prime_p"
  using prime_p_bounds by simp

lift_definition uminus_gf :: "gf \<Rightarrow> gf" is "\<lambda>x. (- x) mod int prime_p"
  using prime_p_bounds by simp

lift_definition times_gf :: "gf \<Rightarrow> gf \<Rightarrow> gf" is "\<lambda>x y. (x * y) mod int prime_p"
  using prime_p_bounds by simp

instance
proof
  fix a b c :: gf
  show "a + b + c = a + (b + c)" by transfer (simp add: mod_simps add.assoc)
  show "a + b = b + a" by transfer (simp add: add.commute)
  show "0 + a = a" by transfer simp
  show "- a + a = 0" by transfer (simp add: mod_simps)
  show "a - b = a + - b" by transfer (simp add: mod_simps)
  show "a * b * c = a * (b * c)" by transfer (simp add: mod_simps mult.assoc)
  show "a * b = b * a" by transfer (simp add: mult.commute)
  show "1 * a = a" by transfer simp
  show "(a + b) * c = a * c + b * c" by transfer (simp add: mod_simps distrib_right)
  show "(0 :: gf) \<noteq> 1" by transfer simp
qed

end

lemma Rep_gf_of_nat: "Rep_gf (of_nat n) = int n mod int prime_p"
  by (induction n) (simp_all add: zero_gf.rep_eq plus_gf.rep_eq one_gf.rep_eq mod_simps add.commute)

lemma of_nat_gf_eq: "(of_nat m :: gf) = of_nat n \<longleftrightarrow> m mod prime_p = n mod prime_p"
  unfolding Rep_gf_inject [symmetric] Rep_gf_of_nat by (simp flip: of_nat_mod)

lemma of_nat_gf_mod [simp]: "(of_nat (n mod prime_p) :: gf) = of_nat n"
  by (simp add: of_nat_gf_eq)

lemma of_nat_gf_prime [simp]: "(of_nat prime_p :: gf) = 0"
  using of_nat_gf_eq [of prime_p 0] by simp

definition fe_val :: "fe \<Rightarrow> gf" where "fe_val a = of_nat (limbs a)"

lemma fe_val_inject: "canonical a \<Longrightarrow> canonical b \<Longrightarrow> fe_val a = fe_val b \<longleftrightarrow> a = b"
  by (simp add: fe_val_def of_nat_gf_eq canonical_def limbs_inject)

lemma fe_val_ops:
  assumes "canonical a" "canonical b"
  shows "fe_val (fe_add a b) = fe_val a + fe_val b" "fe_val (fe_sub a b) = fe_val a - fe_val b"
    "fe_val (fe_mul a b) = fe_val a * fe_val b"
proof -
  have "limbs b \<le> prime_p" using assms by (simp add: canonical_def)
  then have "(of_nat (prime_p - limbs b) :: gf) = - of_nat (limbs b)" by (simp add: of_nat_diff)
  then show "fe_val (fe_sub a b) = fe_val a - fe_val b"
    using assms by (simp add: fe_val_def fe_sub_value)
  show "fe_val (fe_add a b) = fe_val a + fe_val b" "fe_val (fe_mul a b) = fe_val a * fe_val b"
    using assms by (simp_all add: fe_val_def fe_add_value fe_mul_value)
qed

lemma canonical_constants [simp]: "canonical kZero" "canonical kOne" "canonical kD" "canonical kD2" "canonical kSqrtM1"
  by (simp_all add: canonical_def kZero_def kOne_def kD_def kD2_def kSqrtM1_def prime_p_def)

lemma fe_val_constants [simp]: "fe_val kZero = 0" "fe_val kOne = 1"
  by (simp_all add: fe_val_def kZero_def kOne_def)

lemma fe_val_kD2: "fe_val kD2 = fe_val kD + fe_val kD"
proof -
  have "limbs kD2 mod prime_p = (limbs kD + limbs kD) mod prime_p"
    by (simp add: kD_def kD2_def prime_p_def)
  then show ?thesis unfolding fe_val_def of_nat_add [symmetric] of_nat_gf_eq .
qed

lemma fe_val_kSqrtM1: "fe_val kSqrtM1 * fe_val kSqrtM1 = - 1"
proof -
  have "(limbs kSqrtM1 * limbs kSqrtM1 + 1) mod prime_p = 0 mod prime_p"
    by (simp add: kSqrtM1_def prime_p_def)
  then have "fe_val kSqrtM1 * fe_val kSqrtM1 + 1 = 0"
    unfolding fe_val_def using of_nat_gf_eq [of "limbs kSqrtM1 * limbs kSqrtM1 + 1" 0] by (simp add: add.commute)
  then show ?thesis by (simp add: eq_neg_iff_add_eq_0)
qed

lemma fe_val_kD: "fe_val kD * 121666 = - 121665"
proof -
  have "(limbs kD * 121666 + 121665) mod prime_p = 0 mod prime_p"
    by (simp add: kD_def prime_p_def)
  then have "fe_val kD * 121666 + 121665 = 0"
    unfolding fe_val_def using of_nat_gf_eq [of "limbs kD * 121666 + 121665" 0] by simp
  then show ?thesis by (simp add: eq_neg_iff_add_eq_0)
qed

lemma fe_canonical [simp]:
  assumes "canonical a" "canonical b"
  shows "canonical (fe_add a b)" "canonical (fe_sub a b)" "canonical (fe_mul a b)"
  using assms by (simp_all add: fe_add_value fe_sub_value fe_mul_value)

lemma fe_unary [simp]:
  assumes "canonical a"
  shows "canonical (fe_neg a)" "fe_val (fe_neg a) = - fe_val a" "canonical (fe_sqr a)"
    "fe_val (fe_sqr a) = fe_val a * fe_val a"
  using assms by (simp_all add: fe_neg_def fe_sqr_def fe_val_ops)

lemma fe_val_power: "fe_is_power x k a \<Longrightarrow> fe_val x = fe_val a ^ k"
  by (simp add: fe_is_power_def fe_val_def)

lemma fe_neg_value:
  assumes "canonical a"
  shows "limbs (fe_neg a) = (prime_p - limbs a) mod prime_p"
proof -
  have "canonical kZero" "limbs kZero = 0" by (simp_all add: kZero_def canonical_def prime_p_def)
  then show ?thesis using fe_sub_value(2) [of kZero a] assms by (simp add: fe_neg_def)
qed

text \<open>
  C15: field arithmetic on limbs. For canonical operands, eight limbs with a value below
  \<^verbatim>\<open>p = 2^255 - 19\<close>, addition, subtraction, negation, multiplication, the square root exponent and
  inversion return the canonical representative of the sum, the difference, the opposite, the
  product and the powers \<^verbatim>\<open>(p - 5) / 8\<close> and \<^verbatim>\<open>p - 2\<close> modulo \<^verbatim>\<open>p\<close>.
\<close>

theorem field_arithmetic_exact:
  assumes "canonical a" "canonical b"
  shows "limbs (fe_add a b) = (limbs a + limbs b) mod (2 ^ 255 - 19) \<and>
    limbs (fe_sub a b) = (limbs a + (2 ^ 255 - 19 - limbs b)) mod (2 ^ 255 - 19) \<and>
    limbs (fe_neg a) = (2 ^ 255 - 19 - limbs a) mod (2 ^ 255 - 19) \<and>
    limbs (fe_mul a b) = (limbs a * limbs b) mod (2 ^ 255 - 19) \<and>
    limbs (fe_pow_p58 a) = limbs a ^ (2 ^ 252 - 3) mod (2 ^ 255 - 19) \<and>
    limbs (fe_invert a) = limbs a ^ (2 ^ 255 - 21) mod (2 ^ 255 - 19) \<and>
    list_all canonical [fe_add a b, fe_sub a b, fe_neg a, fe_mul a b, fe_pow_p58 a, fe_invert a]"
proof -
  have "prime_p - 2 = 2 ^ 255 - 21" by (simp add: prime_p_def)
  then show ?thesis
    using fe_pow_p58_power [OF assms(1)] fe_invert_power [OF assms(1)] assms
    unfolding fe_is_power_def prime_p_def [symmetric]
    by (simp only: fe_add_value fe_sub_value fe_mul_value fe_neg_value fe_unary list.pred_inject simp_thms)
qed

theorem field_arithmetic_exact_witness:
  "limbs (fe_mul kSqrtM1 kSqrtM1) = (limbs kSqrtM1 * limbs kSqrtM1) mod (2 ^ 255 - 19) \<and>
   canonical (fe_invert kSqrtM1)"
  using field_arithmetic_exact [of kSqrtM1 kSqrtM1] by simp

end
