(* ===== verification/Wnc_Scalar.thy ===== *)
theory Wnc_Scalar
  imports Wnc_Field
begin

text \<open>
  Scalars modulo the group order \<^verbatim>\<open>L\<close>, the second part of \<^verbatim>\<open>src/ed25519.cpp\<close>: comparison,
  binary long division of 512 bit values, multiplication and addition, with the lemmas that give
  their values.
\<close>

section \<open>The operations\<close>

type_synonym scalar = "u32 list"

definition kL :: scalar where
  "kL = [0x5CF5D3ED, 0x5812631A, 0xA2F79CD6, 0x14DEF9DE, 0, 0, 0, 0x10000000]"

text \<open>Comparison from the most significant limb down.\<close>

fun compare_high :: "u32 list \<Rightarrow> u32 list \<Rightarrow> int" where
  "compare_high (a # as) (b # bs) =
     (if a \<noteq> b then (if a < b then -1 else 1) else compare_high as bs)"
| "compare_high _ _ = 0"

definition scalar_compare :: "scalar \<Rightarrow> scalar \<Rightarrow> int" where
  "scalar_compare a b = compare_high (rev a) (rev b)"

definition scalar_sub :: "scalar \<Rightarrow> scalar \<Rightarrow> scalar" where
  "scalar_sub a b = fst (sub_limbs a b 0)"

definition scalar_from_bytes :: "bytes \<Rightarrow> scalar" where
  "scalar_from_bytes bs = fe_from_bytes bs"

definition scalar_to_bytes :: "scalar \<Rightarrow> bytes" where
  "scalar_to_bytes a = concat (map limb_bytes a)"

text \<open>
  Binary long division. \<^verbatim>\<open>shift_in\<close> is the inner loop: one bit enters at the low end, the bit
  shifted out at the high end is dropped.
\<close>

fun shift_in :: "u32 list \<Rightarrow> u32 \<Rightarrow> u32 list" where
  "shift_in (r # rs) carry =
     (let shifted = push_bit 1 (ucast r :: u64) OR ucast carry
      in ucast shifted # shift_in rs (ucast (drop_bit 32 shifted)))"
| "shift_in [] carry = []"

fun reduce_bits :: "u32 list \<Rightarrow> nat \<Rightarrow> scalar \<Rightarrow> scalar" where
  "reduce_bits wide 0 remainder = remainder"
| "reduce_bits wide (Suc index) remainder =
     (let carry = drop_bit (index mod 32) (wide ! (index div 32)) AND 1;
          shifted = shift_in remainder carry
      in reduce_bits wide index
           (if 0 \<le> scalar_compare shifted kL then scalar_sub shifted kL else shifted))"

definition scalar_reduce :: "u32 list \<Rightarrow> scalar" where
  "scalar_reduce wide = reduce_bits wide 512 (replicate 8 0)"

definition scalar_from_wide_hash :: "bytes \<Rightarrow> scalar" where
  "scalar_from_wide_hash hash = scalar_reduce (fe_from_bytes hash)"

text \<open>The schoolbook product into sixteen 32 bit limbs, row by row as in \<^verbatim>\<open>fe_mul\<close>.\<close>

fun wide_row :: "u32 \<Rightarrow> u32 list \<Rightarrow> u32 list \<Rightarrow> u64 \<Rightarrow> u32 list" where
  "wide_row b (a # as) (w # ws) carry =
     (let current = ucast w + ucast a * ucast b + carry
      in ucast (current AND 0xFFFFFFFF) # wide_row b as ws (drop_bit 32 current))"
| "wide_row b [] (w # ws) carry = ucast carry # ws"
| "wide_row b _ [] carry = []"

fun wide_rows :: "u32 list \<Rightarrow> u32 list \<Rightarrow> u32 list \<Rightarrow> u32 list" where
  "wide_rows a (b # bs) wide =
     (case wide_row b a wide 0 of [] \<Rightarrow> [] | w # ws \<Rightarrow> w # wide_rows a bs ws)"
| "wide_rows a [] wide = wide"

definition scalar_mul :: "scalar \<Rightarrow> scalar \<Rightarrow> scalar" where
  "scalar_mul a b = scalar_reduce (wide_rows a b (replicate 16 0))"

definition scalar_add :: "scalar \<Rightarrow> scalar \<Rightarrow> scalar" where
  "scalar_add a b =
     (let sum = fst (add_limbs a b 0)
      in if 0 \<le> scalar_compare sum kL then scalar_sub sum kL else sum)"

section \<open>Comparison and division\<close>

definition order_l :: nat where
  "order_l = 2 ^ 252 + 27742317777372353535851937790883648493"

lemma limbs_kL: "limbs kL = order_l" "length kL = 8"
  by (simp_all add: kL_def order_l_def)

lemma order_l_bounds: "0 < order_l" "2 * order_l < 2 ^ 256"
  by (simp_all add: order_l_def)

lemma compare_high_exact:
  assumes "length as = length bs"
  shows "(compare_high as bs = -1 \<longleftrightarrow> limbs (rev as) < limbs (rev bs)) \<and>
    (0 \<le> compare_high as bs \<longleftrightarrow> limbs (rev bs) \<le> limbs (rev as))"
  using assms
proof (induction as bs rule: list_induct2)
  case (Cons a as b bs)
  have less: "limbs (rev as) < 2 ^ (32 * length as)" "limbs (rev bs) < 2 ^ (32 * length as)"
    using limbs_less [of "rev as"] limbs_less [of "rev bs"] Cons(1) by simp_all
  have top: "limbs (rev xs @ [x]) < limbs (rev ys @ [y])"
    if "x < y" "length xs = length ys" for x y :: u32 and xs ys
  proof -
    have "limbs (rev xs) < 2 ^ (32 * length xs)" using limbs_less [of "rev xs"] by simp
    then have "limbs (rev xs @ [x]) < 2 ^ (32 * length xs) * (unat x + 1)" by (simp add: limbs_append)
    also have "\<dots> \<le> 2 ^ (32 * length xs) * unat y"
      using that(1) by (intro mult_left_mono) (simp_all add: word_less_nat_alt)
    also have "\<dots> \<le> limbs (rev ys @ [y])" using that(2) by (simp add: limbs_append)
    finally show ?thesis .
  qed
  consider "a = b" | "a < b" | "b < a" by (meson linorder_less_linear)
  then show ?case
    using Cons top [of a b as bs] top [of b a bs as]
    by cases (auto simp: limbs_append)
qed simp

lemma scalar_compare_exact:
  "length a = length b \<Longrightarrow> 0 \<le> scalar_compare a b \<longleftrightarrow> limbs b \<le> limbs a"
  using compare_high_exact [of "rev a" "rev b"] by (simp add: scalar_compare_def)

lemma scalar_sub_value:
  assumes "length a = length b" "limbs b \<le> limbs a"
  shows "limbs (scalar_sub a b) = limbs a - limbs b" "length (scalar_sub a b) = length a"
proof -
  obtain out borrow where s: "sub_limbs a b 0 = (out, borrow)" by fastforce
  note v = sub_limbs_value [OF assms(1) _ s]
  have "limbs out + limbs b = limbs a + 2 ^ (32 * length a) * unat borrow" "unat borrow \<le> 1" "length out = length a"
    using v by simp_all
  moreover have "limbs out < 2 ^ (32 * length a)" using limbs_less [of out] v(3) by simp
  ultimately have "unat borrow = 0" "limbs out + limbs b = limbs a"
    using assms(2) by (cases "unat borrow"; simp)+
  with v(3) show "limbs (scalar_sub a b) = limbs a - limbs b" "length (scalar_sub a b) = length a"
    by (simp_all add: scalar_sub_def s)
qed

text \<open>One subtraction of the order brings a value below twice the order into range.\<close>

lemma subtract_order:
  assumes "length a = 8" "limbs a < 2 * order_l"
  shows "length (if 0 \<le> scalar_compare a kL then scalar_sub a kL else a) = 8 \<and>
    limbs (if 0 \<le> scalar_compare a kL then scalar_sub a kL else a) = limbs a mod order_l"
  using assms scalar_compare_exact [of a kL] scalar_sub_value [of a kL] by (auto simp: limbs_kL mod_if)

lemma shift_step:
  fixes r carry :: u32
  assumes "unat carry \<le> 1" and s: "s = push_bit 1 (ucast r :: u64) OR ucast carry"
  shows "unat (ucast s :: u32) + 2 ^ 32 * unat (ucast (drop_bit 32 s) :: u32) = 2 * unat r + unat carry"
    "unat (ucast (drop_bit 32 s) :: u32) \<le> 1"
proof -
  have r: "unat r < 2 ^ 32" by (rule unat_u32_less)
  have c: "carry = 0 \<or> carry = 1"
    using assms(1) by (metis le_numeral_extra(4) le_less less_one unat_0 unat_1 word_unat_eq_iff)
  have "push_bit 1 (ucast r :: u64) = 2 * ucast r" by (simp add: push_bit_eq_mult)
  moreover have "unat (2 * ucast r :: u64) = 2 * unat r"
    using r unat_mult_lem [of "2 :: u64" "ucast r"] by (simp add: unat_widen)
  moreover have "s = push_bit 1 (ucast r :: u64) + ucast carry"
  proof -
    have "push_bit 1 x AND 1 = (0 :: u64)" for x
      by (rule bit_word_eqI) (auto simp: bit_and_iff bit_push_bit_iff bit_1_iff simp del: push_bit_Suc)
    then have "push_bit 1 (ucast r :: u64) AND ucast carry = 0" using c by auto
    then show ?thesis unfolding s by (simp add: disjunctive_add_eq_or)
  qed
  ultimately have v: "unat s = 2 * unat r + unat carry"
    using r assms(1) unat_add_lem [of "2 * ucast r :: u64" "ucast carry"] by (simp add: unat_widen mult.commute)
  have h: "unat (drop_bit 32 s) \<le> 1"
    unfolding unat_high using less_mult_imp_div_less [of "unat s" 2 "2 ^ 32"] v r assms(1) by simp
  then have n: "unat (ucast (drop_bit 32 s) :: u32) = unat (drop_bit 32 s)" by (simp add: unat_narrow)
  show "unat (ucast (drop_bit 32 s) :: u32) \<le> 1" using h n by simp
  show "unat (ucast s :: u32) + 2 ^ 32 * unat (ucast (drop_bit 32 s) :: u32) = 2 * unat r + unat carry"
    unfolding n unat_split(1) v ..
qed


lemma shift_in_value:
  assumes "unat carry \<le> 1" "2 * limbs rs + unat carry < 2 ^ (32 * length rs)"
  shows "limbs (shift_in rs carry) = 2 * limbs rs + unat carry \<and> length (shift_in rs carry) = length rs"
  using assms
proof (induction rs carry rule: shift_in.induct)
  case (1 r rs carry)
  let ?s = "push_bit 1 (ucast r :: u64) OR ucast carry"
  let ?c = "ucast (drop_bit 32 ?s) :: u32"
  note step = shift_step [OF 1(2) refl, of r]
  have "2 ^ 32 * (2 * limbs rs + unat ?c) \<le> 2 * limbs (r # rs) + unat carry"
    using step(1) by simp
  also have "\<dots> < 2 ^ 32 * 2 ^ (32 * length rs)" using 1(3) by (simp add: power_add)
  finally have "2 * limbs rs + unat ?c < 2 ^ (32 * length rs)" by simp
  then have ih: "limbs (shift_in rs ?c) = 2 * limbs rs + unat ?c" "length (shift_in rs ?c) = length rs"
    using 1(1) [OF refl step(2)] by simp_all
  have "limbs (shift_in (r # rs) carry) = (unat (ucast ?s :: u32) + 2 ^ 32 * unat ?c) + 2 ^ 32 * (2 * limbs rs)"
    using ih(1) by (simp add: Let_def)
  also have "\<dots> = 2 * limbs (r # rs) + unat carry" unfolding step(1) by simp
  finally show ?case using ih(2) by (simp add: Let_def)
qed simp

text \<open>The bit of the dividend that enters at index \<^verbatim>\<open>i\<close>.\<close>

lemma wide_bit:
  assumes "i < 32 * length wide"
  shows "unat (drop_bit (i mod 32) (wide ! (i div 32)) AND 1 :: u32) = limbs wide div 2 ^ i mod 2"
  using assms
proof (induction wide arbitrary: i)
  case (Cons x xs)
  show ?case
  proof (cases "i < 32")
    case True
    have "(unat x + 2 ^ 32 * limbs xs) div 2 ^ i = unat x div 2 ^ i + 2 ^ (32 - i) * limbs xs"
    proof -
      have "(2 :: nat) ^ 32 = 2 ^ i * 2 ^ (32 - i)" using True by (simp flip: power_add)
      then have "unat x + 2 ^ 32 * limbs xs = unat x + 2 ^ i * (2 ^ (32 - i) * limbs xs)" by simp
      then show ?thesis by (simp only: div_mult_self2 power_not_zero zero_neq_numeral not_False_eq_True)
    qed
    moreover have "even ((2 :: nat) ^ (32 - i) * limbs xs)" using True by simp
    ultimately have "limbs (x # xs) div 2 ^ i mod 2 = unat x div 2 ^ i mod 2"
      by (simp add: mod2_eq_if)
    moreover have "unat (drop_bit i x AND 1) = unat x div 2 ^ i mod 2"
    proof -
      have "unat (drop_bit i x) = drop_bit i (unat x)"
        using unat_u32_less [of x] by (simp add: unsigned_drop_bit_eq take_bit_nat_eq_self)
      then show ?thesis by (simp add: and_one_eq unat_mod, simp add: drop_bit_eq_div)
    qed
    ultimately show ?thesis using True by simp
  next
    case False
    then have "i div 32 = Suc ((i - 32) div 32)" "i mod 32 = (i - 32) mod 32"
      by (simp_all add: div_if mod_if)
    moreover have "limbs (x # xs) div 2 ^ i = limbs xs div 2 ^ (i - 32)"
    proof -
      have "(2 :: nat) ^ i = 2 ^ 32 * 2 ^ (i - 32)" using power_add [of "2 :: nat" 32 "i - 32"] False by simp
      then show ?thesis using unat_u32_less [of x] by (simp add: div_mult2_eq)
    qed
    ultimately show ?thesis using Cons False by simp
  qed
qed simp

lemma reduce_bits_value:
  assumes "length wide = 16" "n \<le> 512" "length r = 8" "limbs r = limbs wide div 2 ^ n mod order_l"
  shows "length (reduce_bits wide n r) = 8 \<and> limbs (reduce_bits wide n r) = limbs wide mod order_l"
  using assms(2-4)
proof (induction n arbitrary: r)
  case (Suc n)
  let ?b = "drop_bit (n mod 32) (wide ! (n div 32)) AND 1"
  let ?q = "limbs wide div 2 ^ n"
  have b: "unat ?b = ?q mod 2" using wide_bit [of n wide] assms(1) Suc(2) by simp
  have half: "limbs wide div 2 ^ Suc n = ?q div 2" 
    by (simp only: power_Suc2 div_mult2_eq)
  have r: "limbs r < order_l" using Suc(4) order_l_bounds by simp
  have sh: "length (shift_in r ?b) = 8" "limbs (shift_in r ?b) = 2 * limbs r + ?q mod 2"
    using shift_in_value [of ?b r] b r order_l_bounds Suc(3) by simp_all
  have "limbs (shift_in r ?b) < 2 * order_l" using sh(2) r by (simp add: mod2_eq_if)
  note sub = subtract_order [OF sh(1) this]
  have "limbs (shift_in r ?b) mod order_l = (2 * (?q div 2) + ?q mod 2) mod order_l"
    unfolding sh(2) Suc(4) half by (metis mod_add_left_eq mod_mult_right_eq)
  then have "limbs (shift_in r ?b) mod order_l = ?q mod order_l" by simp
  then show ?case using Suc(1) [of "if 0 \<le> scalar_compare (shift_in r ?b) kL then scalar_sub (shift_in r ?b) kL else shift_in r ?b"]
      Suc(2) sub by (simp add: Let_def)
qed simp


lemma scalar_reduce_value:
  assumes "length wide = 16"
  shows "length (scalar_reduce wide) = 8" "limbs (scalar_reduce wide) = limbs wide mod order_l"
proof -
  have "limbs wide < 2 ^ 512" using limbs_less [of wide] assms by simp
  then have "limbs wide div 2 ^ 512 = 0" by simp
  then have "limbs (replicate 8 0 :: u32 list) = limbs wide div 2 ^ 512 mod order_l"
    using limbs_zero [of "replicate 8 0 :: u32 list"] by simp
  then show "length (scalar_reduce wide) = 8" "limbs (scalar_reduce wide) = limbs wide mod order_l"
    using reduce_bits_value [of wide 512 "replicate 8 0"] assms unfolding scalar_reduce_def by simp_all
qed

lemma wide_row_mul_row:
  assumes "unat carry < 2 ^ 32"
  shows "map ucast (wide_row b as ws carry) = mul_row b as (map ucast ws :: u64 list) carry"
  using assms
proof (induction b as ws carry rule: wide_row.induct)
  case (1 b a as w ws carry)
  let ?c = "ucast w + ucast a * ucast b + carry :: u64"
  have c: "ucast w + ucast b * ucast a + carry = ?c" by (simp add: mult.commute)
  have w: "unat (ucast w :: u64) < 2 ^ 32" using unat_u32_less [of w] by (simp add: unat_widen)
  have "(ucast (ucast (?c AND 0xFFFFFFFF) :: u32) :: u64) = ?c AND 0xFFFFFFFF"
    by (simp add: word_unat_eq_iff unat_widen unat_narrow unat_low)
  then show ?case
    using 1(1) [OF refl] mul_step(2) [OF w 1(2) refl, of b a] by (simp add: Let_def c)
next
  case (2 b w ws carry)
  then show ?case by (simp add: word_unat_eq_iff unat_widen unat_narrow)
qed simp

lemma wide_rows_mul_rows:
  "map ucast (wide_rows as bs ws) = mul_rows bs as (map ucast ws :: u64 list)"
proof (induction as bs ws rule: wide_rows.induct)
  case (1 a b bs ws)
  have "map ucast (wide_row b a ws 0) = mul_row b a (map ucast ws :: u64 list) 0"
    by (rule wide_row_mul_row) simp
  with 1 show ?case by (cases "wide_row b a ws 0") (simp_all flip: \<open>map ucast (wide_row b a ws 0) = _\<close>)
qed simp

lemma limbs_widen: "limbs (map ucast ws :: u64 list) = limbs (ws :: u32 list)"
  by (induction ws) (simp_all add: unat_widen)

lemma wide_product:
  assumes "length a = 8" "length b = 8"
  shows "length (wide_rows a b (replicate 16 0)) = 16" "limbs (wide_rows a b (replicate 16 0)) = limbs a * limbs b"
proof -
  let ?r = "wide_rows a b (replicate 16 0)"
  have m: "map ucast ?r = mul_rows b a (replicate 16 (0 :: u64))"
    using wide_rows_mul_rows [of a b "replicate 16 0"] by (simp add: map_replicate)
  have v: "limbs (mul_rows b a (replicate 16 0)) = limbs b * limbs a" "length (mul_rows b a (replicate 16 0)) = 16"
    using mul_rows_value [of "replicate 16 0" b a] assms limbs_zero [of "replicate 16 (0 :: u64)"]
    by (simp_all add: small_def list_all_iff)
  show "length ?r = 16" using v(2) m by (metis length_map)
  show "limbs ?r = limbs a * limbs b" using v(1) m limbs_widen [of ?r] by (simp add: mult.commute)
qed

lemma scalar_mul_value:
  assumes "length a = 8" "length b = 8"
  shows "length (scalar_mul a b) = 8" "limbs (scalar_mul a b) = limbs a * limbs b mod order_l"
  using scalar_reduce_value wide_product [OF assms] by (simp_all add: scalar_mul_def)

lemma scalar_add_value:
  assumes "length a = 8" "length b = 8" "limbs a < order_l" "limbs b < order_l"
  shows "length (scalar_add a b) = 8" "limbs (scalar_add a b) = (limbs a + limbs b) mod order_l"
proof -
  obtain out carry where s: "add_limbs a b 0 = (out, carry)" by fastforce
  have v: "limbs out + 2 ^ 256 * unat carry = limbs a + limbs b" "length out = 8"
    using add_limbs_value [OF _ _ s] assms by simp_all
  then have "unat carry = 0" using assms(3,4) order_l_bounds by (cases "unat carry") simp_all
  with v subtract_order [of out] assms(3,4)
  show "length (scalar_add a b) = 8" "limbs (scalar_add a b) = (limbs a + limbs b) mod order_l"
    by (simp_all add: scalar_add_def s Let_def)
qed

end
