(* ===== verification/Wnc_Point.thy ===== *)
theory Wnc_Point
  imports Wnc_Scalar
begin

text \<open>
  Points of edwards25519 in extended coordinates, the third part of \<^verbatim>\<open>src/ed25519.cpp\<close>:
  addition, doubling, encoding and decoding, the table of small multiples and the four bit window.
  The lemmas carry the coordinates over to the ring \<^verbatim>\<open>gf\<close>, show that the operations stay on
  the curve and follow its addition law, that decoding is inverse to encoding, and what the window
  schedule computes.
\<close>

section \<open>Bytes\<close>

lemma length_limb_bytes [simp]: "length (limb_bytes x) = 4"
  by (simp add: limb_bytes_def)

lemma length_fe_to_bytes [simp]: "length (fe_to_bytes a) = 4 * length a"
  by (induction a) (simp_all add: fe_to_bytes_def)

lemma fe_from_limb_bytes: "fe_from_bytes (limb_bytes x @ bs) = x # fe_from_bytes bs"
proof -
  let ?x = "ucast (ucast x :: u8) OR push_bit 8 (ucast (ucast (drop_bit 8 x) :: u8)) OR
      push_bit 16 (ucast (ucast (drop_bit 16 x) :: u8)) OR push_bit 24 (ucast (ucast (drop_bit 24 x) :: u8)) :: u32"
  have "?x = x"
  proof (rule bit_word_eqI)
    fix n assume n: "n < LENGTH(32)"
    consider "n < 8" | "8 \<le> n" "n < 16" | "16 \<le> n" "n < 24" | "24 \<le> n" by linarith
    then show "bit ?x n = bit x n" using n by cases (auto simp: bit_simps)
  qed
  then show ?thesis by (simp add: limb_bytes_def)
qed

lemma fe_from_to_bytes [simp]: "fe_from_bytes (fe_to_bytes a) = a"
  by (induction a) (simp_all add: fe_to_bytes_def fe_from_limb_bytes)

lemma limb_bytes_from:
  "limb_bytes (ucast b0 OR push_bit 8 (ucast b1) OR push_bit 16 (ucast b2) OR push_bit 24 (ucast b3)) = [b0, b1, b2, b3]"
proof -
  let ?x = "ucast b0 OR push_bit 8 (ucast b1) OR push_bit 16 (ucast b2) OR push_bit 24 (ucast b3) :: u32"
  have "(ucast ?x :: u8) = b0" "(ucast (drop_bit 8 ?x) :: u8) = b1" "(ucast (drop_bit 16 ?x) :: u8) = b2"
    "(ucast (drop_bit 24 ?x) :: u8) = b3"
    by (rule u8_eqI; simp add: bit_simps)+
  then show ?thesis by (simp add: limb_bytes_def)
qed

lemma fe_to_from_bytes: "4 dvd length bs \<Longrightarrow> fe_to_bytes (fe_from_bytes bs) = bs"
proof (induction bs rule: fe_from_bytes.induct)
  case (1 b0 b1 b2 b3 bs)
  then have "4 dvd length bs" by simp presburger
  with 1 show ?case by (simp add: fe_to_bytes_def limb_bytes_from)
qed (auto simp: fe_to_bytes_def dest: dvd_imp_le)

lemma length_fe_from_bytes [simp]: "length (fe_from_bytes bs) = length bs div 4"
  by (induction bs rule: fe_from_bytes.induct) simp_all

section \<open>Points\<close>

record point =
  px :: fe
  py :: fe
  pz :: fe
  pt :: fe

definition point_identity :: point where
  "point_identity = \<lparr>px = kZero, py = kOne, pz = kOne, pt = kZero\<rparr>"

definition point_add :: "point \<Rightarrow> point \<Rightarrow> point" where
  "point_add p q =
     (let a = fe_mul (fe_sub (py p) (px p)) (fe_sub (py q) (px q));
          b = fe_mul (fe_add (py p) (px p)) (fe_add (py q) (px q));
          c = fe_mul (fe_mul (pt p) (pt q)) kD2;
          d = fe_mul (fe_add (pz p) (pz p)) (pz q);
          e = fe_sub b a;
          f = fe_sub d c;
          g = fe_add d c;
          h = fe_add b a
      in \<lparr>px = fe_mul e f, py = fe_mul g h, pz = fe_mul f g, pt = fe_mul e h\<rparr>)"

definition point_double :: "point \<Rightarrow> point" where
  "point_double p =
     (let a = fe_sqr (px p);
          b = fe_sqr (py p);
          c = fe_add (fe_sqr (pz p)) (fe_sqr (pz p));
          d = fe_neg a;
          e = fe_sub (fe_sub (fe_sqr (fe_add (px p) (py p))) a) b;
          g = fe_add d b;
          f = fe_sub g c;
          h = fe_sub d b
      in \<lparr>px = fe_mul e f, py = fe_mul g h, pz = fe_mul f g, pt = fe_mul e h\<rparr>)"

definition point_is_identity :: "point \<Rightarrow> bool" where
  "point_is_identity p = (fe_is_zero (px p) \<and> fe_equal (py p) (pz p))"

definition point_equal :: "point \<Rightarrow> point \<Rightarrow> bool" where
  "point_equal p q =
     (fe_equal (fe_mul (px p) (pz q)) (fe_mul (px q) (pz p)) \<and>
      fe_equal (fe_mul (py p) (pz q)) (fe_mul (py q) (pz p)))"

definition point_to_bytes :: "point \<Rightarrow> bytes" where
  "point_to_bytes p =
     (let z_inverse = fe_invert (pz p);
          x = fe_mul (px p) z_inverse;
          y = fe_mul (py p) z_inverse;
          out = fe_to_bytes y
      in out[31 := out ! 31 OR ucast (push_bit 7 (x ! 0 AND 1))])"

definition point_from_bytes :: "bytes \<Rightarrow> point option" where
  "point_from_bytes bs =
     (let sign = ucast (drop_bit 7 (bs ! 31)) :: u32;
          y_bytes = bs[31 := bs ! 31 AND 0x7F];
          y = fe_from_bytes y_bytes
      in if \<not> fe_below_p y then None
         else
           let y2 = fe_sqr y;
               u = fe_sub y2 kOne;
               v = fe_add (fe_mul kD y2) kOne;
               v3 = fe_mul (fe_sqr v) v;
               v7 = fe_mul (fe_sqr v3) v;
               x = fe_mul (fe_pow_p58 (fe_mul u v7)) (fe_mul u v3);
               vx2 = fe_mul v (fe_sqr x)
           in if \<not> fe_equal vx2 u \<and> \<not> fe_equal vx2 (fe_neg u) then None
              else
                let x = (if fe_equal vx2 u then x else fe_mul x kSqrtM1)
                in if fe_is_zero x \<and> sign \<noteq> 0 then None
                   else
                     let x = (if x ! 0 AND 1 \<noteq> sign then fe_neg x else x)
                     in Some \<lparr>px = x, py = y, pz = kOne, pt = fe_mul x y\<rparr>)"

text \<open>
  The table of small multiples and the four bit window, over any addition and doubling: the
  schedule of the loops does not depend on what they work on.
\<close>

definition small_multiples :: "('p \<Rightarrow> 'p \<Rightarrow> 'p) \<Rightarrow> ('p \<Rightarrow> 'p) \<Rightarrow> 'p \<Rightarrow> 'p \<Rightarrow> 'p list" where
  "small_multiples add dbl zero base =
     fold (\<lambda>i table. table @ [if even i then dbl (table ! (i div 2)) else add (table ! (i - 1)) base])
       [2..<16] [zero, base]"

definition window_digit :: "bytes \<Rightarrow> nat \<Rightarrow> nat" where
  "window_digit bs window =
     (let packed = bs ! (window div 2)
      in if even window then unat (packed AND 0x0F) else unat (drop_bit 4 packed))"

fun window_loop ::
    "('p \<Rightarrow> 'p \<Rightarrow> 'p) \<Rightarrow> ('p \<Rightarrow> 'p) \<Rightarrow> 'p list \<Rightarrow> bytes \<Rightarrow> nat \<Rightarrow> 'p \<Rightarrow> 'p" where
  "window_loop add dbl table bs 0 result = result"
| "window_loop add dbl table bs (Suc window) result =
     (let result = (if window \<noteq> 63 then dbl (dbl (dbl (dbl result))) else result);
          digit = window_digit bs window;
          result = (if digit \<noteq> 0 then add result (table ! digit) else result)
      in window_loop add dbl table bs window result)"

definition window_mul :: "('p \<Rightarrow> 'p \<Rightarrow> 'p) \<Rightarrow> ('p \<Rightarrow> 'p) \<Rightarrow> 'p \<Rightarrow> scalar \<Rightarrow> 'p list \<Rightarrow> 'p" where
  "window_mul add dbl zero s table = window_loop add dbl table (scalar_to_bytes s) 64 zero"

definition point_small_multiples :: "point \<Rightarrow> point list" where
  "point_small_multiples base = small_multiples point_add point_double point_identity base"

definition point_window_mul :: "scalar \<Rightarrow> point list \<Rightarrow> point" where
  "point_window_mul s table = window_mul point_add point_double point_identity s table"

definition kBasePointBytes :: bytes where "kBasePointBytes = 0x58 # replicate 31 0x66"

definition base_point :: point where
  "base_point =
     (case point_from_bytes kBasePointBytes of Some p \<Rightarrow> p | None \<Rightarrow> point_identity)"

definition base_multiples :: "point list" where
  "base_multiples = point_small_multiples base_point"

definition point_scalar_mul_base :: "scalar \<Rightarrow> point" where
  "point_scalar_mul_base s = point_window_mul s base_multiples"

definition point_scalar_mul :: "scalar \<Rightarrow> point \<Rightarrow> point" where
  "point_scalar_mul s base = point_window_mul s (point_small_multiples base)"

section \<open>The curve\<close>

text \<open>The coordinates of a point as elements of the ring, and the curve in extended coordinates.\<close>

definition point_ok :: "point \<Rightarrow> bool" where
  "point_ok p \<longleftrightarrow> canonical (px p) \<and> canonical (py p) \<and> canonical (pz p) \<and> canonical (pt p)"

definition curve_d :: gf where "curve_d = fe_val kD"

definition on_curve :: "point \<Rightarrow> bool" where
  "on_curve p \<longleftrightarrow> point_ok p \<and>
     fe_val (py p) ^ 2 - fe_val (px p) ^ 2 = fe_val (pz p) ^ 2 + curve_d * fe_val (pt p) ^ 2 \<and>
     fe_val (px p) * fe_val (py p) = fe_val (pz p) * fe_val (pt p)"

lemma point_add_ok: "point_ok p \<Longrightarrow> point_ok q \<Longrightarrow> point_ok (point_add p q)"
  by (simp add: point_ok_def point_add_def Let_def)

lemma point_double_ok: "point_ok p \<Longrightarrow> point_ok (point_double p)"
  by (simp add: point_ok_def point_double_def Let_def)

lemma point_add_val:
  assumes "point_ok p" "point_ok q"
  defines "e \<equiv> fe_val (px p) * fe_val (py q) + fe_val (py p) * fe_val (px q)"
    and "h \<equiv> fe_val (py p) * fe_val (py q) + fe_val (px p) * fe_val (px q)"
    and "u \<equiv> fe_val (pz p) * fe_val (pz q)" and "k \<equiv> curve_d * (fe_val (pt p) * fe_val (pt q))"
  shows "fe_val (px (point_add p q)) = (2 * e) * (2 * (u - k))" "fe_val (py (point_add p q)) = (2 * (u + k)) * (2 * h)"
    "fe_val (pz (point_add p q)) = (2 * (u - k)) * (2 * (u + k))" "fe_val (pt (point_add p q)) = (2 * e) * (2 * h)"
  using assms(1,2) unfolding e_def h_def u_def k_def point_ok_def
  by (simp_all add: point_add_def Let_def fe_val_ops fe_val_kD2 curve_d_def algebra_simps)

lemma point_double_val:
  assumes "point_ok p"
  defines "x \<equiv> fe_val (px p)" and "y \<equiv> fe_val (py p)" and "z \<equiv> fe_val (pz p)"
  shows "fe_val (px (point_double p)) = (2 * x * y) * (y ^ 2 - x ^ 2 - 2 * z ^ 2)"
    "fe_val (py (point_double p)) = (y ^ 2 - x ^ 2) * (- (x ^ 2) - y ^ 2)"
    "fe_val (pz (point_double p)) = (y ^ 2 - x ^ 2 - 2 * z ^ 2) * (y ^ 2 - x ^ 2)"
    "fe_val (pt (point_double p)) = (2 * x * y) * (- (x ^ 2) - y ^ 2)"
  using assms(1) unfolding x_def y_def z_def point_ok_def
  by (simp_all add: point_double_def Let_def fe_val_ops algebra_simps power2_eq_square)

text \<open>The addition law keeps the curve equation: an identity in every commutative ring.\<close>

lemma addition_law:
  fixes x1 y1 z1 t1 x2 y2 z2 t2 d :: "'a::comm_ring_1"
  assumes c1: "y1 ^ 2 - x1 ^ 2 = z1 ^ 2 + d * t1 ^ 2" and m1: "x1 * y1 = z1 * t1"
    and c2: "y2 ^ 2 - x2 ^ 2 = z2 ^ 2 + d * t2 ^ 2" and m2: "x2 * y2 = z2 * t2"
  defines "e \<equiv> x1 * y2 + y1 * x2" and "h \<equiv> y1 * y2 + x1 * x2"
    and "u \<equiv> z1 * z2" and "k \<equiv> d * (t1 * t2)"
  shows "((u + k) * h) ^ 2 - (e * (u - k)) ^ 2 = ((u - k) * (u + k)) ^ 2 + d * (e * h) ^ 2"
proof -
  define S where "S = (y1 ^ 2 - x1 ^ 2) * (y2 ^ 2 - x2 ^ 2)"
  define V where "V = (x1 * y2) ^ 2 + (y1 * x2) ^ 2"
  define Q where "Q = (y1 * y2) ^ 2 + (x1 * x2) ^ 2"
  define w where "w = t1 * t2"
  note ring = algebra_simps power2_eq_square power4_eq_xxxx
  have hS: "h ^ 2 = e ^ 2 + S" unfolding h_def e_def S_def by (simp add: ring)
  have SQ: "S = Q - V" unfolding S_def Q_def V_def by (simp add: ring)
  have "e ^ 2 = V + 2 * (x1 * y1) * (x2 * y2)" unfolding e_def V_def by (simp add: ring)
  then have eV: "e ^ 2 = V + 2 * u * w" unfolding m1 m2 u_def w_def by (simp add: ring)
  have S: "S = (z1 ^ 2 + d * t1 ^ 2) * (z2 ^ 2 + d * t2 ^ 2)" unfolding S_def c1 c2 ..
  have q: "y ^ 4 + x ^ 4 = (y ^ 2 - x ^ 2) ^ 2 + 2 * (x * y) ^ 2" for x y :: 'a by (simp add: ring)
  have "V * Q = (x1 * y1) ^ 2 * (y2 ^ 4 + x2 ^ 4) + (x2 * y2) ^ 2 * (y1 ^ 4 + x1 ^ 4)"
    unfolding V_def Q_def by (simp add: ring)
  then have VQ: "V * Q = (z1 * t1) ^ 2 * ((z2 ^ 2 + d * t2 ^ 2) ^ 2 + 2 * (z2 * t2) ^ 2) +
      (z2 * t2) ^ 2 * ((z1 ^ 2 + d * t1 ^ 2) ^ 2 + 2 * (z1 * t1) ^ 2)"
    unfolding q c1 c2 m1 m2 .
  have k: "k = d * w" unfolding k_def w_def ..
  have "((u + k) * h) ^ 2 - (e * (u - k)) ^ 2 - d * (e * h) ^ 2 =
      (u + k) ^ 2 * (e ^ 2 + S) - e ^ 2 * (u - k) ^ 2 - d * (e ^ 2 * (e ^ 2 + S))"
    unfolding power_mult_distrib hS ..
  also have "\<dots> = (u ^ 2 + k ^ 2) * S - d * (V * Q) + 4 * u ^ 2 * k * w"
    unfolding SQ eV k by (simp add: ring)
  also have "\<dots> = ((u - k) * (u + k)) ^ 2"
    unfolding VQ S u_def k w_def by (simp add: ring)
  finally show ?thesis by (simp add: algebra_simps)
qed

lemma on_curve_ok: "on_curve p \<Longrightarrow> point_ok p"
  by (simp add: on_curve_def)

lemma point_add_on_curve:
  assumes "on_curve p" "on_curve q"
  shows "on_curve (point_add p q)"
proof -
  let ?e = "fe_val (px p) * fe_val (py q) + fe_val (py p) * fe_val (px q)"
  let ?h = "fe_val (py p) * fe_val (py q) + fe_val (px p) * fe_val (px q)"
  let ?u = "fe_val (pz p) * fe_val (pz q)"
  let ?k = "curve_d * (fe_val (pt p) * fe_val (pt q))"
  note val = point_add_val [OF assms [THEN on_curve_ok]]
  have "((?u + ?k) * ?h) ^ 2 - (?e * (?u - ?k)) ^ 2 = ((?u - ?k) * (?u + ?k)) ^ 2 + curve_d * (?e * ?h) ^ 2"
    using assms unfolding on_curve_def by (intro addition_law) simp_all
  moreover have "(2 * a * (2 * b)) ^ 2 = 16 * (a * b) ^ 2" for a b :: gf
    by (simp add: power2_eq_square algebra_simps)
  moreover have "16 * a - 16 * b = 16 * c + d * (16 * f)" if "a - b = c + d * f" for a b c d f :: gf
    using that by (metis (no_types, opaque_lifting) distrib_left mult.left_commute right_diff_distrib)
  ultimately have "fe_val (py (point_add p q)) ^ 2 - fe_val (px (point_add p q)) ^ 2 =
      fe_val (pz (point_add p q)) ^ 2 + curve_d * fe_val (pt (point_add p q)) ^ 2"
    unfolding val by (simp only:)
  moreover have "fe_val (px (point_add p q)) * fe_val (py (point_add p q)) =
      fe_val (pz (point_add p q)) * fe_val (pt (point_add p q))"
    unfolding val by (simp only: mult.assoc mult.left_commute mult.commute)
  ultimately show ?thesis
    using point_add_ok [OF assms [THEN on_curve_ok]] by (simp add: on_curve_def)
qed

lemma double_is_add:
  assumes "on_curve p"
  shows "fe_val (px (point_add p p)) = - 4 * fe_val (px (point_double p))"
    "fe_val (py (point_add p p)) = - 4 * fe_val (py (point_double p))"
    "fe_val (pz (point_add p p)) = - 4 * fe_val (pz (point_double p))"
    "fe_val (pt (point_add p p)) = - 4 * fe_val (pt (point_double p))"
proof -
  note ok = on_curve_ok [OF assms]
  have c: "fe_val (py p) ^ 2 = fe_val (px p) ^ 2 + fe_val (pz p) ^ 2 + curve_d * fe_val (pt p) ^ 2"
    using assms by (simp add: on_curve_def algebra_simps)
  show "fe_val (px (point_add p p)) = - 4 * fe_val (px (point_double p))"
    "fe_val (py (point_add p p)) = - 4 * fe_val (py (point_double p))"
    "fe_val (pz (point_add p p)) = - 4 * fe_val (pz (point_double p))"
    "fe_val (pt (point_add p p)) = - 4 * fe_val (pt (point_double p))"
    unfolding point_add_val [OF ok ok] point_double_val [OF ok] c
    by (simp_all add: c [unfolded power2_eq_square] power2_eq_square algebra_simps)
qed

lemma point_double_on_curve:
  assumes "on_curve p"
  shows "on_curve (point_double p)"
proof -
  note ok = on_curve_ok [OF assms]
  define x y z t where "x = fe_val (px p)" "y = fe_val (py p)" "z = fe_val (pz p)" "t = fe_val (pt p)"
  note val = point_double_val [OF ok, folded x_y_z_t_def]
  define G where "G = y ^ 2 - x ^ 2"
  define F where "F = G - 2 * z ^ 2"
  define E where "E = 2 * x * y"
  define H where "H = - (x ^ 2) - y ^ 2"
  have c: "G = z ^ 2 + curve_d * t ^ 2" and m: "x * y = z * t"
    using assms by (simp_all add: on_curve_def x_y_z_t_def G_def)
  have H: "H ^ 2 = G ^ 2 + E ^ 2" unfolding H_def G_def E_def by (simp add: power2_eq_square algebra_simps)
  have "E ^ 2 = 4 * (x * y) ^ 2" unfolding E_def by (simp add: power2_eq_square algebra_simps)
  then have F: "F ^ 2 = G ^ 2 - curve_d * E ^ 2"
    unfolding m F_def c by (simp add: power2_eq_square algebra_simps)
  have "(G * H) ^ 2 - (E * F) ^ 2 = (F * G) ^ 2 + curve_d * (E * H) ^ 2"
    unfolding power_mult_distrib H F by (simp add: algebra_simps)
  then show ?thesis
    using point_double_ok [OF ok]
    unfolding on_curve_def val G_def [symmetric] F_def [symmetric] E_def [symmetric] H_def [symmetric]
    by (simp add: ac_simps)
qed

section \<open>Decoding and encoding of points\<close>

lemma fe_mul_kOne: "canonical x \<Longrightarrow> fe_mul x kOne = x"
  by (simp add: fe_val_ops flip: fe_val_inject)

lemma fe_invert_kOne: "fe_invert kOne = kOne"
proof -
  have "limbs kOne = 1" "1 mod prime_p = 1" by (simp_all add: kOne_def prime_p_def)
  then have "limbs (fe_invert kOne) = limbs kOne" "length (fe_invert kOne) = 8"
    using fe_invert_power [OF canonical_constants(2)] by (auto simp: fe_is_power_def canonical_def)
  then show ?thesis using limbs_inject [of "fe_invert kOne" kOne] by (simp add: kOne_def)
qed

lemma limbs_kZero: "limbs kZero = 0"
  by (simp add: kZero_def)

lemma low_bit: "a \<noteq> [] \<Longrightarrow> unat (a ! 0 AND 1 :: u32) = limbs a mod 2"
proof -
  assume "a \<noteq> []"
  then obtain x xs where a: "a = x # xs" by (cases a) auto
  have "(unat x + 2 ^ 32 * limbs xs) mod 2 = unat x mod 2" by (simp add: mod2_eq_if)
  then show ?thesis by (simp add: a and_one_eq unat_mod)
qed

lemma sign_bit:
  "(b AND 0x7F) OR ucast (push_bit 7 (ucast (drop_bit 7 b) :: u32)) = (b :: u8)"
  "unat (ucast (drop_bit 7 b) :: u32) \<le> 1"
proof -
  show "(b AND 0x7F) OR ucast (push_bit 7 (ucast (drop_bit 7 b) :: u32)) = b"
    by (rule u8_eqI) (simp_all add: bit_simps)
  have "unat (ucast (drop_bit 7 b) :: u32) = unat (drop_bit 7 b)"
    using less_trans [OF unat_u8_less [of "drop_bit 7 b"], of "2 ^ 32"]
    by (simp add: unsigned_ucast_eq take_bit_nat_eq_self)
  also have "\<dots> = unat b div 128"
    by (simp add: drop_bit_eq_div unat_div)
  finally show "unat (ucast (drop_bit 7 b) :: u32) \<le> 1"
    using less_mult_imp_div_less [of "unat b" 2 128] by simp
qed


lemma point_from_bytes_decodes:
  assumes "length bs = 32" "point_from_bytes bs = Some p"
  shows "on_curve p" "pz p = kOne" "point_to_bytes p = bs"
proof -
  define sign :: u32 where "sign = ucast (drop_bit 7 (bs ! 31))"
  define ys where "ys = bs[31 := bs ! 31 AND 0x7F]"
  define y where "y = fe_from_bytes ys"
  define u where "u = fe_sub (fe_sqr y) kOne"
  define v where "v = fe_add (fe_mul kD (fe_sqr y)) kOne"
  define x0 where "x0 = fe_mul (fe_pow_p58 (fe_mul u (fe_mul (fe_sqr (fe_mul (fe_sqr v) v)) v))) (fe_mul u (fe_mul (fe_sqr v) v))"
  define vx2 where "vx2 = fe_mul v (fe_sqr x0)"
  define x1 where "x1 = (if fe_equal vx2 u then x0 else fe_mul x0 kSqrtM1)"
  define x2 where "x2 = (if x1 ! 0 AND 1 \<noteq> sign then fe_neg x1 else x1)"
  note parts = sign_def ys_def y_def u_def v_def x0_def vx2_def x1_def x2_def
  have below: "fe_below_p y" and root: "fe_equal vx2 u \<or> fe_equal vx2 (fe_neg u)"
    and nonzero: "\<not> (fe_is_zero x1 \<and> sign \<noteq> 0)"
    and p: "p = \<lparr>px = x2, py = y, pz = kOne, pt = fe_mul x2 y\<rparr>"
    using assms(2) unfolding point_from_bytes_def Let_def parts [symmetric] by (auto split: if_splits)
  have leny: "length ys = 32" "length y = 8" using assms(1) by (simp_all add: ys_def y_def)
  then have y: "canonical y" using below by (simp add: fe_below_p_exact canonical_def)
  have pow: "canonical (fe_pow_p58 a)" if "canonical a" for a
    using fe_pow_p58_power [OF that] by (simp add: fe_is_power_def)
  have uv: "canonical u" "canonical v" "canonical x0" "canonical vx2"
    using y by (simp_all add: u_def v_def x0_def vx2_def pow)
  then have x1: "canonical x1" by (simp add: x1_def)
  then have x2: "canonical x2" by (simp add: x2_def)
  have vals: "fe_val u = fe_val y * fe_val y - 1" "fe_val v = curve_d * (fe_val y * fe_val y) + 1"
    "fe_val vx2 = fe_val v * (fe_val x0 * fe_val x0)"
    using y uv by (simp_all add: u_def v_def vx2_def fe_val_ops curve_d_def)
  have len: "length vx2 = length u" "length vx2 = length (fe_neg u)"
    using uv fe_unary(1) [OF uv(1)] by (simp_all add: canonical_def)
  have "fe_val v * (fe_val x1 * fe_val x1) = fe_val u"
  proof (cases "fe_equal vx2 u")
    case True
    then show ?thesis using vals(3) len by (simp add: x1_def fe_equal_exact)
  next
    case False
    then have "fe_val vx2 = - fe_val u" using root len uv(1) by (simp add: fe_equal_exact)
    then have "fe_val v * (fe_val x0 * fe_val x0) * (fe_val kSqrtM1 * fe_val kSqrtM1) = fe_val u"
      unfolding vals(3) [symmetric] fe_val_kSqrtM1 by simp
    then show ?thesis using False uv(3) by (simp add: x1_def fe_val_ops ac_simps)
  qed
  then have "fe_val v * (fe_val x2 * fe_val x2) = fe_val u" using x1 by (simp add: x2_def)
  then have curve: "fe_val y * fe_val y - fe_val x2 * fe_val x2 =
      1 + curve_d * (fe_val x2 * fe_val x2 * (fe_val y * fe_val y))"
    unfolding vals by (simp add: algebra_simps)
  show "on_curve p" using x2 y curve
    by (simp add: on_curve_def point_ok_def p fe_val_ops power2_eq_square ac_simps)
  show "pz p = kOne" by (simp add: p)
  have sgn: "unat sign \<le> 1" unfolding sign_def by (rule sign_bit(2))
  have bit: "x2 ! 0 AND 1 = sign"
  proof (cases "x1 ! 0 AND 1 = sign")
    case True
    then show ?thesis by (simp add: x2_def)
  next
    case False
    have ne: "x1 \<noteq> []" "x2 \<noteq> []" "length x1 = 8" using x1 x2 by (auto simp: canonical_def)
    have "limbs x1 \<noteq> 0"
    proof
      assume "limbs x1 = 0"
      then have "fe_is_zero x1" "unat (x1 ! 0 AND 1) = 0" using ne by (simp_all add: fe_is_zero_exact low_bit)
      with nonzero False show False by (simp add: unat_eq_zero)
    qed
    moreover have "limbs x1 < prime_p" using x1 by (simp add: canonical_def)
    ultimately have "limbs (fe_neg x1) = prime_p - limbs x1"
      using fe_sub_value(2) [OF canonical_constants(1) x1] limbs_kZero by (simp add: fe_neg_def)
    then have "limbs x2 + limbs x1 = prime_p" using False \<open>limbs x1 < prime_p\<close> by (simp add: x2_def)
    then have "odd (limbs x2 + limbs x1)" by (simp add: prime_p_def)
    then have "limbs x2 mod 2 \<noteq> limbs x1 mod 2" by presburger
    moreover have "unat (x1 ! 0 AND 1) \<noteq> unat sign" using False by (simp only: word_unat_eq_iff not_False_eq_True)
    ultimately have "unat (x2 ! 0 AND 1) = unat sign"
      using sgn low_bit [OF ne(1)] low_bit [OF ne(2)] by linarith
    then show ?thesis by (simp only: word_unat_eq_iff)
  qed
  have "point_to_bytes p = (fe_to_bytes y)[31 := fe_to_bytes y ! 31 OR ucast (push_bit 7 sign)]"
    by (simp only: point_to_bytes_def p point.simps fe_invert_kOne fe_mul_kOne [OF x2] fe_mul_kOne [OF y] bit Let_def)
  also have "fe_to_bytes y = ys" using leny by (simp add: y_def fe_to_from_bytes)
  also have "ys[31 := ys ! 31 OR ucast (push_bit 7 sign)] = bs"
    using assms(1) sign_bit(1) [of "bs ! 31"] by (simp add: ys_def sign_def)
  finally show "point_to_bytes p = bs" .
qed

section \<open>The window schedule\<close>

text \<open>A byte string read as a little-endian number.\<close>

fun le_value :: "bytes \<Rightarrow> nat" where
  "le_value [] = 0"
| "le_value (b # bs) = unat b + 256 * le_value bs"

lemma le_value_limb: "le_value (limb_bytes x @ bs) = unat x + 2 ^ 32 * le_value bs"
proof -
  have horner: "a + 256 * (b + 256 * (c + 256 * d)) = n"
    if "d = q3" "a + 256 * q1 = n" "b + 256 * q2 = q1" "c + 256 * q3 = q2" for a b c d n q1 q2 q3 :: nat
    using that by simp
  have w: "unat (ucast (y :: u32) :: u8) = unat y mod 256" for y
    by (simp add: unsigned_ucast_eq take_bit_eq_mod)
  have d: "unat (drop_bit k x) = unat x div 2 ^ k" for k
  proof -
    have "unat (drop_bit k x) = drop_bit k (unat x)"
      using unat_u32_less [of x] by (simp add: unsigned_drop_bit_eq take_bit_nat_eq_self)
    then show ?thesis by (simp only: drop_bit_eq_div)
  qed
  have "unat x div 16777216 < 256"
    using unat_u32_less [of x] by (intro less_mult_imp_div_less) simp
  then have m24: "unat x div 16777216 mod 256 = unat x div 16777216" by simp
  have "unat x mod 256 + 256 * (unat x div 256) = unat x" by simp
  moreover have "unat x div 256 mod 256 + 256 * (unat x div 65536) = unat x div 256"
    using mod_mult_div_eq [of "unat x div 256" 256] by (simp flip: div_mult2_eq)
  moreover have "unat x div 65536 mod 256 + 256 * (unat x div 16777216) = unat x div 65536"
    using mod_mult_div_eq [of "unat x div 65536" 256] by (simp flip: div_mult2_eq)
  ultimately have "unat x mod 256 + 256 * (unat x div 256 mod 256 + 256 * (unat x div 65536 mod 256 +
      256 * (unat x div 16777216 mod 256))) = unat x" using horner [OF m24] by blast
  then show ?thesis
    by (simp add: limb_bytes_def w d m24)
qed

lemma le_value_to_bytes: "le_value (scalar_to_bytes s) = limbs s"
  by (induction s) (simp_all add: scalar_to_bytes_def le_value_limb)

lemma window_digit_step:
  "window_digit (b # bs) 0 = unat b mod 16" "window_digit (b # bs) (Suc 0) = unat b div 16"
  "window_digit (b # bs) (Suc (Suc j)) = window_digit bs j"
proof -
  have "(0x0F :: u8) = mask 4" by (simp add: mask_eq_decr_exp)
  then have "unat (b AND 0x0F) = unat b mod 16"
    by (simp only: take_bit_eq_mask [symmetric]) (simp add: take_bit_eq_mod unat_mod)
  then show "window_digit (b # bs) 0 = unat b mod 16" by (simp add: window_digit_def)
  have "unat (drop_bit 4 b) = unat b div 16" by (simp add: drop_bit_eq_div unat_div)
  then show "window_digit (b # bs) (Suc 0) = unat b div 16" by (simp add: window_digit_def)
  show "window_digit (b # bs) (Suc (Suc j)) = window_digit bs j" by (simp add: window_digit_def)
qed

lemma window_digits_value:
  "(\<Sum>j<2 * length bs. window_digit bs j * 16 ^ j) = le_value bs"
proof (induction bs)
  case (Cons b bs)
  have "(\<Sum>j<2 * length (b # bs). window_digit (b # bs) j * 16 ^ j) =
      unat b mod 16 + (unat b div 16 * 16 + (\<Sum>j<2 * length bs. window_digit bs j * (256 * 16 ^ j)))"
    by (simp add: sum.lessThan_Suc_shift window_digit_step del: sum.lessThan_Suc)
  also have "(\<Sum>j<2 * length bs. window_digit bs j * (256 * 16 ^ j)) = 256 * le_value bs"
    unfolding Cons.IH [symmetric] by (simp add: sum_distrib_left ac_simps)
  finally show ?case by simp
qed simp

lemma window_digit_less: "window_digit bs w < 16"
proof -
  let ?b = "bs ! (w div 2)"
  have "unat (?b AND 0x0F) = unat ?b mod 16" "unat (drop_bit 4 ?b) = unat ?b div 16"
    using window_digit_step(1,2) [of ?b "[]"] by (simp_all add: window_digit_def)
  then show ?thesis
    using less_mult_imp_div_less [of "unat ?b" 16 16] unat_u8_less [of ?b] by (simp add: window_digit_def Let_def)
qed

lemma small_multiples_int:
  assumes "2 \<le> n"
  shows "fold (\<lambda>i table. table @ [if even i then table ! (i div 2) + table ! (i div 2) else table ! (i - 1) + b])
      [2..<n] [0, b] = map (\<lambda>i. int i * b) [0..<n]"
  using assms
proof (induction n rule: nat_induct_at_least)
  case base
  then show ?case by (simp add: upt_rec)
next
  case (Suc n)
  have step: "(if even n then map (\<lambda>i. int i * b) [0..<n] ! (n div 2) + map (\<lambda>i. int i * b) [0..<n] ! (n div 2)
      else map (\<lambda>i. int i * b) [0..<n] ! (n - 1) + b) = int n * b"
    using Suc(1) by (auto elim!: evenE simp: algebra_simps of_nat_diff)
  have "[2..<Suc n] = [2..<n] @ [n]" "[0..<Suc n] = [0..<n] @ [n]" using Suc(1) by simp_all
  then show ?case by (simp only: fold_append fold.simps comp_apply id_apply Suc(2) step map_append list.map)
qed

lemma window_loop_int:
  assumes "n \<le> 63"
  shows "window_loop (+) (\<lambda>x. x + x) (small_multiples (+) (\<lambda>x. x + x) 0 b) bs n r =
    16 ^ n * r + int (\<Sum>j<n. window_digit bs j * 16 ^ j) * b"
  using assms
proof (induction n arbitrary: r)
  case (Suc n)
  have digit: "small_multiples (+) (\<lambda>x. x + x) 0 b ! d = int d * b" if "d < 16" for d
    unfolding small_multiples_def using small_multiples_int [of 16 b] that by simp
  let ?d = "window_digit bs n"
  have "window_loop (+) (\<lambda>x. x + x) (small_multiples (+) (\<lambda>x. x + x) 0 b) bs (Suc n) r =
      window_loop (+) (\<lambda>x. x + x) (small_multiples (+) (\<lambda>x. x + x) 0 b) bs n (16 * r + int ?d * b)"
    using Suc(2) digit [OF window_digit_less, of bs n] by (simp add: Let_def)
  also have "\<dots> = 16 ^ n * (16 * r + int ?d * b) + int (\<Sum>j<n. window_digit bs j * 16 ^ j) * b"
    using Suc by simp
  finally show ?case by (simp add: algebra_simps)
qed simp

text \<open>
  C34: the schedule of the scalar multiplication is exact. Run with any addition, doubling and
  neutral element that are those of the integers, the table of small multiples and the four bit
  window compute the scalar times the base, for every scalar of eight limbs.
\<close>

theorem window_schedule_exact:
  assumes "length s = 8"
  shows "window_mul (+) (\<lambda>x. x + x) 0 s (small_multiples (+) (\<lambda>x. x + x) 0 b) = int (limbs s) * b"
proof -
  let ?bs = "scalar_to_bytes s"
  have n64: "(64 :: nat) = Suc 63" by simp
  have digit: "small_multiples (+) (\<lambda>x. x + x) 0 b ! d = int d * b" if "d < 16" for d
    unfolding small_multiples_def using small_multiples_int [of 16 b] that by simp
  have len: "length ?bs = 32"
    using assms by (simp add: scalar_to_bytes_def length_concat comp_def sum_list_triv)
  have "window_mul (+) (\<lambda>x. x + x) 0 s (small_multiples (+) (\<lambda>x. x + x) 0 b) =
      16 ^ 63 * (int (window_digit ?bs 63) * b) + int (\<Sum>j<63. window_digit ?bs j * 16 ^ j) * b"
    using window_loop_int [of 63 b ?bs] digit [OF window_digit_less, of ?bs 63]
    unfolding window_mul_def n64 window_loop.simps by (simp add: Let_def)
  also have "\<dots> = int (\<Sum>j<Suc 63. window_digit ?bs j * 16 ^ j) * b"
    unfolding sum.lessThan_Suc by (simp add: algebra_simps)
  also have "(\<Sum>j<Suc 63. window_digit ?bs j * 16 ^ j) = limbs s"
    using window_digits_value [of ?bs] len by (simp add: le_value_to_bytes)
  finally show ?thesis .
qed

theorem window_schedule_exact_witness:
  "window_mul (+) (\<lambda>x. x + x) 0 kL (small_multiples (+) (\<lambda>x. x + x) 0 3) = 3 * int order_l"
  using window_schedule_exact [of kL 3] by (simp add: limbs_kL)

section \<open>What the operations preserve\<close>

lemma small_multiples_closed:
  assumes "P zero" "P base" "\<And>a b. P a \<Longrightarrow> P b \<Longrightarrow> P (add a b)" "\<And>a. P a \<Longrightarrow> P (dbl a)"
  shows "list_all P (small_multiples add dbl zero base)" "length (small_multiples add dbl zero base) = 16"
proof -
  let ?step = "\<lambda>i table. table @ [if even i then dbl (table ! (i div 2)) else add (table ! (i - 1)) base]"
  have "list_all P (fold ?step [2..<n] [zero, base]) \<and> length (fold ?step [2..<n] [zero, base]) = n" if "2 \<le> n" for n
    using that
  proof (induction n rule: nat_induct_at_least)
    case base
    then show ?case using assms(1,2) by simp
  next
    case (Suc n)
    let ?T = "fold ?step [2..<n] [zero, base]"
    have "P (?T ! i)" if "i < n" for i using Suc that by (simp add: list_all_length)
    with Suc assms show ?case by simp
  qed
  from this [of 16] show "list_all P (small_multiples add dbl zero base)"
    "length (small_multiples add dbl zero base) = 16"
    by (simp_all only: small_multiples_def)
qed

lemma window_loop_closed:
  assumes "list_all P table" "length table = 16" "\<And>a b. P a \<Longrightarrow> P b \<Longrightarrow> P (add a b)" "\<And>a. P a \<Longrightarrow> P (dbl a)"
    and "P result"
  shows "P (window_loop add dbl table bs n result)"
  using assms(5)
proof (induction n arbitrary: result)
  case (Suc n)
  have "P (table ! window_digit bs n)"
    using assms(1,2) window_digit_less [of bs n] by (simp add: list_all_length)
  then show ?case using Suc assms(3,4) by (simp add: Let_def)
qed simp

lemma window_closed:
  assumes "P zero" "P base" "\<And>a b. P a \<Longrightarrow> P b \<Longrightarrow> P (add a b)" "\<And>a. P a \<Longrightarrow> P (dbl a)"
  shows "P (window_mul add dbl zero s (small_multiples add dbl zero base))"
  unfolding window_mul_def
  by (rule window_loop_closed [where P = P])
    (use small_multiples_closed [of P zero base add dbl] assms in simp_all)

lemma on_curve_identity [simp]: "on_curve point_identity"
  by (simp add: on_curve_def point_ok_def point_identity_def)

lemma point_scalar_mul_on_curve: "on_curve p \<Longrightarrow> on_curve (point_scalar_mul s p)"
  unfolding point_scalar_mul_def point_window_mul_def point_small_multiples_def
  by (rule window_closed [where P = on_curve])
    (simp_all add: point_add_on_curve point_double_on_curve)

lemma on_curve_base: "on_curve base_point"
  using point_from_bytes_decodes(1) [of kBasePointBytes]
  by (auto simp: base_point_def kBasePointBytes_def split: option.split)

lemma point_scalar_mul_base_on_curve: "on_curve (point_scalar_mul_base s)"
  using point_scalar_mul_on_curve [OF on_curve_base, of s]
  by (simp add: point_scalar_mul_base_def point_scalar_mul_def base_multiples_def)

text \<open>Representations of the neutral point.\<close>

definition neutral :: "point \<Rightarrow> bool" where
  "neutral p \<longleftrightarrow> point_ok p \<and> fe_val (px p) = 0 \<and> fe_val (pt p) = 0 \<and> fe_val (py p) = fe_val (pz p)"

lemma neutral_identity [simp]: "neutral point_identity"
  by (simp add: neutral_def point_ok_def point_identity_def)

lemma neutral_add: "neutral p \<Longrightarrow> neutral q \<Longrightarrow> neutral (point_add p q)"
  by (simp add: neutral_def point_add_ok point_add_val)

lemma neutral_double: "neutral p \<Longrightarrow> neutral (point_double p)"
  by (simp add: neutral_def point_double_ok point_double_val power2_eq_square algebra_simps)

lemma neutral_scalar_mul: "neutral p \<Longrightarrow> neutral (point_scalar_mul s p)"
  unfolding point_scalar_mul_def point_window_mul_def point_small_multiples_def
  by (rule window_closed [where P = neutral]) (simp_all add: neutral_add neutral_double)

lemma neutral_zero_mul: "neutral (point_scalar_mul_base (replicate 8 0))"
proof -
  have z: "scalar_to_bytes (replicate 8 0) = replicate 32 0"
    by (simp add: scalar_to_bytes_def limb_bytes_def numeral_eq_Suc)
  have d: "window_digit (replicate 32 0) n = 0" if "n < 64" for n
    using that by (simp add: window_digit_def less_mult_imp_div_less)
  have "neutral (window_loop point_add point_double table (replicate 32 0) n p)" if "neutral p" "n \<le> 64" for table n p
    using that by (induction n arbitrary: p) (simp_all add: Let_def d neutral_double)
  then show ?thesis by (simp add: point_scalar_mul_base_def point_window_mul_def window_mul_def z)
qed

lemma point_equal_neutral:
  assumes "neutral p" "neutral q"
  shows "point_equal p q"
proof -
  have "canonical a \<Longrightarrow> canonical b \<Longrightarrow> fe_val a = fe_val b \<Longrightarrow> fe_equal a b" for a b
    by (simp add: fe_val_inject fe_equal_exact)
  then show ?thesis using assms by (simp add: neutral_def point_ok_def point_equal_def fe_val_ops)
qed

lemma fe_is_zero_kZero: "fe_is_zero kZero"
  by (simp add: fe_is_zero_def kZero_def)

lemma neutral_is_identity: "neutral p \<Longrightarrow> point_is_identity p"
proof -
  assume n: "neutral p"
  then have "px p = kZero" "py p = pz p"
    by (simp_all add: neutral_def point_ok_def flip: fe_val_inject)
  then show ?thesis
    by (simp add: point_is_identity_def fe_equal_exact fe_is_zero_kZero)
qed

text \<open>The encoding of the neutral point.\<close>

definition identity_bytes :: bytes where "identity_bytes = 1 # replicate 31 0"

lemma identity_decodes: "point_from_bytes identity_bytes = Some point_identity"
proof -
  have b: "identity_bytes ! 31 = 0" "identity_bytes[31 := 0] = identity_bytes"
    by (simp_all add: identity_bytes_def list_update_same_conv flip: replicate_Suc)
  have y: "fe_from_bytes identity_bytes = kOne"
    by (simp add: identity_bytes_def kOne_def numeral_eq_Suc)
  have u: "fe_sub (fe_sqr kOne) kOne = kZero"
    by (simp add: fe_val_ops flip: fe_val_inject)
  have zero: "fe_mul a (fe_mul kZero b) = kZero" "fe_mul b kZero = kZero" "fe_mul kZero b = kZero"
    "fe_sqr kZero = kZero" "fe_neg kZero = kZero" if "canonical a" "canonical b" for a b
    using that by (simp_all add: fe_val_ops flip: fe_val_inject)
  have pow: "canonical (fe_pow_p58 kZero)"
    using fe_pow_p58_power [of kZero] by (simp add: fe_is_power_def)
  let ?v = "fe_add (fe_mul kD (fe_sqr kOne)) kOne"
  have v: "canonical ?v" by simp
  have below: "fe_below_p kOne" by (simp add: fe_below_p_exact kOne_def prime_p_def)
  have z: "fe_equal kZero kZero" "fe_is_zero kZero" "kZero ! 0 AND 1 = 0"
    by (simp_all add: fe_equal_exact fe_is_zero_kZero) (simp add: kZero_def)
  show ?thesis
    using v pow by (simp add: point_from_bytes_def b y Let_def u zero below z point_identity_def)
qed

end
