(* ===== verification/Wnc_Ed25519.thy ===== *)
theory Wnc_Ed25519
  imports Wnc_Point Wnc_Sha512 Wnc_Signature
begin

text \<open>
  Ed25519 keys, signing, verification and strict verification: the last part of
  \<^verbatim>\<open>src/ed25519.cpp\<close> and \<^verbatim>\<open>include/wnc/ed25519.hpp\<close>. The properties state what the
  arithmetic computes, the shape of what is signed, what acceptance means, and what the trust set
  of \<^verbatim>\<open>Wnc_Signature\<close> refuses with this implementation as its verifier. Correctness of the
  group equation for honest signatures rests on the associativity of the curve's group law and is
  not proved.
\<close>

section \<open>Keys and signatures\<close>

record expanded_key =
  xk_scalar :: scalar
  xk_prefix :: bytes
  xk_public_key :: bytes

definition clamp :: "bytes \<Rightarrow> bytes" where
  "clamp expanded =
     (let clamped = take 32 expanded;
          clamped = clamped[0 := clamped ! 0 AND 248];
          clamped = clamped[31 := clamped ! 31 AND 63]
      in clamped[31 := clamped ! 31 OR 64])"

definition expand_key :: "bytes \<Rightarrow> expanded_key" where
  "expand_key seed =
     (let expanded = sha512 seed;
          s = scalar_from_bytes (clamp expanded)
      in \<lparr>xk_scalar = s, xk_prefix = take 32 (drop 32 expanded),
          xk_public_key = point_to_bytes (point_scalar_mul_base s)\<rparr>)"

definition ed25519_public_key :: "bytes \<Rightarrow> bytes" where
  "ed25519_public_key seed = xk_public_key (expand_key seed)"

definition ed25519_sign :: "bytes \<Rightarrow> bytes \<Rightarrow> bytes" where
  "ed25519_sign seed message =
     (let key = expand_key seed;
          nonce = scalar_from_wide_hash (sha512_of_two (xk_prefix key) message);
          nonce_bytes = point_to_bytes (point_scalar_mul_base nonce);
          challenge = scalar_from_wide_hash (sha512_of_three nonce_bytes (xk_public_key key) message);
          s = scalar_add (scalar_mul challenge (xk_scalar key)) nonce
      in nonce_bytes @ scalar_to_bytes s)"

definition ed25519_verify :: "bytes \<Rightarrow> bytes \<Rightarrow> bytes \<Rightarrow> bool" where
  "ed25519_verify public_key message signature =
     (case point_from_bytes public_key of
        None \<Rightarrow> False
      | Some a \<Rightarrow>
          case point_from_bytes (take 32 signature) of
            None \<Rightarrow> False
          | Some r \<Rightarrow>
              let s = scalar_from_bytes (drop 32 signature)
              in if 0 \<le> scalar_compare s kL then False
                 else
                   let challenge = scalar_from_wide_hash
                         (sha512_of_three (take 32 signature) public_key message);
                       left = point_scalar_mul_base s;
                       right = point_add r (point_scalar_mul challenge a)
                   in point_equal left right)"

definition ed25519_verify_strict :: "bytes \<Rightarrow> bytes \<Rightarrow> bytes \<Rightarrow> bool" where
  "ed25519_verify_strict public_key message signature =
     (case point_from_bytes public_key of
        None \<Rightarrow> False
      | Some a \<Rightarrow>
          let eight_a = point_double (point_double (point_double a))
          in if point_is_identity eight_a then False
             else ed25519_verify public_key message signature)"

section \<open>Scalars and bytes\<close>

lemma scalar_bytes_eq: "scalar_to_bytes = fe_to_bytes"
  by (simp add: fun_eq_iff scalar_to_bytes_def fe_to_bytes_def)

lemma length_scalar_to_bytes: "length (scalar_to_bytes s) = 4 * length s"
  by (simp add: scalar_bytes_eq)

lemma scalar_from_to_bytes: "scalar_from_bytes (scalar_to_bytes s) = s"
  by (simp add: scalar_bytes_eq scalar_from_bytes_def)

lemma le_value_from_bytes: "4 dvd length bs \<Longrightarrow> limbs (scalar_from_bytes bs) = le_value bs"
  using le_value_to_bytes [of "fe_from_bytes bs"] by (simp add: scalar_bytes_eq fe_to_from_bytes scalar_from_bytes_def)

lemma le_value_append: "le_value (xs @ ys) = le_value xs + 256 ^ length xs * le_value ys"
  by (induction xs) (simp_all add: algebra_simps)

lemma le_value_less: "le_value bs < 256 ^ length bs"
proof (induction bs)
  case (Cons b bs)
  have "unat b + 256 * le_value bs < 256 * (le_value bs + 1)" by simp
  also have "\<dots> \<le> 256 * 256 ^ length bs" using Cons by (intro mult_left_mono) simp_all
  finally show ?case by simp
qed simp

text \<open>
  C32: scalar arithmetic modulo the group order. Reduction of a 512 bit value (sixteen limbs) by
  binary long division and multiplication of two scalars of eight limbs return eight limbs with the
  value of the dividend and of the product modulo \<^verbatim>\<open>L\<close>; addition does so for the sum when both
  operands are below \<^verbatim>\<open>L\<close>. A scalar of eight limbs is recovered from its 32 bytes, which are its
  little-endian value, and comparison with \<^verbatim>\<open>L\<close> decides whether its value is below \<^verbatim>\<open>L\<close>.
\<close>

theorem scalar_arithmetic_exact:
  assumes "length a = 8" "length b = 8" "length wide = 16"
  shows "length (scalar_reduce wide) = 8 \<and> limbs (scalar_reduce wide) = limbs wide mod order_l \<and>
    length (scalar_mul a b) = 8 \<and> limbs (scalar_mul a b) = (limbs a * limbs b) mod order_l \<and>
    (limbs a < order_l \<and> limbs b < order_l \<longrightarrow>
       length (scalar_add a b) = 8 \<and> limbs (scalar_add a b) = (limbs a + limbs b) mod order_l) \<and>
    length (scalar_to_bytes a) = 32 \<and> scalar_from_bytes (scalar_to_bytes a) = a \<and> le_value (scalar_to_bytes a) = limbs a \<and>
    (0 \<le> scalar_compare a kL \<longleftrightarrow> order_l \<le> limbs a)"
  using assms scalar_compare_exact [of a kL]
  by (simp add: scalar_reduce_value scalar_mul_value scalar_add_value le_value_to_bytes scalar_from_to_bytes
      length_scalar_to_bytes limbs_kL)

theorem scalar_arithmetic_exact_witness:
  "limbs (scalar_mul kL kL) = 0 \<and> limbs (scalar_reduce (replicate 16 1)) = limbs (replicate 16 (1 :: u32)) mod order_l"
  using scalar_arithmetic_exact [of kL kL "replicate 16 1"] by (simp add: limbs_kL)

section \<open>The group law\<close>

text \<open>
  C17: the point operations are the addition law of the curve
  \<^verbatim>\<open>-x^2 + y^2 = 1 + d x^2 y^2\<close> in extended coordinates. Sums and doubles of points on the
  curve are on the curve; the coordinates of a sum satisfy the affine law with the denominators
  multiplied out; doubling is adding a point to itself, up to the common factor -4 of the
  projective coordinates; addition is commutative, and adding the neutral point changes a point
  only by the common factor 4.
\<close>

theorem addition_law_exact:
  assumes "on_curve p" "on_curve q"
  shows "on_curve (point_add p q) \<and> on_curve (point_double p) \<and>
    (let u = fe_val (pz p) * fe_val (pz q);
         k = fe_val kD * (fe_val (pt p) * fe_val (pt q))
     in fe_val (px (point_add p q)) * (u + k) =
          fe_val (pz (point_add p q)) * (fe_val (px p) * fe_val (py q) + fe_val (py p) * fe_val (px q)) \<and>
        fe_val (py (point_add p q)) * (u - k) =
          fe_val (pz (point_add p q)) * (fe_val (py p) * fe_val (py q) + fe_val (px p) * fe_val (px q))) \<and>
    point_add p q = point_add q p \<and>
    list_all (\<lambda>c. fe_val (c (point_add p p)) = - 4 * fe_val (c (point_double p)) \<and>
      fe_val (c (point_add p point_identity)) = 4 * (fe_val (pz p) * fe_val (c p))) [px, py, pz, pt]"
proof -
  note ok = assms [THEN on_curve_ok]
  have ident: "point_ok point_identity" using on_curve_ok [OF on_curve_identity] .
  have law: "let u = fe_val (pz p) * fe_val (pz q);
         k = fe_val kD * (fe_val (pt p) * fe_val (pt q))
     in fe_val (px (point_add p q)) * (u + k) =
          fe_val (pz (point_add p q)) * (fe_val (px p) * fe_val (py q) + fe_val (py p) * fe_val (px q)) \<and>
        fe_val (py (point_add p q)) * (u - k) =
          fe_val (pz (point_add p q)) * (fe_val (py p) * fe_val (py q) + fe_val (px p) * fe_val (px q))"
    unfolding point_add_val [OF ok] Let_def curve_d_def by (simp only: mult.assoc mult.commute mult.left_commute)
  have "fe_val (px (point_add p q)) = fe_val (px (point_add q p))"
    "fe_val (py (point_add p q)) = fe_val (py (point_add q p))"
    "fe_val (pz (point_add p q)) = fe_val (pz (point_add q p))"
    "fe_val (pt (point_add p q)) = fe_val (pt (point_add q p))"
    unfolding point_add_val [OF ok] point_add_val [OF ok(2) ok(1)] by (simp_all only: ac_simps)
  then have comm: "point_add p q = point_add q p"
    using point_add_ok [OF ok] point_add_ok [OF ok(2) ok(1)]
    by (intro point.equality) (simp_all add: point_ok_def fe_val_inject)
  have "fe_val (c (point_add p point_identity)) = 4 * (fe_val (pz p) * fe_val (c p))" if "c \<in> {px, py, pz, pt}" for c
    using that assms(1) point_add_val [OF ok(1) ident]
    by (auto simp: point_identity_def on_curve_def)
  with law comm double_is_add [OF assms(1)] show ?thesis
    using point_add_on_curve [OF assms] point_double_on_curve [OF assms(1)] by simp
qed

theorem addition_law_exact_witness:
  "on_curve (point_add base_point (point_double base_point)) \<and>
   point_add base_point (point_double base_point) = point_add (point_double base_point) base_point"
  using addition_law_exact [of base_point "point_double base_point"] on_curve_base
    point_double_on_curve [OF on_curve_base] by blast

section \<open>Encodings and signatures\<close>

text \<open>
  C16: a point has one encoding. Whatever 32 bytes are decoded as a point, the point is on the
  curve with the coordinate \<^verbatim>\<open>z\<close> one, and encoding it gives the same bytes back; so two
  different byte strings never decode to the same point.
\<close>

theorem decoded_point_is_canonical:
  assumes "length bs = 32" "point_from_bytes bs = Some p"
  shows "on_curve p \<and> pz p = kOne \<and> point_to_bytes p = bs"
  using point_from_bytes_decodes [OF assms] by blast

theorem decoded_point_is_canonical_witness:
  "point_to_bytes point_identity = identity_bytes"
  using decoded_point_is_canonical [OF _ identity_decodes] by (simp add: identity_bytes_def)

lemma length_point_to_bytes: "on_curve p \<Longrightarrow> length (point_to_bytes p) = 32"
proof -
  assume "on_curve p"
  then have c: "canonical (py p)" "canonical (pz p)" by (simp_all add: on_curve_def point_ok_def)
  have "canonical (fe_invert (pz p))" using fe_invert_power [OF c(2)] by (simp add: fe_is_power_def)
  with c have "canonical (fe_mul (py p) (fe_invert (pz p)))" by simp
  then show ?thesis by (simp add: point_to_bytes_def Let_def canonical_def)
qed

lemma clamp_value:
  assumes "length expanded = 64"
  shows "length (clamp expanded) = 32" "8 dvd le_value (clamp expanded)"
    "2 ^ 254 \<le> le_value (clamp expanded)" "le_value (clamp expanded) < 2 ^ 255"
proof -
  have parts: "\<exists>b cs c. xs = b # cs @ [c] \<and> length cs = 30" if "length xs = 32" for xs :: bytes
  proof (cases xs)
    case (Cons b bs)
    with that show ?thesis by (cases bs rule: rev_cases) auto
  qed (use that in simp)
  have "length (take 32 expanded) = 32" using assms by simp
  from parts [OF this] obtain b cs c where e: "take 32 expanded = b # cs @ [c]" "length cs = 30" by blast
  have clamped: "clamp expanded = (b AND 248) # cs @ [(c AND 63) OR 64]"
    using e(2) by (simp add: clamp_def e(1) Let_def nth_append list_update_append)
  then show "length (clamp expanded) = 32" using e(2) by simp
  have m: "(7 :: u8) = mask 3" "(63 :: u8) = mask 6" by (simp_all add: mask_eq_decr_exp)
  have low: "unat (x AND 7) = unat x mod 8" "unat (x AND 63) = unat x mod 64" for x :: u8
    unfolding m take_bit_eq_mask [symmetric] by (simp_all add: take_bit_eq_mod unat_mod)
  have "(b AND 248) AND 7 = 0" by (simp add: and.assoc)
  then have low8: "unat (b AND 248) mod 8 = 0" using low(1) [of "b AND 248"] by simp
  have "(c AND 63) AND 64 = 0" by (simp add: and.assoc)
  then have "(c AND 63) OR 64 = (c AND 63) + 64" by (simp add: disjunctive_add_eq_or)
  then have top: "unat ((c AND 63) OR 64) = unat c mod 64 + 64"
    using unat_add_lem [of "c AND 63" 64] low(2) [of c] less_trans [OF mod_less_divisor [of 64 "unat c"], of 192] by simp
  have val: "le_value (clamp expanded) =
      unat (b AND 248) + 256 * (le_value cs + 256 ^ 30 * (unat c mod 64 + 64))"
    by (simp add: clamped le_value_append e(2) top)
  show "8 dvd le_value (clamp expanded)"
    unfolding val using low8 by (intro dvd_add) (auto simp: mod_eq_0_iff_dvd intro: dvd_mult2)
  have cs: "le_value cs < 256 ^ 30" using le_value_less [of cs] e(2) by simp
  have c64: "unat c mod 64 \<le> 63" using mod_less_divisor [of 64 "unat c"] by linarith
  have b255: "unat (b AND 248) \<le> 255" using unat_u8_less [of "b AND 248"] by linarith
  show "2 ^ 254 \<le> le_value (clamp expanded)" unfolding val by simp
  show "le_value (clamp expanded) < 2 ^ 255"
    unfolding val using cs c64 b255 by simp
qed


text \<open>
  C33: the shape of keys and signatures. A public key is the encoding of a point on the curve; the
  secret scalar is a multiple of eight between \<^verbatim>\<open>2^254\<close> and \<^verbatim>\<open>2^255\<close>; a signature has 64
  bytes, the encoding of a point on the curve followed by the scalar \<^verbatim>\<open>r + k a\<close> reduced modulo
  the group order, so the range check of the verifier never refuses it.
\<close>

theorem signature_shape:
  "\<exists>a r. on_curve a \<and> on_curve r \<and>
     ed25519_public_key seed = point_to_bytes a \<and> length (ed25519_public_key seed) = 32 \<and>
     (let key = expand_key seed;
          nonce = scalar_from_wide_hash (sha512_of_two (xk_prefix key) message);
          challenge = scalar_from_wide_hash (sha512_of_three (point_to_bytes r) (ed25519_public_key seed) message);
          s = scalar_from_bytes (drop 32 (ed25519_sign seed message))
      in a = point_scalar_mul_base (xk_scalar key) \<and> r = point_scalar_mul_base nonce \<and>
         8 dvd limbs (xk_scalar key) \<and> 2 ^ 254 \<le> limbs (xk_scalar key) \<and> limbs (xk_scalar key) < 2 ^ 255 \<and>
         length (ed25519_sign seed message) = 64 \<and> take 32 (ed25519_sign seed message) = point_to_bytes r \<and>
         limbs s = (limbs nonce + limbs challenge * limbs (xk_scalar key)) mod order_l \<and>
         scalar_compare s kL < 0)"
proof -
  let ?key = "expand_key seed"
  let ?nonce = "scalar_from_wide_hash (sha512_of_two (xk_prefix ?key) message)"
  let ?r = "point_scalar_mul_base ?nonce"
  let ?a = "point_scalar_mul_base (xk_scalar ?key)"
  let ?k = "scalar_from_wide_hash (sha512_of_three (point_to_bytes ?r) (xk_public_key ?key) message)"
  let ?s = "scalar_add (scalar_mul ?k (xk_scalar ?key)) ?nonce"
  have key: "xk_scalar ?key = scalar_from_bytes (clamp (sha512 seed))" "xk_public_key ?key = point_to_bytes ?a"
    by (simp_all add: expand_key_def Let_def)
  note clamped = clamp_value [OF length_sha512(1) [of seed]]
  have a: "limbs (xk_scalar ?key) = le_value (clamp (sha512 seed))" "length (xk_scalar ?key) = 8"
    using clamped(1) by (simp_all add: key le_value_from_bytes, simp add: scalar_from_bytes_def)
  have wide: "length (scalar_from_wide_hash bs) = 8" "limbs (scalar_from_wide_hash bs) < order_l" if "length bs = 64" for bs
    using that scalar_reduce_value [of "fe_from_bytes bs"] order_l_bounds by (simp_all add: scalar_from_wide_hash_def)
  have hashes: "length (sha512_of_two x y) = 64" "length (sha512_of_three x y z) = 64" for x y z
    by (simp_all add: sha512_of_two_def sha512_of_three_def)
  note n = wide [OF hashes(1), of "xk_prefix ?key" message]
  note k = wide [OF hashes(2), of "point_to_bytes ?r" "xk_public_key ?key" message]
  have m: "length (scalar_mul ?k (xk_scalar ?key)) = 8"
    "limbs (scalar_mul ?k (xk_scalar ?key)) = limbs ?k * limbs (xk_scalar ?key) mod order_l"
    using scalar_mul_value [OF k(1) a(2)] by simp_all
  have s: "length ?s = 8" "limbs ?s = (limbs ?nonce + limbs ?k * limbs (xk_scalar ?key)) mod order_l"
    using scalar_add_value [OF m(1) n(1)] m(2) n(2) order_l_bounds by (simp_all add: mod_simps add.commute)
  then have "limbs ?s < order_l" using order_l_bounds by simp
  then have less: "scalar_compare ?s kL < 0" using scalar_compare_exact [of ?s kL] s(1) by (simp add: limbs_kL)
  have sign: "ed25519_sign seed message = point_to_bytes ?r @ scalar_to_bytes ?s"
    by (simp add: ed25519_sign_def Let_def)
  have len: "length (point_to_bytes ?r) = 32" "length (point_to_bytes ?a) = 32"
    by (simp_all add: length_point_to_bytes point_scalar_mul_base_on_curve)
  have pub: "ed25519_public_key seed = point_to_bytes ?a" by (simp add: ed25519_public_key_def key)
  show ?thesis
    using clamped(2-4) s less len point_scalar_mul_base_on_curve
    by - (rule exI [of _ ?a], rule exI [of _ ?r],
      simp add: Let_def sign pub key(2) a(1) scalar_from_to_bytes length_scalar_to_bytes)
qed

text \<open>What acceptance by \<^verbatim>\<open>ed25519_verify\<close> means.\<close>

lemma verify_accepts:
  assumes "ed25519_verify public_key message sig"
  obtains a r where "point_from_bytes public_key = Some a" "point_from_bytes (take 32 sig) = Some r"
    "scalar_compare (scalar_from_bytes (drop 32 sig)) kL < 0"
    "point_equal (point_scalar_mul_base (scalar_from_bytes (drop 32 sig)))
       (point_add r (point_scalar_mul (scalar_from_wide_hash (sha512_of_three (take 32 sig) public_key message)) a))"
  using assms by (auto simp: ed25519_verify_def Let_def split: option.splits if_splits)

lemma accepted_scalar:
  assumes "ed25519_verify public_key message sig" "length sig = 64"
  shows "limbs (scalar_from_bytes (drop 32 sig)) < order_l"
    "scalar_to_bytes (scalar_from_bytes (drop 32 sig)) = drop 32 sig"
proof -
  have "length (scalar_from_bytes (drop 32 sig)) = length kL"
    using assms(2) by (simp add: scalar_from_bytes_def limbs_kL)
  moreover have "scalar_compare (scalar_from_bytes (drop 32 sig)) kL < 0" using assms(1) by (rule verify_accepts)
  ultimately show "limbs (scalar_from_bytes (drop 32 sig)) < order_l"
    using scalar_compare_exact [of "scalar_from_bytes (drop 32 sig)" kL] by (simp add: limbs_kL)
  show "scalar_to_bytes (scalar_from_bytes (drop 32 sig)) = drop 32 sig"
    using assms(2) by (simp add: scalar_bytes_eq scalar_from_bytes_def fe_to_from_bytes)
qed

text \<open>
  C13: accepted signatures are not malleable. When a signature is accepted, key and nonce are the
  canonical encodings of points on the curve, the scalar is below the group order, and the group
  equation holds; and no second signature with the same nonce whose scalar agrees modulo the group
  order is accepted, for any message or key.
\<close>

theorem accepted_signature_is_canonical:
  assumes "ed25519_verify public_key message sig" "length public_key = 32" "length sig = 64"
  shows "(\<exists>a r. point_from_bytes public_key = Some a \<and> point_from_bytes (take 32 sig) = Some r \<and>
      on_curve a \<and> on_curve r \<and> point_to_bytes a = public_key \<and>
      point_to_bytes r @ scalar_to_bytes (scalar_from_bytes (drop 32 sig)) = sig \<and>
      limbs (scalar_from_bytes (drop 32 sig)) < order_l \<and>
      point_equal (point_scalar_mul_base (scalar_from_bytes (drop 32 sig)))
        (point_add r (point_scalar_mul (scalar_from_wide_hash (sha512_of_three (take 32 sig) public_key message)) a))) \<and>
    (\<forall>public_key' message' sig'. ed25519_verify public_key' message' sig' \<and> length sig' = 64 \<and>
       take 32 sig' = take 32 sig \<and>
       limbs (scalar_from_bytes (drop 32 sig')) mod order_l = limbs (scalar_from_bytes (drop 32 sig)) mod order_l \<longrightarrow>
       sig' = sig)"
proof (intro conjI allI impI)
  obtain a r where d: "point_from_bytes public_key = Some a" "point_from_bytes (take 32 sig) = Some r"
    and eq: "point_equal (point_scalar_mul_base (scalar_from_bytes (drop 32 sig)))
       (point_add r (point_scalar_mul (scalar_from_wide_hash (sha512_of_three (take 32 sig) public_key message)) a))"
    using assms(1) by (rule verify_accepts)
  have len: "length (take 32 sig) = 32" using assms(3) by simp
  show "\<exists>a r. point_from_bytes public_key = Some a \<and> point_from_bytes (take 32 sig) = Some r \<and>
      on_curve a \<and> on_curve r \<and> point_to_bytes a = public_key \<and>
      point_to_bytes r @ scalar_to_bytes (scalar_from_bytes (drop 32 sig)) = sig \<and>
      limbs (scalar_from_bytes (drop 32 sig)) < order_l \<and>
      point_equal (point_scalar_mul_base (scalar_from_bytes (drop 32 sig)))
        (point_add r (point_scalar_mul (scalar_from_wide_hash (sha512_of_three (take 32 sig) public_key message)) a))"
    using point_from_bytes_decodes [OF assms(2) d(1)] point_from_bytes_decodes [OF len d(2)] d eq
      accepted_scalar [OF assms(1,3)]
    by - (rule exI [of _ a], rule exI [of _ r], simp)
next
  fix public_key' message' sig'
  assume other: "ed25519_verify public_key' message' sig' \<and> length sig' = 64 \<and> take 32 sig' = take 32 sig \<and>
    limbs (scalar_from_bytes (drop 32 sig')) mod order_l = limbs (scalar_from_bytes (drop 32 sig)) mod order_l"
  then have "ed25519_verify public_key' message' sig'" "length sig' = 64" by simp_all
  note s' = accepted_scalar [OF this] and s = accepted_scalar [OF assms(1,3)]
  have "scalar_from_bytes (drop 32 sig') = scalar_from_bytes (drop 32 sig)"
    using other s'(1) s(1) assms(3) limbs_inject [of "scalar_from_bytes (drop 32 sig')" "scalar_from_bytes (drop 32 sig)"]
    by (simp add: scalar_from_bytes_def)
  then have "drop 32 sig' = drop 32 sig" using s'(2) s(2) by metis
  then show "sig' = sig" using other by (metis append_take_drop_id)
qed

lemma length_identity: "length identity_bytes = 32"
  by (simp add: identity_bytes_def)

text \<open>The key and the nonce that encode the neutral point, with scalar zero.\<close>

lemma neutral_signature_accepted: "ed25519_verify identity_bytes message (identity_bytes @ replicate 32 0)"
proof -
  have s: "scalar_from_bytes (replicate 32 0) = replicate 8 0"
    by (simp add: scalar_from_bytes_def numeral_eq_Suc)
  have "\<not> 0 \<le> scalar_compare (replicate 8 0) kL"
    using scalar_compare_exact [of "replicate 8 0" kL] limbs_zero [of "replicate 8 (0 :: u32)"] order_l_bounds
    by (simp add: limbs_kL)
  then show ?thesis
    by (simp add: ed25519_verify_def Let_def identity_decodes s point_equal_neutral neutral_zero_mul
        neutral_add neutral_scalar_mul length_identity)
qed

theorem accepted_signature_is_canonical_witness:
  "\<exists>a. point_from_bytes identity_bytes = Some a \<and> on_curve a \<and> point_to_bytes a = identity_bytes \<and>
     limbs (scalar_from_bytes (replicate 32 0)) < order_l"
proof -
  have "drop 32 (identity_bytes @ replicate 32 0) = replicate 32 0" by (simp add: length_identity)
  moreover have "length (identity_bytes @ replicate 32 0) = 64" by (simp add: length_identity)
  ultimately show ?thesis
    using accepted_signature_is_canonical [OF neutral_signature_accepted length_identity, of "[2]"] by auto
qed

text \<open>
  C35: strict verification is verification that refuses keys of small order. It accepts exactly
  what \<^verbatim>\<open>ed25519_verify\<close> accepts under keys whose eightfold is not the neutral point. Without
  that check a key of small order vouches for every message: the encoding of the neutral point,
  with the same nonce and scalar zero, is accepted for any message, and refused strictly.
\<close>

theorem strict_refuses_small_order:
  "(ed25519_verify_strict public_key message sig \<longleftrightarrow>
      ed25519_verify public_key message sig \<and>
      (case point_from_bytes public_key of
         None \<Rightarrow> False
       | Some a \<Rightarrow> \<not> point_is_identity (point_double (point_double (point_double a))))) \<and>
   ed25519_verify identity_bytes message (identity_bytes @ replicate 32 0) \<and>
   \<not> ed25519_verify_strict identity_bytes message sig"
  using neutral_signature_accepted
  by (auto simp: ed25519_verify_strict_def Let_def identity_decodes neutral_is_identity neutral_double
      split: option.splits)

text \<open>
  C25: the trust set inherits the checks of Ed25519. A signature under an Ed25519 record is refused,
  whatever it covers, when its scalar is not below the group order, when its nonce or the
  publisher's key is not the encoding of a point, or when that key has small order.
\<close>

theorem non_canonical_signature_refused:
  assumes "trust_find_key trust claimed (sig_key_id sig) = Some i" "iss_algorithm i = AlgEd25519"
    and "order_l \<le> limbs (scalar_from_bytes (drop 32 (sig_bytes sig))) \<or>
      point_from_bytes (take 32 (sig_bytes sig)) = None \<or>
      (case point_from_bytes (iss_ed25519_public_key i) of
         None \<Rightarrow> True
       | Some a \<Rightarrow> point_is_identity (point_double (point_double (point_double a))))"
  shows "\<exists>c. verify_signature ed25519_verify_strict trust claimed domain text sig = Inl c"
proof -
  have "\<not> ed25519_verify_strict (iss_ed25519_public_key i) m (sig_bytes sig)" if "length (sig_bytes sig) = 64" for m
  proof
    assume strict: "ed25519_verify_strict (iss_ed25519_public_key i) m (sig_bytes sig)"
    then have accepted: "ed25519_verify (iss_ed25519_public_key i) m (sig_bytes sig)"
      by (auto simp: ed25519_verify_strict_def Let_def split: option.splits if_splits)
    show False
      using assms(3) strict accepted_scalar(1) [OF accepted that] verify_accepts [OF accepted]
      by (auto simp: ed25519_verify_strict_def Let_def split: option.splits if_splits)
  qed
  then show ?thesis
    using assms(1,2) by (simp add: verify_signature_def Let_def kEd25519SignatureBytes_def)
qed

theorem non_canonical_signature_refused_witness:
  "\<exists>c. verify_signature ed25519_verify_strict sample_trust (signer_publisher sample_signer) ''d'' ''x''
     \<lparr>sig_algorithm = AlgEd25519, sig_key_id = signer_key_id sample_signer, sig_bytes = replicate 64 0xFF\<rparr> = Inl c"
proof (rule non_canonical_signature_refused)
  let ?sig = "\<lparr>sig_algorithm = AlgEd25519, sig_key_id = signer_key_id sample_signer, sig_bytes = replicate 64 0xFF\<rparr>"
  let ?i = "\<lparr>iss_publisher = signer_publisher sample_signer, iss_algorithm = AlgEd25519,
    iss_key_id = signer_key_id sample_signer, iss_ed25519_public_key = signer_public_key sample_signer,
    iss_hmac_key = []\<rparr>"
  show "trust_find_key sample_trust (signer_publisher sample_signer) (sig_key_id ?sig) = Some ?i"
    using sample_signer_ok by simp
  show "iss_algorithm ?i = AlgEd25519" by simp
  have "le_value (replicate n 0xFF) + 1 = 256 ^ n" for n by (induction n) simp_all
  from this [of 32] have "order_l \<le> limbs (scalar_from_bytes (replicate 32 0xFF))"
    by (simp add: le_value_from_bytes order_l_def)
  then show "order_l \<le> limbs (scalar_from_bytes (drop 32 (sig_bytes ?sig))) \<or>
      point_from_bytes (take 32 (sig_bytes ?sig)) = None \<or>
      (case point_from_bytes (iss_ed25519_public_key ?i) of
         None \<Rightarrow> True
       | Some a \<Rightarrow> point_is_identity (point_double (point_double (point_double a))))"
    by simp
qed

end
