(* ===== verification/Wnc_Tools.thy ===== *)
theory Wnc_Tools
  imports Wnc_Service Wnc_Policy Wnc_Composition
begin

text \<open>
  The command line tools: the argument parser and the start of \<^verbatim>\<open>tools/coordinator_main.cpp\<close>,
  and the offline commands \<^verbatim>\<open>seal\<close>, \<^verbatim>\<open>validate\<close>, \<^verbatim>\<open>digest\<close> and \<^verbatim>\<open>compose\<close> of
  \<^verbatim>\<open>tools/wncctl_main.cpp\<close>. The files that a command reads are a map from paths to contents,
  a command is its exit code and what it prints on the standard output; the diagnostics on the
  standard error are not modelled, nor are the commands that print them (\<^verbatim>\<open>explain\<close>,
  \<^verbatim>\<open>diff\<close>) or talk to a coordinator (\<^verbatim>\<open>status\<close>, \<^verbatim>\<open>evaluate\<close>).
\<close>

section \<open>Commands of wncctl\<close>

type_synonym file_map = "string \<Rightarrow> string option"
type_synonym outcome = "nat \<times> string"

definition newline :: string where "newline = [CHR 0x0A]"

definition usage :: outcome where "usage = (2, [])"

text \<open>The arguments after the program name; the last one is never an option name.\<close>

fun option_of :: "string list \<Rightarrow> string \<Rightarrow> string option" where
  "option_of (a # b # rest) name = (if name = a then Some b else option_of (b # rest) name)"
| "option_of _ name = None"

fun all_options :: "string list \<Rightarrow> string \<Rightarrow> string list" where
  "all_options (a # b # rest) name =
     (if name = a then b # all_options (b # rest) name else all_options (b # rest) name)"
| "all_options _ name = []"

definition parsed_document :: "string \<Rightarrow> json option" where
  "parsed_document t = (case json_decode default_decode_options t of Some (Inr j) \<Rightarrow> Some j | _ \<Rightarrow> None)"

definition accepted :: "'a result option \<Rightarrow> 'a option" where
  "accepted r = (case r of Some (Inr x) \<Rightarrow> Some x | _ \<Rightarrow> None)"

definition zero_digest_text :: string where
  "zero_digest_text = replicate kSha256HexChars (CHR ''0'')"

definition sealed_envelope :: "json \<Rightarrow> json" where
  "sealed_envelope document =
     (if json_find document ''body'' \<noteq> None then document
      else json_sets [(''body'', document), (''digest'', JString zero_digest_text)] JNull)"

definition print_contract :: "contract \<Rightarrow> string" where
  "print_contract c = dump (contract_to_json c) @ newline"

definition command_seal :: "file_map \<Rightarrow> string \<Rightarrow> outcome" where
  "command_seal files path =
     (case files path of
        None \<Rightarrow> (2, [])
      | Some t \<Rightarrow>
          case parsed_document t of
            None \<Rightarrow> (1, [])
          | Some document \<Rightarrow>
              case contract_from_json (sealed_envelope document) of
                Inl c \<Rightarrow> (1, [])
              | Inr c0 \<Rightarrow>
                  let c = canonicalize c0
                  in if \<not> val_ok (validate_contract c) then (1, [])
                     else (0, print_contract c))"

definition line :: "string \<Rightarrow> string \<Rightarrow> string" where
  "line name content = name @ ''='' @ content @ newline"

definition validate_body_file :: "string \<Rightarrow> outcome" where
  "validate_body_file t =
     (case parsed_document t of
        None \<Rightarrow> (1, [])
      | Some document \<Rightarrow>
          let body = (case json_find document ''body'' of Some b \<Rightarrow> b | None \<Rightarrow> document)
          in case contract_from_json
                (json_sets [(''body'', body), (''digest'', JString zero_digest_text)] JNull) of
               Inl c \<Rightarrow> (1, [])
             | Inr c0 \<Rightarrow>
                 let c = canonicalize c0
                 in if \<not> val_ok (validate_contract c) then (1, [])
                    else (0, ''body valid'' @ newline @ line ''digest'' (hex_encode (con_digest c)) @
                             line ''contract'' (body_contract_id (con_body c))))"

definition validate_contract_file :: "string \<Rightarrow> outcome" where
  "validate_contract_file t =
     (case accepted (contract_from_text default_decode_options t) of
        None \<Rightarrow> (1, [])
      | Some c \<Rightarrow>
          if \<not> val_ok (validate_contract c) then (1, [])
          else (0, ''contract valid'' @ newline @
                   line ''workload'' (wl_id (body_workload (con_body c))) @
                   line ''contract'' (body_contract_id (con_body c)) @
                   line ''digest'' (hex_encode (con_digest c)) @
                   line ''generation'' (to_string_nat (unat (body_generation (con_body c)))) @
                   line ''scopes'' (to_string_nat (length (body_scopes (con_body c)))) @
                   line ''requirements'' (to_string_nat (length (body_requirements (con_body c))))))"

definition validate_policy_file :: "string \<Rightarrow> outcome" where
  "validate_policy_file t =
     (case accepted (policy_from_text t) of
        None \<Rightarrow> (1, [])
      | Some p \<Rightarrow>
          if \<not> val_ok (validate_policy p) then (1, [])
          else (0, ''policy valid'' @ newline @ line ''policy'' (pol_id p) @
                   line ''generation'' (to_string_nat (unat (pol_generation p))) @
                   line ''rules'' (to_string_nat (length (pol_rules p)))))"

definition validate_evidence_file :: "string \<Rightarrow> outcome" where
  "validate_evidence_file t =
     (case accepted (evidence_from_text t) of
        None \<Rightarrow> (1, [])
      | Some e \<Rightarrow>
          (0, ''evidence valid'' @ newline @ line ''evidence'' (es_evidence_id e) @
              line ''generation'' (to_string_nat (unat (es_generation e))) @
              line ''entries'' (to_string_nat (length (es_entries e)))))"

definition with_file :: "file_map \<Rightarrow> string \<Rightarrow> (string \<Rightarrow> outcome) \<Rightarrow> outcome" where
  "with_file files path f = (case files path of None \<Rightarrow> (2, []) | Some t \<Rightarrow> f t)"

definition command_validate :: "file_map \<Rightarrow> string list \<Rightarrow> outcome" where
  "command_validate files args =
     (case option_of args ''--body'' of
        Some path \<Rightarrow> with_file files path validate_body_file
      | None \<Rightarrow>
      case option_of args ''--contract'' of
        Some path \<Rightarrow> with_file files path validate_contract_file
      | None \<Rightarrow>
      case option_of args ''--policy'' of
        Some path \<Rightarrow> with_file files path validate_policy_file
      | None \<Rightarrow>
      case option_of args ''--evidence'' of
        Some path \<Rightarrow> with_file files path validate_evidence_file
      | None \<Rightarrow> usage)"

definition command_digest :: "file_map \<Rightarrow> string list \<Rightarrow> outcome" where
  "command_digest files args =
     (case option_of args ''--contract'' of
        None \<Rightarrow> usage
      | Some path \<Rightarrow> with_file files path (\<lambda>t.
          case accepted (contract_from_text default_decode_options t) of
            None \<Rightarrow> (1, [])
          | Some c \<Rightarrow>
              (0, line ''digest'' (hex_encode (con_digest c)) @
                  line ''canonical_bytes'' (to_string_nat (length (dump (contract_to_json c)))))))"

text \<open>A layer is a fragment of a body; what a body needs and a fragment lacks is supplied.\<close>

definition file_name :: "string \<Rightarrow> string" where
  "file_name path = rev (takeWhile (\<lambda>c. c \<noteq> CHR ''/'') (rev path))"

definition set_missing :: "string \<Rightarrow> json \<Rightarrow> json \<Rightarrow> json" where
  "set_missing name content j = (if json_find j name = None then json_set name content j else j)"

definition layer_workload :: "string \<Rightarrow> json" where
  "layer_workload path =
     json_sets
       [(''id'', JString (from_digest (sha256 (bytes_of (''layer:'' @ path))))),
        (''name'', JString (file_name path)), (''generation'', JInt 1)] JNull"

definition complete_layer :: "string \<Rightarrow> json \<Rightarrow> json" where
  "complete_layer path fragment =
     set_missing ''scopes'' (JArray [])
       (set_missing ''description'' (JString [])
       (set_missing ''version'' (json_sets [(''major'', JInt 1), (''minor'', JInt 0), (''patch'', JInt 0)] JNull)
       (set_missing ''policy_generation'' (JInt 1)
       (set_missing ''contract_generation'' (JInt 1)
       (set_missing ''contract_id'' (JString zero_digest_text)
       (set_missing ''workload'' (layer_workload path)
       (set_missing ''schema_version'' (JInt (int (unat kSchemaVersion))) fragment)))))))"

definition read_layer :: "file_map \<Rightarrow> string \<Rightarrow> nat + overlay_layer" where
  "read_layer files path =
     (case files path of
        None \<Rightarrow> Inl 2
      | Some t \<Rightarrow>
          case parsed_document t of
            None \<Rightarrow> Inl 1
          | Some document \<Rightarrow>
              if \<not> is_object document then Inl 1
              else
                let fragment = (case json_find document ''body'' of
                      Some b \<Rightarrow> (if is_object b then b else document) | None \<Rightarrow> document);
                    body = complete_layer path fragment
                in if json_find body ''requirements'' = None then Inl 1
                   else case contract_from_json (json_set ''body'' body JNull) of
                     Inl c \<Rightarrow> Inl 1
                   | Inr layer \<Rightarrow>
                       Inr \<lparr>layer_name = file_name path, layer_scopes = body_scopes (con_body layer),
                            layer_requirements = body_requirements (con_body layer)\<rparr>)"

fun read_layers :: "file_map \<Rightarrow> string list \<Rightarrow> nat + overlay_layer list" where
  "read_layers files [] = Inr []"
| "read_layers files (path # paths) =
     (case read_layer files path of
        Inl e \<Rightarrow> Inl e
      | Inr l \<Rightarrow> (case read_layers files paths of Inl e \<Rightarrow> Inl e | Inr ls \<Rightarrow> Inr (l # ls)))"

definition unsealed_contract :: "contract_body \<Rightarrow> contract" where
  "unsealed_contract body =
     \<lparr>con_body = body, con_digest = zero_digest, con_envelope = empty_envelope, con_supersedes = 0,
      con_supersedes_digest = zero_digest\<rparr>"

definition command_compose :: "file_map \<Rightarrow> string list \<Rightarrow> outcome" where
  "command_compose files args =
     (case option_of args ''--base'' of
        None \<Rightarrow> usage
      | Some path \<Rightarrow> with_file files path (\<lambda>t.
          case accepted (contract_from_text default_decode_options t) of
            None \<Rightarrow> (1, [])
          | Some base \<Rightarrow>
              case read_layers files (all_options args ''--layer'') of
                Inl e \<Rightarrow> (e, [])
              | Inr layers \<Rightarrow>
                  let composed = compose (con_body base) layers kMaxCompositionLayers
                  in if \<not> comp_ok composed then (1, [])
                     else (0, print_contract (unsealed_contract (comp_body composed)))))"

section \<open>The command line of wnc-coordinator\<close>

record coordinator_config =
  cfg_state :: string
  cfg_host :: string
  cfg_port :: u64
  cfg_max_age :: u64
  cfg_print_port :: bool
  cfg_status_file :: string
  cfg_verbose :: bool
  cfg_show_usage :: bool
  cfg_publishers :: "string list"
  cfg_public_keys :: "string list"

definition default_config :: coordinator_config where
  "default_config =
     \<lparr>cfg_state = [], cfg_host = ''127.0.0.1'', cfg_port = 0, cfg_max_age = 0, cfg_print_port = False,
      cfg_status_file = [], cfg_verbose = False, cfg_show_usage = False, cfg_publishers = [],
      cfg_public_keys = []\<rparr>"

text \<open>\<^verbatim>\<open>std::from_chars\<close> over the whole text: digits only, and no overflow of 64 bits.\<close>

definition argument_number :: "string \<Rightarrow> nat" where
  "argument_number t = fold (\<lambda>c n. n * 10 + (of_char c - 48)) t 0"

definition parse_u64 :: "string \<Rightarrow> u64 option" where
  "parse_u64 t =
     (if t = [] \<or> \<not> list_all (\<lambda>c. c \<in> set ''0123456789'') t \<or> argument_number t \<ge> 2 ^ 64 then None
      else Some (of_nat (argument_number t)))"

text \<open>An argument that starts with two dashes may carry its value after an equals sign.\<close>

definition split_argument :: "string \<Rightarrow> string \<times> string option" where
  "split_argument a =
     (if length a > 2 \<and> take 2 a = ''--'' \<and> CHR ''='' \<in> set a
      then (takeWhile (\<lambda>c. c \<noteq> CHR ''='') a, Some (tl (dropWhile (\<lambda>c. c \<noteq> CHR ''='') a)))
      else (a, None))"

definition take_value :: "string option \<Rightarrow> string list \<Rightarrow> (string \<times> string list) option" where
  "take_value inline rest =
     (case inline of
        Some v \<Rightarrow> Some (v, rest)
      | None \<Rightarrow> (case rest of [] \<Rightarrow> None | v # rest' \<Rightarrow> Some (v, rest')))"

definition flag_argument :: "string \<Rightarrow> coordinator_config \<Rightarrow> coordinator_config option" where
  "flag_argument name cfg =
     (if name = ''--print-port'' then Some (cfg\<lparr>cfg_print_port := True\<rparr>)
      else if name = ''--verbose'' \<or> name = ''-v'' then Some (cfg\<lparr>cfg_verbose := True\<rparr>)
      else if name = ''--help'' \<or> name = ''-h'' then Some (cfg\<lparr>cfg_show_usage := True\<rparr>)
      else None)"

definition value_argument :: "string \<Rightarrow> string \<Rightarrow> coordinator_config \<Rightarrow> coordinator_config option" where
  "value_argument name v cfg =
     (if name = ''--state'' then Some (cfg\<lparr>cfg_state := v\<rparr>)
      else if name = ''--host'' then Some (cfg\<lparr>cfg_host := v\<rparr>)
      else if name = ''--port'' then
        (case parse_u64 v of
           None \<Rightarrow> None
         | Some n \<Rightarrow> if n > 65535 then None else Some (cfg\<lparr>cfg_port := n\<rparr>))
      else if name = ''--publisher'' then Some (cfg\<lparr>cfg_publishers := cfg_publishers cfg @ [v]\<rparr>)
      else if name = ''--pubkey'' then Some (cfg\<lparr>cfg_public_keys := cfg_public_keys cfg @ [v]\<rparr>)
      else if name = ''--evidence-max-age-ms'' then
        map_option (\<lambda>n. cfg\<lparr>cfg_max_age := n\<rparr>) (parse_u64 v)
      else if name = ''--out'' then Some (cfg\<lparr>cfg_status_file := v\<rparr>)
      else None)"

lemma take_value_rest: "take_value inline rest = Some (v, rest') \<Longrightarrow> length rest' \<le> length rest"
  by (auto simp: take_value_def split: option.splits list.splits)

text \<open>The argument loop; \<^const>\<open>None\<close> is the exit with code 2.\<close>

function parse_arguments :: "string list \<Rightarrow> coordinator_config \<Rightarrow> coordinator_config option" where
  "parse_arguments [] cfg = Some cfg"
| "parse_arguments (a # rest) cfg =
     (case split_argument a of (name, inline) \<Rightarrow>
      case flag_argument name cfg of
        Some cfg' \<Rightarrow> parse_arguments rest cfg'
      | None \<Rightarrow>
          case take_value inline rest of
            None \<Rightarrow> None
          | Some (v, rest') \<Rightarrow>
              case value_argument name v cfg of
                None \<Rightarrow> None
              | Some cfg' \<Rightarrow> parse_arguments rest' cfg')"
  by pat_completeness auto
termination
  by (relation "measure (length \<circ> fst)") (auto dest: take_value_rest)

fun trust_of :: "(string \<times> string) list \<Rightarrow> trust_set \<Rightarrow> trust_set option" where
  "trust_of [] trust = Some trust"
| "trust_of ((publisher, key) # rest) trust =
     (case parse_id publisher of
        None \<Rightarrow> None
      | Some p \<Rightarrow>
          case hex_decode_digest key of
            None \<Rightarrow> None
          | Some k \<Rightarrow> trust_of rest (add_ed25519 p k trust))"

record launch =
  launch_host :: string
  launch_port :: u16
  launch_status_file :: string
  launch_options :: coordinator_options
  launch_runtime :: runtime_options

definition configure :: "(string \<Rightarrow> directory) \<Rightarrow> string list \<Rightarrow> nat + launch" where
  "configure directories args =
     (case parse_arguments args default_config of
        None \<Rightarrow> Inl 2
      | Some cfg \<Rightarrow>
          if cfg_show_usage cfg then Inl 0
          else if cfg_state cfg = [] then Inl 2
          else if length (cfg_publishers cfg) \<noteq> length (cfg_public_keys cfg) then Inl 2
          else case trust_of (zip (cfg_publishers cfg) (cfg_public_keys cfg)) [] of
            None \<Rightarrow> Inl 2
          | Some trust \<Rightarrow>
              Inr \<lparr>launch_host = cfg_host cfg, launch_port = ucast (cfg_port cfg),
                   launch_status_file = cfg_status_file cfg,
                   launch_options = \<lparr>copt_max_sessions = kMaxSessions, copt_idle_timeout_millis = 30000,
                     copt_evidence_max_age_millis = cfg_max_age cfg\<rparr>,
                   launch_runtime = \<lparr>opt_directory = Some (directories (cfg_state cfg)),
                     opt_trust = trust, opt_evidence_max_age_millis = cfg_max_age cfg\<rparr>\<rparr>)"

text \<open>Up to the service loop; the last argument says whether a status file can be opened.\<close>

definition coordinator_main ::
    "(string \<Rightarrow> directory) \<Rightarrow> string list \<Rightarrow> open_io \<Rightarrow> u64 \<Rightarrow> unit result \<Rightarrow> (string \<Rightarrow> bool) \<Rightarrow>
     nat + coordinator" where
  "coordinator_main directories args io now listening writable =
     (case configure directories args of
        Inl e \<Rightarrow> Inl e
      | Inr l \<Rightarrow>
          case fst (coordinator_start (launch_options l) (launch_runtime l) io now listening) of
            Inl c \<Rightarrow> Inl 3
          | Inr c \<Rightarrow>
              if launch_status_file l \<noteq> [] \<and> \<not> writable (launch_status_file l) then Inl 2 else Inr c)"

section \<open>What the tools promise\<close>

definition configured_issuer :: "issuer \<Rightarrow> bool" where
  "configured_issuer i \<longleftrightarrow>
     iss_algorithm i = AlgEd25519 \<and> length (iss_ed25519_public_key i) = 32 \<and> wf_id (iss_publisher i) \<and>
     iss_key_id i = issuer_key_id AlgEd25519 (iss_ed25519_public_key i)"

lemma add_ed25519_issuers:
  assumes "wf_id p" "length k = 32" "\<forall>i\<in>set trust. configured_issuer i"
  shows "\<forall>i\<in>set (add_ed25519 p k trust). configured_issuer i"
proof
  fix i assume "i \<in> set (add_ed25519 p k trust)"
  then have "i \<in> set trust \<or> i =
      \<lparr>iss_publisher = p, iss_algorithm = AlgEd25519, iss_key_id = issuer_key_id AlgEd25519 k,
       iss_ed25519_public_key = k, iss_hmac_key = []\<rparr>"
    using set_unique_by by (force simp: add_ed25519_def sort_records_def)
  with assms show "configured_issuer i" by (auto simp: configured_issuer_def)
qed

lemma trust_of_ok:
  assumes "trust_of ps trust = Some trust'" "trust_ok trust" "\<forall>i\<in>set trust. configured_issuer i"
  shows "trust_ok trust' \<and> (\<forall>i\<in>set trust'. configured_issuer i)"
  using assms
proof (induction ps trust rule: trust_of.induct)
  case (2 publisher key rest trust)
  then obtain p k where pk: "parse_id publisher = Some p" "hex_decode_digest key = Some k"
    by (auto split: option.splits)
  have "trust_ok (add_ed25519 p k trust)" by (simp add: add_ed25519_def trust_ok_sort_records)
  moreover have "\<forall>i\<in>set (add_ed25519 p k trust). configured_issuer i"
    using parse_id_wf [OF pk(1)] length_hex_decode_digest [OF pk(2)] 2(4)
    by (intro add_ed25519_issuers) (simp_all add: kSha256Bytes_def)
  ultimately show ?case using 2(1) [OF pk] 2(2) pk by simp
qed simp

lemma if_Some_elim: "(if b then x else y) = Some c \<Longrightarrow> (x = Some c \<Longrightarrow> P) \<Longrightarrow> (y = Some c \<Longrightarrow> P) \<Longrightarrow> P"
  by (cases b) simp_all

lemma flag_argument_port:
  assumes "flag_argument name cfg = Some c"
  shows "cfg_port c = cfg_port cfg"
  using assms unfolding flag_argument_def by (elim if_Some_elim) auto

lemma value_argument_cases:
  assumes "value_argument name v cfg = Some c"
  shows "cfg_port c = cfg_port cfg \<or> (\<exists>n. \<not> n > 65535 \<and> c = cfg\<lparr>cfg_port := n\<rparr>)"
proof -
  have 1: "\<exists>n. \<not> n > 65535 \<and> c = cfg\<lparr>cfg_port := n\<rparr>"
    if "(case parse_u64 v of None \<Rightarrow> None | Some n \<Rightarrow> if n > 65535 then None else Some (cfg\<lparr>cfg_port := n\<rparr>)) = Some c"
  proof (cases "parse_u64 v")
    case (Some n)
    with that show ?thesis by (cases "n > 65535") auto
  qed (use that in simp)
  have 2: "cfg_port c = cfg_port cfg" if "map_option (\<lambda>n. cfg\<lparr>cfg_max_age := n\<rparr>) (parse_u64 v) = Some c"
    using that by (cases "parse_u64 v") auto
  show ?thesis
    using assms unfolding value_argument_def
    by (elim if_Some_elim) (use 1 2 in \<open>(force | blast)+\<close>)
qed

lemma value_argument_port: "value_argument name v cfg = Some c \<Longrightarrow> cfg_port cfg \<le> 65535 \<Longrightarrow> cfg_port c \<le> 65535"
  using value_argument_cases [of name v cfg c] by (auto simp: not_less)

lemma parse_arguments_port:
  assumes "parse_arguments args cfg = Some cfg'" "cfg_port cfg \<le> 65535"
  shows "cfg_port cfg' \<le> 65535"
  using assms
proof (induction args cfg rule: parse_arguments.induct)
  case (2 a rest cfg)
  obtain name inline where s: "split_argument a = (name, inline)" by fastforce
  show ?case
  proof (cases "flag_argument name cfg")
    case (Some c)
    then have "parse_arguments rest c = Some cfg'" using 2(3) s by simp
    moreover have "cfg_port c \<le> 65535" using flag_argument_port [OF Some] 2(4) by simp
    ultimately show ?thesis using 2(2) [OF s [symmetric] Some] by simp
  next
    case None
    then obtain v rest' c where "take_value inline rest = Some (v, rest')" "value_argument name v cfg = Some c"
      "parse_arguments rest' c = Some cfg'"
      using 2(3) s by (auto split: option.splits)
    then show ?thesis using 2(1) [OF s [symmetric] None] value_argument_port [OF _ 2(4)] by (metis prod.collapse)
  qed
qed simp

text \<open>
  A configuration that is accepted is complete and consistent: the port is the one that was given,
  the trust set is ordered and holds only Ed25519 records with keys of 32 bytes, and every refusal
  of the command line is the exit code 2, before anything is opened; asking for help is the exit
  code 0.
\<close>

theorem configuration_checked:
  "case configure directories args of
     Inl e \<Rightarrow> e \<in> {0, 2} \<and> coordinator_main directories args io now listening writable = Inl e
   | Inr l \<Rightarrow>
       trust_ok (opt_trust (launch_runtime l)) \<and>
       list_all configured_issuer (opt_trust (launch_runtime l)) \<and>
       (\<exists>cfg. parse_arguments args default_config = Some cfg \<and> unat (launch_port l) = unat (cfg_port cfg) \<and>
          cfg_state cfg \<noteq> [] \<and> opt_directory (launch_runtime l) = Some (directories (cfg_state cfg)))"
proof (cases "configure directories args")
  case (Inl e)
  then show ?thesis
    by (auto simp: configure_def coordinator_main_def split: option.splits if_splits)
next
  case (Inr l)
  then obtain cfg trust where c: "parse_arguments args default_config = Some cfg" "cfg_state cfg \<noteq> []"
    "trust_of (zip (cfg_publishers cfg) (cfg_public_keys cfg)) [] = Some trust"
    "opt_trust (launch_runtime l) = trust" "launch_port l = ucast (cfg_port cfg)"
    "opt_directory (launch_runtime l) = Some (directories (cfg_state cfg))"
    by (auto simp: configure_def split: option.splits if_splits)
  have "cfg_port cfg \<le> 65535" using parse_arguments_port [OF c(1)] by (simp add: default_config_def)
  then have "unat (cfg_port cfg) < 2 ^ 16" by (simp add: word_le_nat_alt)
  then have "unat (launch_port l) = unat (cfg_port cfg)"
    by (simp add: c(5) unsigned_ucast_eq take_bit_nat_eq_self)
  with Inr c show ?thesis using trust_of_ok [OF c(3)] by (auto simp: trust_ok_def list_all_iff)
qed

text \<open>
  C36: what \<^verbatim>\<open>wncctl seal\<close> prints is a finished contract. When the command succeeds, the
  printed document is the serialization of a contract that is valid, whose digest and contract
  identity are those of its content, and that a second canonicalization leaves alone; when it
  fails, nothing is printed and the exit code says whether the file or its content was at fault.
\<close>

theorem seal_prints_finished_contract:
  "case command_seal files path of (code, out) \<Rightarrow>
     if code = 0 then
       \<exists>c t. files path = Some t \<and> out = dump (contract_to_json c) @ newline \<and> val_ok (validate_contract c) \<and>
         canonicalize c = c \<and> con_digest c = body_digest (con_body c) \<and>
         body_contract_id (con_body c) = derive_contract_id (wl_id (body_workload (con_body c))) (con_digest c)
     else out = [] \<and> (code = 2 \<longleftrightarrow> files path = None) \<and> code \<in> {1, 2}"
proof -
  have fixed: "canonicalize (canonicalize c0) = canonicalize c0 \<and>
      con_digest (canonicalize c0) = body_digest (con_body (canonicalize c0)) \<and>
      body_contract_id (con_body (canonicalize c0)) =
        derive_contract_id (wl_id (body_workload (con_body (canonicalize c0)))) (con_digest (canonicalize c0))" for c0
    using canonicalize_idempotent_consistent [of c0] canonicalize_idempotent_consistent [of "canonicalize c0"] by simp
  show ?thesis
    using fixed
    by (auto simp: command_seal_def print_contract_def Let_def split: option.splits sum.splits)
qed

lemma read_layers_code: "read_layers files paths = Inl e \<Longrightarrow> e \<in> {1, 2}"
  by (induction paths arbitrary: e) (auto simp: read_layer_def Let_def split: sum.splits option.splits if_splits)

text \<open>
  What \<^verbatim>\<open>wncctl compose\<close> prints keeps every requirement of the base and of the layers, at least
  as strong.
\<close>

theorem compose_command_upholds:
  assumes "command_compose files args = (0, out)"
  shows "\<exists>path t base layers body. option_of args ''--base'' = Some path \<and> files path = Some t \<and>
    accepted (contract_from_text default_decode_options t) = Some base \<and>
    read_layers files (all_options args ''--layer'') = Inr layers \<and>
    out = print_contract (unsealed_contract body) \<and>
    (\<forall>r\<in>declared_requirements (con_body base) layers. \<exists>a\<in>set (body_requirements body). upholds a r)"
proof -
  obtain path t base layers where
    c: "option_of args ''--base'' = Some path" "files path = Some t"
    "accepted (contract_from_text default_decode_options t) = Some base"
    "read_layers files (all_options args ''--layer'') = Inr layers"
    "comp_ok (compose (con_body base) layers kMaxCompositionLayers)"
    "out = print_contract (unsealed_contract (comp_body (compose (con_body base) layers kMaxCompositionLayers)))"
    using assms
    by (auto simp: command_compose_def with_file_def usage_def Let_def
        split: option.splits sum.splits if_splits dest!: read_layers_code)
  let ?body = "comp_body (compose (con_body base) layers kMaxCompositionLayers)"
  have "\<forall>r\<in>declared_requirements (con_body base) layers. \<exists>a\<in>set (body_requirements ?body). upholds a r"
    using compose_upholds [OF c(5) refl] by simp
  with c show ?thesis by - (rule exI [of _ path], rule exI [of _ t], rule exI [of _ base], rule exI [of _ layers],
    rule exI [of _ ?body], simp)
qed

end
