(* ===== verification/Spec2Isabelle.thy ===== *)
theory Spec2Isabelle
  imports Wnc_Prelude Wnc_Identity Wnc_Error Wnc_Hash Wnc_Json Wnc_Signature Wnc_Contract Wnc_Decode Wnc_Validation
    Wnc_Composition Wnc_Policy Wnc_Evidence Wnc_Evaluation Wnc_Frame Wnc_Ledger
    Wnc_Journal Wnc_Durability Wnc_Runtime Wnc_Authority Wnc_Recovery Wnc_Wire Wnc_Coordinator Wnc_Service
    Wnc_Sha512 Wnc_Field Wnc_Scalar Wnc_Point Wnc_Ed25519 Wnc_Tools
begin

text \<open>
  A verification development for the Workload Network Contract runtime (\<^verbatim>\<open>wnc\<close>), a C++ library
  and two command line tools under \<^verbatim>\<open>src/\<close> of the repository. A contract states what the network
  must provide to a workload; the coordinator accepts signed contracts, keeps their history in an
  append-only journal, attaches evidence about the network and decides whether a contract is
  satisfied. File names below are relative to \<^verbatim>\<open>src/\<close>.

  \<^bold>\<open>The parts and how they interact.\<close> Requests arrive as frames on a socket
  (\<^verbatim>\<open>src/wire.cpp\<close>); the coordinator (\<^verbatim>\<open>src/coordinator.cpp\<close>) decodes their JSON bodies
  (\<^verbatim>\<open>src/json.cpp\<close>) and calls the runtime (\<^verbatim>\<open>src/runtime.cpp\<close>). The runtime decodes and
  validates contracts (\<^verbatim>\<open>src/contract.cpp\<close>), checks them against the installed policy and the
  previous generation (\<^verbatim>\<open>src/policy.cpp\<close>) and against the trust set (\<^verbatim>\<open>src/signature.cpp\<close>,
  \<^verbatim>\<open>src/ed25519.cpp\<close>), validates and evaluates evidence (\<^verbatim>\<open>src/evaluation.cpp\<close>), and writes one
  record to the journal (\<^verbatim>\<open>src/ledger.cpp\<close> over the files of \<^verbatim>\<open>src/state.cpp\<close>) before it changes
  its state in memory and before a reply is queued. On boot it replays the journal. Digests come
  from \<^verbatim>\<open>src/hash.cpp\<close> and \<^verbatim>\<open>src/hash512.cpp\<close>, identities from \<^verbatim>\<open>src/identity.cpp\<close>, reason
  codes from \<^verbatim>\<open>src/codec.cpp\<close>. The tools \<^verbatim>\<open>tools/coordinator_main.cpp\<close> and
  \<^verbatim>\<open>tools/wncctl_main.cpp\<close> are thin shells over the library.

  \<^bold>\<open>Theories.\<close>
  \<^item> \<^verbatim>\<open>Wnc_Prelude\<close>: machine types, byte strings, doubles, \<^verbatim>\<open>std::map\<close> as an ascending
    association list (locale \<^verbatim>\<open>keyed_store\<close>), \<^verbatim>\<open>std::sort\<close> with a comparator (locale
    \<^verbatim>\<open>comparator\<close>), decimal rendering.
  \<^item> \<^verbatim>\<open>Wnc_Identity\<close>, \<^verbatim>\<open>Wnc_Error\<close>: identities, generations and codecs (\<^verbatim>\<open>identity.cpp\<close>,
    \<^verbatim>\<open>identity.hpp\<close>, \<^verbatim>\<open>identity.inl\<close>); reason codes and the bounded diagnostic log
    (\<^verbatim>\<open>error.hpp\<close>, \<^verbatim>\<open>codec.cpp\<close>).
  \<^item> \<^verbatim>\<open>Wnc_Hash\<close>, \<^verbatim>\<open>Wnc_Sha512\<close>: the streaming hashers with their buffers, HMAC and CRC-32. The
    buffering argument is made once, in the locale \<^verbatim>\<open>block_hash\<close>, and interpreted for both
    compression functions.
  \<^item> \<^verbatim>\<open>Wnc_Json\<close>: values, serializer, canonical reals, parser, field readers.
  \<^item> \<^verbatim>\<open>Wnc_Signature\<close>: trust set, claims, \<^verbatim>\<open>verify_signature\<close>. \<^verbatim>\<open>Wnc_Field\<close>, \<^verbatim>\<open>Wnc_Scalar\<close>,
    \<^verbatim>\<open>Wnc_Point\<close> and \<^verbatim>\<open>Wnc_Ed25519\<close>: the four parts of \<^verbatim>\<open>ed25519.cpp\<close>, limbs at their width,
    scalars, points, keys and signatures.
  \<^item> \<^verbatim>\<open>Wnc_Contract\<close>, \<^verbatim>\<open>Wnc_Decode\<close>, \<^verbatim>\<open>Wnc_Validation\<close>: the data model and canonical form, the
    decoder and the validator of \<^verbatim>\<open>contract.cpp\<close>. \<^verbatim>\<open>Wnc_Composition\<close>, \<^verbatim>\<open>Wnc_Policy\<close>,
    \<^verbatim>\<open>Wnc_Evidence\<close> and \<^verbatim>\<open>Wnc_Evaluation\<close>: \<^verbatim>\<open>composition.cpp\<close>, \<^verbatim>\<open>policy.cpp\<close> and the two
    halves of \<^verbatim>\<open>evaluation.cpp\<close>.
  \<^item> \<^verbatim>\<open>Wnc_Frame\<close> and \<^verbatim>\<open>Wnc_Ledger\<close>: frames and the class \<^verbatim>\<open>Ledger\<close> of \<^verbatim>\<open>ledger.cpp\<close>, over a
    directory that maps file names to bytes. \<^verbatim>\<open>Wnc_Journal\<close> holds the lemmas on what a directory
    stores and the interface \<^verbatim>\<open>journal\<close> of an append-only log, interpreted on the ledger;
    \<^verbatim>\<open>Wnc_Durability\<close> the properties of the ledger.
  \<^item> \<^verbatim>\<open>Wnc_Runtime\<close>: \<^verbatim>\<open>runtime.cpp\<close>, one definition per operation. \<^verbatim>\<open>Wnc_Authority\<close> sees the five
    operations that write uniformly and defines their runs (\<^verbatim>\<open>runtime_run\<close>, inductive);
    \<^verbatim>\<open>Wnc_Recovery\<close> relates a run to the replay of its journal.
  \<^item> \<^verbatim>\<open>Wnc_Wire\<close>, \<^verbatim>\<open>Wnc_Coordinator\<close>, \<^verbatim>\<open>Wnc_Service\<close>: frames on a socket, sessions with every
    handler, and the runs of the service (\<^verbatim>\<open>coordinator_run\<close>, inductive).
  \<^item> \<^verbatim>\<open>Wnc_Tools\<close>: the command line of the coordinator and the offline commands of \<^verbatim>\<open>wncctl\<close>.
  \<^item> This theory: composition and evaluation together.

  \<^bold>\<open>How code became definitions.\<close> A class or struct is a record, an enumeration a datatype, an
  integer of w bits a word of w bits, a \<^verbatim>\<open>std::string\<close> a string or a list of bytes. An operation
  takes the state and returns the new one. A refusal is \<^verbatim>\<open>Inl\<close> of its reason code; only the code
  is modelled, not the text of the message. A \<^verbatim>\<open>double\<close> is its exact value, a rational, or an
  infinity or NaN; reading, printing and conversion from integers round as IEEE 754 binary64. What the program does not determine is an argument:
  the clocks, the random source, the outcome of every write, append, truncation and replacement of a
  file (it may fail, and a write may stop half way; reads, directory listings and the removal of files
  do not fail in the model), the bytes and failures of every socket call, and signature verification for the runtime and
  the coordinator, so that their properties hold for any verifier; \<^verbatim>\<open>ed25519_verify_strict\<close> of
  \<^verbatim>\<open>Wnc_Ed25519\<close> is the one the program passes. The mutex of the runtime appears as the order
  of the calls. A hash is the modelled function, never an injective oracle: no property assumes that
  digests do not collide unless it says so.

  \<^bold>\<open>What the lemmas show.\<close>
  \<^item> Durability, for runs that start on a directory without a journal and in which no append that fails
    leaves part of a frame behind (the two theorems named last below say what happens after a restart
    and after a partial write): a request that was acknowledged has its record in the journal; a reply that reports
    success is queued only after that; after a restart, also after a crash inside an append, the
    replay rebuilds the state; a refused request changes nothing; a request that was acknowledged is
    refused when it comes again, at once or later;
    the history of every workload is one chain of compatible generations.
  \<^item> The service: bounded buffers and sessions in every state that can be reached, from
    any directory and whatever the disk does, one reply to each request,
    pipelined requests in order, framing errors close the session, reading from a socket agrees
    with decoding from memory however the network cuts the bytes.
  \<^item> Decisions: the validator accepts exactly a declarative specification; the decision on a
    requirement is a table of what is known and what is met; composition keeps every declared
    requirement, and satisfaction of the composed contract covers that of the layers; the check
    against a policy and the compatibility verdict are characterised.
  \<^item> Encodings: JSON, contracts, hexadecimal, frames and curve points round trip; canonical form does
    not depend on the order of the parts.
  \<^item> Cryptography: both streaming hashers compute the padded blockwise digest; limb arithmetic
    returns the canonical residue; the point formulas follow the
    addition law of the curve; an accepted signature has a canonical scalar and a decodable key;
    the strict verifier refuses keys of small order.
  \<^item> Where the code does not do what it means to, the theorem states what it does
    (\<^verbatim>\<open>attached_evidence_replay\<close>, \<^verbatim>\<open>policy_check_hides_violation\<close>,
    \<^verbatim>\<open>canonical_real_drops_sign\<close>, \<^verbatim>\<open>compose_strength_lowers_bound\<close>,
    \<^verbatim>\<open>compatibility_allows_removal\<close>, \<^verbatim>\<open>restart_breaks_chain\<close>, \<^verbatim>\<open>partial_append_corrupts\<close>).

  \<^bold>\<open>Bounds and fuel.\<close> The bounds of \<^verbatim>\<open>config.hpp\<close> keep their names and values. The JSON parser
  takes the fuel \<^verbatim>\<open>2 * length s + 1\<close>: every call consumes a character or is followed by one that
  does, and \<^verbatim>\<open>json_decode_total\<close> proves that decoding always returns. The loops over a segment,
  over the blocks of a message, over the arguments of a command line and over buffered frames have
  termination proofs, as each step consumes input; the parent walk of the validator is bounded by the
  number of scopes, as in the code. The readers of a socket return nothing only when the list of
  arrivals ends, that is, when the peer stays silent; \<^verbatim>\<open>read_exact\<close> fills its buffer at each step
  and the pump consumes bytes of its input.

  \<^bold>\<open>Not modelled.\<close> Message texts and \<^verbatim>\<open>render\<close>; the Windows branches of \<^verbatim>\<open>state.cpp\<close> and
  \<^verbatim>\<open>wire.cpp\<close>; the directory lock and the path containment check, which ask the operating system;
  opening, binding and polling of sockets; the machine identity of \<^verbatim>\<open>identity.cpp\<close> (an
  environment query) and the hash for unordered containers; copy, move and destruction of values;
  the commands \<^verbatim>\<open>explain\<close>, \<^verbatim>\<open>diff\<close>, \<^verbatim>\<open>status\<close> and \<^verbatim>\<open>evaluate\<close> of \<^verbatim>\<open>wncctl\<close>, signals and
  threads; tests and build files. That an honest Ed25519 signature verifies needs the associativity of the
  group law and the primality of the moduli, which are not proved here.
\<close>

section \<open>Composition and evaluation\<close>

lemma dbl_le_meets:
  assumes "dominates (req_kind a) a b" "req_kind a = req_kind b" "req_strength a = Required" "req_strength b = Required" "number_meets a x"
  shows "number_meets b x"
  using assms by (auto simp: dominates_def number_meets_def split: if_splits intro: dbl_le_trans)

lemma upholds_meets:
  assumes "upholds a r" "req_strength r = Required" "req_kind r \<noteq> Collective"
    "req_has_numeric r = kind_is_numeric (req_kind r)"
  shows "req_strength a = Required" "req_scope a = req_scope r"
    "known a c \<Longrightarrow> known r c" "meets a c \<Longrightarrow> meets r c"
proof -
  show str: "req_strength a = Required"
    using assms(1,2) by (cases "req_strength a") (auto simp: upholds_def)
  have key: "req_scope a = req_scope r" "req_kind a = req_kind r" "req_key a = req_key r"
    using assms(1) by (simp_all add: upholds_def composite_key_def)
  show "req_scope a = req_scope r" by (fact key)
  show "known a c \<Longrightarrow> known r c" using assms(3) key by (cases "req_kind r") (simp_all add: known_def)
  assume m: "meets a c"
  show "meets r c"
  proof (cases "kind_is_numeric (req_kind r)")
    case True
    then obtain x where x: "number_of (req_kind r) c = Some x" "number_meets a x"
      using m key by (auto simp: meets_def split: option.splits)
    have "req_target a = req_target r \<and> req_minimum a = req_minimum r \<or> dominates (req_kind a) a r"
      using assms True str by (auto simp: upholds_def)
    then have "number_meets r x"
    proof
      assume "req_target a = req_target r \<and> req_minimum a = req_minimum r"
      then show ?thesis using x(2) key(2) str assms(2) by (auto simp: number_meets_def split: if_splits)
    next
      assume "dominates (req_kind a) a r"
      then show ?thesis using dbl_le_meets [OF _ key(2) str assms(2) x(2)] by simp
    qed
    then show ?thesis using True x by (simp add: meets_def)
  next
    case False
    then have "req_value a = req_value r" "req_preferred_value a = req_preferred_value r"
      using assms str by (auto simp: upholds_def)
    then show ?thesis using m key False str assms(2,3) by (cases "req_kind r") (auto simp: meets_def)
  qed
qed


lemma composed_satisfaction:
  assumes comp: "comp_ok (compose base layers n)" "con_body c = comp_body (compose base layers n)"
    and agg: "ce_aggregate (evaluate_contract c es current now age) = Satisfied"
    and r: "r \<in> declared_requirements base layers" "req_strength r = Required" "req_kind r \<noteq> Collective"
      "req_has_numeric r = kind_is_numeric (req_kind r)"
  shows "rd_satisfaction (decide_requirement r (evidence_find es (req_scope r)) current now age) = Satisfied"
proof -
  obtain a where a: "a \<in> set (body_requirements (con_body c))" "upholds a r"
    using compose_upholds [OF comp] r(1) by auto
  note up = upholds_meets [OF a(2) r(2-4)]
  have all: "established es current b \<and> holds_under es b"
    if "b \<in> set (body_requirements (con_body c))" "req_strength b = Required" for b
    using agg that unfolding evaluate_aggregate by (auto simp: Let_def split: if_splits)
  show ?thesis
    using all [OF a(1) up(1)] up r(2) unfolding decide_requirement_is_table decided_Satisfied established_def holds_under_def
    by auto
qed

definition ample_evidence :: evidence_set where
  "ample_evidence = sample_evidence\<lparr>es_entries :=
     map (\<lambda>s. (sample_entry s)\<lparr>ev_freshness := Current, ev_candidate :=
       empty_candidate\<lparr>min_bandwidth := Some (Finite 400), max_latency := Some (Finite 2)\<rparr>\<rparr>)
       [''site'', ''pod'']\<rparr>"


lemma sample_requirement_holds:
  assumes "(s, k, v) = (''site'', MinBandwidth, 200) \<or> (s, k, v) = (''pod'', MaxLatency, 5)"
  shows "established ample_evidence sample_incarnation (canonical_requirement (sample_requirement s k v)) \<and>
    holds_under ample_evidence (canonical_requirement (sample_requirement s k v))"
  using assms by (auto simp: established_def holds_under_def evidence_find_def ample_evidence_def
    canonical_requirement_def Let_def sample_requirement_def usable_def sample_entry_def known_def meets_def
    number_meets_def kind_is_numeric_def kind_is_floor_def kKindTable_def)

lemma sample_aggregate:
  "ce_aggregate (evaluate_contract (sample_contract\<lparr>con_body := comp_body (compose sample_body [sample_layer]
     kMaxCompositionLayers)\<rparr>) ample_evidence sample_incarnation 2000 0) = Satisfied"
proof -
  let ?c = "sample_contract\<lparr>con_body := comp_body (compose sample_body [sample_layer] kMaxCompositionLayers)\<rparr>"
  have rs: "set (body_requirements (con_body ?c)) = {canonical_requirement (sample_requirement ''site'' MinBandwidth 200),
      canonical_requirement (sample_requirement ''pod'' MaxLatency 5)}"
    by (simp add: sample_composes composed_requirements)
  have "req_strength (canonical_requirement (sample_requirement s k v)) = Required" for s k v
    by (simp add: canonical_requirement_def Let_def)
  then have "filter (\<lambda>r. req_strength r = Required) (body_requirements (con_body ?c)) = body_requirements (con_body ?c)"
    using rs by (auto intro!: filter_True)
  moreover have "body_requirements (con_body ?c) \<noteq> []" using rs by (metis insert_not_empty list.set(1))
  ultimately show ?thesis
    unfolding evaluate_aggregate using sample_requirement_holds rs by (simp add: Let_def)
qed

text \<open>
  C14: a verdict on a composed contract covers its layers. When a contract whose body was composed
  from a base and overlays is evaluated as satisfied, then every required requirement that the base
  or any overlay declared is satisfied by the same evidence, taken alone, with two exceptions:
  collective requirements, since composition does not compare their members, and requirements that
  carry a numeric band although their kind is textual, or lack one although it is numeric. The
  validator refuses such requirements, but composition does not check for them, and where there is
  a band it does not compare the texts.
\<close>

theorem composed_satisfaction_covers_layers:
  assumes "comp_ok (compose base layers n)" "con_body c = comp_body (compose base layers n)"
    and "ce_aggregate (evaluate_contract c es current now age) = Satisfied"
    and "r \<in> declared_requirements base layers" "req_strength r = Required" "req_kind r \<noteq> Collective"
      "req_has_numeric r = kind_is_numeric (req_kind r)"
  shows "rd_satisfaction (decide_requirement r (evidence_find es (req_scope r)) current now age) = Satisfied"
  using assms by (rule composed_satisfaction)

theorem composed_satisfaction_covers_layers_witness:
  "rd_satisfaction (decide_requirement (sample_requirement ''site'' MinBandwidth 100)
     (evidence_find ample_evidence ''site'') sample_incarnation 2000 0) = Satisfied"
proof -
  have "req_scope (sample_requirement ''site'' MinBandwidth 100) = ''site''" by (simp add: sample_requirement_def)
  moreover have "sample_requirement ''site'' MinBandwidth 100 \<in> declared_requirements sample_body [sample_layer]"
    by (simp add: declared_requirements_def sample_body_def)
  ultimately show ?thesis
    using composed_satisfaction_covers_layers [OF _ _ sample_aggregate, of sample_body "[sample_layer]"
      kMaxCompositionLayers "sample_requirement ''site'' MinBandwidth 100"]
    by (simp add: sample_composes kind_is_numeric_def kKindTable_def)
qed

end
